(* ===== verification/Kernel_Prelude.thy ===== *)
theory Kernel_Prelude
  imports Main "HOL-Library.Word"
begin

unbundle bit_operations_syntax

text \<open>
  Prelude of the Liam_OS development: the fixed-width integer types of
  \<^verbatim>\<open>core/types.h\<close> and \<^verbatim>\<open>arch/x86_64/types.h\<close>, the masking and alignment
  arithmetic that every memory component shares, and the facts about index loops
  (a \<^verbatim>\<open>for\<close> loop with an early return is \<open>find\<close> over \<open>[0..<n]\<close>, one that
  updates state is \<open>fold\<close> over it).

  The collection \<open>u32_nat\<close> moves a goal on machine words to natural numbers:
  comparisons through \<open>unat\<close>, sums and differences with their wrap-around.
\<close>

section \<open>Machine integers\<close>

type_synonym u8 = "8 word"
type_synonym u16 = "16 word"
type_synonym u32 = "32 word"
type_synonym u64 = "64 word"

named_theorems u32_nat "facts that turn word goals into goals on natural numbers"

declare word_le_nat_alt [u32_nat] word_less_nat_alt [u32_nat]
  unat_plus_if' [u32_nat] unat_sub_if' [u32_nat] word_unat_eq_iff [u32_nat]

lemma unat_less_exp: "unat (x :: 'a::len word) < 2 ^ LENGTH('a)"
  by (rule unsigned_less)

lemma unat_u32_bound: "unat (x :: u32) < 4294967296"
  using unat_less_exp [of x] by simp

lemma unat_u64_bound: "unat (x :: u64) < 18446744073709551616"
  using unat_less_exp [of x] by simp

lemma unat_ucast_u32_u64 [simp]: "unat (ucast (x :: u32) :: u64) = unat x"
  using unat_u32_bound [of x] by (simp add: unsigned_ucast_eq take_bit_nat_eq_self)

lemma unat_pred: "x \<noteq> 0 \<Longrightarrow> unat x = Suc (unat (x - 1 :: 'a::len word))"
proof -
  assume "x \<noteq> 0"
  then have "0 < unat x" by (simp add: unat_gt_0)
  then show ?thesis by (subst unat_sub) (simp_all add: word_le_nat_alt Suc_le_eq)
qed

section \<open>Masks and alignment\<close>

lemma unat_exp: "k < LENGTH('a) \<Longrightarrow> unat (2 ^ k :: 'a::len word) = 2 ^ k"
proof -
  assume k: "k < LENGTH('a)"
  have "unat (of_nat (2 ^ k) :: 'a word) = 2 ^ k"
    using k by (subst unat_of_nat) (simp add: take_bit_nat_eq_self)
  then show ?thesis by simp
qed

lemma and_not_exp_minus_1: "(x :: 'a::len word) AND NOT (2 ^ k - 1) = push_bit k (drop_bit k x)"
  by (rule bit_word_eqI) (auto simp: bit_simps simp flip: mask_eq_exp_minus_1)

lemma unat_and_not_low:
  fixes x :: "'a::len word"
  assumes "k < LENGTH('a)"
  shows "unat (x AND NOT (2 ^ k - 1)) = unat x div 2 ^ k * 2 ^ k"
proof -
  have "unat x div 2 ^ k * 2 ^ k \<le> unat x" by simp
  then have "unat x div 2 ^ k * 2 ^ k < 2 ^ LENGTH('a)"
    using unat_less_exp [of x] by (rule le_less_trans)
  moreover have "unat (2 ^ k :: 'a word) = 2 ^ k" using assms by (rule unat_exp)
  ultimately show ?thesis
    by (simp add: and_not_exp_minus_1 push_bit_eq_mult unat_word_ariths(2)
        drop_bit_eq_div unat_div_distrib)
qed

lemma unat_and_low:
  fixes x :: "'a::len word"
  assumes "k < LENGTH('a)"
  shows "unat (x AND (2 ^ k - 1)) = unat x mod 2 ^ k"
proof -
  have "x AND (2 ^ k - 1) = take_bit k x"
    by (simp add: take_bit_eq_mask mask_eq_exp_minus_1)
  also have "unat \<dots> = take_bit k (unat x)"
    using assms by (simp add: unsigned_take_bit_eq)
  finally show ?thesis by (simp only: take_bit_eq_mod)
qed

text \<open>
  The alignment helpers are \<^verbatim>\<open>static\<close> functions repeated in several files with the
  same body; one polymorphic definition serves them all.
\<close>

definition align_up :: "'a::len word \<Rightarrow> 'a word \<Rightarrow> 'a word" where
  "align_up value alignment = (value + alignment - 1) AND NOT (alignment - 1)"

lemma unat_align_up:
  fixes x :: "'a::len word"
  assumes k: "k < LENGTH('a)" and nowrap: "unat x + 2 ^ k \<le> 2 ^ LENGTH('a)"
  shows "unat (align_up x (2 ^ k)) = (unat x + (2 ^ k - 1)) div 2 ^ k * 2 ^ k"
proof -
  have p: "unat (2 ^ k :: 'a word) = 2 ^ k" using k by (rule unat_exp)
  have one: "unat (2 ^ k - 1 :: 'a word) = 2 ^ k - 1"
    by (subst unat_sub) (simp_all add: word_le_nat_alt p)
  have "unat x + (2 ^ k - 1) < 2 ^ LENGTH('a)"
    using nowrap zero_less_power [of "2 :: nat" k] by linarith
  then have "unat (x + (2 ^ k - 1)) = unat x + (2 ^ k - 1)"
    by (simp add: unat_word_ariths(1) one)
  then show ?thesis
    by (simp add: align_up_def unat_and_not_low [OF k] add_diff_eq)
qed

section \<open>Loops that count\<close>

text \<open>A loop whose step keeps \<open>Q\<close> and adds \<open>k i\<close> to a counter adds the sum of all \<open>k i\<close>.\<close>

lemma fold_counter:
  fixes c :: "'s \<Rightarrow> 'a::len word"
  assumes "\<And>i t. i \<in> set xs \<Longrightarrow> Q t \<Longrightarrow> Q (f i t) \<and> c (f i t) = c t + of_nat (k i)" and "Q s"
  shows "Q (fold f xs s) \<and> c (fold f xs s) = c s + of_nat (\<Sum>i\<leftarrow>xs. k i)"
  using assms
proof (induction xs arbitrary: s)
  case (Cons x xs)
  have x: "Q (f x s)" "c (f x s) = c s + of_nat (k x)" using Cons.prems by auto
  have "Q (fold f xs (f x s)) \<and> c (fold f xs (f x s)) = c (f x s) + of_nat (\<Sum>i\<leftarrow>xs. k i)"
    using Cons.prems(1) x(1) by (intro Cons.IH) auto
  with x(2) show ?case by (simp add: add.assoc)
qed simp

lemma sum_list_upt_card:
  "(\<Sum>i\<leftarrow>[0..<n]. card (A i)) = card (SIGMA i:{0..<n}. A i)" if "\<And>i. finite (A i)"
  using that by (simp add: interv_sum_list_conv_sum_set_nat)

end
