(* ===== verification/Kernel_Status.thy ===== *)
theory Kernel_Status
  imports Kernel_Prelude
begin

text \<open>
  \<^verbatim>\<open>core/status.h\<close> and \<^verbatim>\<open>core/status.c\<close>: the kernel status codes. \<^verbatim>\<open>kernel_status_t\<close>
  is a C \<^verbatim>\<open>int\<close>, so a status is an \<open>int\<close> and each \<^verbatim>\<open>#define\<close> an abbreviation for
  its value; \<open>status_word\<close> is the cast \<^verbatim>\<open>(uint32_t)status\<close> the system calls return.
\<close>

type_synonym kernel_status = int

abbreviation KERNEL_OK :: kernel_status where "KERNEL_OK \<equiv> 0"
abbreviation KERNEL_ERROR_UNKNOWN :: kernel_status where "KERNEL_ERROR_UNKNOWN \<equiv> -1"
abbreviation KERNEL_ERROR_INVALID_ARGUMENT :: kernel_status
  where "KERNEL_ERROR_INVALID_ARGUMENT \<equiv> -2"
abbreviation KERNEL_ERROR_NOT_FOUND :: kernel_status where "KERNEL_ERROR_NOT_FOUND \<equiv> -3"
abbreviation KERNEL_ERROR_OUT_OF_MEMORY :: kernel_status where "KERNEL_ERROR_OUT_OF_MEMORY \<equiv> -4"
abbreviation KERNEL_ERROR_ALREADY_EXISTS :: kernel_status
  where "KERNEL_ERROR_ALREADY_EXISTS \<equiv> -5"
abbreviation KERNEL_ERROR_NOT_INITIALIZED :: kernel_status
  where "KERNEL_ERROR_NOT_INITIALIZED \<equiv> -6"
abbreviation KERNEL_ERROR_BUSY :: kernel_status where "KERNEL_ERROR_BUSY \<equiv> -7"
abbreviation KERNEL_ERROR_PERMISSION_DENIED :: kernel_status
  where "KERNEL_ERROR_PERMISSION_DENIED \<equiv> -8"
abbreviation KERNEL_ERROR_UNSUPPORTED :: kernel_status where "KERNEL_ERROR_UNSUPPORTED \<equiv> -9"
abbreviation KERNEL_ERROR_INVALID_STATE :: kernel_status where "KERNEL_ERROR_INVALID_STATE \<equiv> -10"
abbreviation KERNEL_ERROR_CORRUPTION_DETECTED :: kernel_status
  where "KERNEL_ERROR_CORRUPTION_DETECTED \<equiv> -11"
abbreviation KERNEL_ERROR_TIMEOUT :: kernel_status where "KERNEL_ERROR_TIMEOUT \<equiv> -12"

definition kernel_status_is_success :: "kernel_status \<Rightarrow> bool" where
  "kernel_status_is_success status \<longleftrightarrow> status = KERNEL_OK"

definition kernel_status_is_error :: "kernel_status \<Rightarrow> bool" where
  "kernel_status_is_error status \<longleftrightarrow> status < KERNEL_OK"

definition kernel_status_to_string :: "kernel_status \<Rightarrow> string" where
  "kernel_status_to_string status =
     (if status = KERNEL_OK then ''ok''
      else if status = KERNEL_ERROR_UNKNOWN then ''unknown error''
      else if status = KERNEL_ERROR_INVALID_ARGUMENT then ''invalid argument''
      else if status = KERNEL_ERROR_NOT_FOUND then ''not found''
      else if status = KERNEL_ERROR_OUT_OF_MEMORY then ''out of memory''
      else if status = KERNEL_ERROR_ALREADY_EXISTS then ''already exists''
      else if status = KERNEL_ERROR_NOT_INITIALIZED then ''not initialized''
      else if status = KERNEL_ERROR_BUSY then ''busy''
      else if status = KERNEL_ERROR_PERMISSION_DENIED then ''permission denied''
      else if status = KERNEL_ERROR_UNSUPPORTED then ''unsupported''
      else if status = KERNEL_ERROR_INVALID_STATE then ''invalid state''
      else if status = KERNEL_ERROR_CORRUPTION_DETECTED then ''corruption detected''
      else if status = KERNEL_ERROR_TIMEOUT then ''timeout''
      else ''unrecognized status'')"

definition status_word :: "kernel_status \<Rightarrow> u32" where
  "status_word status = word_of_int status"

lemma status_success_not_error: "kernel_status_is_success s \<Longrightarrow> \<not> kernel_status_is_error s"
  by (simp add: kernel_status_is_success_def kernel_status_is_error_def)

end
