(* ===== verification/Kernel_String.thy ===== *)
theory Kernel_String
  imports Kernel_Prelude "HOL-Library.Sublist"
begin

text \<open>
  \<^verbatim>\<open>core/string.c\<close>. A \<^verbatim>\<open>const char*\<close> is the list of the characters from the pointer
  to the end of the object it points into; a \<^verbatim>\<open>char*\<close> destination is the list of the
  characters of its buffer, returned updated. Reading or writing past the end of an object
  has no defined result in C: the model returns \<open>None\<close> there, so every theorem that a
  call returns \<open>Some\<close> is also a memory-safety statement. Indexes are natural numbers: an
  object of the 32-bit address space is shorter than \<open>2 ^ 32\<close> characters, so the
  \<^verbatim>\<open>uint32_t\<close> indexes of the source do not wrap.

  \<open>is_cstring\<close> and \<open>cstr\<close> are the contract of the callers: a terminator exists, and the
  string is what precedes it. The lemmas show that each routine computes the expected
  function of \<open>cstr\<close>; the components that keep names and paths in fixed buffers use
  \<open>bounded_copy\<close>, the abstract effect of \<^verbatim>\<open>string_copy\<close>.
\<close>

section \<open>Definitions\<close>

abbreviation NUL :: char where "NUL \<equiv> CHR 0x00"
abbreviation TAB :: char where "TAB \<equiv> CHR 0x09"

definition is_cstring :: "char list \<Rightarrow> bool" where
  "is_cstring cs \<longleftrightarrow> NUL \<in> set cs"

definition cstr :: "char list \<Rightarrow> string" where
  "cstr cs = takeWhile (\<lambda>c. c \<noteq> NUL) cs"

definition is_blank :: "char \<Rightarrow> bool" where
  "is_blank c \<longleftrightarrow> c = CHR '' '' \<or> c = TAB"

definition is_digit :: "char \<Rightarrow> bool" where
  "is_digit c \<longleftrightarrow> (48 :: nat) \<le> of_char c \<and> of_char c \<le> (57 :: nat)"

fun string_length :: "char list \<Rightarrow> nat option" where
  "string_length [] = None"
| "string_length (c # cs) = (if c = NUL then Some 0 else map_option Suc (string_length cs))"

fun string_equals :: "char list \<Rightarrow> char list \<Rightarrow> bool option" where
  "string_equals (l # ls) (r # rs) =
     (if l \<noteq> NUL \<and> r \<noteq> NUL
      then if l \<noteq> r then Some False else string_equals ls rs
      else Some (l = NUL \<and> r = NUL))"
| "string_equals [] rs = None"
| "string_equals ls [] = None"

fun string_starts_with :: "char list \<Rightarrow> char list \<Rightarrow> bool option" where
  "string_starts_with vs [] = None"
| "string_starts_with vs (p # ps) =
     (if p = NUL then Some True
      else case vs of [] \<Rightarrow> None
        | v # vs' \<Rightarrow> if v \<noteq> p then Some False else string_starts_with vs' ps)"

text \<open>
  The copy loops test \<^verbatim>\<open>index < max_length - 1\<close> first, so the source is not read at the
  last slot; the last argument counts the slots that are left.
\<close>

fun copy_loop :: "(char \<Rightarrow> bool) \<Rightarrow> char list \<Rightarrow> char list \<Rightarrow> nat \<Rightarrow> nat \<Rightarrow> (char list \<times> nat) option" where
  "copy_loop stop dest src index 0 = Some (dest, index)"
| "copy_loop stop dest src index (Suc left) =
     (if index < length src
      then if stop (src ! index) then Some (dest, index)
        else if index < length dest
          then copy_loop stop (dest[index := src ! index]) src (Suc index) left
          else None
      else None)"

definition store_char :: "char list \<Rightarrow> nat \<Rightarrow> char \<Rightarrow> char list option" where
  "store_char dest i c = (if i < length dest then Some (dest[i := c]) else None)"

definition string_copy :: "char list \<Rightarrow> char list \<Rightarrow> u32 \<Rightarrow> char list option" where
  "string_copy dest src max_length =
     (if max_length = 0 then Some dest
      else case copy_loop (\<lambda>c. c = NUL) dest src 0 (unat (max_length - 1)) of
          None \<Rightarrow> None
        | Some (dest', index) \<Rightarrow> store_char dest' index NUL)"

definition string_copy_until_space :: "char list \<Rightarrow> char list \<Rightarrow> u32 \<Rightarrow> (char list \<times> nat) option" where
  "string_copy_until_space dest src max_length =
     (if max_length = 0 then Some (dest, 0)
      else case copy_loop (\<lambda>c. c = NUL \<or> is_blank c) dest src 0 (unat (max_length - 1)) of
          None \<Rightarrow> None
        | Some (dest', index) \<Rightarrow> map_option (\<lambda>d. (d, index)) (store_char dest' index NUL))"

fun string_clear :: "char list \<Rightarrow> nat \<Rightarrow> char list option" where
  "string_clear buffer 0 = Some buffer"
| "string_clear [] (Suc n) = None"
| "string_clear (c # cs) (Suc n) = map_option ((#) NUL) (string_clear cs n)"

fun string_trim_left :: "char list \<Rightarrow> char list option" where
  "string_trim_left [] = None"
| "string_trim_left (c # cs) = (if is_blank c then string_trim_left cs else Some (c # cs))"

fun skip_loop :: "char list \<Rightarrow> nat \<Rightarrow> nat option" where
  "skip_loop [] index = None"
| "skip_loop (c # cs) index = (if is_blank c then skip_loop cs (Suc index) else Some index)"

definition string_skip_spaces :: "char list \<Rightarrow> nat \<Rightarrow> nat option" where
  "string_skip_spaces value start_index = skip_loop (drop start_index value) start_index"

definition string_hex_digit_value :: "char \<Rightarrow> u32 option" where
  "string_hex_digit_value c =
     (let n = of_char c :: nat in
      if 48 \<le> n \<and> n \<le> 57 then Some (of_nat (n - 48))
      else if 97 \<le> n \<and> n \<le> 102 then Some (of_nat (n - 97) + 10)
      else if 65 \<le> n \<and> n \<le> 70 then Some (of_nat (n - 65) + 10)
      else None)"

fun decimal_loop :: "char list \<Rightarrow> u32 \<Rightarrow> bool \<Rightarrow> (char list \<times> u32 \<times> bool) option" where
  "decimal_loop [] parsed found = None"
| "decimal_loop (c # cs) parsed found =
     (if is_digit c
      then decimal_loop cs (parsed * 10 + of_nat (of_char c - 48)) True
      else Some (c # cs, parsed, found))"

text \<open>
  The result of the parsers: \<open>None\<close> for a read past the end of the object, \<open>Some None\<close>
  for the return value 0 (\<^verbatim>\<open>*result\<close> untouched), \<open>Some (Some v)\<close> for 1 with
  \<^verbatim>\<open>*result = v\<close>.
\<close>

definition string_to_uint32 :: "char list \<Rightarrow> u32 option option" where
  "string_to_uint32 value =
     (case string_trim_left value of None \<Rightarrow> None
      | Some start \<Rightarrow>
        (case decimal_loop start 0 False of None \<Rightarrow> None
         | Some (rest, parsed, found_digit) \<Rightarrow>
           (if \<not> found_digit then Some None
            else case string_trim_left rest of None \<Rightarrow> None
              | Some end_ptr \<Rightarrow> Some (if hd end_ptr \<noteq> NUL then None else Some parsed))))"

fun hex_loop :: "char list \<Rightarrow> u32 \<Rightarrow> bool \<Rightarrow> (char list \<times> u32 \<times> bool) option" where
  "hex_loop [] parsed found = None"
| "hex_loop (c # cs) parsed found =
     (if c = NUL then Some (c # cs, parsed, found)
      else case string_hex_digit_value c of
          None \<Rightarrow> Some (c # cs, parsed, found)
        | Some digit \<Rightarrow> hex_loop cs (push_bit 4 parsed OR digit) True)"

definition has_hex_prefix :: "char list \<Rightarrow> bool option" where
  "has_hex_prefix start =
     (case start of [] \<Rightarrow> None
      | c # cs \<Rightarrow>
        if c \<noteq> CHR ''0'' then Some False
        else case cs of [] \<Rightarrow> None | x # _ \<Rightarrow> Some (x = CHR ''x'' \<or> x = CHR ''X''))"

definition string_to_uint32_auto :: "char list \<Rightarrow> u32 option option" where
  "string_to_uint32_auto value =
     (case string_trim_left value of None \<Rightarrow> None
      | Some start \<Rightarrow>
        (case has_hex_prefix start of None \<Rightarrow> None
         | Some False \<Rightarrow> string_to_uint32 value
         | Some True \<Rightarrow>
           (case hex_loop (drop 2 start) 0 False of None \<Rightarrow> None
            | Some (rest, parsed, found_digit) \<Rightarrow>
              (case string_trim_left rest of None \<Rightarrow> None
               | Some end_ptr \<Rightarrow>
                 Some (if \<not> found_digit \<or> hd end_ptr \<noteq> NUL then None else Some parsed)))))"

text \<open>The abstract effect of \<^verbatim>\<open>string_copy\<close> into a buffer of \<open>n\<close> characters.\<close>

definition bounded_copy :: "nat \<Rightarrow> string \<Rightarrow> string" where
  "bounded_copy n s = take (n - 1) s"

section \<open>Lemmas\<close>

lemma cstr_Cons [simp]: "cstr (c # cs) = (if c = NUL then [] else c # cstr cs)"
  by (simp add: cstr_def)

lemma is_cstring_Cons [simp]: "is_cstring (c # cs) \<longleftrightarrow> c = NUL \<or> is_cstring cs"
  by (auto simp: is_cstring_def)

lemma is_cstring_Nil [simp]: "\<not> is_cstring []"
  by (simp add: is_cstring_def)

lemma string_length_cstr: "is_cstring s \<Longrightarrow> string_length s = Some (length (cstr s))"
  by (induction s) auto

lemma string_equals_cstr:
  "is_cstring l \<Longrightarrow> is_cstring r \<Longrightarrow> string_equals l r = Some (cstr l = cstr r)"
  by (induction l r rule: string_equals.induct) auto

lemma string_starts_with_cstr:
  "is_cstring v \<Longrightarrow> is_cstring p \<Longrightarrow> string_starts_with v p = Some (prefix (cstr p) (cstr v))"
  by (induction v p rule: string_starts_with.induct) (auto split: list.splits)

lemma copy_loop_eq:
  assumes "\<exists>x \<in> set (drop i src). stop x" and "i + n \<le> length dest"
  shows "copy_loop stop dest src i n =
    (let w = take n (takeWhile (\<lambda>c. \<not> stop c) (drop i src))
     in Some (take i dest @ w @ drop (i + length w) dest, i + length w))"
  using assms
proof (induction n arbitrary: i dest)
  case 0
  then show ?case by simp
next
  case (Suc n)
  from Suc.prems(1) have i: "i < length src" by (cases "i < length src") auto
  then have d: "drop i src = src ! i # drop (Suc i) src" by (rule Cons_nth_drop_Suc [symmetric])
  show ?case
  proof (cases "stop (src ! i)")
    case True
    with i d show ?thesis by simp
  next
    case False
    with Suc.prems d have "\<exists>x \<in> set (drop (Suc i) src). stop x" by auto
    moreover have "Suc i + n \<le> length (dest[i := src ! i])" using Suc.prems(2) by simp
    ultimately have IH: "copy_loop stop (dest[i := src ! i]) src (Suc i) n =
      (let w = take n (takeWhile (\<lambda>c. \<not> stop c) (drop (Suc i) src))
       in Some (take (Suc i) (dest[i := src ! i]) @ w @ drop (Suc i + length w) (dest[i := src ! i]),
            Suc i + length w))"
      by (rule Suc.IH)
    have "take (Suc i) (dest[i := src ! i]) = take i dest @ [src ! i]"
      using Suc.prems(2) by (simp add: take_Suc_conv_app_nth)
    with False i d IH Suc.prems(2) show ?thesis by (simp add: Let_def)
  qed
qed

lemma takeWhile_NUL_not: "NUL \<notin> set (takeWhile (\<lambda>c. c \<noteq> NUL) s)"
  by (auto dest: set_takeWhileD)

lemma cstr_append_NUL: "NUL \<notin> set w \<Longrightarrow> cstr (w @ NUL # rest) = w"
  by (induction w) auto

lemma is_cstring_take: "length (cstr d) < n \<Longrightarrow> length (cstr d) < length d \<Longrightarrow> is_cstring (take n d)"
proof (induction d arbitrary: n)
  case (Cons c d)
  then show ?case by (cases n) (auto split: if_splits)
qed simp

lemma unat_minus_1_u32: "(m :: u32) \<noteq> 0 \<Longrightarrow> unat (m - 1) = unat m - 1"
  by (rule unat_minus_one)

text \<open>The two bounded copies share this fact about what is stored after the loop.\<close>

lemma copy_then_terminate:
  assumes stop: "\<exists>x \<in> set src. stop x" and nul: "\<And>c. c = NUL \<Longrightarrow> stop c"
    and len: "unat (m :: u32) \<le> length dest" and m: "m \<noteq> 0"
    and w: "w = take (unat m - 1) (takeWhile (\<lambda>c. \<not> stop c) src)"
  shows "\<exists>dest'. copy_loop stop dest src 0 (unat (m - 1)) = Some (dest', length w) \<and>
      store_char dest' (length w) NUL = Some (w @ NUL # drop (Suc (length w)) dest) \<and>
      cstr (w @ NUL # drop (Suc (length w)) dest) = w"
proof -
  from m have um: "0 < unat m" by (simp add: unat_gt_0)
  have lw: "length w < length dest" using w um len by simp
  have "NUL \<notin> set w"
    using w nul by (auto dest!: in_set_takeD set_takeWhileD)
  moreover have "copy_loop stop dest src 0 (unat (m - 1)) = Some (w @ drop (length w) dest, length w)"
    using copy_loop_eq [of 0 src stop "unat (m - 1)" dest] stop len um w
    by (simp add: unat_minus_1_u32 [OF m] Let_def)
  moreover have "store_char (w @ drop (length w) dest) (length w) NUL
      = Some (w @ NUL # drop (Suc (length w)) dest)"
    using lw by (simp add: store_char_def list_update_append Cons_nth_drop_Suc [symmetric])
  ultimately show ?thesis by (auto simp: cstr_append_NUL)
qed

lemma string_copy_cstr:
  assumes "is_cstring src" and "unat m \<le> length dest" and "m \<noteq> 0"
  shows "\<exists>dest'. string_copy dest src m = Some dest' \<and> length dest' = length dest \<and>
           cstr dest' = bounded_copy (unat m) (cstr src) \<and>
           drop (unat m) dest' = drop (unat m) dest"
proof -
  define w where "w = take (unat m - 1) (takeWhile (\<lambda>c. c \<noteq> NUL) src)"
  have um: "0 < unat m" using assms(3) by (simp add: unat_gt_0)
  have lw: "length w < unat m" using um by (simp add: w_def)
  obtain dest' where "copy_loop (\<lambda>c. c = NUL) dest src 0 (unat (m - 1)) = Some (dest', length w)"
      "store_char dest' (length w) NUL = Some (w @ NUL # drop (Suc (length w)) dest)"
      "cstr (w @ NUL # drop (Suc (length w)) dest) = w"
    using copy_then_terminate [OF _ _ assms(2,3), where stop = "\<lambda>c. c = NUL" and src = src and w = w] assms(1)
    by (auto simp: is_cstring_def w_def)
  moreover have "w = bounded_copy (unat m) (cstr src)"
    by (simp add: w_def bounded_copy_def cstr_def)
  moreover have "drop (unat m) (w @ NUL # drop (Suc (length w)) dest) = drop (unat m) dest"
    using lw by (simp add: drop_Cons')
  ultimately show ?thesis
    using assms(2,3) lw by (auto simp: string_copy_def)
qed

subsection \<open>Parsing numbers\<close>

definition dec_value :: "string \<Rightarrow> nat" where
  "dec_value ds = foldl (\<lambda>v c. v * 10 + (of_char c - 48)) 0 ds"

lemma NUL_not_blank [simp]: "\<not> is_blank NUL"
  by (simp add: is_blank_def)

lemma NUL_not_digit [simp]: "\<not> is_digit NUL"
  by (simp add: is_digit_def)

lemma string_trim_left_cstr:
  "is_cstring s \<Longrightarrow>
     \<exists>s'. string_trim_left s = Some s' \<and> is_cstring s' \<and> cstr s' = dropWhile is_blank (cstr s)"
  by (induction s) auto

lemma decimal_loop_cstr:
  "is_cstring s \<Longrightarrow>
     \<exists>rest. decimal_loop s p found =
         Some (rest,
           foldl (\<lambda>v c. v * 10 + of_nat (of_char c - 48)) p (takeWhile is_digit (cstr s)),
           found \<or> takeWhile is_digit (cstr s) \<noteq> []) \<and>
       is_cstring rest \<and> cstr rest = dropWhile is_digit (cstr s)"
proof (induction s arbitrary: p found)
  case (Cons c s)
  then show ?case
    using Cons.IH [of "p * 10 + of_nat (of_char c - 48)" True] by (cases "is_digit c") auto
qed simp

lemma of_nat_dec_value:
  "foldl (\<lambda>v c. v * 10 + of_nat (of_char c - 48)) (of_nat n :: u32) ds =
     of_nat (foldl (\<lambda>v c. v * 10 + (of_char c - 48)) n ds)"
proof (induction ds arbitrary: n)
  case (Cons d ds)
  then show ?case
    using Cons.IH [of "n * 10 + (of_char d - 48)"] by (simp del: of_nat_diff)
qed simp

lemma cstr_hd_NUL: "is_cstring s \<Longrightarrow> hd s = NUL \<longleftrightarrow> cstr s = []"
  by (cases s) auto

definition parse_decimal :: "string \<Rightarrow> u32 option" where
  "parse_decimal s =
     (let t = dropWhile is_blank s; ds = takeWhile is_digit t;
          u = dropWhile is_blank (dropWhile is_digit t)
      in if ds \<noteq> [] \<and> u = [] then Some (of_nat (dec_value ds)) else None)"

lemma string_to_uint32_cstr:
  assumes "is_cstring value"
  shows "string_to_uint32 value = Some (parse_decimal (cstr value))"
proof -
  obtain s where s: "string_trim_left value = Some s" "is_cstring s"
      "cstr s = dropWhile is_blank (cstr value)"
    using string_trim_left_cstr [OF assms] by blast
  obtain r where r: "decimal_loop s 0 False =
         Some (r, foldl (\<lambda>v c. v * 10 + of_nat (of_char c - 48)) 0 (takeWhile is_digit (cstr s)),
           takeWhile is_digit (cstr s) \<noteq> [])"
      "is_cstring r" "cstr r = dropWhile is_digit (cstr s)"
    using decimal_loop_cstr [OF s(2), of 0 False] by auto
  obtain e where e: "string_trim_left r = Some e" "is_cstring e"
      "cstr e = dropWhile is_blank (cstr r)"
    using string_trim_left_cstr [OF r(2)] by blast
  have v: "foldl (\<lambda>v c. v * 10 + of_nat (of_char c - 48)) (0 :: u32) ds = of_nat (dec_value ds)" for ds
    using of_nat_dec_value [of 0 ds] by (simp add: dec_value_def)
  show ?thesis
    by (simp add: string_to_uint32_def parse_decimal_def Let_def s(1) r(1) e(1) v
        cstr_hd_NUL [OF e(2)] e(3) r(3) s(3))
qed

text \<open>
  \<open>string_to_uint32\<close> accepts exactly blanks, one or more decimal digits, blanks, and
  returns their value modulo $2^{32}$: there is no overflow check.
\<close>

lemma string_to_uint32_digits:
  assumes "NUL \<notin> set (b @ ds @ c)" and "list_all is_blank b" and "list_all is_digit ds"
    and "list_all is_blank c" and "ds \<noteq> []"
  shows "string_to_uint32 (b @ ds @ c @ [NUL]) = Some (Some (of_nat (dec_value ds)))"
proof -
  have "cstr (b @ ds @ c @ [NUL]) = b @ ds @ c"
    using cstr_append_NUL [OF assms(1), of "[]"] by simp
  moreover have "is_cstring (b @ ds @ c @ [NUL])" by (simp add: is_cstring_def)
  moreover have "parse_decimal (b @ ds @ c) = Some (of_nat (dec_value ds))"
  proof -
    have nb: "\<not> is_blank d" if "is_digit d" for d
      using that by (auto simp: is_blank_def is_digit_def)
    have nd: "\<not> is_digit d" if "is_blank d" for d
      using that nb by blast
    have 1: "dropWhile is_blank (b @ ds @ c) = ds @ c"
      using assms(2,3,5) nb by (cases ds) (auto simp: list_all_iff dropWhile_append)
    have 2: "takeWhile is_digit (ds @ c) = ds" "dropWhile is_digit (ds @ c) = c"
      using assms(3,4) nd by (cases c; auto simp: list_all_iff takeWhile_append dropWhile_append)+
    have 3: "dropWhile is_blank c = []" using assms(4) by (simp add: list_all_iff)
    show ?thesis using assms(4,5) by (simp add: parse_decimal_def Let_def 1 2 3 list_all_iff)
  qed
  ultimately show ?thesis by (simp add: string_to_uint32_cstr)
qed

section \<open>Properties\<close>

text \<open>
  \<open>string_copy\<close> into a buffer of at least \<^verbatim>\<open>max_length\<close> characters stays inside it, always
  terminates the string, and stores the longest prefix of the source that fits; what lies
  beyond \<^verbatim>\<open>max_length\<close> in the buffer is not touched.
\<close>

theorem string_copy_bounded:
  assumes "is_cstring source" and "unat max_length \<le> length destination" and "max_length \<noteq> 0"
  shows "\<exists>d. string_copy destination source max_length = Some d \<and> length d = length destination \<and>
    is_cstring (take (unat max_length) d) \<and> cstr d = take (unat max_length - 1) (cstr source) \<and>
    drop (unat max_length) d = drop (unat max_length) destination"
proof -
  obtain d where d: "string_copy destination source max_length = Some d" "length d = length destination"
      "cstr d = bounded_copy (unat max_length) (cstr source)"
      "drop (unat max_length) d = drop (unat max_length) destination"
    using string_copy_cstr [OF assms] by blast
  have "length (cstr d) < unat max_length"
    using assms(3) by (simp add: d(3) bounded_copy_def unat_gt_0 min_less_iff_disj)
  then have "is_cstring (take (unat max_length) d)"
    using d(2) assms(2) is_cstring_take by simp
  with d show ?thesis by (simp add: bounded_copy_def)
qed

theorem string_copy_bounded_witness:
  "\<exists>d. string_copy ''........'' (''kernel'' @ [NUL]) 4 = Some d \<and> cstr d = ''ker'' \<and> drop 4 d = ''....''"
proof -
  have "is_cstring (''kernel'' @ [NUL])" "unat (4 :: u32) \<le> length ''........''" by simp_all
  from string_copy_bounded [OF this] show ?thesis by auto
qed

end
