(* ===== verification/Vga.thy ===== *)
theory Vga
  imports Kernel_String
begin

text \<open>
  \<^verbatim>\<open>drivers/vga.c\<close>: the text console of the i386 kernel. The state is the three static
  variables of the file and the text buffer at \<^verbatim>\<open>0xB8000\<close>, a function from the 32-bit index of
  a cell to its 16 bits. The buffer has no bound in the code, so a write outside the 80 x 25
  screen is a write to another index; the invariant \<open>vga_inv\<close> says that it does not happen.
  A C \<^verbatim>\<open>char\<close> is signed on this target, and \<open>make_entry\<close> keeps its sign extension.

  The abstract console is a list of 25 rows and a cursor; \<open>put_char_step\<close> shows that the
  driver implements it.
\<close>

section \<open>State and operations\<close>

abbreviation (input) VGA_WIDTH :: u32 where "VGA_WIDTH \<equiv> 80"
abbreviation (input) VGA_HEIGHT :: u32 where "VGA_HEIGHT \<equiv> 25"

record vga_state =
  vga_buffer :: "u32 \<Rightarrow> u16"
  cursor_x :: u32
  cursor_y :: u32
  current_color :: u8

definition make_color :: "u8 \<Rightarrow> u8 \<Rightarrow> u8" where
  "make_color foreground background = foreground OR push_bit 4 background"

definition make_entry :: "char \<Rightarrow> u8 \<Rightarrow> u16" where
  "make_entry character color = scast (of_char character :: u8) OR push_bit 8 (ucast color)"

definition put_entry_at :: "char \<Rightarrow> u8 \<Rightarrow> u32 \<Rightarrow> u32 \<Rightarrow> vga_state \<Rightarrow> vga_state" where
  "put_entry_at character color x y s =
     s\<lparr>vga_buffer := (vga_buffer s)(y * VGA_WIDTH + x := make_entry character color)\<rparr>"

definition copy_cell :: "nat \<Rightarrow> nat \<Rightarrow> vga_state \<Rightarrow> vga_state" where
  "copy_cell y x s =
     s\<lparr>vga_buffer := (vga_buffer s)((of_nat y - 1) * VGA_WIDTH + of_nat x :=
        vga_buffer s (of_nat y * VGA_WIDTH + of_nat x))\<rparr>"

definition newline :: "vga_state \<Rightarrow> vga_state" where
  "newline s =
     (let s = s\<lparr>cursor_x := 0\<rparr>
      in if cursor_y s < VGA_HEIGHT - 1 then s\<lparr>cursor_y := cursor_y s + 1\<rparr>
         else
           let s = fold (\<lambda>y. fold (copy_cell y) [0..<80]) [1..<25] s
           in fold (\<lambda>x s. put_entry_at CHR '' '' (current_color s) (of_nat x) (VGA_HEIGHT - 1) s) [0..<80] s)"

definition put_char :: "char \<Rightarrow> vga_state \<Rightarrow> vga_state" where
  "put_char character s =
     (if character = CHR 0x0A then newline s
      else
        let s = put_entry_at character (current_color s) (cursor_x s) (cursor_y s) s;
            s = s\<lparr>cursor_x := cursor_x s + 1\<rparr>
        in if cursor_x s \<ge> VGA_WIDTH then newline s else s)"

definition vga_clear :: "vga_state \<Rightarrow> vga_state" where
  "vga_clear s =
     (let s = fold (\<lambda>y. fold (\<lambda>x s. put_entry_at CHR '' '' (current_color s) (of_nat x) (of_nat y) s) [0..<80])
                [0..<25] s
      in s\<lparr>cursor_x := 0, cursor_y := 0\<rparr>)"

definition vga_initialize :: "vga_state \<Rightarrow> vga_state" where
  "vga_initialize s = vga_clear (s\<lparr>cursor_x := 0, cursor_y := 0, current_color := make_color 15 0\<rparr>)"

definition vga_set_color :: "u8 \<Rightarrow> u8 \<Rightarrow> vga_state \<Rightarrow> vga_state" where
  "vga_set_color foreground background s = s\<lparr>current_color := make_color foreground background\<rparr>"

definition vga_write_char :: "char \<Rightarrow> vga_state \<Rightarrow> vga_state" where
  "vga_write_char character = put_char character"

definition vga_backspace :: "vga_state \<Rightarrow> vga_state" where
  "vga_backspace s =
     (if cursor_x s = 0 \<and> cursor_y s = 0 then s
      else
        let s = (if cursor_x s = 0 then s\<lparr>cursor_y := cursor_y s - 1, cursor_x := VGA_WIDTH - 1\<rparr>
                 else s\<lparr>cursor_x := cursor_x s - 1\<rparr>)
        in put_entry_at CHR '' '' (current_color s) (cursor_x s) (cursor_y s) s)"

text \<open>A text is the characters before its terminator.\<close>

definition vga_write :: "string \<Rightarrow> vga_state \<Rightarrow> vga_state" where
  "vga_write str = fold put_char str"

definition vga_write_line :: "string \<Rightarrow> vga_state \<Rightarrow> vga_state" where
  "vga_write_line str s = put_char CHR 0x0A (vga_write str s)"

definition vga_write_at :: "string \<Rightarrow> u32 \<Rightarrow> u32 \<Rightarrow> vga_state \<Rightarrow> vga_state" where
  "vga_write_at str x y s =
     (let old_x = cursor_x s; old_y = cursor_y s;
          s = vga_write str (s\<lparr>cursor_x := x, cursor_y := y\<rparr>)
      in s\<lparr>cursor_x := old_x, cursor_y := old_y\<rparr>)"

definition vga_write_hex_u32 :: "u32 \<Rightarrow> vga_state \<Rightarrow> vga_state" where
  "vga_write_hex_u32 value s =
     fold (\<lambda>shift. put_char (''0123456789ABCDEF'' ! unat (drop_bit shift value AND 0xF)))
       [28, 24, 20, 16, 12, 8, 4, 0] (vga_write ''0x'' s)"

function decimal_buffer :: "u32 \<Rightarrow> nat \<Rightarrow> char list" where
  "decimal_buffer value index =
     (if value > 0 \<and> index < 10
      then char_of (48 + unat (value mod 10)) # decimal_buffer (value div 10) (index + 1)
      else [])"
  by pat_completeness auto
termination by (relation "measure (\<lambda>(v, i). 10 - i)") auto

declare decimal_buffer.simps [simp del]

definition vga_write_u32 :: "u32 \<Rightarrow> vga_state \<Rightarrow> vga_state" where
  "vga_write_u32 value s =
     (if value = 0 then put_char CHR ''0'' s
      else fold put_char (rev (decimal_buffer value 0)) s)"

section \<open>The cells of the screen\<close>

declare upt_rec_numeral [simp del]

definition cell :: "vga_state \<Rightarrow> nat \<Rightarrow> u16" where
  "cell s i = vga_buffer s (of_nat i)"

definition vga_inv :: "vga_state \<Rightarrow> bool" where
  "vga_inv s \<longleftrightarrow> cursor_x s < VGA_WIDTH \<and> cursor_y s < VGA_HEIGHT"

text \<open>Cells that do not belong to the screen.\<close>

definition same_outside :: "vga_state \<Rightarrow> vga_state \<Rightarrow> bool" where
  "same_outside s t \<longleftrightarrow> (\<forall>a. 2000 \<le> unat a \<longrightarrow> vga_buffer t a = vga_buffer s a)"

lemma same_outside_refl [simp]: "same_outside s s"
  by (simp add: same_outside_def)

lemma same_outside_trans: "same_outside s t \<Longrightarrow> same_outside t u \<Longrightarrow> same_outside s u"
  by (simp add: same_outside_def)

lemma eq_of_nat_u32_iff: "n < 4294967296 \<Longrightarrow> (a :: u32) = of_nat n \<longleftrightarrow> unat a = n"
  by (simp add: word_unat_eq_iff unat_of_nat take_bit_nat_eq_self)

text \<open>Both nested loops visit the cells in increasing order.\<close>

lemma fold_rows:
  assumes "\<And>y x. y \<in> set ys \<Longrightarrow> x < w \<Longrightarrow> f y x = g (y * w + x)"
  shows "fold (\<lambda>y. fold (f y) [0..<w]) ys = fold g (concat (map (\<lambda>y. [y * w..<y * w + w]) ys))"
  using assms
proof (induction ys)
  case (Cons y ys)
  have "fold (f y) [0..<w] = fold (\<lambda>x. g (y * w + x)) [0..<w]"
    by (rule ext, rule fold_cong [OF refl refl]) (use Cons.prems in auto)
  also have "\<dots> = fold g (map ((+) (y * w)) [0..<w])" by (simp add: fold_map comp_def)
  also have "map ((+) (y * w)) [0..<w] = [y * w..<y * w + w]"
    by (intro nth_equalityI) auto
  finally show ?case using Cons by simp
qed simp

lemma concat_rows: "m \<le> n \<Longrightarrow> concat (map (\<lambda>y. [y * w..<y * w + w]) [m..<n]) = [m * w..<n * w]"
proof (induction n)
  case (Suc n)
  show ?case
  proof (cases "m = Suc n")
    case False
    then have "m \<le> n" using Suc.prems by simp
    moreover from this have "m * w \<le> n * w" by (rule mult_right_mono) simp
    ultimately show ?thesis
      using Suc.IH upt_add_eq_append [of "m * w" "n * w" w] by (simp add: add.commute)
  qed simp
qed simp

definition move_up :: "nat \<Rightarrow> vga_state \<Rightarrow> vga_state" where
  "move_up i s = s\<lparr>vga_buffer := (vga_buffer s)(of_nat (i - 80) := vga_buffer s (of_nat i))\<rparr>"

lemma copy_cell_move_up: "0 < y \<Longrightarrow> copy_cell y x = move_up (y * 80 + x)"
proof
  fix s assume "0 < y"
  then have "y * 80 + x - 80 = (y - 1) * 80 + x" by (simp add: diff_mult_distrib)
  moreover have "(of_nat y - 1 :: u32) = of_nat (y - 1)" using \<open>0 < y\<close> by simp
  ultimately show "copy_cell y x s = move_up (y * 80 + x) s"
    by (simp add: copy_cell_def move_up_def)
qed

lemma fold_screen:
  assumes "\<And>y x. m \<le> y \<Longrightarrow> f y x = g (y * 80 + x)" and "m \<le> n"
  shows "fold (\<lambda>y. fold (f y) [0..<80]) [m..<n] = fold g [m * 80..<n * 80]"
  using fold_rows [of "[m..<n]" 80 f g] assms unfolding concat_rows [OF assms(2)] by auto

lemma scroll_loop: "fold (\<lambda>y. fold (copy_cell y) [0..<80]) [1..<25] = fold move_up [80..<2000]"
proof -
  have "fold (\<lambda>y. fold (copy_cell y) [0..<80]) [1..<25] = fold move_up [1 * 80..<25 * 80]"
    by (rule fold_screen) (simp_all add: copy_cell_move_up)
  also have "[1 * 80..<25 * 80] = [80..<2000 :: nat]" by (rule arg_cong2 [where f = upt]) simp_all
  finally show ?thesis .
qed

lemma move_up_cells:
  assumes "k \<le> 2000"
  shows "vga_buffer (fold move_up [80..<k] s) a =
     (if unat a + 80 < k then vga_buffer s (a + 80) else vga_buffer s a)"
  using assms
proof (induction k arbitrary: a)
  case (Suc k)
  show ?case
  proof (cases "80 \<le> k")
    case True
    let ?t = "fold move_up [80..<k] s"
    have "vga_buffer ?t (of_nat k) = vga_buffer s (of_nat k)"
      using Suc.IH [of "of_nat k"] Suc.prems by (simp add: unat_of_nat take_bit_nat_eq_self)
    then have "vga_buffer (move_up k ?t) a =
        (if a = of_nat (k - 80) then vga_buffer s (of_nat k) else vga_buffer ?t a)"
      by (simp add: move_up_def)
    moreover have "a = of_nat (k - 80) \<longleftrightarrow> unat a + 80 = k"
      using True Suc.prems eq_of_nat_u32_iff [of "k - 80" a] by auto
    moreover have "a + 80 = of_nat k" if "unat a + 80 = k"
      using that by (auto simp flip: that)
    ultimately show ?thesis using True Suc.IH [of a] Suc.prems by auto
  qed (use Suc.IH Suc.prems in auto)
qed simp

lemma move_up_other [simp]:
  "cursor_x (fold move_up is s) = cursor_x s" "cursor_y (fold move_up is s) = cursor_y s"
  "current_color (fold move_up is s) = current_color s"
  by (induction "is" arbitrary: s) (simp_all add: move_up_def)

definition blank_cell :: "nat \<Rightarrow> vga_state \<Rightarrow> vga_state" where
  "blank_cell i s = s\<lparr>vga_buffer := (vga_buffer s)(of_nat i := make_entry CHR '' '' (current_color s))\<rparr>"

lemma blank_other [simp]:
  "cursor_x (fold blank_cell is s) = cursor_x s" "cursor_y (fold blank_cell is s) = cursor_y s"
  "current_color (fold blank_cell is s) = current_color s"
  by (induction "is" arbitrary: s) (simp_all add: blank_cell_def)

lemma blank_cells:
  assumes "n \<le> 2000"
  shows "vga_buffer (fold blank_cell [m..<n] s) a =
     (if m \<le> unat a \<and> unat a < n then make_entry CHR '' '' (current_color s) else vga_buffer s a)"
  using assms
proof (induction n arbitrary: a)
  case (Suc n)
  then have "a = of_nat n \<longleftrightarrow> unat a = n" by (simp add: eq_of_nat_u32_iff)
  moreover have "vga_buffer (blank_cell n t) a =
      (if a = of_nat n then make_entry CHR '' '' (current_color t) else vga_buffer t a)" for t
    by (simp add: blank_cell_def)
  ultimately show ?case using Suc by auto
qed simp

lemma put_blank_cell:
  "put_entry_at CHR '' '' (current_color s) (of_nat x) (of_nat y) s = blank_cell (y * 80 + x) s"
  by (simp add: put_entry_at_def blank_cell_def)

lemma clear_loop:
  "fold (\<lambda>y. fold (\<lambda>x s. put_entry_at CHR '' '' (current_color s) (of_nat x) (of_nat y) s) [0..<80]) [0..<25] =
     fold blank_cell [0..<2000]"
proof -
  have "fold (\<lambda>y. fold (\<lambda>x s. put_entry_at CHR '' '' (current_color s) (of_nat x) (of_nat y) s) [0..<80])
      [0..<25] = fold blank_cell [0 * 80..<25 * 80]"
    by (rule fold_screen) (simp_all add: put_blank_cell fun_eq_iff)
  also have "[0 * 80..<25 * 80] = [0..<2000 :: nat]" by (rule arg_cong2 [where f = upt]) simp_all
  finally show ?thesis .
qed

lemma last_row_loop:
  "fold (\<lambda>x s. put_entry_at CHR '' '' (current_color s) (of_nat x) (VGA_HEIGHT - 1) s) [0..<80] =
     fold blank_cell [1920..<2000]"
proof -
  have "(\<lambda>x s. put_entry_at CHR '' '' (current_color s) (of_nat x) (VGA_HEIGHT - 1) s) =
      (\<lambda>x s. put_entry_at CHR '' '' (current_color s) (of_nat x) (of_nat 24) s)" by simp
  moreover have "fold (\<lambda>y. fold (\<lambda>x s. put_entry_at CHR '' '' (current_color s) (of_nat x) (of_nat y) s) [0..<80])
      [24..<25] = fold blank_cell [24 * 80..<25 * 80]"
    by (rule fold_screen) (simp_all add: put_blank_cell fun_eq_iff)
  moreover have "[24 * 80..<25 * 80] = [1920..<2000 :: nat]" by (rule arg_cong2 [where f = upt]) simp_all
  moreover have "[24..<25] = [24 :: nat]" by (simp add: upt_rec)
  ultimately show ?thesis by (simp only: fold.simps id_comp)
qed

definition scroll :: "vga_state \<Rightarrow> vga_state" where
  "scroll s = fold blank_cell [1920..<2000] (fold move_up [80..<2000] s)"

lemma scroll_buffer:
  "vga_buffer (scroll s) a =
     (if 1920 \<le> unat a \<and> unat a < 2000 then make_entry CHR '' '' (current_color s)
      else if unat a < 1920 then vga_buffer s (a + 80) else vga_buffer s a)"
  by (simp only: scroll_def blank_cells order_refl move_up_cells move_up_other) simp

lemma scroll_other [simp]:
  "cursor_x (scroll s) = cursor_x s" "cursor_y (scroll s) = cursor_y s"
  "current_color (scroll s) = current_color s"
  by (simp_all only: scroll_def blank_other move_up_other)

lemma newline_eq:
  "newline s =
     (if cursor_y s < VGA_HEIGHT - 1 then s\<lparr>cursor_x := 0, cursor_y := cursor_y s + 1\<rparr>
      else scroll (s\<lparr>cursor_x := 0\<rparr>))"
  unfolding newline_def Let_def scroll_loop last_row_loop scroll_def [symmetric] by simp

section \<open>The abstract console\<close>

text \<open>
  Twenty-five rows of eighty cells, a cursor and a colour. A character is stored at the cursor,
  a full row or a line feed moves to the next one, and on the last row the first row is dropped.
\<close>

record console =
  rows :: "u16 list list"
  column :: nat
  line :: nat
  ink :: u8

definition console_newline :: "console \<Rightarrow> console" where
  "console_newline c =
     (if line c < 24 then c\<lparr>column := 0, line := line c + 1\<rparr>
      else c\<lparr>column := 0, rows := tl (rows c) @ [replicate 80 (make_entry CHR '' '' (ink c))]\<rparr>)"

definition console_put :: "char \<Rightarrow> console \<Rightarrow> console" where
  "console_put ch c =
     (if ch = CHR 0x0A then console_newline c
      else
        let c = c\<lparr>rows := (rows c)[line c := (rows c ! line c)[column c := make_entry ch (ink c)]],
                  column := column c + 1\<rparr>
        in if 80 \<le> column c then console_newline c else c)"

definition screen_rows :: "vga_state \<Rightarrow> u16 list list" where
  "screen_rows s = map (\<lambda>y. map (\<lambda>x. cell s (y * 80 + x)) [0..<80]) [0..<25]"

definition console_of :: "vga_state \<Rightarrow> console" where
  "console_of s = \<lparr>rows = screen_rows s, column = unat (cursor_x s), line = unat (cursor_y s),
     ink = current_color s\<rparr>"

lemma unat_of_nat_u32: "n < 4294967296 \<Longrightarrow> unat (of_nat n :: u32) = n"
  by (simp add: unat_of_nat take_bit_nat_eq_self)

lemma cell_index: "x < 80 \<Longrightarrow> y < 25 \<Longrightarrow> y * 80 + x < (2000 :: nat)"
  by linarith

lemma cell_index_eq:
  assumes "x < 80" "x' < 80"
  shows "y * 80 + x = y' * 80 + x' \<longleftrightarrow> y = y' \<and> x = (x' :: nat)"
proof
  assume eq: "y * 80 + x = y' * 80 + x'"
  from arg_cong [OF eq, of "\<lambda>n. n div 80"] have "y = y'" using assms by simp
  with eq show "y = y' \<and> x = x'" by simp
qed simp

text \<open>Storing a character on the screen.\<close>

lemma unat_cell:
  assumes "x < VGA_WIDTH" "y < VGA_HEIGHT"
  shows "unat (y * VGA_WIDTH + x) = unat y * 80 + unat x"
proof -
  have "(y * VGA_WIDTH + x :: u32) = of_nat (unat y * 80 + unat x)" by simp
  moreover have "unat y * 80 + unat x < 2000"
    using assms by (intro cell_index) (simp_all add: word_less_nat_alt)
  ultimately show ?thesis by (simp only: unat_of_nat_u32)
qed

lemma put_entry_cell:
  assumes "x < VGA_WIDTH" "y < VGA_HEIGHT" "i < 2000"
  shows "cell (put_entry_at ch col x y s) i =
     (if i = unat y * 80 + unat x then make_entry ch col else cell s i)"
proof -
  have "of_nat i = y * VGA_WIDTH + x \<longleftrightarrow> i = unat y * 80 + unat x"
  proof -
    have "y * VGA_WIDTH + x = of_nat i \<longleftrightarrow> unat (y * VGA_WIDTH + x) = i"
      by (rule eq_of_nat_u32_iff) (use assms(3) in simp)
    then show ?thesis unfolding unat_cell [OF assms(1,2)] by metis
  qed
  then show ?thesis by (simp add: cell_def put_entry_at_def)
qed

lemma put_entry_rows:
  assumes "x < VGA_WIDTH" "y < VGA_HEIGHT"
  shows "screen_rows (put_entry_at ch col x y s) =
     (screen_rows s)[unat y := (screen_rows s ! unat y)[unat x := make_entry ch col]]"
proof -
  have b: "unat x < 80" "unat y < 25" using assms by (simp_all add: word_less_nat_alt)
  have c: "cell (put_entry_at ch col x y s) (j * 80 + i) =
      (if j = unat y \<and> i = unat x then make_entry ch col else cell s (j * 80 + i))"
    if "i < 80" "j < 25" for i j
    using put_entry_cell [OF assms cell_index [OF that]] cell_index_eq [OF that(1) b(1), of j "unat y"]
    by simp
  show ?thesis
    by (rule nth_equalityI)
      (auto simp: screen_rows_def c b nth_list_update intro!: nth_equalityI)
qed

lemma put_entry_outside:
  "x < VGA_WIDTH \<Longrightarrow> y < VGA_HEIGHT \<Longrightarrow> same_outside s (put_entry_at ch col x y s)"
  using unat_cell [of x y] cell_index [of "unat x" "unat y"]
  by (auto simp: same_outside_def put_entry_at_def word_less_nat_alt)

text \<open>The driver's line feed.\<close>

lemma scrolled_cell:
  assumes "i < 2000"
  shows "cell (scroll s) i =
     (if i < 1920 then cell s (i + 80) else make_entry CHR '' '' (current_color s))"
  using assms by (simp add: cell_def scroll_buffer unat_of_nat_u32)

lemma screen_rows_scroll:
  "screen_rows (scroll s) =
     tl (screen_rows s) @ [replicate 80 (make_entry CHR '' '' (current_color s))]" (is "?l = ?r")
proof (rule nth_equalityI)
  show "length ?l = length ?r" by (simp add: screen_rows_def)
next
  fix y assume "y < length ?l"
  then have y: "y < 25" by (simp add: screen_rows_def)
  show "?l ! y = ?r ! y"
  proof (cases "y < 24")
    case True
    have "cell (scroll s) (y * 80 + x) =
        cell s (Suc y * 80 + x)" if "x < 80" for x
      using scrolled_cell [of "y * 80 + x" s] cell_index [OF that y] True that
      by (simp add: algebra_simps)
    then show ?thesis using True by (simp add: screen_rows_def nth_append nth_tl)
  next
    case False
    then have "y = 24" using y by simp
    then show ?thesis
      by (auto simp: screen_rows_def nth_append scrolled_cell intro!: nth_equalityI)
  qed
qed

lemma newline_refines:
  assumes "cursor_y s < VGA_HEIGHT"
  shows "console_of (newline s) = console_newline (console_of s)" "vga_inv (newline s)"
    "same_outside s (newline s)"
proof -
  have y: "cursor_y s < VGA_HEIGHT - 1 \<longleftrightarrow> unat (cursor_y s) < 24"
    by (simp add: word_less_nat_alt)
  have up: "unat (cursor_y s + 1) = unat (cursor_y s) + 1" if "unat (cursor_y s) < 24"
    using that by (simp add: unat_plus_if')
  have r: "screen_rows (s\<lparr>cursor_x := a\<rparr>) = screen_rows s"
    "screen_rows (s\<lparr>cursor_x := a, cursor_y := b\<rparr>) = screen_rows s" for a b
    by (simp_all add: screen_rows_def cell_def)
  show "console_of (newline s) = console_newline (console_of s)"
    unfolding newline_eq y
    by (simp add: console_newline_def console_of_def up screen_rows_scroll r)
  show "vga_inv (newline s)"
    using assms up unfolding newline_eq y by (auto simp: vga_inv_def word_less_nat_alt)
  show "same_outside s (newline s)"
    by (auto simp: same_outside_def newline_eq scroll_buffer)
qed

lemma put_char_step:
  assumes "vga_inv s"
  shows "console_of (put_char ch s) = console_put ch (console_of s)" "vga_inv (put_char ch s)"
    "same_outside s (put_char ch s)"
proof -
  let ?t = "put_entry_at ch (current_color s) (cursor_x s) (cursor_y s) s"
  let ?u = "?t\<lparr>cursor_x := cursor_x ?t + 1\<rparr>"
  have b: "cursor_x s < VGA_WIDTH" "cursor_y s < VGA_HEIGHT" using assms by (auto simp: vga_inv_def)
  have t: "cursor_x ?t = cursor_x s" "cursor_y ?t = cursor_y s" "current_color ?t = current_color s"
    by (simp_all add: put_entry_at_def)
  have x: "unat (cursor_x s + 1) = unat (cursor_x s) + 1"
    using b(1) by (auto simp: word_less_nat_alt unat_plus_if')
  have r: "screen_rows ?u = screen_rows ?t" by (simp add: screen_rows_def cell_def)
  have o: "same_outside s ?u"
    using put_entry_outside [OF b] by (simp add: same_outside_def)
  have cu: "console_of ?u = (console_of s)\<lparr>rows := (screen_rows s)[unat (cursor_y s) :=
      (screen_rows s ! unat (cursor_y s))[unat (cursor_x s) := make_entry ch (current_color s)]],
      column := unat (cursor_x s) + 1\<rparr>"
    unfolding console_of_def r put_entry_rows [OF b] by (simp add: t x)
  have e: "put_char ch s = (if ch = CHR 0x0A then newline s
      else if cursor_x s + 1 \<ge> VGA_WIDTH then newline ?u else ?u)"
    by (simp add: put_char_def t)
  have w: "cursor_x s + 1 \<ge> VGA_WIDTH \<longleftrightarrow> 80 \<le> unat (cursor_x s) + 1"
    by (simp add: word_le_nat_alt x)
  have nu: "console_of (newline ?u) = console_newline (console_of ?u)" "vga_inv (newline ?u)"
    "same_outside ?u (newline ?u)"
    using newline_refines [of ?u] b t by simp_all
  show "console_of (put_char ch s) = console_put ch (console_of s)"
    using newline_refines(1) [OF b(2)]
    by (simp add: e w nu(1) cu console_put_def) (simp add: console_of_def)
  show "vga_inv (put_char ch s)"
    using newline_refines(2) [OF b(2)] nu(2) b by (auto simp: e w vga_inv_def t word_less_nat_alt x)
  show "same_outside s (put_char ch s)"
    using newline_refines(3) [OF b(2)] nu(3) o by (auto simp: e intro: same_outside_trans)
qed

lemma vga_write_step:
  assumes "vga_inv s"
  shows "console_of (vga_write str s) = fold console_put str (console_of s) \<and>
    vga_inv (vga_write str s) \<and> same_outside s (vga_write str s)"
  using assms unfolding vga_write_def
proof (induction str arbitrary: s)
  case (Cons ch str)
  note p = put_char_step [OF Cons.prems, of ch]
  from Cons.IH [OF p(2)] p(1,3) show ?case by (auto intro: same_outside_trans)
qed simp

section \<open>Numbers\<close>

lemma digit_char:
  assumes "d < 10"
  shows "is_digit (char_of (48 + d :: nat))" "of_char (char_of (48 + d :: nat) :: char) - 48 = d"
    "char_of (48 + d :: nat) \<noteq> NUL"
proof -
  have c: "of_char (char_of (48 + d :: nat) :: char) = 48 + d" using assms by simp
  then show "is_digit (char_of (48 + d :: nat))" "of_char (char_of (48 + d :: nat) :: char) - 48 = d"
    using assms by (simp_all add: is_digit_def)
  then show "char_of (48 + d :: nat) \<noteq> NUL" using NUL_not_digit by metis
qed

lemma digit_char_zero: "d < 10 \<Longrightarrow> char_of (48 + d :: nat) = CHR ''0'' \<longleftrightarrow> d = 0"
proof -
  assume "d < 10"
  moreover have "char_of (48 :: nat) = CHR ''0''" by code_simp
  moreover have "of_char (CHR ''0'') - 48 = (0 :: nat)" by simp
  ultimately show ?thesis using digit_char(2) [of d] by (metis add_0_right)
qed

lemma dec_value_snoc: "dec_value (ds @ [c]) = dec_value ds * 10 + (of_char c - 48)"
  by (simp add: dec_value_def)

text \<open>Ten digits are enough for 32 bits, so the loop ends because the value is used up.\<close>

definition decimal_ok :: "nat \<Rightarrow> nat \<Rightarrow> char list \<Rightarrow> bool" where
  "decimal_ok n left ds \<longleftrightarrow> dec_value (rev ds) = n \<and> list_all is_digit ds \<and> NUL \<notin> set ds \<and>
     length ds \<le> left \<and> (ds = [] \<longleftrightarrow> n = 0) \<and> (0 < n \<longrightarrow> last ds \<noteq> CHR ''0'')"

lemma decimal_ok_Cons:
  assumes "decimal_ok (n div 10) left ds" "0 < n"
  shows "decimal_ok n (Suc left) (char_of (48 + n mod 10) # ds)"
proof -
  have d: "n mod 10 < 10" by simp
  have "last (char_of (48 + n mod 10) # ds) \<noteq> CHR ''0''"
  proof (cases "n div 10 = 0")
    case True
    then have "ds = []" using assms(1) by (simp add: decimal_ok_def)
    moreover have "n mod 10 \<noteq> 0" using True assms(2) by (metis div_mult_mod_eq add_0 mult_0 less_irrefl)
    ultimately show ?thesis using digit_char_zero [OF d] by simp
  qed (use assms in \<open>auto simp: decimal_ok_def\<close>)
  then show ?thesis
    using assms digit_char [OF d] by (simp add: decimal_ok_def dec_value_snoc)
qed

lemma decimal_buffer_ok:
  "unat n < 10 ^ (10 - index) \<Longrightarrow> decimal_ok (unat n) (10 - index) (decimal_buffer n index)"
proof (induction n index rule: decimal_buffer.induct)
  case (1 n index)
  show ?case
  proof (cases "n > 0 \<and> index < 10")
    case True
    then have l: "10 - index = Suc (10 - (index + 1))" by linarith
    have "unat n < 10 ^ (10 - (index + 1)) * 10" using 1(2) unfolding l by simp
    then have "unat (n div 10) < 10 ^ (10 - (index + 1))"
      by (simp add: unat_div_distrib less_mult_imp_div_less)
    from 1(1) [OF True this]
    have "decimal_ok (unat n div 10) (10 - (index + 1)) (decimal_buffer (n div 10) (index + 1))"
      by (simp add: unat_div_distrib)
    from decimal_ok_Cons [OF this] True have "decimal_ok (unat n) (Suc (10 - (index + 1)))
        (char_of (48 + unat n mod 10) # decimal_buffer (n div 10) (index + 1))"
      by (simp add: unat_gt_0 word_gt_0)
    then show ?thesis
      unfolding l by (subst decimal_buffer.simps) (simp add: True unat_mod_distrib)
  next
    case False
    then have "n = 0"
      using 1(2) by (cases "index < 10") (auto simp: word_gt_0 unat_eq_0)
    then show ?thesis by (subst decimal_buffer.simps) (simp add: decimal_ok_def dec_value_def)
  qed
qed

definition decimal_text :: "u32 \<Rightarrow> string" where
  "decimal_text n = (if n = 0 then ''0'' else rev (decimal_buffer n 0))"

lemma decimal_text_facts:
  "dec_value (decimal_text n) = unat n" "list_all is_digit (decimal_text n)"
  "NUL \<notin> set (decimal_text n)" "decimal_text n \<noteq> []" "length (decimal_text n) \<le> 10"
  "hd (decimal_text n) = CHR ''0'' \<longleftrightarrow> n = 0"
proof -
  have "unat n < 10 ^ (10 - 0)" using unat_u32_bound [of n] by simp
  note b = decimal_buffer_ok [OF this]
  have "n \<noteq> 0 \<Longrightarrow> 0 < unat n" by (simp add: unat_gt_0)
  then show "dec_value (decimal_text n) = unat n" "list_all is_digit (decimal_text n)"
    "NUL \<notin> set (decimal_text n)" "decimal_text n \<noteq> []" "length (decimal_text n) \<le> 10"
    "hd (decimal_text n) = CHR ''0'' \<longleftrightarrow> n = 0"
    using b by (auto simp: decimal_text_def decimal_ok_def hd_rev list_all_iff dec_value_def is_digit_def)
qed

section \<open>Signed characters\<close>

lemma upper_half_bit:
  assumes "128 \<le> (of_char c :: nat)"
  shows "bit (of_char c :: u8) 7"
proof -
  have "digit7 c" using assms by (cases c) (auto simp: of_bool_def split: if_splits)
  then show ?thesis unfolding of_char_def by (simp add: bit_horner_sum_bit_word_iff)
qed

lemma sign_extension_covers:
  assumes "bit (w :: u8) 7"
  shows "drop_bit 8 (scast w OR push_bit 8 (ucast (col :: u8)) :: u16) = 0xFF"
proof -
  have "drop_bit 8 (scast w OR push_bit 8 (ucast col) :: u16) = mask 8"
    by (rule bit_word_eqI) (use assms in \<open>auto simp: bit_simps\<close>)
  then show ?thesis by (simp add: mask_eq_exp_minus_1)
qed

section \<open>Properties\<close>

definition blank_console :: vga_state where
  "blank_console = \<lparr>vga_buffer = (\<lambda>_. 0), cursor_x = 0, cursor_y = 0, current_color = 15\<rparr>"

text \<open>
  C26: writing a text on the console implements the abstract console of 25 rows and 80 columns:
  characters fill the row, a full row or a line feed goes to the next row, the last row
  scrolls. The cursor stays on the screen and no cell outside the screen is written.
\<close>

theorem vga_write_refines:
  assumes "vga_inv s"
  shows "console_of (vga_write str s) = fold console_put str (console_of s) \<and>
    vga_inv (vga_write str s) \<and> same_outside s (vga_write str s)"
  using vga_write_step [OF assms] .

theorem vga_write_refines_witness:
  "vga_inv blank_console \<and>
   column (fold console_put ''ok'' (console_of blank_console)) = 2 \<and>
   unat (cursor_x (vga_write ''ok'' blank_console)) = 2"
proof -
  have i: "vga_inv blank_console" by (simp add: vga_inv_def blank_console_def)
  have "column (fold console_put ''ok'' (console_of blank_console)) = 2"
    by (simp add: console_put_def console_of_def blank_console_def)
  moreover have "unat (cursor_x s) = column (console_of s)" for s by (simp add: console_of_def)
  ultimately show ?thesis using i vga_write_refines [OF i, of "''ok''"] by simp
qed

text \<open>
  \<open>vga_write_u32\<close> writes the decimal digits of its argument, without leading zeros and
  within its buffer of ten digits, and \<open>string_to_uint32\<close> reads them back as the same number.
\<close>

theorem vga_write_u32_roundtrip:
  "\<exists>digits. vga_write_u32 n s = vga_write digits s \<and> length digits \<le> 10 \<and>
     (hd digits = CHR ''0'' \<longleftrightarrow> n = 0) \<and>
     string_to_uint32 (digits @ [NUL]) = Some (Some n)"
proof (intro exI conjI)
  show "vga_write_u32 n s = vga_write (decimal_text n) s"
    by (simp add: vga_write_u32_def vga_write_def decimal_text_def)
  show "string_to_uint32 (decimal_text n @ [NUL]) = Some (Some n)"
    using string_to_uint32_digits [of "[]" "decimal_text n" "[]"] decimal_text_facts [of n] by simp
qed (rule decimal_text_facts)+

text \<open>
  A character of the upper half of the code page sets all eight attribute bits of its cell,
  whatever colour is selected: its sign is extended over the colour.
\<close>

theorem make_entry_upper_half:
  assumes "128 \<le> (of_char c :: nat)"
  shows "drop_bit 8 (make_entry c col) = 0xFF"
  unfolding make_entry_def by (rule sign_extension_covers) (rule upper_half_bit [OF assms])

theorem make_entry_upper_half_witness:
  "drop_bit 8 (make_entry (CHR 0xE9) 0x0F) = 0xFF \<and> drop_bit 8 (make_entry (CHR ''e'') 0x0F) = 0x0F"
proof -
  have "drop_bit 8 (make_entry (CHR ''e'') 0x0F) = 0x0F" by (simp add: make_entry_def)
  then show ?thesis using make_entry_upper_half [of "CHR 0xE9" "0x0F"] by simp
qed

end
