(* ===== verification/Gdt.thy ===== *)
theory Gdt
  imports Kernel_Prelude
begin

text \<open>
  \<^verbatim>\<open>arch/i386/gdt.c\<close> and \<^verbatim>\<open>arch/i386/tss.c\<close>: the segment descriptors and the task state segment.
  Of the task state segment the model keeps the fields the code sets, the others stay zero after
  \<^verbatim>\<open>tss_clear_entry\<close>; the addresses of the two static objects are fields of the state.
  Loading the registers (\<^verbatim>\<open>lgdt\<close>, \<^verbatim>\<open>ltr\<close>) and the log lines are outside the model.
\<close>

section \<open>State and operations\<close>

abbreviation (input) GDT_KERNEL_DATA_SELECTOR :: u16 where "GDT_KERNEL_DATA_SELECTOR \<equiv> 0x10"
abbreviation (input) GDT_TSS_SELECTOR :: u16 where "GDT_TSS_SELECTOR \<equiv> 0x28"
abbreviation (input) TSS_IO_MAP_DISABLED :: u16 where "TSS_IO_MAP_DISABLED \<equiv> 0xFFFF"
abbreviation (input) TSS_ENTRY_SIZE :: u32 where "TSS_ENTRY_SIZE \<equiv> 104"
abbreviation (input) GDT_ENTRIES :: u32 where "GDT_ENTRIES \<equiv> 6"

record gdt_entry =
  limit_low :: u16
  base_low :: u16
  base_middle :: u8
  access :: u8
  granularity :: u8
  base_high :: u8

record tss_info =
  tss_initialized :: bool
  tss_loaded :: bool
  tss_selector :: u16
  ss0 :: u16
  esp0 :: u32
  tss_base :: u32
  tss_limit :: u32
  set_kernel_stack_count :: u32

record gdt_state =
  gdt_entries :: "gdt_entry list"
  gdt_ptr :: "u16 \<times> u32"
  entry_esp0 :: u32
  entry_ss0 :: u32
  entry_iomap_base :: u16
  tss_info :: tss_info
  gdt_entries_address :: u32
  tss_entry_address :: u32

definition tss_initialize :: "gdt_state \<Rightarrow> gdt_state" where
  "tss_initialize s = s\<lparr>entry_ss0 := ucast GDT_KERNEL_DATA_SELECTOR, entry_esp0 := 0,
     entry_iomap_base := TSS_IO_MAP_DISABLED,
     tss_info := \<lparr>tss_initialized = True, tss_loaded = False, tss_selector = GDT_TSS_SELECTOR,
       ss0 = GDT_KERNEL_DATA_SELECTOR, esp0 = 0, tss_base = tss_entry_address s,
       tss_limit = TSS_ENTRY_SIZE - 1, set_kernel_stack_count = 0\<rparr>\<rparr>"

definition ensure_tss :: "gdt_state \<Rightarrow> gdt_state" where
  "ensure_tss s = (if \<not> tss_initialized (tss_info s) then tss_initialize s else s)"

definition tss_load :: "u16 \<Rightarrow> gdt_state \<Rightarrow> gdt_state" where
  "tss_load selector s =
     tss_info_update (\<lambda>t. t\<lparr>tss_loaded := True, tss_selector := selector\<rparr>) (ensure_tss s)"

definition tss_set_kernel_stack :: "u32 \<Rightarrow> gdt_state \<Rightarrow> gdt_state" where
  "tss_set_kernel_stack stack_top s =
     (let s = ensure_tss s;
          s = s\<lparr>entry_esp0 := stack_top, entry_ss0 := ucast GDT_KERNEL_DATA_SELECTOR\<rparr>
      in tss_info_update (\<lambda>t. t\<lparr>esp0 := stack_top, ss0 := GDT_KERNEL_DATA_SELECTOR,
           set_kernel_stack_count := set_kernel_stack_count t + 1\<rparr>) s)"

definition tss_get_base :: "gdt_state \<Rightarrow> u32 \<times> gdt_state" where
  "tss_get_base s = (let s = ensure_tss s in (tss_base (tss_info s), s))"

definition tss_get_limit :: "gdt_state \<Rightarrow> u32 \<times> gdt_state" where
  "tss_get_limit s = (let s = ensure_tss s in (tss_limit (tss_info s), s))"

definition gdt_set_entry :: "u32 \<Rightarrow> u32 \<Rightarrow> u32 \<Rightarrow> u8 \<Rightarrow> u8 \<Rightarrow> gdt_state \<Rightarrow> gdt_state" where
  "gdt_set_entry index base limit acc gran s =
     (if index \<ge> GDT_ENTRIES then s
      else s\<lparr>gdt_entries := (gdt_entries s)[unat index :=
        \<lparr>limit_low = ucast (limit AND 0xFFFF), base_low = ucast (base AND 0xFFFF),
         base_middle = ucast (drop_bit 16 base AND 0xFF), access = acc,
         granularity = ucast (drop_bit 16 limit AND 0x0F) OR (gran AND 0xF0),
         base_high = ucast (drop_bit 24 base AND 0xFF)\<rparr>]\<rparr>)"

definition gdt_initialize :: "gdt_state \<Rightarrow> gdt_state" where
  "gdt_initialize s =
     (let s = tss_initialize s;
          s = s\<lparr>gdt_ptr := (8 * 6 - 1, gdt_entries_address s)\<rparr>;
          s = gdt_set_entry 0 0 0 0 0 s;
          s = gdt_set_entry 1 0 0xFFFFFFFF 0x9A 0xCF s;
          s = gdt_set_entry 2 0 0xFFFFFFFF 0x92 0xCF s;
          s = gdt_set_entry 3 0 0xFFFFFFFF 0xFA 0xCF s;
          s = gdt_set_entry 4 0 0xFFFFFFFF 0xF2 0xCF s;
          (base, s) = tss_get_base s;
          (limit, s) = tss_get_limit s;
          s = gdt_set_entry 5 base limit 0x89 0x00 s
      in tss_load GDT_TSS_SELECTOR s)"

section \<open>What the processor reads\<close>

definition descriptor_base :: "gdt_entry \<Rightarrow> u32" where
  "descriptor_base e = ucast (base_low e) OR push_bit 16 (ucast (base_middle e)) OR push_bit 24 (ucast (base_high e))"

definition descriptor_limit :: "gdt_entry \<Rightarrow> u32" where
  "descriptor_limit e = ucast (limit_low e) OR push_bit 16 (ucast (granularity e AND 0x0F))"

text \<open>The entry in use: the selector without its privilege and table bits.\<close>

definition descriptor :: "u16 \<Rightarrow> gdt_state \<Rightarrow> gdt_entry" where
  "descriptor selector s = gdt_entries s ! unat (drop_bit 3 selector)"

definition descriptor_privilege :: "gdt_entry \<Rightarrow> u8" where
  "descriptor_privilege e = drop_bit 5 (access e) AND 3"

lemma low_masks:
  "(0xFFFF :: 'a::len word) = mask 16" "(0xFF :: 'a::len word) = mask 8" "(0x0F :: 'a::len word) = mask 4"
  by (simp_all add: mask_eq_exp_minus_1)

lemma split_base:
  "ucast (ucast (b AND mask 16) :: u16) OR push_bit 16 (ucast (ucast (drop_bit 16 b AND mask 8) :: u8)) OR
     push_bit 24 (ucast (ucast (drop_bit 24 b AND mask 8) :: u8)) = (b :: u32)"
proof (rule bit_word_eqI)
  fix n assume "n < LENGTH(32)"
  then show "bit (ucast (ucast (b AND mask 16) :: u16) OR
      push_bit 16 (ucast (ucast (drop_bit 16 b AND mask 8) :: u8)) OR
      push_bit 24 (ucast (ucast (drop_bit 24 b AND mask 8) :: u8)) :: u32) n = bit b n"
    by (cases "n < 16"; cases "n < 24") (auto simp: bit_simps)
qed

lemma split_limit:
  "ucast (ucast (l AND mask 16) :: u16) OR
     push_bit 16 (ucast ((ucast (drop_bit 16 l AND mask 4) OR (g AND push_bit 4 (mask 4))) AND mask 4 :: u8)) =
     (l AND mask 20 :: u32)"
  by (rule bit_word_eqI) (auto simp: bit_simps)

lemma set_entry_fields:
  assumes "length (gdt_entries s) = 6" "i < 6"
  shows "let e = gdt_entries (gdt_set_entry i b l acc gran s) ! unat i
    in descriptor_base e = b \<and> descriptor_limit e = l AND mask 20 \<and> access e = acc"
proof -
  have i: "unat i < 6" "\<not> 6 \<le> i" using assms(2) by (simp_all add: word_less_nat_alt not_le)
  have f0: "(0xF0 :: u8) = push_bit 4 (mask 4)" by (simp add: mask_eq_exp_minus_1)
  show ?thesis
    unfolding gdt_set_entry_def if_not_P [OF i(2)] using assms(1) i(1)
    by (simp add: Let_def descriptor_base_def descriptor_limit_def)
      (simp add: low_masks f0 split_base split_limit)
qed

lemma length_set_entry [simp]:
  "length (gdt_entries (gdt_set_entry i b l acc gran s)) = length (gdt_entries s)"
  by (simp add: gdt_set_entry_def)

lemma set_entry_other:
  "j \<noteq> unat i \<Longrightarrow> gdt_entries (gdt_set_entry i b l acc gran s) ! j = gdt_entries s ! j"
  by (simp add: gdt_set_entry_def)

lemma set_entry_tss [simp]:
  "tss_info (gdt_set_entry i b l acc gran s) = tss_info s"
  "tss_entry_address (gdt_set_entry i b l acc gran s) = tss_entry_address s"
  by (simp_all add: gdt_set_entry_def)

section \<open>Properties\<close>

definition blank_gdt :: gdt_state where
  "blank_gdt = \<lparr>gdt_entries = replicate 6 \<lparr>limit_low = 0, base_low = 0, base_middle = 0, access = 0,
       granularity = 0, base_high = 0\<rparr>, gdt_ptr = (0, 0), entry_esp0 = 0, entry_ss0 = 0,
     entry_iomap_base = 0,
     tss_info = \<lparr>tss_initialized = False, tss_loaded = False, tss_selector = 0, ss0 = 0, esp0 = 0,
       tss_base = 0, tss_limit = 0, set_kernel_stack_count = 0\<rparr>,
     gdt_entries_address = 0x109000, tss_entry_address = 0x12345678\<rparr>"



end
