(* ===== verification/Vfs.thy ===== *)
theory Vfs
  imports Kernel_String Kernel_Status
begin

text \<open>
  \<^verbatim>\<open>fs/vfs.c\<close> and \<^verbatim>\<open>fs/initramfs.c\<close>: the read-only file tree of the i386 kernel.

  The nodes are static objects linked by pointers and never change after
  \<^verbatim>\<open>initramfs_define_nodes\<close>, so a node is a value of the datatype \<open>vfs_node\<close> with its
  children inside it; \<^verbatim>\<open>child_count\<close> is the length of the child array, and \<^verbatim>\<open>parent\<close>, which
  nothing reads, is left out. The child arrays hold addresses of such nodes and the names are
  literals, so the two NULL tests inside the child loop have no counterpart. Paths and names
  are the characters before the terminator, and the character arrays of the statistics are
  kept as the string they hold (\<open>bounded_copy\<close>, the effect of \<^verbatim>\<open>string_copy\<close> proved in
  \<open>Kernel_String\<close>). A pointer argument that a caller may pass as NULL is an \<open>option\<close>; out
  pointers, always addresses of locals, are results.

  The user programs linked into the image are assembled from other files: their bytes are the
  argument \<open>images\<close>.
\<close>

section \<open>State\<close>

datatype vfs_node_type = VFS_NODE_DIRECTORY | VFS_NODE_FILE | VFS_NODE_DEVICE

datatype vfs_node = Vfs_Node
  (vn_name: string) (vn_path: string) (vn_type: vfs_node_type) (vn_data: "u8 list option")
  (vn_size: u32) (vn_mode: u32) (vn_flags: u32) (vn_children: "vfs_node list")

definition node_type_code :: "vfs_node_type \<Rightarrow> u32" where
  "node_type_code t = (case t of VFS_NODE_DIRECTORY \<Rightarrow> 1 | VFS_NODE_FILE \<Rightarrow> 2 | VFS_NODE_DEVICE \<Rightarrow> 3)"

definition child_count :: "vfs_node \<Rightarrow> u32" where
  "child_count node = of_nat (length (vn_children node))"

record vfs_stat =
  stat_type :: u32
  stat_size :: u32
  stat_mode :: u32
  stat_flags :: u32
  stat_child_count :: u32

record vfs_info =
  vi_initialized :: bool
  mounted_nodes :: u32
  lookup_attempts :: u32
  lookup_failures :: u32
  read_attempts :: u32
  read_failures :: u32
  vi_last_status :: kernel_status
  vi_last_path :: string

record initramfs_info =
  ri_initialized :: bool
  ri_last_status :: kernel_status
  node_count :: u32
  mount_count :: u32

record vfs_state =
  vfs_root :: "vfs_node option"
  vfs_info :: vfs_info
  initramfs_info :: initramfs_info

abbreviation (input) VFS_PATH_MAX :: nat where "VFS_PATH_MAX \<equiv> 128"
abbreviation (input) VFS_READ_CHUNK_MAX :: u32 where "VFS_READ_CHUNK_MAX \<equiv> 512"
abbreviation (input) SLASH :: char where "SLASH \<equiv> CHR ''/''"

section \<open>The file tree\<close>

definition vfs_set_last_status :: "kernel_status \<Rightarrow> 'a vfs_state_scheme \<Rightarrow> 'a vfs_state_scheme" where
  "vfs_set_last_status status = vfs_info_update (vi_last_status_update (\<lambda>_. status))"

definition vfs_initialize :: "'a vfs_state_scheme \<Rightarrow> 'a vfs_state_scheme" where
  "vfs_initialize s = s\<lparr>vfs_root := None,
     vfs_info := \<lparr>vi_initialized = True, mounted_nodes = 0, lookup_attempts = 0, lookup_failures = 0,
       read_attempts = 0, read_failures = 0, vi_last_status = KERNEL_OK, vi_last_path = []\<rparr>\<rparr>"

fun vfs_count_nodes_recursive :: "vfs_node \<Rightarrow> u32" where
  "vfs_count_nodes_recursive (Vfs_Node n p t d z m f children) =
     1 + sum_list (map vfs_count_nodes_recursive children)"

definition vfs_mount_static_tree ::
  "vfs_node option \<Rightarrow> 'a vfs_state_scheme \<Rightarrow> kernel_status \<times> 'a vfs_state_scheme" where
  "vfs_mount_static_tree root s =
     (if \<not> vi_initialized (vfs_info s) then (KERNEL_ERROR_NOT_INITIALIZED, s)
      else case root of
          None \<Rightarrow> (KERNEL_ERROR_INVALID_ARGUMENT, vfs_set_last_status KERNEL_ERROR_INVALID_ARGUMENT s)
        | Some node \<Rightarrow>
          if vn_type node \<noteq> VFS_NODE_DIRECTORY
          then (KERNEL_ERROR_INVALID_ARGUMENT, vfs_set_last_status KERNEL_ERROR_INVALID_ARGUMENT s)
          else
            let s = s\<lparr>vfs_root := Some node\<rparr>;
                s = vfs_info_update (mounted_nodes_update (\<lambda>_. vfs_count_nodes_recursive node)) s
            in (KERNEL_OK, vfs_set_last_status KERNEL_OK s))"

definition vfs_path_is_root :: "string \<Rightarrow> bool" where
  "vfs_path_is_root path \<longleftrightarrow> path = [SLASH]"

text \<open>
  The name to look for is the first \<open>name_length\<close> characters at the pointer \<open>name\<close> into the
  path.
\<close>

definition name_matches :: "string \<Rightarrow> nat \<Rightarrow> vfs_node \<Rightarrow> bool" where
  "name_matches name name_length child \<longleftrightarrow>
     length (vn_name child) = name_length \<and>
     list_all (\<lambda>j. vn_name child ! j = name ! j) [0..<name_length]"

definition vfs_find_child :: "vfs_node \<Rightarrow> string \<Rightarrow> nat \<Rightarrow> kernel_status \<times> vfs_node option" where
  "vfs_find_child directory name name_length =
     (if vn_type directory \<noteq> VFS_NODE_DIRECTORY then (KERNEL_ERROR_INVALID_STATE, None)
      else case find (name_matches name name_length) (vn_children directory) of
          Some child \<Rightarrow> (KERNEL_OK, Some child)
        | None \<Rightarrow> (KERNEL_ERROR_NOT_FOUND, None))"

text \<open>The loop of \<^verbatim>\<open>vfs_lookup\<close>; \<open>cursor\<close> is the rest of the path at \<^verbatim>\<open>index\<close>.\<close>

function vfs_walk :: "vfs_node \<Rightarrow> string \<Rightarrow> kernel_status \<times> vfs_node option" where
  "vfs_walk current cursor =
     (if cursor = [] then (KERNEL_OK, Some current)
      else
        let start = dropWhile (\<lambda>c. c = SLASH) cursor
        in if start = [] then (KERNEL_OK, Some current)
           else
             let len = length (takeWhile (\<lambda>c. c \<noteq> SLASH) start)
             in case vfs_find_child current start len of
                  (status, None) \<Rightarrow> (status, None)
                | (status, Some next) \<Rightarrow>
                  if status \<noteq> KERNEL_OK then (status, None) else vfs_walk next (drop len start))"
  by pat_completeness auto
termination
proof (relation "measure (\<lambda>(n, c). length c)", simp, goal_cases)
  case (1 current cursor start len a b child)
  have "hd start \<noteq> SLASH" using 1(2,3) hd_dropWhile [of "\<lambda>c. c = SLASH" cursor] by simp
  then have "0 < len" using 1(3,4) by (simp add: takeWhile_eq_Nil_iff)
  moreover have "length start \<le> length cursor" using 1(2) length_dropWhile_le by simp
  moreover have "length start - len < length start" using 1(3) \<open>0 < len\<close> by (simp add: diff_less)
  ultimately show ?case by simp
qed

declare vfs_walk.simps [simp del]

definition vfs_lookup ::
  "string option \<Rightarrow> 'a vfs_state_scheme \<Rightarrow> (kernel_status \<times> vfs_node option) \<times> 'a vfs_state_scheme" where
  "vfs_lookup path s =
     (if \<not> vi_initialized (vfs_info s) then ((KERNEL_ERROR_NOT_INITIALIZED, None), s)
      else case path of
          None \<Rightarrow> ((KERNEL_ERROR_INVALID_ARGUMENT, None), vfs_set_last_status KERNEL_ERROR_INVALID_ARGUMENT s)
        | Some path \<Rightarrow>
          let s = vfs_info_update (lookup_attempts_update (\<lambda>n. n + 1)) s;
              s = vfs_info_update (vi_last_path_update (\<lambda>_. bounded_copy VFS_PATH_MAX path)) s;
              fail = (\<lambda>status. ((status, None),
                vfs_set_last_status status (vfs_info_update (lookup_failures_update (\<lambda>n. n + 1)) s)))
          in case vfs_root s of
               None \<Rightarrow> fail KERNEL_ERROR_NOT_INITIALIZED
             | Some root \<Rightarrow>
               if path = [] \<or> hd path \<noteq> SLASH then fail KERNEL_ERROR_INVALID_ARGUMENT
               else if vfs_path_is_root path then ((KERNEL_OK, Some root), vfs_set_last_status KERNEL_OK s)
               else
                 (case vfs_walk root (tl path) of
                    (status, Some node) \<Rightarrow> ((KERNEL_OK, Some node), vfs_set_last_status KERNEL_OK s)
                  | (status, None) \<Rightarrow> fail status))"

definition vfs_read_file ::
  "string option \<Rightarrow> 'a vfs_state_scheme \<Rightarrow>
     (kernel_status \<times> (u8 list option \<times> u32) option) \<times> 'a vfs_state_scheme" where
  "vfs_read_file path s =
     (if path = None
      then ((KERNEL_ERROR_INVALID_ARGUMENT, None), vfs_set_last_status KERNEL_ERROR_INVALID_ARGUMENT s)
      else
        let s = vfs_info_update (read_attempts_update (\<lambda>n. n + 1)) s;
            ((status, node), s) = vfs_lookup path s;
            fail = (\<lambda>status. ((status, None),
              vfs_set_last_status status (vfs_info_update (read_failures_update (\<lambda>n. n + 1)) s)))
        in if status \<noteq> KERNEL_OK then fail status
           else if vn_type (the node) \<noteq> VFS_NODE_FILE then fail KERNEL_ERROR_INVALID_STATE
           else ((KERNEL_OK, Some (vn_data (the node), vn_size (the node))), vfs_set_last_status KERNEL_OK s))"

text \<open>
  \<^verbatim>\<open>vfs_read_node\<close> returns its status and the bytes it stored at the start of the buffer;
  \<^verbatim>\<open>*out_bytes_read\<close> is their number.
\<close>

definition vfs_read_node ::
  "vfs_node option \<Rightarrow> u32 \<Rightarrow> u32 \<Rightarrow> 'a vfs_state_scheme \<Rightarrow>
     (kernel_status \<times> u8 list) \<times> 'a vfs_state_scheme" where
  "vfs_read_node node offset len s =
     (let fail = (\<lambda>status s. ((status, []),
            vfs_set_last_status status (vfs_info_update (read_failures_update (\<lambda>n. n + 1)) s)))
      in if \<not> vi_initialized (vfs_info s) then fail KERNEL_ERROR_NOT_INITIALIZED s
         else
           let s = vfs_info_update (read_attempts_update (\<lambda>n. n + 1)) s
           in case node of
                None \<Rightarrow> fail KERNEL_ERROR_INVALID_ARGUMENT s
              | Some node \<Rightarrow>
                if vn_type node \<noteq> VFS_NODE_FILE then fail KERNEL_ERROR_INVALID_STATE s
                else
                  (case vn_data node of
                     None \<Rightarrow> ((KERNEL_OK, []), vfs_set_last_status KERNEL_OK s)
                   | Some data \<Rightarrow>
                     if offset \<ge> vn_size node \<or> len = 0
                     then ((KERNEL_OK, []), vfs_set_last_status KERNEL_OK s)
                     else
                       let available = vn_size node - offset;
                           bytes_to_read = (if len > available then available else len);
                           bytes_to_read = (if bytes_to_read > VFS_READ_CHUNK_MAX
                                            then VFS_READ_CHUNK_MAX else bytes_to_read)
                       in ((KERNEL_OK, map (\<lambda>i. data ! unat (offset + of_nat i)) [0..<unat bytes_to_read]),
                           vfs_set_last_status KERNEL_OK s)))"

definition vfs_stat_node ::
  "vfs_node option \<Rightarrow> 'a vfs_state_scheme \<Rightarrow> (kernel_status \<times> vfs_stat option) \<times> 'a vfs_state_scheme" where
  "vfs_stat_node node s =
     (case node of
        None \<Rightarrow> ((KERNEL_ERROR_INVALID_ARGUMENT, None), vfs_set_last_status KERNEL_ERROR_INVALID_ARGUMENT s)
      | Some node \<Rightarrow>
        ((KERNEL_OK, Some \<lparr>stat_type = node_type_code (vn_type node), stat_size = vn_size node,
            stat_mode = vn_mode node, stat_flags = vn_flags node, stat_child_count = child_count node\<rparr>),
         vfs_set_last_status KERNEL_OK s))"

definition vfs_stat_path ::
  "string option \<Rightarrow> 'a vfs_state_scheme \<Rightarrow> (kernel_status \<times> vfs_stat option) \<times> 'a vfs_state_scheme" where
  "vfs_stat_path path s =
     (let ((status, node), s) = vfs_lookup path s
      in if status \<noteq> KERNEL_OK then ((status, None), s) else vfs_stat_node node s)"

definition vfs_list_directory ::
  "string option \<Rightarrow> 'a vfs_state_scheme \<Rightarrow>
     (kernel_status \<times> (vfs_node list \<times> u32) option) \<times> 'a vfs_state_scheme" where
  "vfs_list_directory path s =
     (if path = None
      then ((KERNEL_ERROR_INVALID_ARGUMENT, None), vfs_set_last_status KERNEL_ERROR_INVALID_ARGUMENT s)
      else
        let ((status, node), s) = vfs_lookup path s
        in if status \<noteq> KERNEL_OK then ((status, None), s)
           else if vn_type (the node) \<noteq> VFS_NODE_DIRECTORY
           then ((KERNEL_ERROR_INVALID_STATE, None), vfs_set_last_status KERNEL_ERROR_INVALID_STATE s)
           else ((KERNEL_OK, Some (vn_children (the node), child_count (the node))),
                 vfs_set_last_status KERNEL_OK s))"

definition vfs_node_type_name :: "vfs_node_type \<Rightarrow> string" where
  "vfs_node_type_name t =
     (case t of VFS_NODE_DIRECTORY \<Rightarrow> ''dir'' | VFS_NODE_FILE \<Rightarrow> ''file'' | VFS_NODE_DEVICE \<Rightarrow> ''device'')"

section \<open>The initial file tree\<close>

text \<open>The linker symbols of the user programs.\<close>

datatype user_image_label = IMG_user | IMG_hello | IMG_syscheck | IMG_sysbadptr | IMG_pid | IMG_ticks | IMG_about | IMG_os_release | IMG_cat | IMG_clear | IMG_help | IMG_uptime | IMG_args | IMG_echo | IMG_sh

definition bytes :: "string \<Rightarrow> u8 list" where
  "bytes = map of_char"

definition os_release_data :: "u8 list" where
  "os_release_data = bytes
     (''NAME='' @ [CHR 0x22] @ ''Liam OS'' @ [CHR 0x22, CHR 0x0A] @
      ''VERSION='' @ [CHR 0x22] @ ''0.8.69-dev'' @ [CHR 0x22, CHR 0x0A] @
      ''CODENAME='' @ [CHR 0x22] @ ''Genesis'' @ [CHR 0x22, CHR 0x0A] @
      ''ARCH='' @ [CHR 0x22] @ ''i386'' @ [CHR 0x22, CHR 0x0A])"

definition console_device_data :: "u8 list" where
  "console_device_data = bytes (''console device'' @ [CHR 0x0A])"

definition elf32_sample_data :: "u8 list" where
  "elf32_sample_data =
     [0x7F, 0x45, 0x4C, 0x46, 0x01, 0x01, 0x01, 0x00, 0x00, 0x00, 0x00, 0x00, 0x00, 0x00, 0x00, 0x00,
      0x02, 0x00, 0x03, 0x00, 0x01, 0x00, 0x00, 0x00, 0x00, 0x00, 0x10, 0x10, 0x34, 0x00, 0x00, 0x00,
      0x00, 0x00, 0x00, 0x00, 0x00, 0x00, 0x00, 0x00, 0x34, 0x00, 0x20, 0x00, 0x00, 0x00, 0x00, 0x00,
      0x00, 0x00, 0x00, 0x00]"

definition hello_elf_data :: "u8 list" where
  "hello_elf_data =
     [0x7F, 0x45, 0x4C, 0x46, 0x01, 0x01, 0x01, 0x00, 0x00, 0x00, 0x00, 0x00, 0x00, 0x00, 0x00, 0x00,
      0x02, 0x00, 0x03, 0x00, 0x01, 0x00, 0x00, 0x00, 0x00, 0x00, 0x00, 0x10, 0x34, 0x00, 0x00, 0x00,
      0x00, 0x00, 0x00, 0x00, 0x00, 0x00, 0x00, 0x00, 0x34, 0x00, 0x20, 0x00, 0x01, 0x00, 0x00, 0x00,
      0x00, 0x00, 0x00, 0x00, 0x01, 0x00, 0x00, 0x00, 0x54, 0x00, 0x00, 0x00, 0x00, 0x00, 0x00, 0x10,
      0x00, 0x00, 0x00, 0x10, 0x5C, 0x00, 0x00, 0x00, 0x5C, 0x00, 0x00, 0x00, 0x05, 0x00, 0x00, 0x00,
      0x00, 0x10, 0x00, 0x00, 0xE8, 0x00, 0x00, 0x00, 0x00, 0x5E, 0x89, 0xF3, 0x83, 0xC3, 0x2F, 0xB9,
      0x28, 0x00, 0x00, 0x00, 0xBA, 0x00, 0x00, 0x00, 0x00, 0xB8, 0x02, 0x00, 0x00, 0x00, 0xCD, 0x80,
      0xBB, 0x00, 0x00, 0x00, 0x00, 0xB9, 0x00, 0x00, 0x00, 0x00, 0xBA, 0x00, 0x00, 0x00, 0x00, 0xB8,
      0x01, 0x00, 0x00, 0x00, 0xCD, 0x80, 0x0F, 0x0B, 0x68, 0x65, 0x6C, 0x6C, 0x6F, 0x3A, 0x20, 0x45,
      0x4C, 0x46, 0x33, 0x32, 0x20, 0x75, 0x73, 0x65, 0x72, 0x73, 0x70, 0x61, 0x63, 0x65, 0x20, 0x70,
      0x72, 0x6F, 0x67, 0x72, 0x61, 0x6D, 0x20, 0x65, 0x78, 0x65, 0x63, 0x75, 0x74, 0x65, 0x64, 0x0A]"

definition init_node :: "(user_image_label \<Rightarrow> u8 list) \<Rightarrow> vfs_node" where
  "init_node images = Vfs_Node ''init'' ''/sbin/init'' VFS_NODE_FILE (Some (images IMG_user)) (of_nat (length (images IMG_user))) 493 0
     []"

definition hello_node :: "(user_image_label \<Rightarrow> u8 list) \<Rightarrow> vfs_node" where
  "hello_node images = Vfs_Node ''hello'' ''/bin/hello'' VFS_NODE_FILE (Some (images IMG_hello)) (of_nat (length (images IMG_hello))) 493 0
     []"

definition hello_elf_node :: "vfs_node" where
  "hello_elf_node = Vfs_Node ''hello-elf'' ''/bin/hello-elf'' VFS_NODE_FILE (Some hello_elf_data) (of_nat (length hello_elf_data)) 493 0
     []"

definition syscheck_node :: "(user_image_label \<Rightarrow> u8 list) \<Rightarrow> vfs_node" where
  "syscheck_node images = Vfs_Node ''syscheck'' ''/bin/syscheck'' VFS_NODE_FILE (Some (images IMG_syscheck)) (of_nat (length (images IMG_syscheck))) 493 0
     []"

definition sysbadptr_node :: "(user_image_label \<Rightarrow> u8 list) \<Rightarrow> vfs_node" where
  "sysbadptr_node images = Vfs_Node ''sysbadptr'' ''/bin/sysbadptr'' VFS_NODE_FILE (Some (images IMG_sysbadptr)) (of_nat (length (images IMG_sysbadptr))) 493 0
     []"

definition pid_node :: "(user_image_label \<Rightarrow> u8 list) \<Rightarrow> vfs_node" where
  "pid_node images = Vfs_Node ''pid'' ''/bin/pid'' VFS_NODE_FILE (Some (images IMG_pid)) (of_nat (length (images IMG_pid))) 493 0
     []"

definition ticks_node :: "(user_image_label \<Rightarrow> u8 list) \<Rightarrow> vfs_node" where
  "ticks_node images = Vfs_Node ''ticks'' ''/bin/ticks'' VFS_NODE_FILE (Some (images IMG_ticks)) (of_nat (length (images IMG_ticks))) 493 0
     []"

definition about_node :: "(user_image_label \<Rightarrow> u8 list) \<Rightarrow> vfs_node" where
  "about_node images = Vfs_Node ''about'' ''/bin/about'' VFS_NODE_FILE (Some (images IMG_about)) (of_nat (length (images IMG_about))) 493 0
     []"

definition os_release_program_node :: "(user_image_label \<Rightarrow> u8 list) \<Rightarrow> vfs_node" where
  "os_release_program_node images = Vfs_Node ''os-release'' ''/bin/os-release'' VFS_NODE_FILE (Some (images IMG_os_release)) (of_nat (length (images IMG_os_release))) 493 0
     []"

definition cat_node :: "(user_image_label \<Rightarrow> u8 list) \<Rightarrow> vfs_node" where
  "cat_node images = Vfs_Node ''cat'' ''/bin/cat'' VFS_NODE_FILE (Some (images IMG_cat)) (of_nat (length (images IMG_cat))) 493 0
     []"

definition clear_node :: "(user_image_label \<Rightarrow> u8 list) \<Rightarrow> vfs_node" where
  "clear_node images = Vfs_Node ''clear'' ''/bin/clear'' VFS_NODE_FILE (Some (images IMG_clear)) (of_nat (length (images IMG_clear))) 493 0
     []"

definition help_node :: "(user_image_label \<Rightarrow> u8 list) \<Rightarrow> vfs_node" where
  "help_node images = Vfs_Node ''help'' ''/bin/help'' VFS_NODE_FILE (Some (images IMG_help)) (of_nat (length (images IMG_help))) 493 0
     []"

definition uptime_node :: "(user_image_label \<Rightarrow> u8 list) \<Rightarrow> vfs_node" where
  "uptime_node images = Vfs_Node ''uptime'' ''/bin/uptime'' VFS_NODE_FILE (Some (images IMG_uptime)) (of_nat (length (images IMG_uptime))) 493 0
     []"

definition args_node :: "(user_image_label \<Rightarrow> u8 list) \<Rightarrow> vfs_node" where
  "args_node images = Vfs_Node ''args'' ''/bin/args'' VFS_NODE_FILE (Some (images IMG_args)) (of_nat (length (images IMG_args))) 493 0
     []"

definition echo_node :: "(user_image_label \<Rightarrow> u8 list) \<Rightarrow> vfs_node" where
  "echo_node images = Vfs_Node ''echo'' ''/bin/echo'' VFS_NODE_FILE (Some (images IMG_echo)) (of_nat (length (images IMG_echo))) 493 0
     []"

definition sh_node :: "(user_image_label \<Rightarrow> u8 list) \<Rightarrow> vfs_node" where
  "sh_node images = Vfs_Node ''sh'' ''/bin/sh'' VFS_NODE_FILE (Some (images IMG_sh)) (of_nat (length (images IMG_sh))) 493 0
     []"

definition os_release_node :: "vfs_node" where
  "os_release_node = Vfs_Node ''os-release'' ''/etc/os-release'' VFS_NODE_FILE (Some os_release_data) (of_nat (length os_release_data)) 420 0
     []"

definition console_node :: "vfs_node" where
  "console_node = Vfs_Node ''console'' ''/dev/console'' VFS_NODE_DEVICE (Some console_device_data) (of_nat (length console_device_data)) 384 0
     []"

definition elf32_sample_node :: "vfs_node" where
  "elf32_sample_node = Vfs_Node ''elf32-sample'' ''/tests/elf32-sample'' VFS_NODE_FILE (Some elf32_sample_data) (of_nat (length elf32_sample_data)) 420 0
     []"

definition sbin_node :: "(user_image_label \<Rightarrow> u8 list) \<Rightarrow> vfs_node" where
  "sbin_node images = Vfs_Node ''sbin'' ''/sbin'' VFS_NODE_DIRECTORY None 0 493 0
     [init_node images]"

definition bin_node :: "(user_image_label \<Rightarrow> u8 list) \<Rightarrow> vfs_node" where
  "bin_node images = Vfs_Node ''bin'' ''/bin'' VFS_NODE_DIRECTORY None 0 493 0
     [hello_node images, hello_elf_node, syscheck_node images, sysbadptr_node images, pid_node images, ticks_node images, about_node images, os_release_program_node images, cat_node images, clear_node images, help_node images, uptime_node images, args_node images, echo_node images, sh_node images]"

definition etc_node :: "vfs_node" where
  "etc_node = Vfs_Node ''etc'' ''/etc'' VFS_NODE_DIRECTORY None 0 493 0
     [os_release_node]"

definition dev_node :: "vfs_node" where
  "dev_node = Vfs_Node ''dev'' ''/dev'' VFS_NODE_DIRECTORY None 0 493 0
     [console_node]"

definition tests_node :: "vfs_node" where
  "tests_node = Vfs_Node ''tests'' ''/tests'' VFS_NODE_DIRECTORY None 0 493 0
     [elf32_sample_node]"

definition root_node :: "(user_image_label \<Rightarrow> u8 list) \<Rightarrow> vfs_node" where
  "root_node images = Vfs_Node [] ''/'' VFS_NODE_DIRECTORY None 0 493 0
     [sbin_node images, bin_node images, etc_node, dev_node, tests_node]"

text \<open>\<^verbatim>\<open>initramfs_define_nodes\<close> fills the static nodes; the tree below \<^verbatim>\<open>root_node\<close> is the result.\<close>

definition initramfs_define_nodes :: "(user_image_label \<Rightarrow> u8 list) \<Rightarrow> vfs_node" where
  "initramfs_define_nodes images = root_node images"

definition initramfs_initialize :: "'a vfs_state_scheme \<Rightarrow> 'a vfs_state_scheme" where
  "initramfs_initialize s = s\<lparr>initramfs_info :=
     \<lparr>ri_initialized = True, ri_last_status = KERNEL_OK, node_count = 25, mount_count = 0\<rparr>\<rparr>"

definition initramfs_mount ::
  "(user_image_label \<Rightarrow> u8 list) \<Rightarrow> 'a vfs_state_scheme \<Rightarrow> kernel_status \<times> 'a vfs_state_scheme" where
  "initramfs_mount images s =
     (if \<not> ri_initialized (initramfs_info s)
      then (KERNEL_ERROR_NOT_INITIALIZED,
            initramfs_info_update (ri_last_status_update (\<lambda>_. KERNEL_ERROR_NOT_INITIALIZED)) s)
      else
        let (status, s) = vfs_mount_static_tree (Some (initramfs_define_nodes images)) s;
            s = initramfs_info_update (ri_last_status_update (\<lambda>_. status)) s;
            s = (if status = KERNEL_OK then initramfs_info_update (mount_count_update (\<lambda>n. n + 1)) s else s)
        in (status, s))"

section \<open>Paths as lists of names\<close>

fun split_slash :: "string \<Rightarrow> string list" where
  "split_slash [] = [[]]"
| "split_slash (c # cs) =
     (if c = SLASH then [] # split_slash cs
      else case split_slash cs of [] \<Rightarrow> [[c]] | w # ws \<Rightarrow> (c # w) # ws)"

definition path_components :: "string \<Rightarrow> string list" where
  "path_components path = filter (\<lambda>w. w \<noteq> []) (split_slash path)"

text \<open>The abstract lookup: follow the names one by one.\<close>

fun resolve :: "vfs_node \<Rightarrow> string list \<Rightarrow> kernel_status \<times> vfs_node option" where
  "resolve node [] = (KERNEL_OK, Some node)"
| "resolve node (w # ws) =
     (if vn_type node \<noteq> VFS_NODE_DIRECTORY then (KERNEL_ERROR_INVALID_STATE, None)
      else case find (\<lambda>c. vn_name c = w) (vn_children node) of
          None \<Rightarrow> (KERNEL_ERROR_NOT_FOUND, None)
        | Some child \<Rightarrow> resolve child ws)"

lemma split_slash_ne [simp]: "split_slash p \<noteq> []"
  by (induction p) (auto split: list.splits)

lemma split_slash_word:
  "SLASH \<notin> set w \<Longrightarrow> split_slash (w @ p) = (w @ hd (split_slash p)) # tl (split_slash p)"
proof (induction w)
  case Nil
  then show ?case by (simp add: hd_Cons_tl)
qed auto

lemma components_simps [simp]:
  "path_components [] = []" "path_components (SLASH # p) = path_components p"
  by (simp_all add: path_components_def)

lemma components_skip: "path_components (dropWhile (\<lambda>c. c = SLASH) p) = path_components p"
  by (induction p) auto

lemma components_word:
  assumes "SLASH \<notin> set w" "w \<noteq> []" "p = [] \<or> hd p = SLASH"
  shows "path_components (w @ p) = w # path_components p"
  using assms split_slash_word [OF assms(1), of "[]"] split_slash_word [OF assms(1), of p]
  by (cases p) (auto simp: path_components_def)

lemma name_matches_iff:
  assumes "n \<le> length name"
  shows "name_matches name n child \<longleftrightarrow> vn_name child = take n name"
proof
  assume "name_matches name n child"
  then show "vn_name child = take n name"
    using assms by (intro nth_equalityI) (auto simp: name_matches_def list_all_iff)
qed (use assms in \<open>auto simp: name_matches_def list_all_iff\<close>)

lemma find_cong_pred: "(\<And>x. P x = Q x) \<Longrightarrow> find P xs = find Q xs"
  by (induction xs) auto

lemma vfs_find_child_eq:
  assumes "n \<le> length name"
  shows "vfs_find_child node name n =
     (if vn_type node \<noteq> VFS_NODE_DIRECTORY then (KERNEL_ERROR_INVALID_STATE, None)
      else case find (\<lambda>c. vn_name c = take n name) (vn_children node) of
          Some child \<Rightarrow> (KERNEL_OK, Some child)
        | None \<Rightarrow> (KERNEL_ERROR_NOT_FOUND, None))"
  using find_cong_pred [of "name_matches name n", OF name_matches_iff [OF assms]]
  by (simp add: vfs_find_child_def)

lemma vfs_walk_resolve: "vfs_walk node cursor = resolve node (path_components cursor)"
proof (induction node cursor rule: vfs_walk.induct)
  case (1 current cursor)
  define start where "start = dropWhile (\<lambda>c. c = SLASH) cursor"
  define w where "w = takeWhile (\<lambda>c. c \<noteq> SLASH) start"
  have pc: "path_components cursor = path_components start" by (simp add: start_def components_skip)
  show ?case
  proof (cases "start = []")
    case True
    then show ?thesis
      by (subst vfs_walk.simps) (simp add: pc, simp add: start_def)
  next
    case False
    then have ne: "cursor \<noteq> []" by (auto simp: start_def)
    have split: "start = w @ drop (length w) start" by (simp add: w_def dropWhile_eq_drop [symmetric])
    have wn: "w \<noteq> []" "SLASH \<notin> set w"
      using False hd_dropWhile [of "\<lambda>c. c = SLASH" cursor] set_takeWhileD
      by (cases start; fastforce simp: w_def start_def)+
    have "drop (length w) start = [] \<or> hd (drop (length w) start) = SLASH"
      using hd_dropWhile [of "\<lambda>c. c \<noteq> SLASH" start] by (auto simp: w_def dropWhile_eq_drop [symmetric])
    then have comps: "path_components start = w # path_components (drop (length w) start)"
      using components_word [OF wn(2,1)] split by metis
    have "take (length w) start = w" using split by (metis append_eq_conv_conj)
    moreover have "length w \<le> length start" by (simp add: w_def length_takeWhile_le)
    ultimately have fc: "vfs_find_child current start (length w) =
       (if vn_type current \<noteq> VFS_NODE_DIRECTORY then (KERNEL_ERROR_INVALID_STATE, None)
        else case find (\<lambda>c. vn_name c = w) (vn_children current) of
            Some child \<Rightarrow> (KERNEL_OK, Some child) | None \<Rightarrow> (KERNEL_ERROR_NOT_FOUND, None))"
      using vfs_find_child_eq [of "length w" start current] by simp
    have IH: "vfs_walk child (drop (length w) start) = resolve child (path_components (drop (length w) start))"
      if "vfs_find_child current start (length w) = (KERNEL_OK, Some child)" for child
      using 1 [OF ne start_def False, of "length w"] that
      by (simp add: w_def)
    have "vfs_walk current cursor = (case vfs_find_child current start (length w) of
        (status, None) \<Rightarrow> (status, None)
      | (status, Some child) \<Rightarrow>
        if status \<noteq> KERNEL_OK then (status, None) else vfs_walk child (drop (length w) start))"
      by (subst vfs_walk.simps)
        (simp add: ne False start_def [symmetric] w_def [symmetric] Let_def)
    then show ?thesis
      using IH by (auto simp: pc comps fc split: option.splits if_splits)
  qed
qed

text \<open>A lookup returns a node exactly when its status is \<^verbatim>\<open>KERNEL_OK\<close>.\<close>

lemma resolve_status: "resolve node ws = (status, res) \<Longrightarrow> res = None \<longleftrightarrow> status \<noteq> KERNEL_OK"
  by (induction node ws rule: resolve.induct) (auto split: if_splits option.splits)

definition lookup_result :: "vfs_node option \<Rightarrow> string \<Rightarrow> kernel_status \<times> vfs_node option" where
  "lookup_result root path =
     (case root of
        None \<Rightarrow> (KERNEL_ERROR_NOT_INITIALIZED, None)
      | Some node \<Rightarrow>
        if path = [] \<or> hd path \<noteq> SLASH then (KERNEL_ERROR_INVALID_ARGUMENT, None)
        else resolve node (path_components path))"

lemma components_root: "hd path = SLASH \<Longrightarrow> path \<noteq> [] \<Longrightarrow> path_components path = path_components (tl path)"
  by (cases path) auto

lemma vfs_lookup_fst:
  assumes "vi_initialized (vfs_info s)"
  shows "fst (vfs_lookup (Some path) s) = lookup_result (vfs_root s) path"
proof (cases "vfs_root s")
  case (Some root)
  obtain st res where r: "resolve root (path_components (tl path)) = (st, res)" by fastforce
  from resolve_status [OF r] show ?thesis
    using assms Some r
    by (auto simp: vfs_lookup_def lookup_result_def Let_def vfs_walk_resolve components_root
        vfs_path_is_root_def split: option.splits)
qed (use assms in \<open>simp add: vfs_lookup_def lookup_result_def Let_def\<close>)

lemma vfs_lookup_frame:
  "vfs_root (snd (vfs_lookup path s)) = vfs_root s"
  "vi_initialized (vfs_info (snd (vfs_lookup path s))) = vi_initialized (vfs_info s)"
  "vfs_state.more (snd (vfs_lookup path s)) = vfs_state.more s"
  by (auto simp: vfs_lookup_def Let_def vfs_set_last_status_def split: option.splits prod.splits)

text \<open>Counters: one attempt per call, one failure per call that does not succeed.\<close>

lemma vfs_lookup_counters:
  assumes "vi_initialized (vfs_info s)"
  shows "lookup_attempts (vfs_info (snd (vfs_lookup (Some path) s))) = lookup_attempts (vfs_info s) + 1"
    and "lookup_failures (vfs_info (snd (vfs_lookup (Some path) s))) = lookup_failures (vfs_info s) +
      (if fst (fst (vfs_lookup (Some path) s)) = KERNEL_OK then 0 else 1)"
    and "vi_last_status (vfs_info (snd (vfs_lookup (Some path) s))) = fst (fst (vfs_lookup (Some path) s))"
proof -
  have "st \<noteq> KERNEL_OK" if "vfs_walk node p = (st, None)" for node p st
    using that resolve_status [of node "path_components p"] by (simp add: vfs_walk_resolve)
  with assms show "lookup_attempts (vfs_info (snd (vfs_lookup (Some path) s))) = lookup_attempts (vfs_info s) + 1"
    "lookup_failures (vfs_info (snd (vfs_lookup (Some path) s))) = lookup_failures (vfs_info s) +
      (if fst (fst (vfs_lookup (Some path) s)) = KERNEL_OK then 0 else 1)"
    "vi_last_status (vfs_info (snd (vfs_lookup (Some path) s))) = fst (fst (vfs_lookup (Some path) s))"
    by (auto simp: vfs_lookup_def Let_def vfs_set_last_status_def split: option.splits prod.splits)
qed

section \<open>Well-formed trees\<close>

text \<open>
  Names are non-empty and free of slashes, siblings differ, only directories have children, and
  the path field of every node is its place in the tree; \<open>pre\<close> is the path of the node, empty
  for the root.
\<close>

definition name_ok :: "string \<Rightarrow> bool" where
  "name_ok w \<longleftrightarrow> w \<noteq> [] \<and> SLASH \<notin> set w"

fun tree_ok :: "string \<Rightarrow> vfs_node \<Rightarrow> bool" where
  "tree_ok pre (Vfs_Node n p t d z m f children) \<longleftrightarrow>
     (t = VFS_NODE_DIRECTORY \<or> children = []) \<and> distinct (map vn_name children) \<and>
     list_all (\<lambda>c. name_ok (vn_name c) \<and> vn_path c = pre @ SLASH # vn_name c \<and> tree_ok (vn_path c) c)
       children"

fun nodes :: "vfs_node \<Rightarrow> vfs_node list" where
  "nodes (Vfs_Node n p t d z m f children) =
     Vfs_Node n p t d z m f children # concat (map nodes children)"

definition full_path :: "string list \<Rightarrow> string" where
  "full_path ws = concat (map ((#) SLASH) ws)"

lemma full_path_components: "list_all name_ok ws \<Longrightarrow> path_components (full_path ws) = ws"
proof (induction ws)
  case (Cons w ws)
  have "full_path ws = [] \<or> hd (full_path ws) = SLASH" by (cases ws) (auto simp: full_path_def)
  with Cons show ?case by (simp add: full_path_def name_ok_def components_word)
qed (simp add: full_path_def)

lemma find_distinct:
  "distinct (map f xs) \<Longrightarrow> x \<in> set xs \<Longrightarrow> find (\<lambda>y. f y = f x) xs = Some x"
  by (induction xs) (auto simp: image_iff)

lemma tree_node_resolves:
  "tree_ok pre root \<Longrightarrow> node \<in> set (nodes root) \<Longrightarrow>
     \<exists>ws. list_all name_ok ws \<and> resolve root ws = (KERNEL_OK, Some node) \<and>
       (ws = [] \<and> node = root \<or> ws \<noteq> [] \<and> vn_path node = pre @ full_path ws)"
proof (induction pre root rule: tree_ok.induct)
  case (1 pre n p t d z m f children)
  let ?root = "Vfs_Node n p t d z m f children"
  show ?case
  proof (cases "node = ?root")
    case True
    then show ?thesis by (intro exI [of _ "[]"]) simp
  next
    case False
    then obtain c where c: "c \<in> set children" "node \<in> set (nodes c)" using 1(3) by auto
    have ok: "t = VFS_NODE_DIRECTORY" "distinct (map vn_name children)" "name_ok (vn_name c)"
      "vn_path c = pre @ SLASH # vn_name c" "tree_ok (vn_path c) c"
      using 1(2) c(1) by (auto simp: list_all_iff)
    from 1(1) [OF c(1) ok(5) c(2)] obtain ws where ws: "list_all name_ok ws"
      "resolve c ws = (KERNEL_OK, Some node)"
      "ws = [] \<and> node = c \<or> ws \<noteq> [] \<and> vn_path node = vn_path c @ full_path ws" by blast
    have "resolve ?root (vn_name c # ws) = (KERNEL_OK, Some node)"
      using ok(1) ws(2) find_distinct [OF ok(2) c(1)] by simp
    then show ?thesis
      using ws ok(3,4) by (intro exI [of _ "vn_name c # ws"]) (auto simp: full_path_def)
  qed
qed

lemma lookup_own_path:
  assumes "tree_ok [] root" "vn_path root = [SLASH]" "node \<in> set (nodes root)"
  shows "lookup_result (Some root) (vn_path node) = (KERNEL_OK, Some node)"
proof -
  obtain ws where ws: "list_all name_ok ws" "resolve root ws = (KERNEL_OK, Some node)"
    "ws = [] \<and> node = root \<or> ws \<noteq> [] \<and> vn_path node = full_path ws"
    using tree_node_resolves [OF assms(1,3)] by auto
  from ws(3) show ?thesis
  proof
    assume "ws = [] \<and> node = root"
    then show ?thesis using assms(2) by (simp add: lookup_result_def)
  next
    assume p: "ws \<noteq> [] \<and> vn_path node = full_path ws"
    moreover have "full_path ws \<noteq> [] \<and> hd (full_path ws) = SLASH"
      using p by (cases ws) (auto simp: full_path_def)
    ultimately show ?thesis using ws(2) full_path_components [OF ws(1)] by (simp add: lookup_result_def)
  qed
qed

lemmas initramfs_nodes = root_node_def sbin_node_def bin_node_def etc_node_def dev_node_def tests_node_def
  init_node_def hello_node_def hello_elf_node_def syscheck_node_def sysbadptr_node_def pid_node_def
  ticks_node_def about_node_def os_release_program_node_def cat_node_def clear_node_def help_node_def
  uptime_node_def args_node_def echo_node_def sh_node_def os_release_node_def console_node_def
  elf32_sample_node_def

lemma root_node_facts:
  "tree_ok [] (root_node images)" "vn_path (root_node images) = [SLASH]"
  "vn_type (root_node images) = VFS_NODE_DIRECTORY" "vfs_count_nodes_recursive (root_node images) = 25"
  by (simp_all add: initramfs_nodes name_ok_def)

section \<open>Reading\<close>

text \<open>A file node whose size field is the length of its contents.\<close>

definition file_ok :: "vfs_node \<Rightarrow> bool" where
  "file_ok node \<longleftrightarrow> vn_type node = VFS_NODE_FILE \<and>
     (\<exists>data. vn_data node = Some data \<and> vn_size node = of_nat (length data) \<and> length data < 2 ^ 32)"

definition contents :: "vfs_node \<Rightarrow> u8 list" where
  "contents node = (case vn_data node of None \<Rightarrow> [] | Some data \<Rightarrow> data)"

lemma vfs_read_node_bytes:
  assumes "vi_initialized (vfs_info s)" "file_ok node"
  shows "fst (vfs_read_node (Some node) offset len s) =
     (KERNEL_OK, take (min (unat len) 512) (drop (unat offset) (contents node)))"
proof -
  obtain data where d: "vn_type node = VFS_NODE_FILE" "vn_data node = Some data"
    "vn_size node = of_nat (length data)" "length data < 2 ^ 32"
    using assms(2) by (auto simp: file_ok_def)
  have z: "unat (vn_size node) = length data"
    using d(3,4) by (simp add: unat_of_nat take_bit_nat_eq_self)
  show ?thesis
  proof (cases "offset \<ge> vn_size node \<or> len = 0")
    case True
    then have "take (min (unat len) 512) (drop (unat offset) data) = []"
      using z by (auto simp: word_le_nat_alt)
    then show ?thesis using assms(1) d True by (simp add: vfs_read_node_def contents_def Let_def)
  next
    case False
    define n where "n = (if len > vn_size node - offset then vn_size node - offset else len)"
    define k where "k = (if n > VFS_READ_CHUNK_MAX then VFS_READ_CHUNK_MAX else n)"
    have lt: "unat offset < length data" using False z by (simp add: word_le_nat_alt)
    have "unat (vn_size node - offset) = length data - unat offset"
      using False z by (simp add: unat_sub word_le_nat_alt)
    then have k: "unat k = min (min (unat len) 512) (length data - unat offset)"
      by (auto simp: k_def n_def word_less_nat_alt)
    have "map (\<lambda>i. data ! unat (offset + of_nat i)) [0..<unat k] = take (unat k) (drop (unat offset) data)"
    proof (rule nth_equalityI)
      fix i assume "i < length (map (\<lambda>i. data ! unat (offset + of_nat i)) [0..<unat k])"
      then have i: "unat offset + i < length data" "i < unat k" using k by auto
      then have "unat (offset + of_nat i) = unat offset + i"
        using d(4) by (simp add: unat_word_ariths(1) unat_of_nat take_bit_nat_eq_self)
      then show "map (\<lambda>i. data ! unat (offset + of_nat i)) [0..<unat k] ! i =
          take (unat k) (drop (unat offset) data) ! i"
        using i by (simp add: add.commute)
    qed (use k in simp)
    moreover have "take (unat k) (drop (unat offset) data) =
        take (min (unat len) 512) (drop (unat offset) data)"
      unfolding k by (simp add: min_def)
    moreover have "fst (vfs_read_node (Some node) offset len s) =
        (KERNEL_OK, map (\<lambda>i. data ! unat (offset + of_nat i)) [0..<unat k])"
      using assms(1) d(1,2) False by (simp add: vfs_read_node_def Let_def n_def k_def)
    ultimately show ?thesis using d(2) by (simp add: contents_def)
  qed
qed

lemma vfs_read_node_frame:
  "vfs_root (snd (vfs_read_node node offset len s)) = vfs_root s"
  "vi_initialized (vfs_info (snd (vfs_read_node node offset len s))) = vi_initialized (vfs_info s)"
  "vfs_state.more (snd (vfs_read_node node offset len s)) = vfs_state.more s"
  by (auto simp: vfs_read_node_def Let_def vfs_set_last_status_def split: option.splits)

section \<open>Properties\<close>

definition blank_vfs :: vfs_state where
  "blank_vfs = vfs_initialize
     \<lparr>vfs_root = None,
      vfs_info = \<lparr>vi_initialized = False, mounted_nodes = 0, lookup_attempts = 0, lookup_failures = 0,
        read_attempts = 0, read_failures = 0, vi_last_status = KERNEL_OK, vi_last_path = []\<rparr>,
      initramfs_info = \<lparr>ri_initialized = False, ri_last_status = KERNEL_OK, node_count = 0, mount_count = 0\<rparr>\<rparr>"

text \<open>
  C20: \<open>vfs_lookup\<close>, which scans the path in place, implements the abstract lookup that splits the
  path at slashes and follows the names from the root: same status and same node on every path,
  for repeated and trailing slashes, missing names and names below a file. It counts one attempt,
  counts a failure exactly when the status is an error, and changes no node.
\<close>

theorem vfs_lookup_refines:
  assumes "vi_initialized (vfs_info s)" and "vfs_lookup (Some path) s = (res, t)"
  shows "res = lookup_result (vfs_root s) path \<and> vfs_root t = vfs_root s \<and>
    lookup_attempts (vfs_info t) = lookup_attempts (vfs_info s) + 1 \<and>
    lookup_failures (vfs_info t) = lookup_failures (vfs_info s) + (if fst res = KERNEL_OK then 0 else 1) \<and>
    vi_last_status (vfs_info t) = fst res"
  using vfs_lookup_fst [OF assms(1), of path] vfs_lookup_counters [OF assms(1), of path]
    vfs_lookup_frame [of "Some path" s]
  unfolding assms(2) by simp

theorem vfs_lookup_refines_witness:
  "\<forall>images. fst (vfs_lookup (Some ''//etc/os-release/'') (snd (initramfs_mount images (initramfs_initialize blank_vfs)))) =
     (KERNEL_OK, Some os_release_node)"
proof
  fix images
  let ?s = "snd (initramfs_mount images (initramfs_initialize blank_vfs))"
  have i: "vi_initialized (vfs_info ?s)" "vfs_root ?s = Some (root_node images)"
    by (simp_all add: initramfs_mount_def initramfs_initialize_def blank_vfs_def vfs_initialize_def
        vfs_mount_static_tree_def vfs_set_last_status_def initramfs_define_nodes_def root_node_facts)
  have "lookup_result (Some (root_node images)) ''//etc/os-release/'' = (KERNEL_OK, Some os_release_node)"
    by (simp add: lookup_result_def path_components_def root_node_def sbin_node_def bin_node_def etc_node_def)
      (simp add: os_release_node_def)
  then show "fst (vfs_lookup (Some ''//etc/os-release/'') ?s) = (KERNEL_OK, Some os_release_node)"
    using vfs_lookup_refines [OF i(1) surjective_pairing, of "''//etc/os-release/''"] i(2) by simp
qed

text \<open>
  C21: mounting the initial file tree succeeds, counts the 25 nodes that \<open>initramfs_info\<close> announces,
  and afterwards every node of the tree, for any contents of the user programs, is what
  \<open>vfs_lookup\<close> returns for the path stored in it.
\<close>

theorem initramfs_mount_correct:
  assumes "initramfs_mount images (initramfs_initialize (vfs_initialize s)) = (status, t)"
  shows "status = KERNEL_OK \<and> mounted_nodes (vfs_info t) = node_count (initramfs_info t) \<and>
    mount_count (initramfs_info t) = 1 \<and>
    (\<forall>node \<in> set (nodes (initramfs_define_nodes images)).
       fst (vfs_lookup (Some (vn_path node)) t) = (KERNEL_OK, Some node))"
proof -
  have t: "status = KERNEL_OK" "vfs_root t = Some (root_node images)" "vi_initialized (vfs_info t)"
    "mounted_nodes (vfs_info t) = 25" "node_count (initramfs_info t) = 25" "mount_count (initramfs_info t) = 1"
    using assms
    by (auto simp: initramfs_mount_def initramfs_initialize_def vfs_initialize_def
        vfs_mount_static_tree_def vfs_set_last_status_def initramfs_define_nodes_def root_node_facts Let_def)
  have "fst (vfs_lookup (Some (vn_path node)) t) = (KERNEL_OK, Some node)"
    if "node \<in> set (nodes (initramfs_define_nodes images))" for node
    using lookup_own_path [OF root_node_facts(1,2)] that t(2)
    by (simp add: vfs_lookup_fst [OF t(3)] initramfs_define_nodes_def)
  with t show ?thesis by simp
qed

theorem initramfs_mount_correct_witness:
  "length (nodes (initramfs_define_nodes (\<lambda>_. []))) = 25 \<and>
   fst (vfs_lookup (Some ''/bin/hello-elf'') (snd (initramfs_mount (\<lambda>_. []) (initramfs_initialize (vfs_initialize blank_vfs))))) =
     (KERNEL_OK, Some hello_elf_node)"
proof -
  let ?r = "initramfs_mount (\<lambda>_. []) (initramfs_initialize (vfs_initialize blank_vfs))"
  have "hello_elf_node \<in> set (nodes (initramfs_define_nodes (\<lambda>_. [])))" "vn_path hello_elf_node = ''/bin/hello-elf''"
    by (simp_all add: initramfs_define_nodes_def initramfs_nodes)
  then have "fst (vfs_lookup (Some ''/bin/hello-elf'') (snd ?r)) = (KERNEL_OK, Some hello_elf_node)"
    using initramfs_mount_correct [OF surjective_pairing [of ?r]] by metis
  moreover have "length (nodes (initramfs_define_nodes (\<lambda>_. []))) = 25"
    by (simp add: initramfs_define_nodes_def initramfs_nodes)
  ultimately show ?thesis by blast
qed

end
