(* ===== verification/Page_Allocator.thy ===== *)
theory Page_Allocator
  imports Kernel_Prelude
begin

text \<open>
  The contract between the physical page allocators (\<^verbatim>\<open>memory/pmm.c\<close> of the i386 kernel,
  \<^verbatim>\<open>arch/x86_64/pmm.c\<close>) and the code that asks them for pages: the page tables of the VMM,
  the kernel heap, the ring 3 pages and the address spaces of processes. \<open>allocated\<close> is the
  abstract state, the set of pages that are out; the address 0 reports that no page is left.
\<close>

abbreviation page_size_nat :: nat where "page_size_nat \<equiv> 4096"

definition page_aligned :: "'w::len word \<Rightarrow> bool" where
  "page_aligned p \<longleftrightarrow> unat p mod 4096 = 0"

lemma page_alignedE:
  assumes "page_aligned p" obtains k where "unat p = 4096 * k"
  using assms unfolding page_aligned_def by (metis mod_0_imp_dvd dvdE)

locale page_allocator =
  fixes alloc :: "'s \<Rightarrow> 'w::len word \<times> 's"
    and release :: "'w word \<Rightarrow> 's \<Rightarrow> 's"
    and allocated :: "'s \<Rightarrow> 'w word set"
    and inv :: "'s \<Rightarrow> bool"
  assumes alloc_inv: "inv s \<Longrightarrow> alloc s = (p, s') \<Longrightarrow> inv s'"
    and alloc_fail: "inv s \<Longrightarrow> alloc s = (0, s') \<Longrightarrow> allocated s' = allocated s"
    and alloc_fresh: "inv s \<Longrightarrow> alloc s = (p, s') \<Longrightarrow> p \<noteq> 0 \<Longrightarrow>
          p \<notin> allocated s \<and> allocated s' = insert p (allocated s)"
    and alloc_page: "inv s \<Longrightarrow> p \<in> allocated s \<Longrightarrow> p \<noteq> 0 \<and> page_aligned p"
    and release_inv: "inv s \<Longrightarrow> p \<in> allocated s \<Longrightarrow> inv (release p s)"
    and release_page: "inv s \<Longrightarrow> p \<in> allocated s \<Longrightarrow>
          allocated s - {p} \<subseteq> allocated (release p s) \<and> allocated (release p s) \<subseteq> allocated s"
begin

text \<open>A run of allocations, as the multi-page clients make it: it stops at the first failure.\<close>

fun alloc_pages :: "nat \<Rightarrow> 's \<Rightarrow> 'w word list \<times> 's" where
  "alloc_pages 0 s = ([], s)"
| "alloc_pages (Suc n) s =
     (case alloc s of (p, s') \<Rightarrow>
        if p = 0 then ([], s') else (case alloc_pages n s' of (ps, s'') \<Rightarrow> (p # ps, s'')))"

lemma alloc_pages_spec:
  "inv s \<Longrightarrow> alloc_pages n s = (ps, s') \<Longrightarrow>
     inv s' \<and> distinct ps \<and> set ps \<inter> allocated s = {} \<and>
     allocated s' = set ps \<union> allocated s \<and> length ps \<le> n"
proof (induction n arbitrary: s ps)
  case 0
  then show ?case by simp
next
  case (Suc n)
  obtain p t where a: "alloc s = (p, t)" by fastforce
  show ?case
  proof (cases "p = 0")
    case True
    with Suc.prems a show ?thesis using alloc_fail alloc_inv by auto
  next
    case False
    with Suc.prems a obtain qs where q: "alloc_pages n t = (qs, s')" "ps = p # qs"
      by (auto split: prod.splits)
    have "inv t" using Suc.prems(1) a by (rule alloc_inv)
    from Suc.IH [OF this q(1)] alloc_fresh [OF Suc.prems(1) a False] q(2)
    show ?thesis by auto
  qed
qed

lemma alloc_pages_aligned:
  "inv s \<Longrightarrow> alloc_pages n s = (ps, s') \<Longrightarrow> p \<in> set ps \<Longrightarrow> p \<noteq> 0 \<and> page_aligned p"
  using alloc_pages_spec alloc_page by blast

text \<open>Giving pages back one by one, as the rollback paths do.\<close>

lemma release_all:
  "inv s \<Longrightarrow> set ps \<subseteq> allocated s \<Longrightarrow> distinct ps \<Longrightarrow>
     inv (fold release ps s) \<and> allocated s - set ps \<subseteq> allocated (fold release ps s) \<and>
     allocated (fold release ps s) \<subseteq> allocated s"
proof (induction ps arbitrary: s)
  case Nil
  then show ?case by simp
next
  case (Cons p ps)
  have p: "p \<in> allocated s" using Cons.prems(2) by simp
  have "set ps \<subseteq> allocated (release p s)"
    using Cons.prems release_page [OF Cons.prems(1) p] by auto
  with Cons.IH [of "release p s"] release_inv [OF Cons.prems(1) p] release_page [OF Cons.prems(1) p] Cons.prems(3)
  show ?case by fastforce
qed

end

end
