(* ===== verification/Pmm.thy ===== *)
theory Pmm
  imports Page_Allocator
begin

text \<open>
  \<^verbatim>\<open>memory/pmm.c\<close>: the physical memory manager of the i386 kernel. One region of the
  Multiboot memory map is chosen at boot; pages are taken from a bump pointer
  (\<^verbatim>\<open>next_free_page\<close>) and from a bounded stack of pages that came back.

  State: \<open>pmm_state\<close> is \<^verbatim>\<open>pmm_stats\<close> with the array \<^verbatim>\<open>free_stack\<close>. The memory map is read
  from physical memory through \<open>entry_at\<close>, and the end of the kernel image is the linker
  symbol behind \<^verbatim>\<open>kernel_get_end_address\<close>; both are arguments. The scan of the map follows
  the sizes it finds there and need not end, so it is a \<open>partial_function (option)\<close>.
  Log messages are not part of the state.
\<close>

section \<open>State and operations\<close>

abbreviation (input) PMM_PAGE_SIZE :: u32 where "PMM_PAGE_SIZE \<equiv> 4096"
abbreviation (input) PMM_MAX_FREE_PAGES :: u32 where "PMM_MAX_FREE_PAGES \<equiv> 1024"
abbreviation (input) MULTIBOOT_MEMORY_AVAILABLE :: u32 where "MULTIBOOT_MEMORY_AVAILABLE \<equiv> 1"
abbreviation (input) ONE_MIB :: u32 where "ONE_MIB \<equiv> 0x100000"

record pmm_state =
  total_regions :: u32
  usable_regions :: u32
  reserved_regions :: u32
  usable_memory_bytes :: u64
  allocation_start :: u32
  allocation_end :: u32
  next_free_page :: u32
  allocated_pages :: u32
  free_stack_count :: u32
  free_stack :: "u32 list"

record mmap_entry =
  entry_size :: u32
  entry_base_addr :: u64
  entry_length :: u64
  entry_type :: u32

record boot_info =
  has_memory_map :: bool
  memory_map_length :: u32
  memory_map_address :: u32

definition pmm_free_stack_contains :: "u32 \<Rightarrow> pmm_state \<Rightarrow> bool" where
  "pmm_free_stack_contains page_address s \<longleftrightarrow>
     (\<exists>i \<in> set [0..<unat (free_stack_count s)]. free_stack s ! i = page_address)"

definition pmm_reset :: "pmm_state \<Rightarrow> pmm_state" where
  "pmm_reset s = s\<lparr>total_regions := 0, usable_regions := 0, reserved_regions := 0,
     usable_memory_bytes := 0, allocation_start := 0, allocation_end := 0,
     next_free_page := 0, allocated_pages := 0, free_stack_count := 0\<rparr>"

definition pmm_choose_region :: "u32 \<Rightarrow> mmap_entry \<Rightarrow> pmm_state \<Rightarrow> pmm_state" where
  "pmm_choose_region kernel_end e s =
     (let base = ucast (entry_base_addr e) :: u32;
          length = ucast (entry_length e) :: u32;
          region_end = base + length;
          base = (if base < ONE_MIB \<and> region_end > ONE_MIB then ONE_MIB else base);
          base = (if base < kernel_end \<and> region_end > kernel_end then kernel_end else base);
          base = align_up base PMM_PAGE_SIZE
      in if allocation_start s = 0 \<and> base \<ge> ONE_MIB \<and> region_end > base
         then s\<lparr>allocation_start := base, allocation_end := region_end, next_free_page := base\<rparr>
         else s)"

definition pmm_add_region :: "u32 \<Rightarrow> mmap_entry \<Rightarrow> pmm_state \<Rightarrow> pmm_state" where
  "pmm_add_region kernel_end e s =
     (let s = s\<lparr>total_regions := total_regions s + 1\<rparr>
      in if entry_type e = MULTIBOOT_MEMORY_AVAILABLE
         then pmm_choose_region kernel_end e
                (s\<lparr>usable_regions := usable_regions s + 1,
                   usable_memory_bytes := usable_memory_bytes s + entry_length e\<rparr>)
         else s\<lparr>reserved_regions := reserved_regions s + 1\<rparr>)"

partial_function (option) pmm_scan ::
  "(u32 \<Rightarrow> mmap_entry) \<Rightarrow> u32 \<Rightarrow> u32 \<Rightarrow> u32 \<Rightarrow> pmm_state \<Rightarrow> pmm_state option" where
  "pmm_scan entry_at kernel_end current end_address s =
     (if current < end_address
      then pmm_scan entry_at kernel_end (current + (entry_size (entry_at current) + 4)) end_address
             (pmm_add_region kernel_end (entry_at current) s)
      else Some s)"

definition pmm_initialize ::
  "(u32 \<Rightarrow> mmap_entry) \<Rightarrow> u32 \<Rightarrow> boot_info option \<Rightarrow> pmm_state \<Rightarrow> pmm_state option" where
  "pmm_initialize entry_at kernel_end_address info s =
     (let s = pmm_reset s; kernel_end = align_up kernel_end_address PMM_PAGE_SIZE
      in case info of None \<Rightarrow> Some s
         | Some b \<Rightarrow>
           if \<not> has_memory_map b then Some s
           else pmm_scan entry_at kernel_end (memory_map_address b)
                  (memory_map_address b + memory_map_length b) s)"

definition pmm_alloc_page :: "pmm_state \<Rightarrow> u32 \<times> pmm_state" where
  "pmm_alloc_page s =
     (if free_stack_count s > 0
      then let s = s\<lparr>free_stack_count := free_stack_count s - 1\<rparr>;
               page = free_stack s ! unat (free_stack_count s)
           in (page, s\<lparr>allocated_pages := allocated_pages s + 1\<rparr>)
      else if next_free_page s = 0 then (0, s)
      else if next_free_page s + PMM_PAGE_SIZE > allocation_end s then (0, s)
      else (next_free_page s,
            s\<lparr>next_free_page := next_free_page s + PMM_PAGE_SIZE,
              allocated_pages := allocated_pages s + 1\<rparr>))"

definition pmm_free_page :: "u32 \<Rightarrow> pmm_state \<Rightarrow> pmm_state" where
  "pmm_free_page page s =
     (if page = 0 then s
      else if page mod PMM_PAGE_SIZE \<noteq> 0 then s
      else if page < allocation_start s \<or> page \<ge> allocation_end s then s
      else if page \<ge> next_free_page s then s
      else if pmm_free_stack_contains page s then s
      else if free_stack_count s \<ge> PMM_MAX_FREE_PAGES then s
      else let s = s\<lparr>free_stack := (free_stack s)[unat (free_stack_count s) := page],
                     free_stack_count := free_stack_count s + 1\<rparr>
           in if allocated_pages s > 0
              then s\<lparr>allocated_pages := allocated_pages s - 1\<rparr> else s)"

text \<open>
  The boot self-test, without its log lines: three allocations, the second page given back,
  one more allocation. The result lists the four pages it reports.
\<close>

definition pmm_run_self_test :: "pmm_state \<Rightarrow> u32 list \<times> pmm_state" where
  "pmm_run_self_test s =
     (let (page1, s) = pmm_alloc_page s;
          (page2, s) = pmm_alloc_page s;
          (page3, s) = pmm_alloc_page s;
          s = pmm_free_page page2 s;
          (reused_page, s) = pmm_alloc_page s
      in ([page1, page2, page3, reused_page], s))"

section \<open>Invariant and abstract state\<close>

definition live_stack :: "pmm_state \<Rightarrow> u32 list" where
  "live_stack s = take (unat (free_stack_count s)) (free_stack s)"

text \<open>The pages below the bump pointer: the ones handed out at least once.\<close>

definition pages_between :: "u32 \<Rightarrow> u32 \<Rightarrow> u32 set" where
  "pages_between lo hi = {p. page_aligned p \<and> lo \<le> p \<and> p < hi}"

definition pmm_allocated :: "pmm_state \<Rightarrow> u32 set" where
  "pmm_allocated s = pages_between (allocation_start s) (next_free_page s) - set (live_stack s)"

text \<open>
  \<^verbatim>\<open>allocation_end\<close> stays a page below the top of the address space, so that
  \<^verbatim>\<open>next_free_page + PMM_PAGE_SIZE\<close> does not wrap around.
\<close>

definition pmm_inv :: "pmm_state \<Rightarrow> bool" where
  "pmm_inv s \<longleftrightarrow>
     length (free_stack s) = 1024 \<and> unat (free_stack_count s) \<le> 1024 \<and>
     distinct (live_stack s) \<and>
     set (live_stack s) \<subseteq> pages_between (allocation_start s) (next_free_page s) \<and>
     page_aligned (allocation_start s) \<and> page_aligned (next_free_page s) \<and>
     allocation_start s \<le> next_free_page s \<and> next_free_page s \<le> allocation_end s \<and>
     unat (allocation_end s) + 4096 < 2 ^ 32 \<and>
     (allocation_start s = 0 \<longrightarrow> allocation_end s = 0) \<and>
     unat (allocated_pages s) + unat (free_stack_count s) =
       (unat (next_free_page s) - unat (allocation_start s)) div 4096"

section \<open>Lemmas on the stack and the page set\<close>

lemma page_aligned_0 [simp]: "page_aligned 0"
  by (simp add: page_aligned_def)

lemma page_aligned_iff_mod: "page_aligned (p :: u32) \<longleftrightarrow> p mod PMM_PAGE_SIZE = 0"
  by (simp add: page_aligned_def word_unat_eq_iff unat_mod_distrib)

lemma unat_next_page:
  "unat (p :: u32) + 4096 < 2 ^ 32 \<Longrightarrow> unat (p + PMM_PAGE_SIZE) = unat p + 4096"
  by (simp add: unat_plus_if')

lemma page_aligned_add:
  "page_aligned (p :: u32) \<Longrightarrow> unat p + 4096 < 2 ^ 32 \<Longrightarrow> page_aligned (p + PMM_PAGE_SIZE)"
  by (simp add: page_aligned_def unat_next_page)

lemma aligned_gap:
  assumes "page_aligned (a :: u32)" "page_aligned b" "a < b"
  shows "unat a + 4096 \<le> unat b"
proof -
  obtain k l where "unat a = 4096 * k" "unat b = 4096 * l"
    using assms(1,2) by (meson page_alignedE)
  with assms(3) show ?thesis by (simp add: word_less_nat_alt)
qed

lemma pages_between_step:
  assumes "page_aligned lo" "page_aligned hi" "lo \<le> hi" "unat hi + 4096 < 2 ^ 32"
  shows "pages_between lo (hi + PMM_PAGE_SIZE) = insert hi (pages_between lo hi)"
proof -
  have u: "unat (hi + PMM_PAGE_SIZE) = unat hi + 4096" using assms(4) by (rule unat_next_page)
  have "p = hi" if "page_aligned p" "\<not> p < hi" "p < hi + PMM_PAGE_SIZE" for p
  proof (rule ccontr)
    assume "p \<noteq> hi"
    with that(2) have "hi < p" by simp
    from aligned_gap [OF assms(2) that(1) this] that(3) u show False
      by (simp add: word_less_nat_alt)
  qed
  moreover have "hi < hi + PMM_PAGE_SIZE" using u by (simp add: word_less_nat_alt)
  ultimately show ?thesis
    using assms(2,3) by (auto simp: pages_between_def)
qed

lemma top_notin_pages_between [simp]: "hi \<notin> pages_between lo hi"
  by (simp add: pages_between_def)

text \<open>The pages of a range are numbered by their quotient, so the range has that many.\<close>

lemma pages_between_image:
  assumes "unat lo = 4096 * k" "unat hi = 4096 * l"
  shows "pages_between lo hi = (\<lambda>i. of_nat (4096 * i)) ` {k..<l}"
proof (rule set_eqI, rule iffI)
  fix p assume p: "p \<in> pages_between lo hi"
  then obtain i where i: "unat p = 4096 * i" by (auto simp: pages_between_def elim: page_alignedE)
  then have "p = of_nat (4096 * i)" by (metis of_nat_unat ucast_id)
  moreover have "i \<in> {k..<l}"
    using p i assms by (auto simp: pages_between_def u32_nat)
  ultimately show "p \<in> (\<lambda>i. of_nat (4096 * i)) ` {k..<l}" by blast
next
  fix p :: u32 assume "p \<in> (\<lambda>i. of_nat (4096 * i)) ` {k..<l}"
  then obtain i where i: "p = of_nat (4096 * i)" "k \<le> i" "i < l" by auto
  have "4096 * i < 2 ^ 32" using i(3) unat_u32_bound [of hi] assms(2) by simp
  then have "unat p = 4096 * i"
    by (simp add: i(1) unat_of_nat take_bit_nat_eq_self del: of_nat_mult)
  with i(2,3) show "p \<in> pages_between lo hi"
    using assms by (simp add: pages_between_def page_aligned_def u32_nat)
qed

lemma card_pages_between:
  assumes "page_aligned lo" "page_aligned hi"
  shows "card (pages_between lo hi) = (unat hi - unat lo) div 4096"
proof -
  obtain k l where kl: "unat lo = 4096 * k" "unat hi = 4096 * l"
    using assms by (meson page_alignedE)
  have b: "4096 * i < 2 ^ LENGTH(32)" if "i < l" for i
    using that unat_u32_bound [of hi] kl(2) by simp
  have "inj_on (\<lambda>i. of_nat (4096 * i) :: u32) {k..<l}"
  proof (rule inj_onI)
    fix i j
    assume "i \<in> {k..<l}" "j \<in> {k..<l}" and eq: "(of_nat (4096 * i) :: u32) = of_nat (4096 * j)"
    then have "4096 * i < 2 ^ LENGTH(32)" "4096 * j < 2 ^ LENGTH(32)" using b by auto
    with eq have "4096 * i = 4096 * j" by (metis of_nat_inverse)
    then show "i = j" by simp
  qed
  then show ?thesis
    by (simp only: pages_between_image [OF kl] card_image) (simp add: kl flip: right_diff_distrib')
qed

section \<open>Allocation and release\<close>

lemma pmm_free_stack_contains_iff:
  "unat (free_stack_count s) \<le> length (free_stack s) \<Longrightarrow>
     pmm_free_stack_contains p s \<longleftrightarrow> p \<in> set (live_stack s)"
  by (force simp: pmm_free_stack_contains_def live_stack_def in_set_conv_nth)

lemma live_stack_pop:
  assumes "free_stack_count s > 0" "unat (free_stack_count s) \<le> length (free_stack s)"
  shows "live_stack s = take (unat (free_stack_count s - 1)) (free_stack s) @
           [free_stack s ! unat (free_stack_count s - 1)]"
proof -
  have "unat (free_stack_count s) = Suc (unat (free_stack_count s - 1))"
    using assms(1) by (simp add: u32_nat)
  then show ?thesis using assms(2) by (simp add: live_stack_def take_Suc_conv_app_nth)
qed

lemma live_stack_push:
  assumes "unat (free_stack_count s) < length (free_stack s)"
    and "unat (free_stack_count s) < 1024"
  shows "take (unat (free_stack_count s + 1)) ((free_stack s)[unat (free_stack_count s) := p]) =
           live_stack s @ [p]"
proof -
  have "unat (free_stack_count s + 1) = Suc (unat (free_stack_count s))"
    using assms(2) by (simp add: u32_nat)
  then show ?thesis using assms by (simp add: live_stack_def take_Suc_conv_app_nth)
qed

text \<open>The three outcomes of an allocation: a recycled page, a fresh one, none.\<close>

lemma pmm_alloc_recycled:
  assumes "free_stack_count s > 0" "pmm_inv s" "pmm_alloc_page s = (p, s')"
  shows "pmm_inv s'" "p \<in> set (live_stack s)" "set (live_stack s') = set (live_stack s) - {p}"
    "allocation_start s' = allocation_start s" "next_free_page s' = next_free_page s"
proof -
  note pop = live_stack_pop [OF assms(1)]
  have s': "s' = s\<lparr>free_stack_count := free_stack_count s - 1, allocated_pages := allocated_pages s + 1\<rparr>"
    and p: "p = free_stack s ! unat (free_stack_count s - 1)"
    using assms(1,3) by (auto simp: pmm_alloc_page_def Let_def)
  have l: "live_stack s = live_stack s' @ [p]"
    using pop assms(2) by (simp add: s' p pmm_inv_def live_stack_def)
  then show "p \<in> set (live_stack s)" "set (live_stack s') = set (live_stack s) - {p}"
    using assms(2) by (auto simp: pmm_inv_def)
  have n: "unat (free_stack_count s') + 1 = unat (free_stack_count s)"
    using assms(1) by (simp add: s' u32_nat)
  have "(unat (next_free_page s) - unat (allocation_start s)) div 4096 < 2 ^ 32 - 1"
    using unat_u32_bound [of "next_free_page s"] by simp
  then have "unat (allocated_pages s') = unat (allocated_pages s) + 1"
    using assms(1,2) by (simp add: s' pmm_inv_def unat_plus_if' word_less_nat_alt)
  then show "pmm_inv s'"
    using assms(2) l n unfolding pmm_inv_def by (auto simp: s')
qed (use assms in \<open>auto simp: pmm_alloc_page_def Let_def\<close>)

lemma pmm_alloc_bump:
  assumes "free_stack_count s = 0" "pmm_inv s" "pmm_alloc_page s = (p, s')" "p \<noteq> 0"
  shows "pmm_inv s'" "p = next_free_page s" "live_stack s = []" "live_stack s' = []"
    "allocation_start s' = allocation_start s" "next_free_page s' = next_free_page s + PMM_PAGE_SIZE"
proof -
  have s': "s' = s\<lparr>next_free_page := next_free_page s + PMM_PAGE_SIZE, allocated_pages := allocated_pages s + 1\<rparr>"
    and p: "p = next_free_page s" and le: "next_free_page s + PMM_PAGE_SIZE \<le> allocation_end s"
    using assms(1,3,4) by (auto simp: pmm_alloc_page_def Let_def split: if_splits)
  have b: "unat (next_free_page s) + 4096 < 2 ^ 32"
    using assms(2) by (simp add: pmm_inv_def word_le_nat_alt)
  note u = unat_next_page [OF b]
  have le': "unat (allocation_start s) \<le> unat (next_free_page s)"
    using assms(2) by (simp add: pmm_inv_def word_le_nat_alt)
  have "(unat (next_free_page s) - unat (allocation_start s)) div 4096 < 2 ^ 32 - 1"
    using unat_u32_bound [of "next_free_page s"] by simp
  then have "unat (allocated_pages s') = unat (allocated_pages s) + 1"
    using assms(1,2) by (simp add: s' pmm_inv_def unat_plus_if')
  moreover have "(unat (next_free_page s) + 4096 - unat (allocation_start s)) div 4096 =
      (unat (next_free_page s) - unat (allocation_start s)) div 4096 + 1"
    using le' by (simp only: diff_add_assoc2 div_add_self2)
  ultimately show "pmm_inv s'"
    using assms(1,2,4) le b le' page_aligned_add [OF _ b]
    by (auto simp: pmm_inv_def s' u live_stack_def word_le_nat_alt p)
  show "p = next_free_page s" by (rule p)
qed (use assms in \<open>auto simp: pmm_alloc_page_def Let_def live_stack_def split: if_splits\<close>)

lemma pmm_alloc_none:
  assumes "free_stack_count s = 0" "pmm_alloc_page s = (0, s')"
  shows "s' = s"
  using assms by (auto simp: pmm_alloc_page_def split: if_splits)

lemma pmm_allocated_page:
  assumes "pmm_inv s" "p \<in> pages_between (allocation_start s) (next_free_page s)"
  shows "p \<noteq> 0 \<and> page_aligned p \<and> allocation_start s \<le> p \<and> p < allocation_end s"
  using assms by (auto simp: pmm_inv_def pages_between_def u32_nat)

lemma pmm_alloc_inv:
  assumes "pmm_inv s" "pmm_alloc_page s = (p, s')"
  shows "pmm_inv s'"
proof (cases "free_stack_count s = 0")
  case True
  with assms pmm_alloc_bump(1) pmm_alloc_none show ?thesis by metis
next
  case False
  with assms pmm_alloc_recycled(1) show ?thesis by (simp add: word_gt_0)
qed

lemma pmm_alloc_recycled_nonzero:
  "free_stack_count s \<noteq> 0 \<Longrightarrow> pmm_inv s \<Longrightarrow> pmm_alloc_page s = (p, s') \<Longrightarrow> p \<noteq> 0"
  using pmm_alloc_recycled(2) [of s p s'] pmm_allocated_page [of s p]
  by (auto simp: pmm_inv_def word_gt_0)

lemma pmm_alloc_fail:
  assumes "pmm_inv s" "pmm_alloc_page s = (0, s')"
  shows "s' = s"
  using pmm_alloc_none pmm_alloc_recycled_nonzero assms by blast

lemma pmm_alloc_fresh:
  assumes "pmm_inv s" "pmm_alloc_page s = (p, s')" "p \<noteq> 0"
  shows "p \<notin> pmm_allocated s \<and> pmm_allocated s' = insert p (pmm_allocated s)"
proof (cases "free_stack_count s = 0")
  case True
  note b = pmm_alloc_bump [OF True assms]
  have "unat (next_free_page s) + 4096 < 2 ^ 32"
    using assms(1) by (simp add: pmm_inv_def word_le_nat_alt)
  then show ?thesis
    using assms(1) pages_between_step [of "allocation_start s" "next_free_page s"]
    by (simp add: pmm_allocated_def b(2-6) pmm_inv_def)
next
  case False
  then have "free_stack_count s > 0" by (simp add: word_gt_0)
  note r = pmm_alloc_recycled [OF this assms(1,2)]
  show ?thesis using assms(1) r(2) by (auto simp: pmm_allocated_def r(3-5) pmm_inv_def)
qed

lemma pmm_free_rejected:
  assumes "pmm_inv s" "p \<notin> pmm_allocated s"
  shows "pmm_free_page p s = s"
  using assms unfolding pmm_free_page_def pmm_inv_def page_aligned_iff_mod [symmetric]
  by (auto simp: pmm_allocated_def pages_between_def pmm_free_stack_contains_iff)

lemma pmm_free_full:
  "free_stack_count s \<ge> PMM_MAX_FREE_PAGES \<Longrightarrow> pmm_free_page p s = s"
  by (simp add: pmm_free_page_def)

lemma card_pmm_allocated:
  assumes "pmm_inv s"
  shows "card (pmm_allocated s) = unat (allocated_pages s)"
proof -
  have "card (pmm_allocated s) =
      card (pages_between (allocation_start s) (next_free_page s)) - length (live_stack s)"
    using assms by (simp add: pmm_allocated_def card_Diff_subset distinct_card pmm_inv_def)
  also have "\<dots> = (unat (next_free_page s) - unat (allocation_start s)) div 4096
      - unat (free_stack_count s)"
    using assms by (simp add: card_pages_between pmm_inv_def live_stack_def)
  also have "\<dots> = unat (allocated_pages s)" using assms unfolding pmm_inv_def by linarith
  finally show ?thesis .
qed

lemma pmm_free_accepted:
  assumes "pmm_inv s" "p \<in> pmm_allocated s" "free_stack_count s < PMM_MAX_FREE_PAGES"
  shows "pmm_inv (pmm_free_page p s)" "live_stack (pmm_free_page p s) = live_stack s @ [p]"
    "allocation_start (pmm_free_page p s) = allocation_start s"
    "next_free_page (pmm_free_page p s) = next_free_page s"
proof -
  have p: "p \<in> pages_between (allocation_start s) (next_free_page s)" "p \<notin> set (live_stack s)"
    using assms(2) by (auto simp: pmm_allocated_def)
  have pos: "unat (allocated_pages s) > 0"
    using card_pmm_allocated [OF assms(1)] assms(2) by (metis card_gt_0_iff empty_iff finite)
  have n: "unat (free_stack_count s) < 1024" using assms(3) by (simp add: word_less_nat_alt)
  have f: "pmm_free_page p s =
      s\<lparr>free_stack := (free_stack s)[unat (free_stack_count s) := p],
        free_stack_count := free_stack_count s + 1, allocated_pages := allocated_pages s - 1\<rparr>"
    using pmm_allocated_page [OF assms(1) p(1)] p assms(1,3) n pos
    unfolding pmm_free_page_def page_aligned_iff_mod [symmetric]
    by (auto simp: pages_between_def pmm_inv_def pmm_free_stack_contains_iff word_gt_0 Let_def
        simp flip: not_less)
  show l: "live_stack (pmm_free_page p s) = live_stack s @ [p]"
    using live_stack_push [OF _ n] assms(1) n by (simp add: f live_stack_def pmm_inv_def)
  have c: "unat (free_stack_count s + 1) = unat (free_stack_count s) + 1"
    using n by (simp add: unat_plus_if')
  have a: "unat (allocated_pages s - 1) + 1 = unat (allocated_pages s)"
    using pos by (simp add: unat_sub_if' word_less_nat_alt)
  have "unat (allocated_pages s - 1) + unat (free_stack_count s + 1) =
      unat (allocated_pages s) + unat (free_stack_count s)" using a c by simp
  with l show "pmm_inv (pmm_free_page p s)"
    using assms(1) p n c by (simp add: pmm_inv_def f)
qed (auto simp: pmm_free_page_def Let_def)

lemma pmm_free_inv:
  assumes "pmm_inv s"
  shows "pmm_inv (pmm_free_page p s)"
proof (cases "p \<in> pmm_allocated s \<and> free_stack_count s < PMM_MAX_FREE_PAGES")
  case True
  with assms show ?thesis by (simp add: pmm_free_accepted)
next
  case False
  with assms have "pmm_free_page p s = s" using pmm_free_rejected pmm_free_full by (metis not_less)
  with assms show ?thesis by simp
qed

lemma pmm_free_allocated:
  assumes "pmm_inv s"
  shows "pmm_allocated (pmm_free_page p s) =
    (if free_stack_count s < PMM_MAX_FREE_PAGES then pmm_allocated s - {p} else pmm_allocated s)"
proof (cases "p \<in> pmm_allocated s \<and> free_stack_count s < PMM_MAX_FREE_PAGES")
  case True
  then show ?thesis
    using pmm_free_accepted(2-4) [OF assms, of p] by (auto simp: pmm_allocated_def)
next
  case False
  with assms have "pmm_free_page p s = s" using pmm_free_rejected pmm_free_full by (metis not_less)
  with False show ?thesis by auto
qed

text \<open>The i386 physical memory manager provides the contract of the page allocators.\<close>

interpretation pmm: page_allocator pmm_alloc_page pmm_free_page pmm_allocated pmm_inv
proof unfold_locales
  show "p \<noteq> 0 \<and> page_aligned p" if "pmm_inv s" "p \<in> pmm_allocated s" for s p
    using that pmm_allocated_page [of s p] by (auto simp: pmm_allocated_def)
qed (auto simp: pmm_alloc_inv pmm_alloc_fresh pmm_free_inv pmm_free_allocated dest: pmm_alloc_fail)

section \<open>Exhaustion and initialisation\<close>

definition pmm_capacity :: "pmm_state \<Rightarrow> nat" where
  "pmm_capacity s = (unat (allocation_end s) - unat (allocation_start s)) div 4096"

lemma page_quotients:
  fixes a n e :: nat
  assumes "a mod 4096 = 0" "n mod 4096 = 0" "a \<le> n" "n \<le> e"
  shows "(n - a) div 4096 = (e - a) div 4096 \<longleftrightarrow> n + 4096 > e"
proof -
  obtain k l where "a = 4096 * k" "n = 4096 * l" using assms(1,2) by (metis mod_0_imp_dvd dvdE)
  moreover then obtain d where "l = k + d" using assms(3) le_Suc_ex by fastforce
  moreover obtain f where "e = n + f" using assms(4) le_Suc_ex by blast
  ultimately show ?thesis by (auto simp: algebra_simps div_eq_0_iff)
qed

text \<open>An allocation fails exactly when every page of the region is out.\<close>

lemma pmm_alloc_exhausted:
  assumes "pmm_inv s" "pmm_alloc_page s = (p, s')"
  shows "p = 0 \<longleftrightarrow> card (pmm_allocated s) = pmm_capacity s"
proof -
  have w: "unat (next_free_page s + PMM_PAGE_SIZE) = unat (next_free_page s) + 4096"
    using assms(1) by (simp add: unat_plus_if' pmm_inv_def word_le_nat_alt)
  have q: "(unat (next_free_page s) - unat (allocation_start s)) div 4096 = pmm_capacity s \<longleftrightarrow>
      unat (next_free_page s) + 4096 > unat (allocation_end s)"
    unfolding pmm_capacity_def using assms(1)
    by (intro page_quotients) (auto simp: pmm_inv_def page_aligned_def word_le_nat_alt)
  have le: "(unat (next_free_page s) - unat (allocation_start s)) div 4096 \<le> pmm_capacity s"
    unfolding pmm_capacity_def using assms(1)
    by (intro div_le_mono) (auto simp: pmm_inv_def word_le_nat_alt)
  have c: "unat (allocated_pages s) + unat (free_stack_count s) =
      (unat (next_free_page s) - unat (allocation_start s)) div 4096"
    using assms(1) by (simp add: pmm_inv_def)
  show ?thesis
  proof (cases "free_stack_count s = 0")
    case False
    then have "unat (free_stack_count s) \<noteq> 0" by (simp add: unat_eq_zero)
    with c le have "card (pmm_allocated s) \<noteq> pmm_capacity s"
      using card_pmm_allocated [OF assms(1)] by linarith
    then show ?thesis using pmm_alloc_recycled_nonzero [OF False assms] by simp
  next
    case True
    have "p = 0 \<longleftrightarrow> unat (next_free_page s) + 4096 > unat (allocation_end s)"
      using assms True w
      by (auto simp: pmm_alloc_page_def pmm_inv_def word_le_nat_alt word_less_nat_alt unat_eq_zero
          split: if_splits)
    then show ?thesis using q c True card_pmm_allocated [OF assms(1)] by simp
  qed
qed

text \<open>
  The scan of the memory map returns when every entry of the map leads to a higher address,
  and keeps whatever each entry keeps.
\<close>

lemma pmm_scan_rule:
  assumes nowrap: "\<And>a. a < end_address \<Longrightarrow> unat a + unat (entry_size (entry_at a)) + 4 < 2 ^ 32"
    and step: "\<And>a t. a < end_address \<Longrightarrow> P t \<Longrightarrow> P (pmm_add_region kernel_end (entry_at a) t)"
  shows "P s \<Longrightarrow> \<exists>s'. pmm_scan entry_at kernel_end current end_address s = Some s' \<and> P s'"
proof (induction "unat end_address - unat current" arbitrary: current s rule: less_induct)
  case less
  show ?case
  proof (cases "current < end_address")
    case False
    with less.prems show ?thesis by (subst pmm_scan.simps) simp
  next
    case True
    let ?next = "current + (entry_size (entry_at current) + 4)"
    have "unat (entry_size (entry_at current) + 4) = unat (entry_size (entry_at current)) + 4"
      using nowrap [OF True] by (simp add: unat_plus_if')
    then have "unat current < unat ?next"
      using nowrap [OF True] by (simp add: unat_plus_if')
    then have "unat end_address - unat ?next < unat end_address - unat current"
      using True by (simp add: word_less_nat_alt)
    from less.hyps [OF this step [OF True less.prems]] True
    show ?thesis by (subst pmm_scan.simps) simp
  qed
qed

definition pmm_booted :: "u32 \<Rightarrow> pmm_state \<Rightarrow> bool" where
  "pmm_booted kernel_end s \<longleftrightarrow>
     length (free_stack s) = 1024 \<and> free_stack_count s = 0 \<and> allocated_pages s = 0 \<and>
     next_free_page s = allocation_start s \<and> total_regions s = usable_regions s + reserved_regions s \<and>
     (allocation_start s = 0 \<and> allocation_end s = 0 \<or>
      page_aligned (allocation_start s) \<and> ONE_MIB \<le> allocation_start s \<and>
      kernel_end \<le> allocation_start s \<and> allocation_start s < allocation_end s \<and>
      unat (allocation_end s) + 4096 < 2 ^ 32)"

definition region_end :: "mmap_entry \<Rightarrow> u32" where
  "region_end e = ucast (entry_base_addr e) + ucast (entry_length e)"

text \<open>
  A usable entry suits the allocator if its truncated end is more than a page below 4 GiB
  and it does not end inside the kernel image.
\<close>

definition region_ok :: "u32 \<Rightarrow> mmap_entry \<Rightarrow> bool" where
  "region_ok kernel_end e \<longleftrightarrow>
     (entry_type e = MULTIBOOT_MEMORY_AVAILABLE \<longrightarrow>
        unat (region_end e) + 4096 < 2 ^ 32 \<and>
        (kernel_end < region_end e \<or> region_end e \<le> ONE_MIB))"

lemma page_aligned_align_up [simp]: "page_aligned (align_up (x :: u32) PMM_PAGE_SIZE)"
proof -
  have "unat (align_up x PMM_PAGE_SIZE) = unat (x + 4096 - 1) div 4096 * 4096"
    using unat_and_not_low [of 12 "x + 4096 - 1"] by (simp add: align_up_def)
  then show ?thesis by (simp add: page_aligned_def)
qed

lemma align_up_page_ge: "align_up (x :: u32) PMM_PAGE_SIZE = 0 \<or> x \<le> align_up x PMM_PAGE_SIZE"
proof (cases "unat x + 4096 \<le> 2 ^ 32")
  case True
  then have "unat (align_up x PMM_PAGE_SIZE) = (unat x + 4095) div 4096 * 4096"
    using unat_align_up [of 12 x] by simp
  moreover have "unat x \<le> (unat x + 4095) div 4096 * 4096" by linarith
  ultimately show ?thesis by (simp add: word_le_nat_alt)
next
  case False
  have "unat (4095 + x) < 4096" using False unat_u32_bound [of x] by (simp add: unat_plus_if')
  then have "unat (align_up x PMM_PAGE_SIZE) = 0"
    using unat_and_not_low [of 12 "4095 + x"] by (simp add: align_up_def)
  then show ?thesis by (simp add: unat_eq_zero)
qed

lemma pmm_choose_region_booted:
  assumes "pmm_booted kernel_end s" "region_ok kernel_end e" "entry_type e = MULTIBOOT_MEMORY_AVAILABLE"
  shows "pmm_booted kernel_end (pmm_choose_region kernel_end e s)"
proof -
  define b0 where "b0 = (ucast (entry_base_addr e) :: u32)"
  define b1 where "b1 = (if b0 < ONE_MIB \<and> region_end e > ONE_MIB then ONE_MIB else b0)"
  define b2 where "b2 = (if b1 < kernel_end \<and> region_end e > kernel_end then kernel_end else b1)"
  define b where "b = align_up b2 PMM_PAGE_SIZE"
  have eq: "pmm_choose_region kernel_end e s =
      (if allocation_start s = 0 \<and> b \<ge> ONE_MIB \<and> region_end e > b
       then s\<lparr>allocation_start := b, allocation_end := region_end e, next_free_page := b\<rparr> else s)"
    unfolding pmm_choose_region_def b_def b2_def b1_def b0_def region_end_def Let_def by simp
  have "kernel_end \<le> b" if "b \<ge> ONE_MIB" "region_end e > b"
  proof -
    have "kernel_end < region_end e"
      using assms(2,3) that by (auto simp: region_ok_def)
    then have "kernel_end \<le> b2" by (auto simp: b2_def)
    moreover have "b \<noteq> 0" using that(1) by auto
    ultimately show ?thesis using align_up_page_ge [of b2] by (auto simp: b_def)
  qed
  then show ?thesis
    using assms unfolding eq by (auto simp: pmm_booted_def region_ok_def b_def)
qed

lemma pmm_add_region_booted:
  assumes "pmm_booted kernel_end s" "region_ok kernel_end e"
  shows "pmm_booted kernel_end (pmm_add_region kernel_end e s)"
proof (cases "entry_type e = MULTIBOOT_MEMORY_AVAILABLE")
  case True
  have "pmm_booted kernel_end (s\<lparr>total_regions := total_regions s + 1,
      usable_regions := usable_regions s + 1,
      usable_memory_bytes := usable_memory_bytes s + entry_length e\<rparr>)"
    using assms(1) by (simp add: pmm_booted_def)
  from pmm_choose_region_booted [OF this assms(2) True] True
  show ?thesis by (simp add: pmm_add_region_def Let_def)
next
  case False
  then show ?thesis using assms(1) by (simp add: pmm_add_region_def Let_def pmm_booted_def)
qed

lemma pmm_booted_inv:
  assumes "pmm_booted kernel_end s"
  shows "pmm_inv s \<and> pmm_allocated s = {}"
proof -
  have "pages_between a a = {}" for a by (auto simp: pages_between_def)
  then show ?thesis
    using assms by (auto simp: pmm_booted_def pmm_inv_def pmm_allocated_def live_stack_def)
qed

lemma pmm_reset_booted: "length (free_stack s) = 1024 \<Longrightarrow> pmm_booted k (pmm_reset s)"
  by (simp add: pmm_booted_def pmm_reset_def)

text \<open>Client traces: any interleaving of allocations and releases, valid or not.\<close>

datatype pmm_op = Alloc | Free u32

fun pmm_exec :: "pmm_op \<Rightarrow> pmm_state \<Rightarrow> pmm_state" where
  "pmm_exec Alloc s = snd (pmm_alloc_page s)"
| "pmm_exec (Free p) s = pmm_free_page p s"

lemma pmm_exec_inv: "pmm_inv s \<Longrightarrow> pmm_inv (fold pmm_exec ops s)"
proof (induction ops arbitrary: s)
  case (Cons op ops)
  have "pmm_inv (pmm_exec op s)"
    using Cons.prems pmm_alloc_inv [of s "fst (pmm_alloc_page s)"]
    by (cases op) (simp_all add: pmm_free_inv)
  with Cons.IH show ?case by simp
qed simp

lemma pmm_exec_region:
  "allocation_start (fold pmm_exec ops s) = allocation_start s \<and>
   allocation_end (fold pmm_exec ops s) = allocation_end s"
proof (induction ops arbitrary: s)
  case (Cons op ops)
  have "allocation_start (pmm_exec op s) = allocation_start s \<and>
      allocation_end (pmm_exec op s) = allocation_end s"
    by (cases op) (simp_all add: pmm_alloc_page_def pmm_free_page_def Let_def)
  with Cons.IH show ?case by simp
qed simp

lemma pmm_free_alloc_lifo:
  assumes "pmm_inv s" "p \<in> pmm_allocated s" "free_stack_count s < PMM_MAX_FREE_PAGES"
  shows "fst (pmm_alloc_page (pmm_free_page p s)) = p"
proof -
  let ?t = "pmm_free_page p s"
  note a = pmm_free_accepted [OF assms]
  have c: "free_stack_count ?t > 0"
    using a(2) by (auto simp: live_stack_def word_gt_0 split: if_splits)
  have "live_stack s @ [p] = take (unat (free_stack_count ?t - 1)) (free_stack ?t) @
      [free_stack ?t ! unat (free_stack_count ?t - 1)]"
    using live_stack_pop [OF c] a(1,2) by (simp add: pmm_inv_def)
  then show ?thesis using c by (simp add: pmm_alloc_page_def Let_def)
qed

lemma pmm_alloc_succeeds:
  assumes "pmm_inv s" "card (pmm_allocated s) + n < pmm_capacity s"
  obtains p t where "pmm_alloc_page s = (p, t)" "p \<noteq> 0" "pmm_inv t" "p \<notin> pmm_allocated s"
    "pmm_allocated t = insert p (pmm_allocated s)" "card (pmm_allocated t) + n \<le> pmm_capacity t"
    "free_stack_count t < PMM_MAX_FREE_PAGES"
proof -
  obtain p t where a: "pmm_alloc_page s = (p, t)" by fastforce
  have nz: "p \<noteq> 0" using pmm_alloc_exhausted [OF assms(1) a] assms(2) by simp
  have "pmm_capacity t = pmm_capacity s"
    using pmm_exec_region [of "[Alloc]" s] a by (simp add: pmm_capacity_def)
  moreover have "card (pmm_allocated t) = Suc (card (pmm_allocated s))"
    using pmm_alloc_fresh [OF assms(1) a nz] by (simp add: card_insert_disjoint)
  moreover have "free_stack_count t < PMM_MAX_FREE_PAGES"
    using a assms(1) by (auto simp: pmm_alloc_page_def pmm_inv_def u32_nat split: if_splits)
  ultimately show ?thesis
    using that [OF a nz pmm_alloc_inv [OF assms(1) a]] pmm_alloc_fresh [OF assms(1) a nz] assms(2) by simp
qed

section \<open>Properties\<close>

text \<open>A small machine for the witnesses: a region of five and a half pages above 1 MiB.\<close>

definition pmm_zero :: pmm_state where
  "pmm_zero = \<lparr>total_regions = 0, usable_regions = 0, reserved_regions = 0, usable_memory_bytes = 0,
     allocation_start = 0, allocation_end = 0, next_free_page = 0, allocated_pages = 0,
     free_stack_count = 0, free_stack = replicate 1024 0\<rparr>"

definition small_entry :: mmap_entry where
  "small_entry = \<lparr>entry_size = 20, entry_base_addr = 0x100000, entry_length = 0x7800, entry_type = 1\<rparr>"

definition small_pmm :: pmm_state where
  "small_pmm = pmm_add_region 0x102000 small_entry (pmm_reset pmm_zero)"

lemma small_pmm_eq:
  "small_pmm = pmm_zero\<lparr>total_regions := 1, usable_regions := 1, usable_memory_bytes := 0x7800,
     allocation_start := 0x102000, allocation_end := 0x107800, next_free_page := 0x102000\<rparr>"
  by (simp add: small_pmm_def pmm_add_region_def pmm_choose_region_def small_entry_def Let_def
      align_up_def pmm_reset_def pmm_zero_def)

lemma small_pmm_booted: "pmm_booted 0x102000 small_pmm"
  by (simp add: small_pmm_eq pmm_booted_def pmm_zero_def page_aligned_def)

text \<open>
  \<open>pmm_alloc_page\<close> on a well-formed allocator either hands out a page of the chosen region
  that is page aligned, was not out before and now is, or returns 0 and changes nothing; it
  returns 0 exactly when every page of the region is out. The invariant is kept.
\<close>

theorem pmm_alloc_page_correct:
  assumes "pmm_inv s" and "pmm_alloc_page s = (p, s')"
  shows "pmm_inv s' \<and> (p = 0 \<longleftrightarrow> card (pmm_allocated s) = pmm_capacity s) \<and>
    (if p = 0 then s' = s
     else page_aligned p \<and> allocation_start s \<le> p \<and> p < allocation_end s \<and>
          p \<notin> pmm_allocated s \<and> pmm_allocated s' = insert p (pmm_allocated s))"
proof -
  have "p \<in> pages_between (allocation_start s') (next_free_page s')" if "p \<noteq> 0"
    using pmm_alloc_fresh [OF assms that] by (auto simp: pmm_allocated_def)
  moreover have "allocation_start s' = allocation_start s" "allocation_end s' = allocation_end s"
    using pmm_exec_region [of "[Alloc]" s] assms(2) by auto
  ultimately show ?thesis
    using pmm_alloc_fresh [OF assms] pmm_allocated_page [OF pmm_alloc_inv [OF assms]]
      pmm_alloc_fail [of s s'] pmm_alloc_exhausted [OF assms] assms pmm_alloc_inv [OF assms] by auto
qed

theorem pmm_alloc_page_correct_witness:
  "page_aligned (0x102000 :: u32) \<and> 0x102000 \<notin> pmm_allocated small_pmm \<and>
   pmm_allocated (snd (pmm_alloc_page small_pmm)) = insert 0x102000 (pmm_allocated small_pmm)"
proof -
  have inv: "pmm_inv small_pmm" using pmm_booted_inv [OF small_pmm_booted] by simp
  have "pmm_alloc_page small_pmm = (0x102000, snd (pmm_alloc_page small_pmm))"
    by (simp add: pmm_alloc_page_def small_pmm_eq pmm_zero_def)
  from pmm_alloc_page_correct [OF inv this] show ?thesis by simp
qed

text \<open>
  \<open>pmm_free_page\<close> gives back exactly the pages that are out: with room on the free stack an
  allocated page leaves the allocated set, and in every other case (null, unaligned,
  out of range, never allocated, already free, full stack) the state does not change at all.
\<close>

theorem pmm_free_page_correct:
  assumes "pmm_inv s"
  shows "pmm_inv (pmm_free_page p s) \<and>
    (if p \<in> pmm_allocated s \<and> free_stack_count s < PMM_MAX_FREE_PAGES
     then pmm_allocated (pmm_free_page p s) = pmm_allocated s - {p} \<and>
          fst (pmm_alloc_page (pmm_free_page p s)) = p
     else pmm_free_page p s = s)"
  using pmm_free_inv [OF assms, of p] pmm_free_allocated [OF assms, of p]
    pmm_free_alloc_lifo [OF assms, of p] pmm_free_rejected [OF assms, of p] pmm_free_full [of s p]
  by (auto simp: not_less)

theorem pmm_free_page_correct_witness:
  "let s = snd (pmm_alloc_page small_pmm) in
   pmm_free_page 0x103000 s = s \<and> fst (pmm_alloc_page (pmm_free_page 0x102000 s)) = 0x102000"
proof -
  let ?s = "snd (pmm_alloc_page small_pmm)"
  have a: "pmm_alloc_page small_pmm = (0x102000, ?s)"
    by (simp add: pmm_alloc_page_def small_pmm_eq pmm_zero_def)
  have e: "pmm_allocated small_pmm = {}" and i: "pmm_inv small_pmm"
    using pmm_booted_inv [OF small_pmm_booted] by auto
  have out: "pmm_allocated ?s = {0x102000}" using pmm_alloc_fresh [OF i a] e by simp
  have inv: "pmm_inv ?s" using pmm_alloc_inv [OF i a] .
  have "free_stack_count ?s < PMM_MAX_FREE_PAGES"
    by (simp add: pmm_alloc_page_def small_pmm_eq pmm_zero_def)
  then show ?thesis
    using pmm_free_page_correct [where p = "0x102000", OF inv] pmm_free_page_correct [where p = "0x103000", OF inv] out
    by simp
qed

text \<open>
  C7: initialisation on a memory map whose entries lead upwards and whose usable regions are
  sound returns, and leaves a well-formed allocator with no page out whose region starts page
  aligned at or above 1 MiB and at or above the end of the kernel image (or no region at all).
  From then on, after any sequence of allocations and releases, valid or not, the pages that
  are out are pages of that region and \<open>allocated_pages\<close> counts them.
\<close>

theorem pmm_initialize_then_any_trace:
  assumes "\<And>a. a < memory_map_address b + memory_map_length b \<Longrightarrow>
             unat a + unat (entry_size (entry_at a)) + 4 < 2 ^ 32 \<and>
             region_ok (align_up kernel_end_address PMM_PAGE_SIZE) (entry_at a)"
    and "length (free_stack s) = 1024"
  shows "\<exists>s0. pmm_initialize entry_at kernel_end_address (Some b) s = Some s0 \<and> pmm_allocated s0 = {} \<and>
           (\<forall>ops. let t = fold pmm_exec ops s0 in
              pmm_inv t \<and> card (pmm_allocated t) = unat (allocated_pages t) \<and>
              (\<forall>p \<in> pmm_allocated t. page_aligned p \<and> ONE_MIB \<le> p \<and>
                  align_up kernel_end_address PMM_PAGE_SIZE \<le> p \<and> p < allocation_end s0))"
proof -
  let ?k = "align_up kernel_end_address PMM_PAGE_SIZE"
  obtain s0 where s0: "pmm_initialize entry_at kernel_end_address (Some b) s = Some s0" "pmm_booted ?k s0"
  proof (cases "has_memory_map b")
    case True
    let ?stop = "memory_map_address b + memory_map_length b"
    have "\<exists>s'. pmm_scan entry_at ?k (memory_map_address b) ?stop (pmm_reset s) = Some s' \<and> pmm_booted ?k s'"
      by (rule pmm_scan_rule) (use assms pmm_add_region_booted pmm_reset_booted in blast)+
    with True that show ?thesis by (auto simp: pmm_initialize_def Let_def)
  next
    case False
    then show ?thesis using that pmm_reset_booted [OF assms(2)] by (simp add: pmm_initialize_def Let_def)
  qed
  have "pmm_inv t \<and> card (pmm_allocated t) = unat (allocated_pages t) \<and>
      (\<forall>p \<in> pmm_allocated t. page_aligned p \<and> ONE_MIB \<le> p \<and> ?k \<le> p \<and> p < allocation_end s0)"
    if t: "t = fold pmm_exec ops s0" for t ops
  proof -
    have i: "pmm_inv t" using pmm_booted_inv [OF s0(2)] pmm_exec_inv t by blast
    have "page_aligned p \<and> ONE_MIB \<le> p \<and> ?k \<le> p \<and> p < allocation_end s0"
      if "p \<in> pmm_allocated t" for p
      using that pmm_allocated_page [OF i, of p] pmm_exec_region [of ops s0] s0(2)
      by (auto simp: pmm_allocated_def pmm_booted_def t)
    with i show ?thesis by (simp add: card_pmm_allocated)
  qed
  then show ?thesis using s0 pmm_booted_inv [OF s0(2)] by (auto simp: Let_def)
qed

theorem pmm_initialize_then_any_trace_witness:
  "\<exists>s0. pmm_initialize (\<lambda>_. small_entry) 0x101234
          (Some \<lparr>has_memory_map = True, memory_map_length = 24, memory_map_address = 0x9000\<rparr>) pmm_zero =
        Some s0 \<and> pmm_inv (fold pmm_exec [Alloc, Free 0x102000, Free 0x102000, Alloc] s0)"
proof -
  let ?b = "\<lparr>has_memory_map = True, memory_map_length = 24, memory_map_address = 0x9000\<rparr>"
  have "unat a + unat (entry_size small_entry) + 4 < 2 ^ 32 \<and>
      region_ok (align_up 0x101234 PMM_PAGE_SIZE) small_entry"
    if "a < memory_map_address ?b + memory_map_length ?b" for a
    using that
    by (simp add: small_entry_def region_ok_def region_end_def align_up_def word_less_nat_alt)
  moreover have "length (free_stack pmm_zero) = 1024" by (simp add: pmm_zero_def)
  ultimately show ?thesis
    using pmm_initialize_then_any_trace [of ?b "\<lambda>_. small_entry" "0x101234" pmm_zero]
    unfolding Let_def by blast
qed

text \<open>
  The boot self-test, run with at least three pages left, gets three distinct pages that
  were not out and is then handed the page it released: the free stack reuses the page freed last.
\<close>

theorem pmm_run_self_test_reuses:
  assumes "pmm_inv s" and "card (pmm_allocated s) + 3 \<le> pmm_capacity s"
  shows "\<exists>p1 p2 p3 t. pmm_run_self_test s = ([p1, p2, p3, p2], t) \<and> distinct [0, p1, p2, p3] \<and>
           pmm_inv t \<and> pmm_allocated t = pmm_allocated s \<union> {p1, p2, p3} \<and>
           {p1, p2, p3} \<inter> pmm_allocated s = {}"
proof -
  obtain p1 s1 where 1: "pmm_alloc_page s = (p1, s1)" "p1 \<noteq> 0" "pmm_inv s1" "p1 \<notin> pmm_allocated s"
      "pmm_allocated s1 = insert p1 (pmm_allocated s)" "card (pmm_allocated s1) + 2 \<le> pmm_capacity s1"
    by (rule pmm_alloc_succeeds [OF assms(1), of 2]) (use assms(2) in simp)
  obtain p2 s2 where 2: "pmm_alloc_page s1 = (p2, s2)" "p2 \<noteq> 0" "pmm_inv s2" "p2 \<notin> pmm_allocated s1"
      "pmm_allocated s2 = insert p2 (pmm_allocated s1)" "card (pmm_allocated s2) + 1 \<le> pmm_capacity s2"
    by (rule pmm_alloc_succeeds [OF 1(3), of 1]) (use 1(6) in simp)
  obtain p3 s3 where 3: "pmm_alloc_page s2 = (p3, s3)" "p3 \<noteq> 0" "pmm_inv s3" "p3 \<notin> pmm_allocated s2"
      "pmm_allocated s3 = insert p3 (pmm_allocated s2)" "free_stack_count s3 < PMM_MAX_FREE_PAGES"
    by (rule pmm_alloc_succeeds [OF 2(3), of 0]) (use 2(6) in simp)
  have p2: "p2 \<in> pmm_allocated s3" using 2(5) 3(5) by simp
  let ?s4 = "pmm_free_page p2 s3"
  obtain q t where t: "pmm_alloc_page ?s4 = (q, t)" by fastforce
  then have q: "q = p2" using pmm_free_alloc_lifo [OF 3(3) p2 3(6)] by simp
  have i4: "pmm_inv ?s4" and a4: "pmm_allocated ?s4 = pmm_allocated s3 - {p2}"
    using pmm_free_inv [OF 3(3)] pmm_free_allocated [OF 3(3)] 3(6) by simp_all
  have "pmm_inv t" "pmm_allocated t = insert p2 (pmm_allocated ?s4)"
    using pmm_alloc_inv [OF i4 t] pmm_alloc_fresh [OF i4 t] q 2(2) by auto
  moreover have "pmm_run_self_test s = ([p1, p2, p3, p2], t)"
    by (simp add: pmm_run_self_test_def 1(1) 2(1) 3(1) t q)
  ultimately show ?thesis using 1(2,4,5) 2(2,4,5) 3(2,4,5) a4 p2 by (auto intro!: exI)
qed

theorem pmm_run_self_test_reuses_witness:
  "\<exists>p1 p2 p3 t. pmm_run_self_test small_pmm = ([p1, p2, p3, p2], t) \<and> distinct [0, p1, p2, p3]"
proof -
  have "pmm_inv small_pmm" "pmm_allocated small_pmm = {}"
    using pmm_booted_inv [OF small_pmm_booted] by auto
  moreover have "pmm_capacity small_pmm = 5"
    by (simp add: small_pmm_eq pmm_zero_def pmm_capacity_def)
  ultimately show ?thesis using pmm_run_self_test_reuses [of small_pmm] by auto
qed

end
