(* ===== verification/Vmm.thy ===== *)
theory Vmm
  imports Pmm Kernel_Status
begin

text \<open>
  \<^verbatim>\<open>memory/vmm.c\<close> and \<^verbatim>\<open>arch/i386/paging.c\<close>: two-level page tables of the i386 kernel.

  State: \<open>vmm_state\<close> holds \<^verbatim>\<open>vmm_stats\<close>, \<^verbatim>\<open>vmm_audit_info\<close> and \<^verbatim>\<open>paging_info\<close>, the
  physical memory manager it allocates page tables from, and physical memory as a function
  from the address of an aligned 32-bit cell to its value. The code reads and writes page tables
  through their physical addresses, which the boot identity map makes valid; the model does
  the same. The addresses of the static page directory and of the 32 static identity tables
  are linker symbols and arguments of \<open>paging_initialize\<close>. Loading CR3, setting CR0.PG and
  flushing the TLB are single instructions outside the model, as are the log lines.
\<close>

section \<open>State and operations\<close>

abbreviation (input) VMM_PAGE_PRESENT :: u32 where "VMM_PAGE_PRESENT \<equiv> 0x001"
abbreviation (input) VMM_PAGE_WRITABLE :: u32 where "VMM_PAGE_WRITABLE \<equiv> 0x002"
abbreviation (input) VMM_PAGE_USER :: u32 where "VMM_PAGE_USER \<equiv> 0x004"
abbreviation (input) VMM_ALLOWED_FLAGS :: u32 where "VMM_ALLOWED_FLAGS \<equiv> 0x006"
abbreviation (input) FRAME_MASK :: u32 where "FRAME_MASK \<equiv> 0xFFFFF000"
abbreviation (input) IDENTITY_PAGE_TABLE_COUNT :: nat where "IDENTITY_PAGE_TABLE_COUNT \<equiv> 32"

record vmm_state =
  vmm_initialized :: bool
  mapped_pages :: u32
  created_page_tables :: u32
  last_mapped_virtual_address :: u32
  last_mapped_physical_address :: u32
  failed_map_count :: u32
  failed_unmap_count :: u32
  remap_count :: u32
  invalid_map_count :: u32
  missing_unmap_count :: u32
  audits_run :: u32
  issues_found :: u32
  present_directory_entries :: u32
  present_page_entries :: u32
  writable_page_entries :: u32
  user_page_entries :: u32
  invalid_directory_entries :: u32
  invalid_page_table_addresses :: u32
  last_mapping_missing :: u32
  paging_enabled :: bool
  mapped_start :: u32
  mapped_end :: u32
  mapped_bytes :: u32
  page_directory_address :: u32
  page_table_count :: u32
  mem :: "u32 \<Rightarrow> u32"
  pmm :: pmm_state

definition page_directory_index :: "u32 \<Rightarrow> u32" where
  "page_directory_index address = drop_bit 22 address AND 0x3FF"

definition page_table_index :: "u32 \<Rightarrow> u32" where
  "page_table_index address = drop_bit 12 address AND 0x3FF"

definition page_align_down :: "u32 \<Rightarrow> u32" where
  "page_align_down address = address AND FRAME_MASK"

definition vmm_address_is_page_aligned :: "u32 \<Rightarrow> bool" where
  "vmm_address_is_page_aligned address \<longleftrightarrow> address AND 0xFFF = 0"

definition vmm_flags_are_valid :: "u32 \<Rightarrow> bool" where
  "vmm_flags_are_valid flags \<longleftrightarrow> flags AND NOT VMM_ALLOWED_FLAGS = 0"

text \<open>Cell \<open>index\<close> of the table at \<open>base\<close>, and writing it.\<close>

definition entry_of :: "(u32 \<Rightarrow> u32) \<Rightarrow> u32 \<Rightarrow> u32 \<Rightarrow> u32" where
  "entry_of m base index = m (base + 4 * index)"

definition set_entry :: "u32 \<Rightarrow> u32 \<Rightarrow> u32 \<Rightarrow> (u32 \<Rightarrow> u32) \<Rightarrow> u32 \<Rightarrow> u32" where
  "set_entry base index value m = m(base + 4 * index := value)"

definition vmm_clear_page_table :: "u32 \<Rightarrow> (u32 \<Rightarrow> u32) \<Rightarrow> u32 \<Rightarrow> u32" where
  "vmm_clear_page_table page_table m = fold (\<lambda>i. set_entry page_table (of_nat i) 0) [0..<1024] m"

definition vmm_get_or_create_page_table :: "u32 \<Rightarrow> u32 \<Rightarrow> vmm_state \<Rightarrow> u32 \<times> vmm_state" where
  "vmm_get_or_create_page_table virtual_address flags s =
     (let page_directory = page_directory_address s;
          directory_index = page_directory_index virtual_address
      in if entry_of (mem s) page_directory directory_index AND VMM_PAGE_PRESENT \<noteq> 0
         then
           let s = (if flags AND VMM_PAGE_USER \<noteq> 0
                    then s\<lparr>mem := set_entry page_directory directory_index
                                    (entry_of (mem s) page_directory directory_index OR VMM_PAGE_USER) (mem s)\<rparr>
                    else s)
           in (entry_of (mem s) page_directory directory_index AND FRAME_MASK, s)
         else
           let (page_table, pmm') = pmm_alloc_page (pmm s); s = s\<lparr>pmm := pmm'\<rparr>
           in if page_table = 0 then (0, s)
              else
                let s = s\<lparr>mem := vmm_clear_page_table page_table (mem s)\<rparr>;
                    s = s\<lparr>mem := set_entry page_directory directory_index
                           ((page_table AND FRAME_MASK) OR VMM_PAGE_PRESENT OR VMM_PAGE_WRITABLE OR
                            (flags AND VMM_PAGE_USER)) (mem s)\<rparr>
                in (page_table, s\<lparr>created_page_tables := created_page_tables s + 1\<rparr>))"

definition vmm_clear_audit_snapshot :: "vmm_state \<Rightarrow> vmm_state" where
  "vmm_clear_audit_snapshot s = s\<lparr>issues_found := 0, present_directory_entries := 0,
     present_page_entries := 0, writable_page_entries := 0, user_page_entries := 0,
     invalid_directory_entries := 0, invalid_page_table_addresses := 0, last_mapping_missing := 0\<rparr>"

definition vmm_initialize :: "vmm_state \<Rightarrow> vmm_state" where
  "vmm_initialize s = vmm_clear_audit_snapshot
     (s\<lparr>vmm_initialized := True, mapped_pages := 0, created_page_tables := 0,
        last_mapped_virtual_address := 0, last_mapped_physical_address := 0, failed_map_count := 0,
        failed_unmap_count := 0, remap_count := 0, invalid_map_count := 0, missing_unmap_count := 0,
        audits_run := 0\<rparr>)"

definition vmm_map_page :: "u32 \<Rightarrow> u32 \<Rightarrow> u32 \<Rightarrow> vmm_state \<Rightarrow> bool \<times> vmm_state" where
  "vmm_map_page virtual_address physical_address flags s =
     (if \<not> vmm_initialized s then (False, s\<lparr>failed_map_count := failed_map_count s + 1\<rparr>)
      else if \<not> vmm_flags_are_valid flags
      then (False, s\<lparr>invalid_map_count := invalid_map_count s + 1,
                     failed_map_count := failed_map_count s + 1\<rparr>)
      else
        let aligned_virtual = page_align_down virtual_address;
            aligned_physical = page_align_down physical_address;
            s = (if \<not> vmm_address_is_page_aligned virtual_address \<or>
                    \<not> vmm_address_is_page_aligned physical_address
                 then s\<lparr>invalid_map_count := invalid_map_count s + 1\<rparr> else s);
            (page_table, s) = vmm_get_or_create_page_table aligned_virtual flags s
        in if page_table = 0 then (False, s\<lparr>failed_map_count := failed_map_count s + 1\<rparr>)
           else
             let table_index = page_table_index aligned_virtual;
                 was_mapped = (entry_of (mem s) page_table table_index AND VMM_PAGE_PRESENT \<noteq> 0);
                 s = s\<lparr>mem := set_entry page_table table_index
                               (aligned_physical OR VMM_PAGE_PRESENT OR flags) (mem s)\<rparr>;
                 s = (if \<not> was_mapped then s\<lparr>mapped_pages := mapped_pages s + 1\<rparr>
                      else s\<lparr>remap_count := remap_count s + 1\<rparr>)
             in (True, s\<lparr>last_mapped_virtual_address := aligned_virtual,
                         last_mapped_physical_address := aligned_physical\<rparr>))"

definition vmm_unmap_page :: "u32 \<Rightarrow> vmm_state \<Rightarrow> bool \<times> vmm_state" where
  "vmm_unmap_page virtual_address s =
     (let missing = s\<lparr>failed_unmap_count := failed_unmap_count s + 1,
                      missing_unmap_count := missing_unmap_count s + 1\<rparr>
      in if \<not> vmm_initialized s then (False, s\<lparr>failed_unmap_count := failed_unmap_count s + 1\<rparr>)
         else
           let aligned_virtual = page_align_down virtual_address;
               directory_entry = entry_of (mem s) (page_directory_address s) (page_directory_index aligned_virtual)
           in if directory_entry AND VMM_PAGE_PRESENT = 0 then (False, missing)
              else
                let page_table = directory_entry AND FRAME_MASK;
                    table_index = page_table_index aligned_virtual
                in if entry_of (mem s) page_table table_index AND VMM_PAGE_PRESENT = 0 then (False, missing)
                   else
                     let s = s\<lparr>mem := set_entry page_table table_index 0 (mem s)\<rparr>
                     in (True, if mapped_pages s > 0 then s\<lparr>mapped_pages := mapped_pages s - 1\<rparr> else s))"

definition vmm_is_mapped :: "u32 \<Rightarrow> vmm_state \<Rightarrow> bool" where
  "vmm_is_mapped virtual_address s =
     (if \<not> vmm_initialized s then False
      else
        let aligned_virtual = page_align_down virtual_address;
            directory_entry = entry_of (mem s) (page_directory_address s) (page_directory_index aligned_virtual)
        in if directory_entry AND VMM_PAGE_PRESENT = 0 then False
           else entry_of (mem s) (directory_entry AND FRAME_MASK) (page_table_index aligned_virtual)
                  AND VMM_PAGE_PRESENT \<noteq> 0)"

definition vmm_get_physical_address :: "u32 \<Rightarrow> vmm_state \<Rightarrow> u32" where
  "vmm_get_physical_address virtual_address s =
     (if \<not> vmm_initialized s then 0
      else
        let aligned_virtual = page_align_down virtual_address;
            offset = virtual_address AND 0xFFF;
            directory_entry = entry_of (mem s) (page_directory_address s) (page_directory_index aligned_virtual)
        in if directory_entry AND VMM_PAGE_PRESENT = 0 then 0
           else
             let page_entry = entry_of (mem s) (directory_entry AND FRAME_MASK) (page_table_index aligned_virtual)
             in if page_entry AND VMM_PAGE_PRESENT = 0 then 0
                else (page_entry AND FRAME_MASK) + offset)"

definition vmm_validate_mapping :: "u32 \<Rightarrow> u32 \<Rightarrow> vmm_state \<Rightarrow> bool" where
  "vmm_validate_mapping virtual_address expected_flags s =
     (if \<not> vmm_initialized s then False
      else if \<not> vmm_flags_are_valid expected_flags then False
      else
        let aligned_virtual = page_align_down virtual_address;
            directory_entry = entry_of (mem s) (page_directory_address s) (page_directory_index aligned_virtual)
        in if directory_entry AND VMM_PAGE_PRESENT = 0 then False
           else
             let page_entry = entry_of (mem s) (directory_entry AND FRAME_MASK) (page_table_index aligned_virtual)
             in if page_entry AND VMM_PAGE_PRESENT = 0 then False
                else page_entry AND expected_flags = expected_flags)"

definition vmm_validate_mapping_status :: "u32 \<Rightarrow> vmm_state \<Rightarrow> int" where
  "vmm_validate_mapping_status virtual_address s =
     (if \<not> vmm_initialized s then KERNEL_ERROR_NOT_INITIALIZED
      else if virtual_address AND 0xFFF \<noteq> 0 then KERNEL_ERROR_INVALID_ARGUMENT
      else if \<not> vmm_is_mapped virtual_address s then KERNEL_ERROR_NOT_FOUND
      else if \<not> vmm_validate_mapping virtual_address 0 s then KERNEL_ERROR_CORRUPTION_DETECTED
      else KERNEL_OK)"

text \<open>The audit: one step per page table entry and per directory entry, then the last mapping.\<close>

definition audit_page_entry :: "u32 \<Rightarrow> vmm_state \<Rightarrow> vmm_state" where
  "audit_page_entry page_entry s =
     (if page_entry AND VMM_PAGE_PRESENT = 0 then s
      else
        let s = s\<lparr>present_page_entries := present_page_entries s + 1\<rparr>;
            s = (if page_entry AND VMM_PAGE_WRITABLE \<noteq> 0
                 then s\<lparr>writable_page_entries := writable_page_entries s + 1\<rparr> else s)
        in if page_entry AND VMM_PAGE_USER \<noteq> 0
           then s\<lparr>user_page_entries := user_page_entries s + 1\<rparr> else s)"

definition audit_directory_entry :: "nat \<Rightarrow> vmm_state \<Rightarrow> vmm_state" where
  "audit_directory_entry directory_index s =
     (let directory_entry = entry_of (mem s) (page_directory_address s) (of_nat directory_index)
      in if directory_entry AND VMM_PAGE_PRESENT = 0 then s
         else
           let s = s\<lparr>present_directory_entries := present_directory_entries s + 1\<rparr>
           in if directory_entry AND FRAME_MASK = 0
              then s\<lparr>issues_found := issues_found s + 1,
                     invalid_page_table_addresses := invalid_page_table_addresses s + 1\<rparr>
              else fold (\<lambda>i s. audit_page_entry (entry_of (mem s) (directory_entry AND FRAME_MASK) (of_nat i)) s)
                     [0..<1024] s)"

definition vmm_audit :: "vmm_state \<Rightarrow> u32 \<times> vmm_state" where
  "vmm_audit s =
     (let s = vmm_clear_audit_snapshot (s\<lparr>audits_run := audits_run s + 1\<rparr>);
          bad_directory = s\<lparr>issues_found := issues_found s + 1,
                            invalid_directory_entries := invalid_directory_entries s + 1\<rparr>
      in if \<not> vmm_initialized s then (issues_found bad_directory, bad_directory)
         else if page_directory_address s = 0 then (issues_found bad_directory, bad_directory)
         else
           let s = fold audit_directory_entry [0..<1024] s;
               s = (if mapped_pages s > 0 \<and> \<not> vmm_is_mapped (last_mapped_virtual_address s) s
                    then s\<lparr>issues_found := issues_found s + 1,
                           last_mapping_missing := last_mapping_missing s + 1\<rparr> else s)
           in (issues_found s, s))"

section \<open>The boot page tables\<close>

definition paging_clear_structures :: "u32 \<Rightarrow> (nat \<Rightarrow> u32) \<Rightarrow> (u32 \<Rightarrow> u32) \<Rightarrow> u32 \<Rightarrow> u32" where
  "paging_clear_structures directory table_at m =
     fold (\<lambda>t m. fold (\<lambda>e. set_entry (table_at t) (of_nat e) 0) [0..<1024] m) [0..<IDENTITY_PAGE_TABLE_COUNT]
       (fold (\<lambda>i. set_entry directory (of_nat i) 0) [0..<1024] m)"

definition identity_entry :: "nat \<Rightarrow> nat \<Rightarrow> u32" where
  "identity_entry t e =
     (of_nat t * 1024 * 4096 + of_nat e * 4096) OR VMM_PAGE_PRESENT OR VMM_PAGE_WRITABLE"

definition paging_build_identity_map :: "u32 \<Rightarrow> (nat \<Rightarrow> u32) \<Rightarrow> (u32 \<Rightarrow> u32) \<Rightarrow> u32 \<Rightarrow> u32" where
  "paging_build_identity_map directory table_at m =
     fold (\<lambda>t m. set_entry directory (of_nat t) (table_at t OR VMM_PAGE_PRESENT OR VMM_PAGE_WRITABLE)
                   (fold (\<lambda>e. set_entry (table_at t) (of_nat e) (identity_entry t e)) [0..<1024] m))
       [0..<IDENTITY_PAGE_TABLE_COUNT] m"

definition paging_initialize :: "u32 \<Rightarrow> u32 \<Rightarrow> vmm_state \<Rightarrow> vmm_state" where
  "paging_initialize directory tables s =
     (let table_at = (\<lambda>t. tables + of_nat t * 4096);
          m = paging_build_identity_map directory table_at (paging_clear_structures directory table_at (mem s));
          size = of_nat IDENTITY_PAGE_TABLE_COUNT * 1024 * 4096
      in s\<lparr>mem := m, mapped_start := 0, mapped_bytes := size, mapped_end := 0 + size - 1,
           page_directory_address := directory, page_table_count := of_nat IDENTITY_PAGE_TABLE_COUNT,
           paging_enabled := True\<rparr>)"

section \<open>Addresses and indices\<close>

lemma unat_page_align_down: "unat (page_align_down a) = unat a div 4096 * 4096"
proof -
  have "FRAME_MASK = NOT (2 ^ 12 - 1)" by simp
  then show ?thesis using unat_and_not_low [of 12 a] by (simp only: page_align_down_def) simp
qed

lemma div_4M: "(x :: nat) div 4194304 = x div 4096 div 1024"
  by (simp flip: div_mult2_eq)

lemma unat_page_directory_index: "unat (page_directory_index a) = unat a div 4194304"
proof -
  have "unat (drop_bit 22 a :: u32) = unat a div 4194304"
    by (simp add: drop_bit_eq_div unat_div_distrib)
  moreover have "unat a div 4194304 < 1024" using unat_u32_bound [of a] by simp
  ultimately show ?thesis
    using unat_and_low [of 10 "drop_bit 22 a"] by (simp add: page_directory_index_def)
qed

lemma unat_page_table_index: "unat (page_table_index a) = unat a div 4096 mod 1024"
proof -
  have "unat (drop_bit 12 a :: u32) = unat a div 4096"
    by (simp add: drop_bit_eq_div unat_div_distrib)
  then show ?thesis
    using unat_and_low [of 10 "drop_bit 12 a"] by (simp add: page_table_index_def)
qed

lemma index_less [simp]:
  "unat (page_directory_index a) < 1024" "unat (page_table_index a) < 1024"
  using unat_u32_bound [of a] by (simp_all add: unat_page_directory_index unat_page_table_index)

lemma index_align_down [simp]:
  "page_directory_index (page_align_down a) = page_directory_index a"
  "page_table_index (page_align_down a) = page_table_index a"
proof -
  show "page_directory_index (page_align_down a) = page_directory_index a"
    by (simp add: word_unat_eq_iff unat_page_directory_index unat_page_align_down div_4M)
  show "page_table_index (page_align_down a) = page_table_index a"
    by (simp add: word_unat_eq_iff unat_page_table_index unat_page_align_down)
qed

lemma same_page_iff:
  "page_align_down a = page_align_down b \<longleftrightarrow>
     page_directory_index a = page_directory_index b \<and> page_table_index a = page_table_index b"
proof -
  have "x = y \<longleftrightarrow> x div 1024 = y div 1024 \<and> x mod 1024 = y mod 1024" for x y :: nat
    by (metis div_mult_mod_eq)
  from this [of "unat a div 4096" "unat b div 4096"] show ?thesis
    by (simp add: word_unat_eq_iff unat_page_align_down unat_page_directory_index
        unat_page_table_index div_4M)
qed

lemma page_aligned_frame [simp]: "page_aligned (e AND FRAME_MASK)"
  using unat_page_align_down [of e] by (simp add: page_aligned_def page_align_down_def)

lemma frame_of_aligned:
  assumes "page_aligned (p :: u32)" shows "p AND FRAME_MASK = p"
proof -
  have "unat (page_align_down p) = unat p"
    using assms by (auto simp: unat_page_align_down page_aligned_def)
  then show ?thesis by (simp add: word_unat_eq_iff page_align_down_def)
qed

lemma unat_entry_address:
  assumes "page_aligned base" "unat i < 1024"
  shows "unat (base + 4 * i :: u32) = unat base + 4 * unat i"
proof -
  obtain k where k: "unat base = 4096 * k" using assms(1) by (rule page_alignedE)
  then have "4096 * k < 4096 * 1048576" using unat_u32_bound [of base] by simp
  then have "unat base + 4096 \<le> 2 ^ 32" using k by simp
  moreover have "unat (4 * i) = 4 * unat i" using assms(2) by (simp add: unat_word_ariths(2))
  ultimately show ?thesis using assms(2) by (simp add: unat_plus_if')
qed

lemma entry_address_eq:
  assumes "page_aligned b" "page_aligned b'" "unat i < 1024" "unat j < 1024"
  shows "(b :: u32) + 4 * i = b' + 4 * j \<longleftrightarrow> b = b' \<and> i = j"
proof
  assume e: "b + 4 * i = b' + 4 * j"
  obtain k k' where k: "unat b = 4096 * k" "unat b' = 4096 * k'" using assms by (meson page_alignedE)
  have "4096 * k + 4 * unat i = 4096 * k' + 4 * unat j"
    using e k unat_entry_address [OF assms(1,3)] unat_entry_address [OF assms(2,4)] by simp
  moreover have "(4096 * k + 4 * unat i) div 4096 = k" "(4096 * k' + 4 * unat j) div 4096 = k'"
    using assms(3,4) by simp_all
  ultimately have "k = k' \<and> unat i = unat j" by simp
  with k show "b = b' \<and> i = j" by (simp add: word_unat_eq_iff)
qed simp

section \<open>Table cells and flag bits\<close>

lemma entry_of_set_entry:
  assumes "page_aligned b" "page_aligned b'" "unat i < 1024" "unat j < 1024"
  shows "entry_of (set_entry b i v m) b' j = (if b = b' \<and> i = j then v else entry_of m b' j)"
  using entry_address_eq [OF assms] by (auto simp: entry_of_def set_entry_def)

lemma entry_of_fold_set_entry:
  assumes "page_aligned b" "page_aligned b'" "n \<le> 1024" "unat j < 1024"
  shows "entry_of (fold (\<lambda>i. set_entry b (of_nat i) (f i)) [0..<n] m) b' j =
    (if b = b' \<and> unat j < n then f (unat j) else entry_of m b' j)"
  using assms(3)
proof (induction n)
  case (Suc n)
  have n: "unat (of_nat n :: u32) = n" using Suc.prems by (simp add: unat_of_nat take_bit_nat_eq_self)
  then have "of_nat n = j \<longleftrightarrow> unat j = n" by (auto simp: word_unat_eq_iff)
  moreover have "unat (of_nat n :: u32) < 1024" using n Suc.prems by simp
  ultimately show ?case
    using Suc assms(1,2,4) by (auto simp: entry_of_set_entry less_Suc_eq)
qed simp

lemma entry_of_cleared:
  assumes "page_aligned p" "page_aligned b" "unat j < 1024"
  shows "entry_of (vmm_clear_page_table p m) b j = (if p = b then 0 else entry_of m b j)"
  unfolding vmm_clear_page_table_def using entry_of_fold_set_entry [OF assms(1,2) _ assms(3), of 1024 "\<lambda>_. 0"] assms(3)
  by simp

lemma or_present [simp]: "(x OR VMM_PAGE_PRESENT OR y) AND VMM_PAGE_PRESENT \<noteq> 0"
proof
  assume z: "(x OR VMM_PAGE_PRESENT OR y) AND VMM_PAGE_PRESENT = 0"
  have "bit ((x OR VMM_PAGE_PRESENT OR y) AND VMM_PAGE_PRESENT) 0" by (simp add: bit_simps)
  then show False unfolding z by simp
qed

lemma flags_below_frame:
  assumes "vmm_flags_are_valid flags"
  shows "flags AND FRAME_MASK = 0"
proof -
  have "FRAME_MASK = NOT 6 AND FRAME_MASK" by simp
  then have "flags AND FRAME_MASK = (flags AND NOT 6) AND FRAME_MASK" by (metis and.assoc)
  then show ?thesis using assms by (simp add: vmm_flags_are_valid_def)
qed

lemma mapping_frame:
  assumes "vmm_flags_are_valid flags" "page_aligned frame"
  shows "(frame OR VMM_PAGE_PRESENT OR flags) AND FRAME_MASK = frame"
  using flags_below_frame [OF assms(1)] frame_of_aligned [OF assms(2)]
  by (simp add: bit.conj_disj_distrib2)

lemma directory_frame:
  assumes "page_aligned p"
  shows "((p AND FRAME_MASK) OR VMM_PAGE_PRESENT OR VMM_PAGE_WRITABLE OR (flags AND VMM_PAGE_USER)) AND FRAME_MASK = p"
  using frame_of_aligned [OF assms] by (simp add: bit.conj_disj_distrib2 and.assoc)

lemma or_user_keeps:
  "(e OR VMM_PAGE_USER) AND FRAME_MASK = e AND FRAME_MASK"
  "(e OR VMM_PAGE_USER) AND VMM_PAGE_PRESENT = e AND VMM_PAGE_PRESENT"
  by (simp_all add: bit.conj_disj_distrib2)

section \<open>The mapping the tables represent\<close>

definition present :: "u32 \<Rightarrow> bool" where
  "present e \<longleftrightarrow> e AND VMM_PAGE_PRESENT \<noteq> 0"

definition pde :: "vmm_state \<Rightarrow> u32 \<Rightarrow> u32" where
  "pde s i = entry_of (mem s) (page_directory_address s) i"

definition table_of :: "vmm_state \<Rightarrow> u32 \<Rightarrow> u32" where
  "table_of s i = pde s i AND FRAME_MASK"

definition pte :: "vmm_state \<Rightarrow> u32 \<Rightarrow> u32 \<Rightarrow> u32 option" where
  "pte s i j =
     (if present (pde s i) \<and> present (entry_of (mem s) (table_of s i) j)
      then Some (entry_of (mem s) (table_of s i) j) else None)"

text \<open>The abstract state: the entry that translates an address, if there is one.\<close>

definition translation :: "vmm_state \<Rightarrow> u32 \<Rightarrow> u32 option" where
  "translation s a = pte s (page_directory_index a) (page_table_index a)"

text \<open>A page no allocation can return: one that is out, or one outside the region of the allocator.\<close>

definition page_reserved :: "pmm_state \<Rightarrow> u32 \<Rightarrow> bool" where
  "page_reserved q p \<longleftrightarrow> p \<in> pmm_allocated q \<or> p < allocation_start q \<or> p \<ge> allocation_end q"

definition vmm_inv :: "vmm_state \<Rightarrow> bool" where
  "vmm_inv s \<longleftrightarrow>
     pmm_inv (pmm s) \<and> page_aligned (page_directory_address s) \<and> page_directory_address s \<noteq> 0 \<and>
     page_reserved (pmm s) (page_directory_address s) \<and>
     (\<forall>i. unat i < 1024 \<and> present (pde s i) \<longrightarrow>
        table_of s i \<noteq> 0 \<and> table_of s i \<noteq> page_directory_address s \<and> page_reserved (pmm s) (table_of s i)) \<and>
     (\<forall>i j. unat i < 1024 \<and> unat j < 1024 \<and> i \<noteq> j \<and> present (pde s i) \<and> present (pde s j) \<longrightarrow>
        table_of s i \<noteq> table_of s j)"

definition vmm_tables :: "vmm_state \<Rightarrow> u32 set" where
  "vmm_tables s = insert (page_directory_address s) (table_of s ` {i. unat i < 1024 \<and> present (pde s i)})"

lemma vmm_tables_reserved: "vmm_inv s \<Longrightarrow> p \<in> vmm_tables s \<Longrightarrow> page_reserved (pmm s) p"
  by (auto simp: vmm_tables_def vmm_inv_def)

lemma vmm_tables_cong:
  assumes "page_directory_address t = page_directory_address s"
    "\<And>k. unat k < 1024 \<Longrightarrow> present (pde t k) = present (pde s k) \<and> table_of t k = table_of s k"
  shows "vmm_tables t = vmm_tables s"
  unfolding vmm_tables_def using assms by (intro arg_cong2 [where f = insert] image_cong) auto

lemma page_aligned_table [simp]: "page_aligned (table_of s i)"
  by (simp add: table_of_def)

text \<open>The four lookups of the code in terms of the translation.\<close>

lemma vmm_is_mapped_iff: "vmm_is_mapped a s \<longleftrightarrow> vmm_initialized s \<and> translation s a \<noteq> None"
  by (auto simp: vmm_is_mapped_def translation_def pte_def present_def pde_def table_of_def Let_def)

lemma vmm_get_physical_address_eq:
  "vmm_get_physical_address a s =
     (if vmm_initialized s then (case translation s a of None \<Rightarrow> 0 | Some e \<Rightarrow> (e AND FRAME_MASK) + (a AND 0xFFF)) else 0)"
  by (auto simp: vmm_get_physical_address_def translation_def pte_def present_def pde_def table_of_def Let_def)

lemma vmm_validate_mapping_iff:
  "vmm_validate_mapping a f s \<longleftrightarrow> vmm_initialized s \<and> vmm_flags_are_valid f \<and>
     (\<exists>e. translation s a = Some e \<and> e AND f = f)"
  by (auto simp: vmm_validate_mapping_def translation_def pte_def present_def pde_def table_of_def Let_def)

section \<open>Changing one cell\<close>

lemma vmm_inv_cong:
  assumes "page_directory_address t = page_directory_address s" "pmm t = pmm s"
    "\<And>k. unat k < 1024 \<Longrightarrow> present (pde t k) = present (pde s k) \<and> table_of t k = table_of s k"
  shows "vmm_inv t \<longleftrightarrow> vmm_inv s"
  using assms by (auto simp: vmm_inv_def)

lemma pde_set_pte:
  assumes "vmm_inv s" "unat i < 1024" "unat j < 1024" "unat k < 1024" "present (pde s i)"
  shows "pde (s\<lparr>mem := set_entry (table_of s i) j v (mem s)\<rparr>) k = pde s k"
proof -
  have "table_of s i \<noteq> page_directory_address s" "page_aligned (page_directory_address s)"
    using assms by (simp_all add: vmm_inv_def)
  then show ?thesis using assms(3,4) by (simp add: pde_def entry_of_set_entry)
qed

lemma vmm_inv_set_pte:
  assumes "vmm_inv s" "unat i < 1024" "unat j < 1024" "present (pde s i)"
  shows "vmm_inv (s\<lparr>mem := set_entry (table_of s i) j v (mem s)\<rparr>)"
  using assms pde_set_pte [OF assms(1-3) _ assms(4)]
  by (subst vmm_inv_cong [of _ s]) (auto simp: table_of_def)

lemma pte_set_pte:
  assumes "vmm_inv s" "unat i < 1024" "unat j < 1024" "present (pde s i)" "unat k < 1024" "unat l < 1024"
  shows "pte (s\<lparr>mem := set_entry (table_of s i) j v (mem s)\<rparr>) k l =
    (if k = i \<and> l = j then (if present v then Some v else None) else pte s k l)"
proof -
  let ?t = "s\<lparr>mem := set_entry (table_of s i) j v (mem s)\<rparr>"
  have p: "pde ?t k = pde s k" using pde_set_pte [OF assms(1-3,5,4)] .
  then have tk: "table_of ?t k = table_of s k" by (simp add: table_of_def)
  have e: "entry_of (mem ?t) (table_of s k) l =
      (if table_of s i = table_of s k \<and> j = l then v else entry_of (mem s) (table_of s k) l)"
    using assms(3,6) by (simp add: entry_of_set_entry)
  show ?thesis
  proof (cases "present (pde s k)")
    case True
    then have "table_of s i = table_of s k \<longleftrightarrow> k = i"
      using assms(1,2,4,5) unfolding vmm_inv_def by blast
    with True show ?thesis unfolding pte_def p tk e by simp
  next
    case False
    then have "k \<noteq> i" using assms(4) by blast
    with False show ?thesis unfolding pte_def p by simp
  qed
qed

text \<open>The two outcomes of \<open>vmm_get_or_create_page_table\<close> when a table is there or is made.\<close>

lemma user_bit_keeps:
  assumes "vmm_inv s" "unat i < 1024"
    and t: "t = s\<lparr>mem := set_entry (page_directory_address s) i (pde s i OR VMM_PAGE_USER) (mem s)\<rparr>"
  shows "vmm_inv t" "unat k < 1024 \<Longrightarrow> present (pde t k) = present (pde s k)"
    "unat k < 1024 \<Longrightarrow> table_of t k = table_of s k"
    "unat k < 1024 \<Longrightarrow> unat l < 1024 \<Longrightarrow> pte t k l = pte s k l"
proof -
  have a: "page_aligned (page_directory_address s)" using assms(1) by (simp add: vmm_inv_def)
  have p: "pde t k = (if k = i then pde s i OR VMM_PAGE_USER else pde s k)" if "unat k < 1024" for k
    using that assms(2) a by (auto simp: pde_def t entry_of_set_entry)
  show pr: "present (pde t k) = present (pde s k)" if "unat k < 1024" for k
    using p [OF that] by (simp add: present_def or_user_keeps)
  show tb: "table_of t k = table_of s k" if "unat k < 1024" for k
    using p [OF that] by (simp add: table_of_def or_user_keeps)
  show "vmm_inv t"
    using assms(1) pr tb by (subst vmm_inv_cong [of _ s]) (auto simp: t)
  show "pte t k l = pte s k l" if k: "unat k < 1024" and l: "unat l < 1024"
  proof (cases "present (pde s k)")
    case True
    then have "table_of s k \<noteq> page_directory_address s" using assms(1) k by (simp add: vmm_inv_def)
    then have "entry_of (mem t) (table_of s k) l = entry_of (mem s) (table_of s k) l"
      using a assms(2) l by (auto simp: t entry_of_set_entry)
    with pr [OF k] tb [OF k] show ?thesis by (simp add: pte_def)
  next
    case False
    with pr [OF k] show ?thesis by (simp add: pte_def)
  qed
qed

lemma fresh_page:
  assumes "pmm_inv q" "pmm_alloc_page q = (p, q')" "p \<noteq> 0"
  shows "page_aligned p" "\<not> page_reserved q p" "page_reserved q x \<Longrightarrow> page_reserved q' x" "page_reserved q' p"
proof -
  note f = pmm_alloc_fresh [OF assms] and i = pmm_alloc_inv [OF assms(1,2)]
  have r: "allocation_start q' = allocation_start q" "allocation_end q' = allocation_end q"
    using pmm_exec_region [of "[Alloc]" q] assms(2) by auto
  have "p \<in> pages_between (allocation_start q') (next_free_page q')" using f by (auto simp: pmm_allocated_def)
  from pmm_allocated_page [OF i this] f r show "page_aligned p" "\<not> page_reserved q p"
    by (auto simp: page_reserved_def)
  show "page_reserved q x \<Longrightarrow> page_reserved q' x" "page_reserved q' p"
    using f r by (auto simp: page_reserved_def)
qed

lemma new_table_keeps:
  assumes inv: "vmm_inv s" and i: "unat i < 1024" and np: "\<not> present (pde s i)"
    and al: "pmm_alloc_page (pmm s) = (p, q)" "p \<noteq> 0"
    and t: "t = s\<lparr>pmm := q, mem := set_entry (page_directory_address s) i
        ((p AND FRAME_MASK) OR VMM_PAGE_PRESENT OR VMM_PAGE_WRITABLE OR (flags AND VMM_PAGE_USER))
        (vmm_clear_page_table p (mem s))\<rparr>"
  shows "vmm_inv t" "present (pde t i)" "table_of t i = p"
    "unat k < 1024 \<Longrightarrow> unat l < 1024 \<Longrightarrow> pte t k l = pte s k l"
    "unat k < 1024 \<Longrightarrow> k \<noteq> i \<Longrightarrow> pde t k = pde s k"
proof -
  let ?d = "page_directory_address s"
  have pi: "pmm_inv (pmm s)" and da: "page_aligned ?d" and dr: "page_reserved (pmm s) ?d"
    using inv by (simp_all add: vmm_inv_def)
  note fp = fresh_page [OF pi al]
  have pd: "p \<noteq> ?d" using fp(2) dr by blast
  have res: "page_reserved (pmm s) (table_of s k)" "table_of s k \<noteq> ?d" "table_of s k \<noteq> p"
    if "unat k < 1024" "present (pde s k)" for k
    using inv that fp(2) by (auto simp: vmm_inv_def)
  show old: "pde t k = pde s k" if "unat k < 1024" "k \<noteq> i" for k
    using that i da fp(1) pd by (simp add: pde_def t entry_of_set_entry entry_of_cleared)
  have new: "pde t i = (p AND FRAME_MASK) OR VMM_PAGE_PRESENT OR VMM_PAGE_WRITABLE OR (flags AND VMM_PAGE_USER)"
    using i da by (simp add: pde_def t entry_of_set_entry)
  show pr: "present (pde t i)" unfolding new present_def by (rule or_present)
  show tb: "table_of t i = p" unfolding table_of_def new by (rule directory_frame [OF fp(1)])
  have cell: "entry_of (mem t) b l = entry_of (mem s) b l"
    if "page_aligned b" "b \<noteq> ?d" "b \<noteq> p" "unat l < 1024" for b l
    using that i da fp(1) by (auto simp: t entry_of_set_entry entry_of_cleared)
  show "vmm_inv t"
    unfolding vmm_inv_def
  proof (intro conjI allI impI)
    show "pmm_inv (pmm t)" using pmm_alloc_inv [OF pi al(1)] by (simp add: t)
    show "page_aligned (page_directory_address t)" "page_directory_address t \<noteq> 0"
      "page_reserved (pmm t) (page_directory_address t)"
      using inv fp(3) dr by (simp_all add: t vmm_inv_def)
    show "table_of t k \<noteq> 0" "table_of t k \<noteq> page_directory_address t" "page_reserved (pmm t) (table_of t k)"
      if "unat k < 1024 \<and> present (pde t k)" for k
      using that res [of k] old [of k] tb al(2) pd fp(3,4) inv by (cases "k = i"; auto simp: t table_of_def vmm_inv_def)+
    show "table_of t k \<noteq> table_of t j"
      if "unat k < 1024 \<and> unat j < 1024 \<and> k \<noteq> j \<and> present (pde t k) \<and> present (pde t j)" for k j
      using that res [of k] res [of j] old [of k] old [of j] tb inv
      by (cases "k = i"; cases "j = i") (auto simp: table_of_def vmm_inv_def)
  qed
  show "pte t k l = pte s k l" if k: "unat k < 1024" and l: "unat l < 1024"
  proof (cases "k = i")
    case True
    have "entry_of (mem t) p l = 0" using l i da fp(1) pd by (auto simp: t entry_of_set_entry entry_of_cleared)
    then show ?thesis using True np tb by (simp add: pte_def present_def)
  next
    case False
    then have "table_of t k = table_of s k" using old [OF k] by (simp add: table_of_def)
    with old [OF k False] res [OF k] cell [OF page_aligned_table _ _ l] show ?thesis by (auto simp: pte_def)
  qed
qed

text \<open>
  A table is found or made for the address; the translation does not change. Without a table
  and without a free page the state is as before.
\<close>

lemma vmm_get_or_create_spec:
  assumes inv: "vmm_inv s" and r: "vmm_get_or_create_page_table a flags s = (p, t)"
  shows "if p = 0 then t = s \<and> card (pmm_allocated (pmm s)) = pmm_capacity (pmm s)
    else vmm_inv t \<and> present (pde t (page_directory_index a)) \<and> table_of t (page_directory_index a) = p \<and>
      (\<forall>k l. unat k < 1024 \<and> unat l < 1024 \<longrightarrow> pte t k l = pte s k l) \<and>
      vmm_initialized t = vmm_initialized s \<and> mapped_pages t = mapped_pages s \<and> remap_count t = remap_count s \<and>
      pmm_allocated (pmm s) \<subseteq> pmm_allocated (pmm t) \<and>
      vmm_tables t \<subseteq> vmm_tables s \<union> (pmm_allocated (pmm t) - pmm_allocated (pmm s))"
proof (cases "present (pde s (page_directory_index a))")
  case True
  let ?i = "page_directory_index a"
  have nz: "table_of s ?i \<noteq> 0" using inv True by (simp add: vmm_inv_def)
  show ?thesis
  proof (cases "flags AND VMM_PAGE_USER \<noteq> 0")
    case user: True
    define u where "u = s\<lparr>mem := set_entry (page_directory_address s) ?i (pde s ?i OR VMM_PAGE_USER) (mem s)\<rparr>"
    note k = user_bit_keeps [OF inv index_less(1) u_def]
    have "p = table_of u ?i" "t = u"
      using r True user by (auto simp: vmm_get_or_create_page_table_def Let_def present_def pde_def table_of_def u_def)
    moreover have "vmm_tables u = vmm_tables s"
      using k(2,3) by (intro vmm_tables_cong) (auto simp: u_def)
    ultimately show ?thesis using k True nz by (simp add: u_def)
  next
    case False
    then have "p = table_of s ?i" "t = s"
      using r True by (auto simp: vmm_get_or_create_page_table_def Let_def present_def pde_def table_of_def)
    then show ?thesis using inv True nz by simp
  qed
next
  case False
  let ?i = "page_directory_index a"
  obtain x q where al: "pmm_alloc_page (pmm s) = (x, q)" by fastforce
  have pi: "pmm_inv (pmm s)" using inv by (simp add: vmm_inv_def)
  show ?thesis
  proof (cases "x = 0")
    case True
    then have "p = 0" "t = s"
      using r False al pmm_alloc_fail [OF pi] by (auto simp: vmm_get_or_create_page_table_def Let_def present_def pde_def)
    then show ?thesis using pmm_alloc_exhausted [OF pi al] True by simp
  next
    case nz: False
    define u where "u = s\<lparr>pmm := q, mem := set_entry (page_directory_address s) ?i
        ((x AND FRAME_MASK) OR VMM_PAGE_PRESENT OR VMM_PAGE_WRITABLE OR (flags AND VMM_PAGE_USER))
        (vmm_clear_page_table x (mem s))\<rparr>"
    note k = new_table_keeps [OF inv index_less(1) False al nz u_def]
    have e: "p = x" "t = u\<lparr>created_page_tables := created_page_tables s + 1\<rparr>"
      using r False al nz by (auto simp: vmm_get_or_create_page_table_def Let_def present_def pde_def u_def)
    have "vmm_inv t = vmm_inv u" "pde t = pde u" "table_of t = table_of u" "pte t = pte u"
      by (auto simp: e(2) vmm_inv_def pde_def table_of_def pte_def fun_eq_iff)
    moreover have "pmm_allocated (pmm t) = insert x (pmm_allocated (pmm s))" "x \<notin> pmm_allocated (pmm s)"
      using pmm_alloc_fresh [OF pi al nz] by (auto simp: e(2) u_def)
    moreover have "vmm_tables t \<subseteq> insert x (vmm_tables s)"
    proof
      fix y assume "y \<in> vmm_tables t"
      then consider "y = page_directory_address s" | j where "unat j < 1024" "present (pde u j)" "y = table_of u j"
        by (auto simp: vmm_tables_def e(2) u_def pde_def table_of_def)
      then show "y \<in> insert x (vmm_tables s)"
      proof cases
        case 2
        then show ?thesis using k(3,5) by (cases "j = ?i") (auto simp: vmm_tables_def table_of_def)
      qed (simp add: vmm_tables_def)
    qed
    ultimately show ?thesis using k nz e by (auto simp: u_def)
  qed
qed

text \<open>The statistics are not part of what the tables represent.\<close>

lemma vmm_stats_update:
  "pte (s\<lparr>mapped_pages := a\<rparr>) = pte s" "pte (s\<lparr>remap_count := a\<rparr>) = pte s"
  "pte (s\<lparr>last_mapped_virtual_address := a, last_mapped_physical_address := b\<rparr>) = pte s"
  "pte (s\<lparr>invalid_map_count := a\<rparr>) = pte s" "pte (s\<lparr>failed_map_count := a\<rparr>) = pte s"
  "vmm_inv (s\<lparr>mapped_pages := a\<rparr>) = vmm_inv s" "vmm_inv (s\<lparr>remap_count := a\<rparr>) = vmm_inv s"
  "vmm_inv (s\<lparr>last_mapped_virtual_address := a, last_mapped_physical_address := b\<rparr>) = vmm_inv s"
  "vmm_inv (s\<lparr>invalid_map_count := a\<rparr>) = vmm_inv s" "vmm_inv (s\<lparr>failed_map_count := a\<rparr>) = vmm_inv s"
  "pte (s\<lparr>failed_unmap_count := a, missing_unmap_count := b\<rparr>) = pte s"
  "vmm_inv (s\<lparr>failed_unmap_count := a, missing_unmap_count := b\<rparr>) = vmm_inv s"
  by (simp_all add: pte_def vmm_inv_def pde_def table_of_def fun_eq_iff)

section \<open>Map and unmap as updates of the translation\<close>

definition mapping_entry :: "u32 \<Rightarrow> u32 \<Rightarrow> u32" where
  "mapping_entry physical_address flags = page_align_down physical_address OR VMM_PAGE_PRESENT OR flags"

lemma present_mapping_entry [simp]: "present (mapping_entry p f)"
  unfolding present_def mapping_entry_def by (rule or_present)

lemma translation_set_pte:
  assumes "vmm_inv s" "present (pde s (page_directory_index a))"
  shows "translation (s\<lparr>mem := set_entry (table_of s (page_directory_index a)) (page_table_index a) v (mem s)\<rparr>) b =
    (if page_align_down b = page_align_down a then (if present v then Some v else None) else translation s b)"
  using pte_set_pte [OF assms(1) index_less(1,2) assms(2) index_less(1,2)]
  by (auto simp: translation_def same_page_iff)

lemma vmm_tables_update:
  "vmm_tables (s\<lparr>mapped_pages := a\<rparr>) = vmm_tables s" "vmm_tables (s\<lparr>remap_count := a\<rparr>) = vmm_tables s"
  "vmm_tables (s\<lparr>last_mapped_virtual_address := a, last_mapped_physical_address := b\<rparr>) = vmm_tables s"
  "vmm_tables (s\<lparr>invalid_map_count := a\<rparr>) = vmm_tables s" "vmm_tables (s\<lparr>failed_map_count := a\<rparr>) = vmm_tables s"
  "vmm_tables (s\<lparr>failed_unmap_count := a, missing_unmap_count := b\<rparr>) = vmm_tables s"
  "vmm_tables (s\<lparr>pmm := q\<rparr>) = vmm_tables s"
  by (rule vmm_tables_cong; simp add: pde_def table_of_def)+

lemma vmm_tables_set_pte:
  assumes "vmm_inv s" "unat i < 1024" "unat j < 1024" "present (pde s i)"
  shows "vmm_tables (s\<lparr>mem := set_entry (table_of s i) j v (mem s)\<rparr>) = vmm_tables s"
  using pde_set_pte [OF assms(1-3) _ assms(4)] by (intro vmm_tables_cong) (auto simp: table_of_def)

lemma vmm_map_page_spec:
  assumes inv: "vmm_inv s" and ini: "vmm_initialized s" and fl: "vmm_flags_are_valid flags"
    and r: "vmm_map_page va pa flags s = (ok, t)"
  shows "vmm_inv t \<and> vmm_initialized t \<and> pmm_allocated (pmm s) \<subseteq> pmm_allocated (pmm t) \<and>
    vmm_tables t \<subseteq> vmm_tables s \<union> (pmm_allocated (pmm t) - pmm_allocated (pmm s)) \<and>
    (if ok
     then (\<forall>a. translation t a = (if page_align_down a = page_align_down va
             then Some (mapping_entry pa flags) else translation s a)) \<and>
          mapped_pages t = mapped_pages s + (if translation s va = None then 1 else 0)
     else translation t = translation s \<and> pmm t = pmm s \<and>
          card (pmm_allocated (pmm s)) = pmm_capacity (pmm s))"
proof -
  define s0 where "s0 = (if \<not> vmm_address_is_page_aligned va \<or> \<not> vmm_address_is_page_aligned pa
    then s\<lparr>invalid_map_count := invalid_map_count s + 1\<rparr> else s)"
  have s0: "vmm_inv s0" "vmm_initialized s0" "pte s0 = pte s" "pmm s0 = pmm s" "mapped_pages s0 = mapped_pages s"
    "vmm_tables s0 = vmm_tables s"
    using inv ini by (simp_all add: s0_def vmm_stats_update vmm_tables_update)
  obtain p u where g: "vmm_get_or_create_page_table (page_align_down va) flags s0 = (p, u)" by fastforce
  note gs = vmm_get_or_create_spec [OF s0(1) g, unfolded index_align_down]
  let ?i = "page_directory_index va" and ?j = "page_table_index va" and ?v = "mapping_entry pa flags"
  show ?thesis
  proof (cases "p = 0")
    case True
    then have "ok = False" "t = s0\<lparr>failed_map_count := failed_map_count s0 + 1\<rparr>"
      using r ini fl g gs unfolding vmm_map_page_def Let_def s0_def [symmetric] by auto
    then show ?thesis
      using True gs s0 by (simp add: vmm_stats_update translation_def fun_eq_iff vmm_tables_update)
  next
    case False
    then have u: "vmm_inv u" "present (pde u ?i)" "table_of u ?i = p" "vmm_initialized u"
        "mapped_pages u = mapped_pages s" "pmm_allocated (pmm s) \<subseteq> pmm_allocated (pmm u)"
        "vmm_tables u \<subseteq> vmm_tables s \<union> (pmm_allocated (pmm u) - pmm_allocated (pmm s))"
      and tr: "translation u = translation s"
      using gs s0 by (auto simp: translation_def)
    let ?w = "u\<lparr>mem := set_entry p ?j ?v (mem u)\<rparr>"
    have was: "present (entry_of (mem u) p ?j) \<longleftrightarrow> translation s va \<noteq> None"
      using u(2,3) by (auto simp: tr [symmetric] translation_def pte_def)
    have ok: "ok" and t: "t = (if translation s va = None then ?w\<lparr>mapped_pages := mapped_pages u + 1\<rparr>
        else ?w\<lparr>remap_count := remap_count u + 1\<rparr>)
        \<lparr>last_mapped_virtual_address := page_align_down va, last_mapped_physical_address := page_align_down pa\<rparr>"
      using r ini fl g False was
      unfolding vmm_map_page_def Let_def s0_def [symmetric] present_def mapping_entry_def by auto
    have "vmm_inv ?w" using vmm_inv_set_pte [OF u(1) index_less(1) index_less(2) [of va] u(2), of ?v] u(3) by simp
    then have "vmm_inv t" by (simp add: t vmm_stats_update)
    moreover have "translation t = translation ?w" by (simp add: t translation_def vmm_stats_update fun_eq_iff)
    moreover have "vmm_tables t = vmm_tables u"
      using vmm_tables_set_pte [OF u(1) index_less(1) index_less(2) [of va] u(2), of ?v] u(3)
      by (simp add: t vmm_tables_update)
    ultimately show ?thesis
      using translation_set_pte [OF u(1,2), of ?v] u ok tr by (simp add: t)
  qed
qed

lemma vmm_unmap_page_spec:
  assumes inv: "vmm_inv s" and ini: "vmm_initialized s" and r: "vmm_unmap_page va s = (ok, t)"
  shows "vmm_inv t \<and> vmm_initialized t \<and> pmm t = pmm s \<and> vmm_tables t = vmm_tables s \<and>
    (ok \<longleftrightarrow> translation s va \<noteq> None) \<and>
    (\<forall>a. translation t a = (if ok \<and> page_align_down a = page_align_down va then None else translation s a)) \<and>
    (ok \<longrightarrow> mapped_pages t = (if mapped_pages s > 0 then mapped_pages s - 1 else 0))"
proof (cases "translation s va = None")
  case True
  then have "ok = False" "t = s\<lparr>failed_unmap_count := failed_unmap_count s + 1,
      missing_unmap_count := missing_unmap_count s + 1\<rparr>"
    using r ini by (auto simp: vmm_unmap_page_def Let_def translation_def pte_def present_def pde_def
        table_of_def split: if_splits)
  then show ?thesis using inv ini True by (simp add: vmm_stats_update translation_def vmm_tables_update)
next
  case False
  let ?i = "page_directory_index va" and ?j = "page_table_index va"
  let ?w = "s\<lparr>mem := set_entry (table_of s ?i) ?j 0 (mem s)\<rparr>"
  have p: "present (pde s ?i)" using False by (auto simp: translation_def pte_def split: if_splits)
  have ok: "ok" and t: "t = (if mapped_pages s > 0 then ?w\<lparr>mapped_pages := mapped_pages s - 1\<rparr> else ?w)"
    using r ini False by (auto simp: vmm_unmap_page_def Let_def translation_def pte_def present_def pde_def
        table_of_def split: if_splits)
  have "vmm_inv ?w" using vmm_inv_set_pte [OF inv index_less(1) index_less(2) [of va] p, of 0] .
  moreover have "translation t = translation ?w" by (simp add: t translation_def vmm_stats_update fun_eq_iff)
  moreover have "vmm_tables t = vmm_tables s"
    using vmm_tables_set_pte [OF inv index_less(1) index_less(2) [of va] p, of 0] by (simp add: t vmm_tables_update)
  moreover have "\<not> present 0" by (simp add: present_def)
  ultimately show ?thesis
    using translation_set_pte [OF inv p, of 0] ok ini False by (simp add: t vmm_stats_update word_gt_0)
qed

text \<open>Pages of other clients: taking one from the allocator and giving it back.\<close>

lemma vmm_pmm_update:
  "translation (s\<lparr>pmm := q\<rparr>) = translation s" "pde (s\<lparr>pmm := q\<rparr>) = pde s" "table_of (s\<lparr>pmm := q\<rparr>) = table_of s"
  by (simp_all add: translation_def pte_def pde_def table_of_def fun_eq_iff)

lemma vmm_inv_alloc:
  assumes "vmm_inv s" "pmm_alloc_page (pmm s) = (p, q)"
  shows "vmm_inv (s\<lparr>pmm := q\<rparr>)" "p \<noteq> 0 \<Longrightarrow> p \<notin> vmm_tables s"
proof -
  have i: "pmm_inv (pmm s)" using assms(1) by (simp add: vmm_inv_def)
  have r: "page_reserved q x" if "page_reserved (pmm s) x" for x
    using fresh_page(3) [OF i assms(2)] pmm_alloc_fail [OF i, of q] assms(2) that by (cases "p = 0") auto
  show "vmm_inv (s\<lparr>pmm := q\<rparr>)"
    using assms(1) r pmm_alloc_inv [OF i assms(2)] by (simp add: vmm_inv_def vmm_pmm_update)
  show "p \<notin> vmm_tables s" if "p \<noteq> 0"
    using fresh_page(2) [OF i assms(2) that] vmm_tables_reserved [OF assms(1)] by blast
qed

lemma vmm_inv_free:
  assumes "vmm_inv s" "p \<notin> vmm_tables s"
  shows "vmm_inv (s\<lparr>pmm := pmm_free_page p (pmm s)\<rparr>)"
proof -
  let ?q = "pmm_free_page p (pmm s)"
  have i: "pmm_inv (pmm s)" using assms(1) by (simp add: vmm_inv_def)
  have "allocation_start ?q = allocation_start (pmm s)" "allocation_end ?q = allocation_end (pmm s)"
    using pmm_exec_region [of "[Free p]" "pmm s"] by auto
  then have r: "page_reserved ?q x" if "page_reserved (pmm s) x" "x \<noteq> p" for x
    using that pmm_free_allocated [OF i, of p] by (auto simp: page_reserved_def)
  have "p \<noteq> page_directory_address s" "\<And>k. unat k < 1024 \<Longrightarrow> present (pde s k) \<Longrightarrow> table_of s k \<noteq> p"
    using assms(2) by (auto simp: vmm_tables_def)
  with assms(1) r pmm_free_inv [OF i, of p] show ?thesis
    by (auto simp: vmm_inv_def vmm_pmm_update)
qed

text \<open>A mapping takes at most one frame, for a page table.\<close>

lemma map_page_pmm: "vmm_map_page va pa fl s = (ok, t) \<Longrightarrow> pmm t = pmm s \<or> pmm t = snd (pmm_alloc_page (pmm s))"
proof -
  have "pmm u = pmm s \<or> pmm u = snd (pmm_alloc_page (pmm s))" if "vmm_get_or_create_page_table a fl s = (p, u)" for a p s u
    using that by (auto simp: vmm_get_or_create_page_table_def Let_def split: prod.splits if_splits)
  then show "vmm_map_page va pa fl s = (ok, t) \<Longrightarrow> pmm t = pmm s \<or> pmm t = snd (pmm_alloc_page (pmm s))"
    unfolding vmm_map_page_def Let_def by (simp split: prod.splits if_splits) fastforce+
qed

section \<open>The boot identity map\<close>

text \<open>Where the linker puts the static tables: aligned, apart, and out of reach of the allocator.\<close>

definition boot_tables_ok :: "u32 \<Rightarrow> u32 \<Rightarrow> pmm_state \<Rightarrow> bool" where
  "boot_tables_ok directory tables q \<longleftrightarrow>
     page_aligned directory \<and> page_aligned tables \<and> directory \<noteq> 0 \<and> tables \<noteq> 0 \<and>
     unat tables + 32 * 4096 < 2 ^ 32 \<and>
     (unat directory < unat tables \<or> unat tables + 32 * 4096 \<le> unat directory) \<and>
     page_reserved q directory \<and> (\<forall>t < 32. page_reserved q (tables + of_nat t * 4096))"

lemma unat_table_at:
  assumes "boot_tables_ok directory tables q" "t < 32"
  shows "unat (tables + of_nat t * 4096 :: u32) = unat tables + t * 4096"
proof -
  have "unat (of_nat (t * 4096) :: u32) = t * 4096"
    using assms(2) by (subst unat_of_nat) (simp add: take_bit_nat_eq_self)
  then show ?thesis using assms by (simp add: boot_tables_ok_def unat_plus_if')
qed

lemma table_at_facts:
  assumes ok: "boot_tables_ok directory tables q" and t: "t < 32"
  shows "page_aligned (tables + of_nat t * 4096)" "tables + of_nat t * 4096 \<noteq> directory"
    "tables + of_nat t * 4096 \<noteq> 0"
proof -
  note u = unat_table_at [OF ok t]
  have a: "unat tables mod 4096 = 0" "unat tables > 0"
    "unat directory < unat tables \<or> unat tables + 32 * 4096 \<le> unat directory"
    using ok unfolding boot_tables_ok_def page_aligned_def by (simp_all add: unat_gt_0)
  show "page_aligned (tables + of_nat t * 4096)" unfolding page_aligned_def u using a(1) by simp
  have "unat (tables + of_nat t * 4096) \<noteq> unat directory" unfolding u using a(3) t by linarith
  then show "tables + of_nat t * 4096 \<noteq> directory" by blast
  have "unat (tables + of_nat t * 4096) \<noteq> unat (0 :: u32)" unfolding u using a(2) by simp
  then show "tables + of_nat t * 4096 \<noteq> 0" by metis
qed

lemma table_at_inj:
  assumes ok: "boot_tables_ok directory tables q"
  shows "inj_on (\<lambda>t. tables + of_nat t * 4096) {..<32}"
proof (rule inj_onI)
  fix t t' :: nat
  assume b: "t \<in> {..<32}" "t' \<in> {..<32}" and e: "tables + of_nat t * 4096 = tables + of_nat t' * 4096"
  have "unat tables + t * 4096 = unat tables + t' * 4096"
    using unat_table_at [OF ok, of t] unat_table_at [OF ok, of t'] b by (simp only: e lessThan_iff)
  then show "t = t'" by simp
qed

lemma identity_map_cells:
  assumes d: "page_aligned directory" and T: "\<And>t. t < 32 \<Longrightarrow> page_aligned (T t) \<and> T t \<noteq> directory"
    and inj: "inj_on T {..<32}" and n: "n \<le> 32" and j: "unat j < 1024"
    and m': "m' = fold (\<lambda>t m. set_entry directory (of_nat t) (T t OR 1 OR 2)
        (fold (\<lambda>e. set_entry (T t) (of_nat e) (identity_entry t e)) [0..<1024] m)) [0..<n] m"
  shows "entry_of m' directory j = (if unat j < n then T (unat j) OR 1 OR 2 else entry_of m directory j) \<and>
    (\<forall>t < n. entry_of m' (T t) j = identity_entry t (unat j))"
  using n m'
proof (induction n arbitrary: m')
  case (Suc n)
  define m1 where "m1 = fold (\<lambda>t m. set_entry directory (of_nat t) (T t OR 1 OR 2)
      (fold (\<lambda>e. set_entry (T t) (of_nat e) (identity_entry t e)) [0..<1024] m)) [0..<n] m"
  have IH: "entry_of m1 directory j = (if unat j < n then T (unat j) OR 1 OR 2 else entry_of m directory j)"
    "t < n \<Longrightarrow> entry_of m1 (T t) j = identity_entry t (unat j)" for t
    using Suc.IH [OF _ m1_def] Suc.prems(1) by auto
  have nn: "unat (of_nat n :: u32) = n" using Suc.prems by (simp add: unat_of_nat take_bit_nat_eq_self)
  have nj: "of_nat n = j \<longleftrightarrow> unat j = n" using nn by (auto simp: word_unat_eq_iff)
  have a: "page_aligned (T n)" "T n \<noteq> directory" using T [of n] Suc.prems(1) by auto
  have m': "m' = set_entry directory (of_nat n) (T n OR 1 OR 2)
      (fold (\<lambda>e. set_entry (T n) (of_nat e) (identity_entry n e)) [0..<1024] m1)"
    using Suc.prems(2) by (simp add: m1_def)
  have cell: "entry_of m' b j = (if b = directory \<and> unat j = n then T n OR 1 OR 2
      else if b = T n then identity_entry n (unat j) else entry_of m1 b j)" if "page_aligned b" for b
  proof -
    have "unat (of_nat n :: u32) < 1024" using nn Suc.prems(1) by simp
    note cells = entry_of_set_entry [OF d that this j] entry_of_fold_set_entry [OF a(1) that order_refl j]
    show ?thesis unfolding m' cells using j nj by (simp add: eq_commute [of b])
  qed
  have "entry_of m' (T t) j = identity_entry t (unat j)" if "t < Suc n" for t
  proof (cases "t = n")
    case True
    then show ?thesis using cell [OF a(1)] a(2) by simp
  next
    case False
    then have "T t \<noteq> T n" using inj that Suc.prems(1) by (auto simp: inj_on_def)
    then show ?thesis using cell [of "T t"] T [of t] IH(2) [of t] that False Suc.prems(1) by simp
  qed
  moreover have "entry_of m' directory j =
      (if unat j < Suc n then T (unat j) OR 1 OR 2 else entry_of m directory j)"
    using cell [OF d] a(2) IH(1) by (simp add: less_Suc_eq)
  ultimately show ?case by blast
qed simp

lemma paging_initialize_cells:
  assumes ok: "boot_tables_ok directory tables q" and j: "unat j < 1024"
    and s': "s' = paging_initialize directory tables s"
  shows "pde s' j = (if unat j < 32 then (tables + of_nat (unat j) * 4096) OR 1 OR 2 else 0)"
    "t < 32 \<Longrightarrow> entry_of (mem s') (tables + of_nat t * 4096) j = identity_entry t (unat j)"
proof -
  let ?T = "\<lambda>t. tables + of_nat t * 4096"
  have d: "page_aligned directory" using ok by (simp add: boot_tables_ok_def)
  have T: "page_aligned (?T t) \<and> ?T t \<noteq> directory" if "t < 32" for t
    using table_at_facts [OF ok that] by simp
  have keep: "entry_of (fold (\<lambda>t m. fold (\<lambda>e. set_entry (?T t) (of_nat e) 0) [0..<1024] m) [0..<n] m) directory j
      = entry_of m directory j" if "n \<le> 32" for n m
    using that
  proof (induction n)
    case (Suc n)
    then show ?case
      using entry_of_fold_set_entry [OF _ d order_refl j, of "?T n"] T [of n] by simp
  qed simp
  define m where "m = paging_clear_structures directory ?T (mem s)"
  have z: "entry_of m directory j = 0"
    unfolding m_def paging_clear_structures_def
    using keep [of 32] entry_of_fold_set_entry [OF d d order_refl j] j by simp
  have "mem s' = paging_build_identity_map directory ?T m" "page_directory_address s' = directory"
    by (simp_all add: s' paging_initialize_def Let_def m_def)
  with identity_map_cells [OF d T table_at_inj [OF ok] order_refl j refl, of m] z
  show "pde s' j = (if unat j < 32 then ?T (unat j) OR 1 OR 2 else 0)"
    "t < 32 \<Longrightarrow> entry_of (mem s') (?T t) j = identity_entry t (unat j)"
    unfolding pde_def paging_build_identity_map_def by auto
qed

lemma writable_valid [simp]: "vmm_flags_are_valid VMM_PAGE_WRITABLE"
  by (simp add: vmm_flags_are_valid_def)

lemma unat_identity_frame:
  assumes "t < 1024" "e < 1024"
  shows "unat (of_nat t * 1024 * 4096 + of_nat e * 4096 :: u32) = t * 4194304 + e * 4096"
proof -
  have "(of_nat t * 1024 * 4096 + of_nat e * 4096 :: u32) = of_nat (t * 4194304 + e * 4096)" by simp
  also have "unat \<dots> = t * 4194304 + e * 4096"
    using assms by (subst unat_of_nat) (simp add: take_bit_nat_eq_self)
  finally show ?thesis .
qed

lemma identity_entry_frame:
  assumes "t < 1024" "e < 1024"
  shows "unat (identity_entry t e AND FRAME_MASK) = t * 4194304 + e * 4096" "present (identity_entry t e)"
proof -
  let ?f = "of_nat t * 1024 * 4096 + of_nat e * 4096 :: u32"
  have "page_aligned ?f" unfolding page_aligned_def unat_identity_frame [OF assms] by simp
  from mapping_frame [OF writable_valid this] unat_identity_frame [OF assms]
  show "unat (identity_entry t e AND FRAME_MASK) = t * 4194304 + e * 4096"
    by (simp add: identity_entry_def)
  show "present (identity_entry t e)" unfolding identity_entry_def present_def by (rule or_present)
qed

lemma identity_entry_flags:
  "identity_entry t e AND VMM_PAGE_WRITABLE = VMM_PAGE_WRITABLE" "identity_entry t e AND VMM_PAGE_USER \<noteq> VMM_PAGE_USER"
proof -
  let ?f = "of_nat t * 1024 * 4096 + of_nat e * 4096 :: u32"
  have "?f = push_bit 12 (of_nat t * 1024 + of_nat e)" by (simp add: push_bit_eq_mult algebra_simps)
  then have "\<not> bit ?f 2" by (simp only: bit_push_bit_iff) simp
  then have "\<not> bit (identity_entry t e AND VMM_PAGE_USER) 2"
    by (simp add: identity_entry_def bit_simps)
  moreover have "bit (VMM_PAGE_USER) 2" by (simp add: bit_simps)
  ultimately show "identity_entry t e AND VMM_PAGE_USER \<noteq> VMM_PAGE_USER" by metis
  show "identity_entry t e AND VMM_PAGE_WRITABLE = VMM_PAGE_WRITABLE"
    by (simp add: identity_entry_def bit.conj_disj_distrib2)
qed

lemma boot_pde:
  assumes ok: "boot_tables_ok directory tables q" and j: "unat j < 1024"
    and s': "s' = paging_initialize directory tables s"
  shows "present (pde s' j) \<longleftrightarrow> unat j < 32"
    "unat j < 32 \<Longrightarrow> table_of s' j = tables + of_nat (unat j) * 4096"
proof -
  note c = paging_initialize_cells(1) [OF ok j s']
  have "present ((tables + of_nat (unat j) * 4096) OR 1 OR 2)" unfolding present_def by (rule or_present)
  moreover have "\<not> present 0" by (simp add: present_def)
  ultimately show "present (pde s' j) \<longleftrightarrow> unat j < 32" unfolding c by simp
  show "table_of s' j = tables + of_nat (unat j) * 4096" if "unat j < 32"
    using mapping_frame [OF writable_valid table_at_facts(1) [OF ok that]] that by (simp add: table_of_def c)
qed

lemma boot_translation:
  assumes ok: "boot_tables_ok directory tables q" and s': "s' = paging_initialize directory tables s"
  shows "translation s' a = (if a < 0x8000000
    then Some (identity_entry (unat a div 4194304) (unat a div 4096 mod 1024)) else None)"
proof -
  let ?i = "page_directory_index a" and ?j = "page_table_index a"
  note b = boot_pde [OF ok index_less(1) s', of a]
  have i: "unat ?i < 32 \<longleftrightarrow> a < 0x8000000" by (auto simp: unat_page_directory_index word_less_nat_alt)
  show ?thesis
  proof (cases "unat ?i < 32")
    case True
    then have e: "entry_of (mem s') (table_of s' ?i) ?j = identity_entry (unat ?i) (unat ?j)"
      using paging_initialize_cells(2) [OF ok index_less(2) s', of "unat ?i" a] b(2) by simp
    have "present (identity_entry (unat ?i) (unat ?j))" by (rule identity_entry_frame) simp_all
    with True e b(1) i show ?thesis
      by (simp add: translation_def pte_def unat_page_directory_index unat_page_table_index)
  next
    case False
    with b(1) i show ?thesis by (simp add: translation_def pte_def)
  qed
qed

lemma boot_vmm_inv:
  assumes ok: "boot_tables_ok directory tables (pmm s)" and i: "pmm_inv (pmm s)"
    and s': "s' = paging_initialize directory tables s"
  shows "vmm_inv s'"
  unfolding vmm_inv_def
proof (intro conjI allI impI)
  have e: "pmm s' = pmm s" "page_directory_address s' = directory"
    by (simp_all add: s' paging_initialize_def Let_def)
  show "pmm_inv (pmm s')" "page_aligned (page_directory_address s')" "page_directory_address s' \<noteq> 0"
    "page_reserved (pmm s') (page_directory_address s')"
    using ok i by (simp_all add: e boot_tables_ok_def)
  note b = boot_pde [OF ok _ s']
  show "table_of s' k \<noteq> 0" "table_of s' k \<noteq> page_directory_address s'" "page_reserved (pmm s') (table_of s' k)"
    if k: "unat k < 1024 \<and> present (pde s' k)" for k
  proof -
    have "unat k < 32" "table_of s' k = tables + of_nat (unat k) * 4096" using b [of k] k by auto
    then show "table_of s' k \<noteq> 0" "table_of s' k \<noteq> page_directory_address s'" "page_reserved (pmm s') (table_of s' k)"
      using table_at_facts(2,3) [OF ok] ok unfolding e boot_tables_ok_def by metis+
  qed
  show "table_of s' k \<noteq> table_of s' l"
    if kl: "unat k < 1024 \<and> unat l < 1024 \<and> k \<noteq> l \<and> present (pde s' k) \<and> present (pde s' l)" for k l
  proof -
    have "unat k < 32" "table_of s' k = tables + of_nat (unat k) * 4096"
      "unat l < 32" "table_of s' l = tables + of_nat (unat l) * 4096" using b [of k] b [of l] kl by auto
    moreover have "unat k \<noteq> unat l" using kl by (simp add: word_unat_eq_iff)
    ultimately show ?thesis using table_at_inj [OF ok] unfolding inj_on_def by (metis lessThan_iff)
  qed
qed

section \<open>The audit\<close>

definition mapped_cells :: "vmm_state \<Rightarrow> nat \<Rightarrow> nat set" where
  "mapped_cells s i = {j. j < 1024 \<and> pte s (of_nat i) (of_nat j) \<noteq> None}"

lemma finite_mapped_cells: "finite (mapped_cells s i)"
  by (rule finite_subset [of _ "{..<1024}"]) (auto simp: mapped_cells_def)

text \<open>What the audit does not touch.\<close>

definition same_tables :: "vmm_state \<Rightarrow> vmm_state \<Rightarrow> bool" where
  "same_tables s t \<longleftrightarrow> mem t = mem s \<and> page_directory_address t = page_directory_address s \<and>
     vmm_initialized t = vmm_initialized s \<and> mapped_pages t = mapped_pages s \<and>
     last_mapped_virtual_address t = last_mapped_virtual_address s \<and> pmm t = pmm s"

lemma same_tables_translation: "same_tables s t \<Longrightarrow> pte t = pte s \<and> translation t = translation s"
  by (intro conjI ext) (simp_all add: same_tables_def pte_def pde_def table_of_def translation_def)

lemma audit_page_entry_count:
  "same_tables s t \<Longrightarrow> same_tables s (audit_page_entry e t)"
  "present_page_entries (audit_page_entry e t) = present_page_entries t + of_nat (if present e then 1 else 0)"
  "issues_found (audit_page_entry e t) = issues_found t"
  by (auto simp: audit_page_entry_def Let_def same_tables_def present_def)

lemma audit_directory_entry_count:
  assumes "vmm_inv s" "same_tables s t" "i < 1024"
  shows "same_tables s (audit_directory_entry i t) \<and>
    present_page_entries (audit_directory_entry i t) = present_page_entries t + of_nat (card (mapped_cells s i)) \<and>
    issues_found (audit_directory_entry i t) = issues_found t"
proof -
  have ui: "unat (of_nat i :: u32) < 1024" using assms(3) by (simp add: unat_of_nat take_bit_nat_eq_self)
  have e: "entry_of (mem t) (page_directory_address t) (of_nat i) = pde s (of_nat i)"
    using assms(2) by (simp add: same_tables_def pde_def)
  show ?thesis
  proof (cases "present (pde s (of_nat i))")
    case False
    then have "mapped_cells s i = {}" by (simp add: mapped_cells_def pte_def)
    with False assms(2) show ?thesis by (simp add: audit_directory_entry_def Let_def e present_def)
  next
    case True
    let ?T = "table_of s (of_nat i)" and ?t = "t\<lparr>present_directory_entries := present_directory_entries t + 1\<rparr>"
    let ?f = "\<lambda>j s. audit_page_entry (entry_of (mem s) ?T (of_nat j)) s"
    let ?k = "\<lambda>j. if present (entry_of (mem s) ?T (of_nat j)) then 1 else (0 :: nat)"
    have nz: "?T \<noteq> 0" using assms(1) True ui by (simp add: vmm_inv_def)
    have eq: "audit_directory_entry i t = fold ?f [0..<1024] ?t"
      using True nz unfolding audit_directory_entry_def Let_def e by (simp add: present_def table_of_def)
    let ?Q = "\<lambda>u. same_tables s u \<and> issues_found u = issues_found t"
    have "?Q (fold ?f [0..<1024] ?t) \<and>
        present_page_entries (fold ?f [0..<1024] ?t) = present_page_entries ?t + of_nat (\<Sum>j\<leftarrow>[0..<1024]. ?k j)"
    proof (rule fold_counter)
      show "?Q ?t" using assms(2) by (simp add: same_tables_def)
      show "?Q (?f j u) \<and> present_page_entries (?f j u) = present_page_entries u + of_nat (?k j)" if "?Q u" for j u
      proof -
        have "mem u = mem s" using that by (simp add: same_tables_def)
        then show ?thesis using that by (simp add: audit_page_entry_count)
      qed
    qed
    moreover have "(\<Sum>j\<leftarrow>[0..<1024]. ?k j) = card (mapped_cells s i)"
    proof -
      have "mapped_cells s i = {j \<in> {0..<1024}. present (entry_of (mem s) ?T (of_nat j))}"
        using True by (auto simp: mapped_cells_def pte_def split: if_splits)
      then show ?thesis by (simp add: interv_sum_list_conv_sum_set_nat sum.If_cases Int_def)
    qed
    ultimately show ?thesis unfolding eq by simp
  qed
qed

lemma page_align_down_aligned: "page_aligned a \<Longrightarrow> page_align_down a = a"
  by (simp add: page_align_down_def frame_of_aligned)

lemma card_mapped_cells:
  "card (SIGMA i:{0..<1024}. mapped_cells s i) = card {a. page_aligned a \<and> translation s a \<noteq> None}"
proof (rule bij_betw_same_card [symmetric])
  let ?f = "\<lambda>a. (unat (page_directory_index a), unat (page_table_index a))"
  show "bij_betw ?f {a. page_aligned a \<and> translation s a \<noteq> None} (SIGMA i:{0..<1024}. mapped_cells s i)"
    unfolding bij_betw_def
  proof (intro conjI subset_antisym)
    show "inj_on ?f {a. page_aligned a \<and> translation s a \<noteq> None}"
    proof (rule inj_onI)
      fix a b assume "a \<in> {a. page_aligned a \<and> translation s a \<noteq> None}"
        "b \<in> {a. page_aligned a \<and> translation s a \<noteq> None}" "?f a = ?f b"
      then show "a = b"
        using same_page_iff [of a b] by (simp add: page_align_down_aligned word_unat_eq_iff)
    qed
    show "?f ` {a. page_aligned a \<and> translation s a \<noteq> None} \<subseteq> (SIGMA i:{0..<1024}. mapped_cells s i)"
      by (auto simp: mapped_cells_def translation_def)
    show "(SIGMA i:{0..<1024}. mapped_cells s i) \<subseteq> ?f ` {a. page_aligned a \<and> translation s a \<noteq> None}"
    proof (clarify)
      fix i j assume i: "i \<in> {0..<1024}" and j: "j \<in> mapped_cells s i"
      define a where "a = (of_nat i * 1024 * 4096 + of_nat j * 4096 :: u32)"
      have u: "unat a = i * 4194304 + j * 4096"
        unfolding a_def using i j by (intro unat_identity_frame) (auto simp: mapped_cells_def)
      have ij: "unat (page_directory_index a) = i" "unat (page_table_index a) = j"
        using i j by (auto simp: unat_page_directory_index unat_page_table_index u mapped_cells_def div_4M)
      then have "page_directory_index a = of_nat i" "page_table_index a = of_nat j"
        by (metis of_nat_unat ucast_id)+
      then have "translation s a \<noteq> None" using j by (simp add: translation_def mapped_cells_def)
      moreover have "page_aligned a" by (simp add: page_aligned_def u)
      ultimately show "(i, j) \<in> ?f ` {a. page_aligned a \<and> translation s a \<noteq> None}"
        using ij by force
    qed
  qed
qed

lemma vmm_audit_spec:
  assumes inv: "vmm_inv s" and ini: "vmm_initialized s" and r: "vmm_audit s = (n, t)"
  shows "same_tables s t" "n = (if mapped_pages s > 0 \<and> translation s (last_mapped_virtual_address s) = None then 1 else 0)"
    "present_page_entries t = of_nat (card {a. page_aligned a \<and> translation s a \<noteq> None})"
proof -
  define s0 where "s0 = vmm_clear_audit_snapshot (s\<lparr>audits_run := audits_run s + 1\<rparr>)"
  define u where "u = fold audit_directory_entry [0..<1024] s0"
  have z: "same_tables s s0" "issues_found s0 = 0" "present_page_entries s0 = 0"
    by (simp_all add: s0_def vmm_clear_audit_snapshot_def same_tables_def)
  have "(same_tables s u \<and> issues_found u = 0) \<and>
      present_page_entries u = present_page_entries s0 + of_nat (\<Sum>i\<leftarrow>[0..<1024]. card (mapped_cells s i))"
    unfolding u_def
    by (rule fold_counter) (use z audit_directory_entry_count [OF inv] in auto)
  moreover have "(\<Sum>i\<leftarrow>[0..<1024]. card (mapped_cells s i)) = card {a. page_aligned a \<and> translation s a \<noteq> None}"
    by (subst sum_list_upt_card) (simp_all add: card_mapped_cells finite_mapped_cells)
  ultimately have u: "same_tables s u" "issues_found u = 0"
      "present_page_entries u = of_nat (card {a. page_aligned a \<and> translation s a \<noteq> None})"
    using z by simp_all
  have m: "vmm_is_mapped a u \<longleftrightarrow> translation s a \<noteq> None" for a
    using same_tables_translation [OF u(1)] u(1) ini by (simp add: vmm_is_mapped_iff same_tables_def)
  have d: "page_directory_address s0 \<noteq> 0" "vmm_initialized s0"
    using inv ini z(1) by (auto simp: vmm_inv_def same_tables_def)
  have e: "vmm_audit s = (let v = (if mapped_pages s > 0 \<and> translation s (last_mapped_virtual_address s) = None
      then u\<lparr>issues_found := issues_found u + 1, last_mapping_missing := last_mapping_missing u + 1\<rparr> else u)
      in (issues_found v, v))"
    using d u(1) m unfolding vmm_audit_def Let_def s0_def [symmetric] u_def [symmetric]
    by (simp add: same_tables_def)
  show "same_tables s t" "n = (if mapped_pages s > 0 \<and> translation s (last_mapped_virtual_address s) = None then 1 else 0)"
    "present_page_entries t = of_nat (card {a. page_aligned a \<and> translation s a \<noteq> None})"
    using r u by (auto simp: e Let_def same_tables_def split: if_splits)
qed

section \<open>Properties\<close>

lemma vmm_initialize_keeps:
  "vmm_inv (vmm_initialize s) = vmm_inv s" "translation (vmm_initialize s) = translation s"
  "vmm_initialized (vmm_initialize s)" "pmm (vmm_initialize s) = pmm s"
  by (simp_all add: vmm_initialize_def vmm_clear_audit_snapshot_def vmm_inv_def translation_def pte_def
      pde_def table_of_def fun_eq_iff)

text \<open>The machine of the witnesses: the small allocator and the boot tables below 1 MiB.\<close>

definition blank_vmm :: vmm_state where
  "blank_vmm = \<lparr>vmm_initialized = False, mapped_pages = 0, created_page_tables = 0,
     last_mapped_virtual_address = 0, last_mapped_physical_address = 0, failed_map_count = 0,
     failed_unmap_count = 0, remap_count = 0, invalid_map_count = 0, missing_unmap_count = 0,
     audits_run = 0, issues_found = 0, present_directory_entries = 0, present_page_entries = 0,
     writable_page_entries = 0, user_page_entries = 0, invalid_directory_entries = 0,
     invalid_page_table_addresses = 0, last_mapping_missing = 0, paging_enabled = False,
     mapped_start = 0, mapped_end = 0, mapped_bytes = 0, page_directory_address = 0,
     page_table_count = 0, mem = (\<lambda>_. 0), pmm = small_pmm\<rparr>"

definition small_vmm :: vmm_state where
  "small_vmm = vmm_initialize (paging_initialize 0x80000 0x90000 blank_vmm)"

lemma small_boot_tables: "boot_tables_ok 0x80000 0x90000 small_pmm"
proof -
  have "page_reserved small_pmm (0x90000 + of_nat t * 4096)" if "t < 32" for t
  proof -
    have "unat (0x90000 + of_nat t * 4096 :: u32) = 0x90000 + t * 4096"
      using that by (simp add: unat_plus_if' unat_word_ariths(2) unat_of_nat take_bit_nat_eq_self)
    then show ?thesis
      using that by (simp add: page_reserved_def small_pmm_eq pmm_zero_def word_less_nat_alt)
  qed
  moreover have "page_reserved small_pmm 0x80000" by (simp add: page_reserved_def small_pmm_eq pmm_zero_def)
  ultimately show ?thesis by (simp add: boot_tables_ok_def page_aligned_def)
qed

lemma small_pmm_room: "card (pmm_allocated small_pmm) \<noteq> pmm_capacity small_pmm"
  using pmm_booted_inv [OF small_pmm_booted] by (simp add: pmm_capacity_def small_pmm_eq pmm_zero_def)

lemma small_vmm_facts: "vmm_inv small_vmm" "vmm_initialized small_vmm" "pmm small_vmm = small_pmm"
proof -
  have p: "pmm blank_vmm = small_pmm" by (simp add: blank_vmm_def)
  have "pmm_inv (pmm blank_vmm)" using pmm_booted_inv [OF small_pmm_booted] p by simp
  from boot_vmm_inv [OF _ this refl, of "0x80000" "0x90000"] small_boot_tables p
  show "vmm_inv small_vmm" by (simp add: small_vmm_def vmm_initialize_keeps)
  show "vmm_initialized small_vmm" "pmm small_vmm = small_pmm"
    by (simp_all add: small_vmm_def vmm_initialize_keeps paging_initialize_def Let_def p)
qed

text \<open>
  C8: \<open>vmm_map_page\<close> on a well-formed machine either succeeds and changes the translation of
  exactly the addresses of that page, to the requested frame and flags, whether or not a page
  table had to be created; or it fails with the allocator exhausted and no translation
  changed. The counter of mapped pages grows for a page that was not mapped.
\<close>

theorem vmm_map_page_correct:
  assumes "vmm_inv s" and "vmm_initialized s" and "vmm_flags_are_valid flags"
    and "vmm_map_page va pa flags s = (ok, t)"
  shows "vmm_inv t \<and>
    (if ok
     then (\<forall>a. translation t a = (if page_align_down a = page_align_down va
             then Some (page_align_down pa OR VMM_PAGE_PRESENT OR flags) else translation s a)) \<and>
          mapped_pages t = mapped_pages s + (if translation s va = None then 1 else 0)
     else translation t = translation s \<and> pmm t = pmm s \<and>
          card (pmm_allocated (pmm s)) = pmm_capacity (pmm s))"
  using vmm_map_page_spec [OF assms] by (simp add: mapping_entry_def)

theorem vmm_map_page_correct_witness:
  "\<exists>t. vmm_map_page 0xC1000000 0x105000 VMM_PAGE_WRITABLE small_vmm = (True, t) \<and>
     translation t 0xC1000000 = Some 0x105003"
proof -
  obtain ok t where r: "vmm_map_page 0xC1000000 0x105000 VMM_PAGE_WRITABLE small_vmm = (ok, t)" by fastforce
  note small_pmm_room
  then have ok using vmm_map_page_correct [OF small_vmm_facts(1,2) writable_valid r] small_vmm_facts(3)
    by (auto split: if_splits)
  with vmm_map_page_correct [OF small_vmm_facts(1,2) writable_valid r] r show ?thesis
    by (simp add: page_align_down_def)
qed

text \<open>
  After a successful \<open>vmm_map_page\<close>, every address of the page resolves to the frame plus
  its offset, is reported as mapped and validates against the requested flags; the lookups of
  all other pages give what they gave before.
\<close>

theorem vmm_map_then_lookup:
  assumes "vmm_inv s" and "vmm_initialized s" and "vmm_flags_are_valid flags"
    and "vmm_map_page va pa flags s = (True, t)"
  shows "if page_align_down a = page_align_down va
    then vmm_get_physical_address a t = page_align_down pa + (a AND 0xFFF) \<and> vmm_is_mapped a t \<and>
         vmm_validate_mapping a flags t
    else vmm_get_physical_address a t = vmm_get_physical_address a s \<and>
         vmm_is_mapped a t = vmm_is_mapped a s \<and> vmm_validate_mapping a f t = vmm_validate_mapping a f s"
proof -
  have t: "vmm_initialized t" "\<And>a. translation t a = (if page_align_down a = page_align_down va
      then Some (mapping_entry pa flags) else translation s a)"
    using vmm_map_page_spec [OF assms] by auto
  have "mapping_entry pa flags AND FRAME_MASK = page_align_down pa"
    unfolding mapping_entry_def using assms(3) by (intro mapping_frame) (simp_all add: page_align_down_def)
  moreover have "mapping_entry pa flags AND flags = flags"
    by (simp add: mapping_entry_def bit.conj_disj_distrib2 or.assoc [symmetric])
  ultimately show ?thesis
    using t assms(2,3)
    by (simp add: vmm_is_mapped_iff vmm_get_physical_address_eq vmm_validate_mapping_iff)
qed

theorem vmm_map_then_lookup_witness:
  "\<exists>t. vmm_map_page 0xC1000000 0x105000 VMM_PAGE_WRITABLE small_vmm = (True, t) \<and>
     vmm_get_physical_address 0xC1000ABC t = 0x105ABC"
proof -
  obtain ok t where r: "vmm_map_page 0xC1000000 0x105000 VMM_PAGE_WRITABLE small_vmm = (ok, t)" by fastforce
  note small_pmm_room
  then have ok
    using vmm_map_page_spec [OF small_vmm_facts(1,2) writable_valid r] small_vmm_facts(3)
    by (auto split: if_splits)
  with r have "vmm_map_page 0xC1000000 0x105000 VMM_PAGE_WRITABLE small_vmm = (True, t)" by simp
  from vmm_map_then_lookup [OF small_vmm_facts(1,2) writable_valid this, of "0xC1000ABC"] this
  show ?thesis by (simp add: page_align_down_def)
qed

text \<open>
  \<open>vmm_unmap_page\<close> succeeds exactly if the address is mapped; it then removes the
  translation of the addresses of that page and of no other, and otherwise changes no
  translation at all. It never touches the page allocator.
\<close>

theorem vmm_unmap_page_correct:
  assumes "vmm_inv s" and "vmm_initialized s" and "vmm_unmap_page va s = (ok, t)"
  shows "vmm_inv t \<and> pmm t = pmm s \<and> (ok \<longleftrightarrow> vmm_is_mapped va s) \<and> \<not> vmm_is_mapped va t \<and>
    (\<forall>a. translation t a = (if page_align_down a = page_align_down va then None else translation s a))"
proof -
  note u = vmm_unmap_page_spec [OF assms]
  have "translation s a = None" if "\<not> ok" "page_align_down a = page_align_down va" for a
    using u that by (simp add: translation_def same_page_iff)
  with u assms(2) show ?thesis by (auto simp: vmm_is_mapped_iff)
qed

theorem vmm_unmap_page_correct_witness:
  "\<not> vmm_is_mapped 0x1000 (snd (vmm_unmap_page 0x1000 small_vmm))"
  using vmm_unmap_page_correct [OF small_vmm_facts(1,2), of "0x1000" "fst (vmm_unmap_page 0x1000 small_vmm)"
      "snd (vmm_unmap_page 0x1000 small_vmm)"] by simp

text \<open>
  The boot sequence \<open>paging_initialize\<close>, \<open>vmm_initialize\<close> leaves a well-formed machine that
  maps the first 128 MiB to themselves, writable and not for user mode, and nothing else.
\<close>

theorem paging_initialize_identity:
  assumes "boot_tables_ok directory tables (pmm s)" and "pmm_inv (pmm s)"
    and "t = vmm_initialize (paging_initialize directory tables s)"
  shows "vmm_inv t \<and> mapped_start t = 0 \<and> mapped_end t = 0x7FFFFFF \<and>
    (if a < 0x8000000
     then vmm_get_physical_address a t = a \<and> vmm_validate_mapping a VMM_PAGE_WRITABLE t \<and>
          \<not> vmm_validate_mapping a VMM_PAGE_USER t
     else \<not> vmm_is_mapped a t)"
proof -
  let ?p = "paging_initialize directory tables s"
  have m: "mapped_start t = 0" "mapped_end t = 0x7FFFFFF"
    by (simp_all add: assms(3) vmm_initialize_def vmm_clear_audit_snapshot_def paging_initialize_def Let_def)
  have inv: "vmm_inv t" using boot_vmm_inv [OF assms(1,2) refl] by (simp add: assms(3) vmm_initialize_keeps)
  let ?e = "identity_entry (unat a div 4194304) (unat a div 4096 mod 1024)"
  have tr: "translation t a = (if a < 0x8000000 then Some ?e else None)"
    using boot_translation [OF assms(1) refl] by (simp add: assms(3) vmm_initialize_keeps)
  have b: "unat a div 4194304 < 1024" using unat_u32_bound [of a] by simp
  have "unat ((?e AND FRAME_MASK) + (a AND 0xFFF)) = unat a"
  proof -
    have "q div 1024 * 4194304 + q mod 1024 * 4096 = q * 4096" for q :: nat
      using div_mult_mod_eq [of q 1024] by linarith
    then have f: "unat (?e AND FRAME_MASK) = unat a div 4096 * 4096"
      using identity_entry_frame(1) [OF b, of "unat a div 4096 mod 1024"] by (simp add: div_4M)
    have o: "unat (a AND 0xFFF) = unat a mod 4096" using unat_and_low [of 12 a] by simp
    have "unat a div 4096 * 4096 + unat a mod 4096 = unat a" by simp
    then show ?thesis using f o unat_u32_bound [of a] by (simp add: unat_plus_if')
  qed
  then have ph: "(?e AND FRAME_MASK) + (a AND 0xFFF) = a" by (simp add: word_unat_eq_iff)
  have w: "?e AND VMM_PAGE_WRITABLE = VMM_PAGE_WRITABLE" "?e AND VMM_PAGE_USER \<noteq> VMM_PAGE_USER"
    using identity_entry_flags by blast+
  show ?thesis
    using m inv tr ph w
    by (simp add: vmm_is_mapped_iff vmm_get_physical_address_eq vmm_validate_mapping_iff assms(3) vmm_initialize_keeps)
qed

theorem paging_initialize_identity_witness:
  "vmm_inv small_vmm \<and> vmm_get_physical_address 0x1234567 small_vmm = 0x1234567 \<and>
   \<not> vmm_is_mapped 0xC1000000 small_vmm"
proof -
  have p: "pmm blank_vmm = small_pmm" by (simp add: blank_vmm_def)
  have ok: "boot_tables_ok 0x80000 0x90000 (pmm blank_vmm)" and i: "pmm_inv (pmm blank_vmm)"
    using small_boot_tables pmm_booted_inv [OF small_pmm_booted] p by simp_all
  from paging_initialize_identity [OF ok i small_vmm_def, of "0x1234567"]
    paging_initialize_identity [OF ok i small_vmm_def, of "0xC1000000"]
  show ?thesis by simp
qed

text \<open>
  On a well-formed machine \<open>vmm_audit\<close> changes no table; it counts exactly the mapped pages
  of the address space, and reports an issue exactly if pages are mapped and the page mapped
  last is not mapped any more.
\<close>

theorem vmm_audit_correct:
  assumes "vmm_inv s" and "vmm_initialized s" and "vmm_audit s = (n, t)"
  shows "vmm_inv t \<and> translation t = translation s \<and>
    present_page_entries t = of_nat (card {a. page_aligned a \<and> translation s a \<noteq> None}) \<and>
    n = (if mapped_pages s > 0 \<and> \<not> vmm_is_mapped (last_mapped_virtual_address s) s then 1 else 0)"
proof -
  note a = vmm_audit_spec [OF assms]
  have "vmm_inv t"
    using assms(1) a(1) by (subst vmm_inv_cong [of _ s]) (auto simp: same_tables_def pde_def table_of_def)
  with a same_tables_translation [OF a(1)] assms(2) show ?thesis by (simp add: vmm_is_mapped_iff)
qed

theorem vmm_audit_correct_witness: "fst (vmm_audit small_vmm) = 0"
proof -
  have "mapped_pages small_vmm = 0"
    by (simp add: small_vmm_def vmm_initialize_def vmm_clear_audit_snapshot_def)
  then show ?thesis
    using vmm_audit_correct [OF small_vmm_facts(1,2), of "fst (vmm_audit small_vmm)" "snd (vmm_audit small_vmm)"]
    by simp
qed

end
