(* ===== verification/Ring3.thy ===== *)
theory Ring3
  imports Vmm Vfs Gdt
begin

text \<open>
  \<^verbatim>\<open>arch/i386/ring3.c\<close>: the code page and the stack page of user programs and the entry into user
  mode. The state extends that of the file tree with the machine of \<open>Vmm\<close> (page tables, frames
  and physical memory), the descriptors of \<open>Gdt\<close> and \<^verbatim>\<open>ring3_info\<close>; the address of the static
  kernel stack for system calls is a field.

  Physical memory is made of 32-bit cells; \<open>load8\<close> and \<open>store8\<close> are its bytes in the order of the
  processor. The kernel reaches a frame through the identity map, so it writes physical
  addresses; \<open>read_virtual\<close> and \<open>write_virtual\<close> go through the page tables as the processor does,
  and are \<open>None\<close> on a page fault, after which the exception handler halts the machine.

  The operations that end a run, \<^verbatim>\<open>ring3_run_user_image\<close> and \<^verbatim>\<open>ring3_syscall_entry\<close>, call the system
  calls and are in \<open>User_Run\<close>.
\<close>

section \<open>Bytes of physical memory\<close>

definition byte_shift :: "u32 \<Rightarrow> nat" where
  "byte_shift a = 8 * unat (a AND 3)"

definition cell_of :: "u32 \<Rightarrow> u32" where
  "cell_of a = a AND NOT 3"

definition load8 :: "(u32 \<Rightarrow> u32) \<Rightarrow> u32 \<Rightarrow> u8" where
  "load8 m a = ucast (drop_bit (byte_shift a) (m (cell_of a)))"

definition store8 :: "u32 \<Rightarrow> u8 \<Rightarrow> (u32 \<Rightarrow> u32) \<Rightarrow> u32 \<Rightarrow> u32" where
  "store8 a b m = m(cell_of a :=
     (m (cell_of a) AND NOT (push_bit (byte_shift a) 0xFF)) OR push_bit (byte_shift a) (ucast b))"

lemma and_3_mask: "(a AND 3 :: u32) = take_bit 2 a"
  by (simp add: take_bit_eq_mask mask_eq_exp_minus_1)

lemma unat_and_3: "unat (a AND 3 :: u32) = unat a mod 4"
  using unat_and_low [of 2 a] by simp

lemma unat_cell_of: "unat (cell_of a) = unat a div 4 * 4"
  using unat_and_not_low [of 2 a] by (simp add: cell_of_def)

lemma same_byte: "cell_of a = cell_of b \<Longrightarrow> byte_shift a = byte_shift b \<Longrightarrow> a = b"
proof -
  assume "cell_of a = cell_of b" "byte_shift a = byte_shift b"
  then have "unat a div 4 * 4 = unat b div 4 * 4" "unat a mod 4 = unat b mod 4"
    using unat_cell_of [of a] unat_cell_of [of b] by (simp_all add: byte_shift_def unat_and_3)
  then have "unat a = unat b" by (metis div_mult_mod_eq)
  then show ?thesis by (simp add: word_unat_eq_iff)
qed

lemma byte_shift_cases: "byte_shift a \<in> {0, 8, 16, 24}"
proof -
  have "unat a mod 4 \<in> {0, 1, 2, 3}" by auto
  then show ?thesis by (auto simp: byte_shift_def unat_and_3)
qed

lemma byte_of_cell:
  fixes c :: u32 and b :: u8
  assumes "k + 8 \<le> 32"
  shows "ucast (drop_bit k ((c AND NOT (push_bit k 0xFF)) OR push_bit k (ucast b))) = b"
proof -
  have m: "(0xFF :: u32) = mask 8" by (simp add: mask_eq_exp_minus_1)
  show ?thesis unfolding m
    by (rule bit_word_eqI) (use assms in \<open>auto simp: bit_simps\<close>)
qed

lemma other_byte_of_cell:
  fixes c :: u32 and b :: u8
  assumes "k + 8 \<le> j \<or> j + 8 \<le> k"
  shows "(ucast (drop_bit j ((c AND NOT (push_bit k 0xFF)) OR push_bit k (ucast b))) :: u8) = ucast (drop_bit j c)"
proof -
  have m: "(0xFF :: u32) = mask 8" by (simp add: mask_eq_exp_minus_1)
  show ?thesis unfolding m
    by (rule bit_word_eqI) (use assms in \<open>auto simp: bit_simps dest: bit_imp_le_length\<close>)
qed

lemma load8_store8: "load8 (store8 a b m) a' = (if a' = a then b else load8 m a')"
proof (cases "cell_of a' = cell_of a")
  case True
  show ?thesis
  proof (cases "byte_shift a' = byte_shift a")
    case s: True
    then have "a' = a" using same_byte True by blast
    moreover have "byte_shift a + 8 \<le> 32" using byte_shift_cases [of a] by auto
    ultimately show ?thesis using byte_of_cell [of "byte_shift a"] by (simp add: load8_def store8_def)
  next
    case False
    then have "byte_shift a + 8 \<le> byte_shift a' \<or> byte_shift a' + 8 \<le> byte_shift a"
      using byte_shift_cases [of a] byte_shift_cases [of a'] by auto
    moreover have "a' \<noteq> a" using False by auto
    ultimately show ?thesis using other_byte_of_cell True by (simp add: load8_def store8_def)
  qed
qed (auto simp: load8_def store8_def)

text \<open>Pages: an address is the start of its page and an offset.\<close>

lemma page_of_cell: "page_align_down (cell_of a) = page_align_down a"
proof -
  have "unat a div 4 * 4 div 4096 = unat a div 4096"
  proof -
    have "x div 4 * 4 div 4096 = x div 4 div 1024" for x :: nat
      by (simp add: div_mult2_eq [of _ 4 1024, simplified, symmetric] flip: div_mult2_eq)
    then show ?thesis by (simp flip: div_mult2_eq)
  qed
  then show ?thesis by (simp add: word_unat_eq_iff unat_page_align_down unat_cell_of)
qed

lemma unat_offset: "unat (a AND 0xFFF :: u32) = unat a mod 4096"
  using unat_and_low [of 12 a] by simp

lemma page_plus:
  assumes "page_aligned p" "i < 4096"
  shows "page_align_down (p + of_nat i) = p" "unat ((p + of_nat i) AND 0xFFF) = i"
    "unat (p + of_nat i) = unat p + i"
proof -
  obtain k where k: "unat p = 4096 * k" using assms(1) by (rule page_alignedE)
  have "unat p + i < 2 ^ 32"
  proof -
    have "4096 * k < 4096 * 1048576" using unat_u32_bound [of p] k by simp
    then show ?thesis using k assms(2) by simp
  qed
  then show u: "unat (p + of_nat i) = unat p + i"
    using assms(2) by (simp add: unat_word_ariths(1) unat_of_nat take_bit_nat_eq_self)
  show "page_align_down (p + of_nat i) = p"
    using assms(2) by (simp add: word_unat_eq_iff unat_page_align_down u k)
  show "unat ((p + of_nat i) AND 0xFFF) = i"
    using assms(2) by (simp add: unat_offset u k)
qed

lemma page_split:
  "a = page_align_down a + (a AND 0xFFF)"
proof -
  have "unat a div 4096 * 4096 + unat a mod 4096 = unat a" by simp
  then show ?thesis
    using unat_u32_bound [of a] by (simp add: word_unat_eq_iff unat_page_align_down unat_offset unat_plus_if')
qed

lemma page_eq_iff:
  assumes "page_aligned p" "i < 4096"
  shows "a = p + of_nat i \<longleftrightarrow> page_align_down a = p \<and> unat (a AND 0xFFF) = i"
proof
  assume r: "page_align_down a = p \<and> unat (a AND 0xFFF) = i"
  have "a AND 0xFFF = of_nat (unat (a AND 0xFFF))" by simp
  then show "a = p + of_nat i" using page_split [of a] r by simp
qed (use page_plus [OF assms] in auto)

text \<open>A loop that stores the bytes \<open>f 0, f 1, \<dots>\<close> from the start of a page on.\<close>

lemma load8_fill:
  assumes "page_aligned p" "n \<le> 4096"
  shows "load8 (fold (\<lambda>i. store8 (p + of_nat i) (f i)) [0..<n] m) a =
    (if page_align_down a = p \<and> unat (a AND 0xFFF) < n then f (unat (a AND 0xFFF)) else load8 m a)"
  using assms(2)
proof (induction n)
  case (Suc n)
  have "a = p + of_nat n \<longleftrightarrow> page_align_down a = p \<and> unat (a AND 0xFFF) = n"
    using page_eq_iff [OF assms(1), of n] Suc.prems by simp
  with Suc show ?case by (auto simp: load8_store8)
qed simp

text \<open>Stores outside the page tables change no translation.\<close>

lemma entry_of_store8:
  assumes "page_aligned base" "unat i < 1024" "page_align_down a \<noteq> base"
  shows "entry_of (store8 a b m) base i = entry_of m base i"
proof -
  have "base + 4 * i = base + of_nat (4 * unat i)" by simp
  then have "page_align_down (base + 4 * i) = base"
    using page_plus(1) [OF assms(1), of "4 * unat i"] assms(2) by simp
  then have "base + 4 * i \<noteq> cell_of a" using assms(3) page_of_cell [of a] by auto
  then show ?thesis by (simp add: entry_of_def store8_def)
qed

definition same_mapping :: "vmm_state \<Rightarrow> vmm_state \<Rightarrow> bool" where
  "same_mapping s t \<longleftrightarrow> vmm_inv t \<and> vmm_initialized t = vmm_initialized s \<and> pmm t = pmm s \<and>
     translation t = translation s \<and> vmm_tables t = vmm_tables s"

lemma same_mapping_refl: "vmm_inv s \<Longrightarrow> same_mapping s s"
  by (simp add: same_mapping_def)

lemma same_mapping_trans: "same_mapping s t \<Longrightarrow> same_mapping t u \<Longrightarrow> same_mapping s u"
  by (simp add: same_mapping_def)

lemma store8_same_mapping:
  assumes inv: "vmm_inv s" and a: "page_align_down a \<notin> vmm_tables s"
  shows "same_mapping s (s\<lparr>mem := store8 a b (mem s)\<rparr>)" (is "same_mapping s ?t")
proof -
  have d: "page_aligned (page_directory_address s)" using inv by (simp add: vmm_inv_def)
  have pde: "pde ?t i = pde s i" if "unat i < 1024" for i
    using entry_of_store8 [OF d that] a by (auto simp: pde_def vmm_tables_def)
  then have tab: "table_of ?t i = table_of s i" if "unat i < 1024" for i
    using that by (simp add: table_of_def)
  have "pte ?t i j = pte s i j" if i: "unat i < 1024" and j: "unat j < 1024" for i j
  proof (cases "present (pde s i)")
    case True
    then have "page_align_down a \<noteq> table_of s i" using a i by (auto simp: vmm_tables_def)
    then show ?thesis
      using entry_of_store8 [OF page_aligned_table j] pde [OF i] tab [OF i] by (simp add: pte_def)
  next
    case False
    then show ?thesis using pde [OF i] by (simp add: pte_def)
  qed
  then have tr: "translation ?t = translation s" by (simp add: translation_def fun_eq_iff)
  have "vmm_inv ?t" using inv by (subst vmm_inv_cong [of _ s]) (simp_all add: pde tab)
  moreover have "vmm_tables ?t = vmm_tables s" by (rule vmm_tables_cong) (simp_all add: pde tab)
  ultimately show ?thesis using tr by (simp add: same_mapping_def)
qed

lemma fill_same_mapping:
  assumes "vmm_inv s" "page_aligned p" "p \<notin> vmm_tables s" "n \<le> 4096"
  shows "same_mapping s (s\<lparr>mem := fold (\<lambda>i. store8 (p + of_nat i) (f i)) [0..<n] (mem s)\<rparr>)"
  using assms(4)
proof (induction n)
  case (Suc n)
  let ?t = "s\<lparr>mem := fold (\<lambda>i. store8 (p + of_nat i) (f i)) [0..<n] (mem s)\<rparr>"
  have t: "same_mapping s ?t" using Suc by simp
  then have "vmm_inv ?t" "page_align_down (p + of_nat n) \<notin> vmm_tables ?t"
    using page_plus(1) [OF assms(2), of n] Suc.prems assms(3) by (simp_all add: same_mapping_def)
  from store8_same_mapping [OF this, of "f n"] t show ?case by (auto intro: same_mapping_trans)
qed (simp add: same_mapping_refl assms(1))

section \<open>Access through the page tables\<close>

definition physical :: "vmm_state \<Rightarrow> u32 \<Rightarrow> u32 option" where
  "physical v a = map_option (\<lambda>e. (e AND FRAME_MASK) + (a AND 0xFFF)) (translation v a)"

definition read_virtual :: "vmm_state \<Rightarrow> u32 \<Rightarrow> u8 option" where
  "read_virtual v a = map_option (load8 (mem v)) (physical v a)"

definition write_virtual :: "u32 \<Rightarrow> u8 \<Rightarrow> vmm_state \<Rightarrow> vmm_state option" where
  "write_virtual a b v = map_option (\<lambda>p. v\<lparr>mem := store8 p b (mem v)\<rparr>) (physical v a)"

text \<open>User mode may write a page whose entry has the user and the writable bit.\<close>

definition user_writable :: "vmm_state \<Rightarrow> u32 \<Rightarrow> bool" where
  "user_writable v a \<longleftrightarrow>
     (case translation v a of None \<Rightarrow> False
      | Some e \<Rightarrow> e AND VMM_PAGE_USER \<noteq> 0 \<and> e AND VMM_PAGE_WRITABLE \<noteq> 0)"

section \<open>State and operations\<close>

abbreviation (input) RING3_USER_CODE_VIRTUAL :: u32 where "RING3_USER_CODE_VIRTUAL \<equiv> 0x10000000"
abbreviation (input) RING3_USER_STACK_VIRTUAL :: u32 where "RING3_USER_STACK_VIRTUAL \<equiv> 0x10001000"
abbreviation (input) RING3_USER_PAGE_SIZE :: u32 where "RING3_USER_PAGE_SIZE \<equiv> 4096"
abbreviation (input) RING3_KERNEL_SYSCALL_STACK_SIZE :: u32 where "RING3_KERNEL_SYSCALL_STACK_SIZE \<equiv> 4096"

record ring3_loaded_image =
  li_entry :: u32
  li_user_stack_top :: u32
  li_image_size :: u32

record ring3_info =
  r3_initialized :: bool
  ready :: bool
  in_progress :: bool
  completed :: bool
  r3_runs :: u32
  r3_successful_runs :: u32
  r3_failed_runs :: u32
  syscall_count :: u32
  last_syscall_number :: u32
  r3_load_attempts :: u32
  r3_successful_loads :: u32
  r3_failed_loads :: u32
  user_code_virtual :: u32
  user_stack_virtual :: u32
  r3_user_stack_top :: u32
  code_physical :: u32
  stack_physical :: u32
  kernel_syscall_stack_top :: u32
  previous_tss_esp0 :: u32
  loaded_image_size :: u32
  r3_last_status :: kernel_status

record ring3_state = vfs_state +
  vm :: vmm_state
  gdt :: gdt_state
  ring3_info :: ring3_info
  ring3_kernel_syscall_stack :: u32

definition alloc_frame :: "vmm_state \<Rightarrow> u32 \<times> vmm_state" where
  "alloc_frame v = (let (p, q) = pmm_alloc_page (pmm v) in (p, v\<lparr>pmm := q\<rparr>))"

definition free_frame :: "u32 \<Rightarrow> vmm_state \<Rightarrow> vmm_state" where
  "free_frame p v = v\<lparr>pmm := pmm_free_page p (pmm v)\<rparr>"

definition ring3_zero_page :: "u32 \<Rightarrow> vmm_state \<Rightarrow> vmm_state" where
  "ring3_zero_page page v = v\<lparr>mem := fold (\<lambda>i. store8 (page + of_nat i) 0) [0..<4096] (mem v)\<rparr>"

text \<open>The pages and their mappings; \<open>None\<close> in place of the two frames when a step failed.\<close>

definition user_pages :: "vmm_state \<Rightarrow> (kernel_status \<times> (u32 \<times> u32) option) \<times> vmm_state" where
  "user_pages v =
     (let (code_page, v) = alloc_frame v
      in if code_page = 0 then ((KERNEL_ERROR_OUT_OF_MEMORY, None), v)
      else
      let (stack_page, v) = alloc_frame v
      in if stack_page = 0 then ((KERNEL_ERROR_OUT_OF_MEMORY, None), free_frame code_page v)
      else
      let v = ring3_zero_page code_page v;
          v = ring3_zero_page stack_page v;
          (mapped, v) = vmm_map_page RING3_USER_CODE_VIRTUAL code_page (VMM_PAGE_WRITABLE OR VMM_PAGE_USER) v
      in if \<not> mapped
         then ((KERNEL_ERROR_OUT_OF_MEMORY, None), free_frame code_page (free_frame stack_page v))
      else
      let (mapped, v) = vmm_map_page RING3_USER_STACK_VIRTUAL stack_page (VMM_PAGE_WRITABLE OR VMM_PAGE_USER) v
      in if \<not> mapped
         then ((KERNEL_ERROR_OUT_OF_MEMORY, None),
               free_frame code_page (free_frame stack_page (snd (vmm_unmap_page RING3_USER_CODE_VIRTUAL v))))
      else if \<not> vmm_validate_mapping RING3_USER_CODE_VIRTUAL (VMM_PAGE_USER OR VMM_PAGE_WRITABLE) v \<or>
              \<not> vmm_validate_mapping RING3_USER_STACK_VIRTUAL (VMM_PAGE_USER OR VMM_PAGE_WRITABLE) v
      then ((KERNEL_ERROR_CORRUPTION_DETECTED, None),
            free_frame code_page (free_frame stack_page
              (snd (vmm_unmap_page RING3_USER_CODE_VIRTUAL (snd (vmm_unmap_page RING3_USER_STACK_VIRTUAL v))))))
      else ((KERNEL_OK, Some (code_page, stack_page)), v))"

definition ring3_prepare_pages :: "'a ring3_state_scheme \<Rightarrow> kernel_status \<times> 'a ring3_state_scheme" where
  "ring3_prepare_pages s =
     (let ((status, pages), v) = user_pages (vm s); s = s\<lparr>vm := v\<rparr>
      in case pages of
           None \<Rightarrow> (status, s)
         | Some (code_page, stack_page) \<Rightarrow>
           (status, ring3_info_update (\<lambda>r. r\<lparr>code_physical := code_page, stack_physical := stack_page,
              loaded_image_size := 0, user_code_virtual := RING3_USER_CODE_VIRTUAL,
              user_stack_virtual := RING3_USER_STACK_VIRTUAL,
              r3_user_stack_top := RING3_USER_STACK_VIRTUAL + RING3_USER_PAGE_SIZE - 16\<rparr>) s))"

definition ring3_initialize :: "'a ring3_state_scheme \<Rightarrow> kernel_status \<times> 'a ring3_state_scheme" where
  "ring3_initialize s =
     (if r3_initialized (ring3_info s) then (r3_last_status (ring3_info s), s)
      else
        let s = ring3_info_update (\<lambda>r. r\<lparr>r3_initialized := True, ready := False, in_progress := False,
              completed := False, r3_runs := 0, r3_successful_runs := 0, r3_failed_runs := 0,
              syscall_count := 0, last_syscall_number := 0, r3_load_attempts := 0,
              r3_successful_loads := 0, r3_failed_loads := 0, user_code_virtual := 0,
              user_stack_virtual := 0, r3_user_stack_top := 0, code_physical := 0, stack_physical := 0,
              kernel_syscall_stack_top := ring3_kernel_syscall_stack s + RING3_KERNEL_SYSCALL_STACK_SIZE,
              previous_tss_esp0 := 0, loaded_image_size := 0\<rparr>) s;
            (status, s) = ring3_prepare_pages s;
            s = ring3_info_update (r3_last_status_update (\<lambda>_. status)) s;
            s = (if status = KERNEL_OK then ring3_info_update (ready_update (\<lambda>_. True)) s else s)
        in (status, s))"

text \<open>\<open>img\<close> is the memory at the pointer; the loop reads its first \<open>image_size\<close> bytes.\<close>

definition ring3_load_user_image ::
  "u8 list option \<Rightarrow> u32 \<Rightarrow> 'a ring3_state_scheme \<Rightarrow>
     (kernel_status \<times> ring3_loaded_image option) \<times> 'a ring3_state_scheme" where
  "ring3_load_user_image img image_size s =
     (case img of
        None \<Rightarrow> ((KERNEL_ERROR_INVALID_ARGUMENT, None), s)
      | Some img \<Rightarrow>
        let (status, s) = ring3_initialize s
        in if status \<noteq> KERNEL_OK then ((status, None), s)
        else
        let s = ring3_info_update (r3_load_attempts_update (\<lambda>n. n + 1)) s;
            fail = (\<lambda>status. ((status, None),
              ring3_info_update (\<lambda>r. r\<lparr>r3_failed_loads := r3_failed_loads r + 1, r3_last_status := status\<rparr>) s))
        in if \<not> ready (ring3_info s) \<or> code_physical (ring3_info s) = 0 \<or> stack_physical (ring3_info s) = 0
           then fail KERNEL_ERROR_INVALID_STATE
           else if image_size = 0 \<or> image_size > RING3_USER_PAGE_SIZE then fail KERNEL_ERROR_UNSUPPORTED
           else
             let code_page = code_physical (ring3_info s);
                 v = ring3_zero_page code_page (vm s);
                 v = v\<lparr>mem := fold (\<lambda>i. store8 (code_page + of_nat i) (img ! i)) [0..<unat image_size] (mem v)\<rparr>;
                 s = s\<lparr>vm := v\<rparr>;
                 s = ring3_info_update (\<lambda>r. r\<lparr>loaded_image_size := image_size,
                       r3_successful_loads := r3_successful_loads r + 1, r3_last_status := KERNEL_OK\<rparr>) s
             in ((KERNEL_OK, Some \<lparr>li_entry = user_code_virtual (ring3_info s),
                    li_user_stack_top = r3_user_stack_top (ring3_info s), li_image_size = image_size\<rparr>), s))"

section \<open>The user pages\<close>

abbreviation (input) USER_RW :: u32 where "USER_RW \<equiv> 6"

definition user_page_virtual :: "u32 \<Rightarrow> bool" where
  "user_page_virtual a \<longleftrightarrow>
     page_align_down a = RING3_USER_CODE_VIRTUAL \<or> page_align_down a = RING3_USER_STACK_VIRTUAL"

definition user_mapped :: "vmm_state \<Rightarrow> u32 \<Rightarrow> bool" where
  "user_mapped v a \<longleftrightarrow> (\<exists>e. translation v a = Some e \<and> e AND VMM_PAGE_USER \<noteq> 0)"

definition kernel_only :: "vmm_state \<Rightarrow> bool" where
  "kernel_only v \<longleftrightarrow> vmm_inv v \<and> vmm_initialized v \<and> (\<forall>a. \<not> user_mapped v a)"

definition user_frames :: "u32 \<Rightarrow> u32 \<Rightarrow> vmm_state \<Rightarrow> bool" where
  "user_frames code stack v \<longleftrightarrow>
     vmm_inv v \<and> vmm_initialized v \<and> code \<noteq> stack \<and>
     {code, stack} \<subseteq> pmm_allocated (pmm v) \<and> {code, stack} \<inter> vmm_tables v = {} \<and>
     (\<forall>a. page_align_down a = RING3_USER_CODE_VIRTUAL \<longrightarrow> translation v a = Some (mapping_entry code USER_RW)) \<and>
     (\<forall>a. page_align_down a = RING3_USER_STACK_VIRTUAL \<longrightarrow> translation v a = Some (mapping_entry stack USER_RW)) \<and>
     (\<forall>a. user_mapped v a \<longrightarrow> user_page_virtual a)"

lemma user_frames_page:
  assumes "user_frames code stack v"
  shows "page_aligned code" "page_aligned stack" "code \<noteq> 0" "stack \<noteq> 0"
proof -
  have i: "pmm_inv (pmm v)" using assms by (simp add: user_frames_def vmm_inv_def)
  show "page_aligned code" "page_aligned stack" "code \<noteq> 0" "stack \<noteq> 0"
    using assms pmm.alloc_page [OF i] by (auto simp: user_frames_def)
qed

lemma user_frames_same: "user_frames c s v \<Longrightarrow> same_mapping v w \<Longrightarrow> user_frames c s w"
  by (simp add: user_frames_def same_mapping_def user_mapped_def)

lemma user_rw_valid: "vmm_flags_are_valid USER_RW"
  by (simp add: vmm_flags_are_valid_def)

lemma mapping_entry_frame:
  assumes "page_aligned p"
  shows "mapping_entry p USER_RW AND FRAME_MASK = p"
proof -
  have "mapping_entry p USER_RW AND FRAME_MASK = page_align_down p"
    unfolding mapping_entry_def by (intro mapping_frame user_rw_valid) (simp add: page_align_down_def)
  then show ?thesis using frame_of_aligned [OF assms] by (simp add: page_align_down_def)
qed

lemma mapping_entry_bits:
  "mapping_entry p USER_RW AND VMM_PAGE_USER \<noteq> 0" "mapping_entry p USER_RW AND VMM_PAGE_WRITABLE \<noteq> 0"
  "mapping_entry p USER_RW AND USER_RW = USER_RW"
  by (simp_all add: mapping_entry_def bit.conj_disj_distrib2)

lemma zero_page_same_mapping:
  "vmm_inv v \<Longrightarrow> page_aligned p \<Longrightarrow> p \<notin> vmm_tables v \<Longrightarrow> same_mapping v (ring3_zero_page p v)"
  unfolding ring3_zero_page_def by (rule fill_same_mapping) simp_all

lemma alloc_frame_spec:
  assumes "vmm_inv v" "alloc_frame v = (p, w)"
  shows "vmm_inv w" "vmm_initialized w = vmm_initialized v" "translation w = translation v"
    "vmm_tables w = vmm_tables v"
    "p \<noteq> 0 \<Longrightarrow> page_aligned p \<and> p \<notin> vmm_tables v \<and> p \<notin> pmm_allocated (pmm v) \<and>
       pmm_allocated (pmm w) = insert p (pmm_allocated (pmm v))"
proof -
  obtain q where q: "pmm_alloc_page (pmm v) = (p, q)" "w = v\<lparr>pmm := q\<rparr>"
    using assms(2) by (auto simp: alloc_frame_def split: prod.splits)
  have i: "pmm_inv (pmm v)" using assms(1) by (simp add: vmm_inv_def)
  show "vmm_inv w" "vmm_initialized w = vmm_initialized v" "translation w = translation v"
    "vmm_tables w = vmm_tables v"
    using vmm_inv_alloc(1) [OF assms(1) q(1)] by (simp_all add: q(2) vmm_pmm_update vmm_tables_update)
  assume "p \<noteq> 0"
  then show "page_aligned p \<and> p \<notin> vmm_tables v \<and> p \<notin> pmm_allocated (pmm v) \<and>
       pmm_allocated (pmm w) = insert p (pmm_allocated (pmm v))"
    using vmm_inv_alloc(2) [OF assms(1) q(1)] pmm_alloc_fresh [OF i q(1)] pmm_alloc_inv [OF i q(1)]
      pmm.alloc_page [of q p] by (simp add: q(2))
qed

lemma free_frame_spec:
  assumes "vmm_inv v" "p \<notin> vmm_tables v"
  shows "vmm_inv (free_frame p v)" "vmm_initialized (free_frame p v) = vmm_initialized v"
    "translation (free_frame p v) = translation v" "vmm_tables (free_frame p v) = vmm_tables v"
  using vmm_inv_free [OF assms] by (simp_all add: free_frame_def vmm_pmm_update vmm_tables_update)

lemma kernel_only_free: "kernel_only v \<Longrightarrow> p \<notin> vmm_tables v \<Longrightarrow> kernel_only (free_frame p v)"
  using free_frame_spec [of v p] by (simp add: kernel_only_def user_mapped_def)

lemma user_page_addresses:
  "page_align_down RING3_USER_CODE_VIRTUAL = RING3_USER_CODE_VIRTUAL"
  "page_align_down RING3_USER_STACK_VIRTUAL = RING3_USER_STACK_VIRTUAL"
  by (simp_all add: page_align_down_def)

lemma user_pages_spec:
  assumes k: "kernel_only v" and r: "user_pages v = ((status, pages), w)"
  shows "case pages of
      None \<Rightarrow> status \<noteq> KERNEL_OK \<and> kernel_only w
    | Some (code, stack) \<Rightarrow> status = KERNEL_OK \<and> user_frames code stack w \<and>
        code \<notin> pmm_allocated (pmm v) \<and> stack \<notin> pmm_allocated (pmm v)"
proof -
  have inv: "vmm_inv v" and ini: "vmm_initialized v" and nu: "\<And>a. \<not> user_mapped v a"
    using k by (auto simp: kernel_only_def)
  obtain c v1 where a1: "alloc_frame v = (c, v1)" by fastforce
  obtain st v2 where a2: "alloc_frame v1 = (st, v2)" by fastforce
  define v3 where "v3 = ring3_zero_page st (ring3_zero_page c v2)"
  obtain m1 v4 where a4: "vmm_map_page RING3_USER_CODE_VIRTUAL c USER_RW v3 = (m1, v4)" by fastforce
  obtain m2 v5 where a5: "vmm_map_page RING3_USER_STACK_VIRTUAL st USER_RW v4 = (m2, v5)" by fastforce
  note s1 = alloc_frame_spec [OF inv a1]
  note s2 = alloc_frame_spec [OF s1(1) a2]
  have ko: "kernel_only v1" "kernel_only v2"
    using k s1 s2 by (simp_all add: kernel_only_def user_mapped_def)
  show ?thesis
  proof (cases "c = 0 \<or> st = 0")
    case True
    have "c \<notin> vmm_tables v2" if "c \<noteq> 0" using s1 s2 that by simp
    with True show ?thesis
      using r a1 a2 ko by (auto simp: user_pages_def kernel_only_free Let_def split: if_splits)
  next
    case False
    then have c: "page_aligned c" "c \<notin> vmm_tables v2" "c \<in> pmm_allocated (pmm v2)" "c \<notin> pmm_allocated (pmm v)"
      and st: "page_aligned st" "st \<notin> vmm_tables v2" "st \<in> pmm_allocated (pmm v2)" "st \<notin> pmm_allocated (pmm v)"
      and ne: "c \<noteq> st" using s1 s2 by auto
    have "same_mapping v2 (ring3_zero_page c v2)" by (rule zero_page_same_mapping [OF s2(1) c(1,2)])
    moreover from this have "same_mapping (ring3_zero_page c v2) v3"
      unfolding v3_def using st by (intro zero_page_same_mapping) (simp_all add: same_mapping_def)
    ultimately have m3: "same_mapping v2 v3" by (rule same_mapping_trans)
    then have v3: "vmm_inv v3" "vmm_initialized v3" "pmm v3 = pmm v2" "vmm_tables v3 = vmm_tables v2"
      "\<And>a. \<not> user_mapped v3 a"
      using ko(2) by (simp_all add: same_mapping_def kernel_only_def user_mapped_def)
    note s4 = vmm_map_page_spec [OF v3(1,2) user_rw_valid a4]
    have v4: "vmm_inv v4" "vmm_initialized v4" "{c, st} \<subseteq> pmm_allocated (pmm v4)" "{c, st} \<inter> vmm_tables v4 = {}"
      using s4 v3(3,4) c(2,3) st(2,3) by auto
    note s5 = vmm_map_page_spec [OF v4(1,2) user_rw_valid a5]
    have v5: "vmm_inv v5" "vmm_initialized v5" "{c, st} \<subseteq> pmm_allocated (pmm v5)" "{c, st} \<inter> vmm_tables v5 = {}"
      using s5 v4(3,4) by auto
    have flags: "(VMM_PAGE_WRITABLE OR VMM_PAGE_USER) = USER_RW" "(VMM_PAGE_USER OR VMM_PAGE_WRITABLE) = USER_RW"
      by simp_all
    show ?thesis
    proof (cases m1)
      case m1: False
      then have "translation v4 = translation v3" using s4 by simp
      then have "kernel_only v4" using v4 v3(5) by (simp add: kernel_only_def user_mapped_def)
      then have "kernel_only (free_frame c (free_frame st v4))"
        using v4(1,4) free_frame_spec(4) [OF v4(1), of st] by (intro kernel_only_free) auto
      moreover have "((status, pages), w) = ((KERNEL_ERROR_OUT_OF_MEMORY, None), free_frame c (free_frame st v4))"
        unfolding r [symmetric] using False m1 a1 a2 a4 by (simp add: user_pages_def v3_def)
      ultimately show ?thesis by simp
    next
      case m1: True
      then have t4: "translation v4 a = (if page_align_down a = RING3_USER_CODE_VIRTUAL
          then Some (mapping_entry c USER_RW) else translation v3 a)" for a
        using s4 user_page_addresses by simp
      show ?thesis
      proof (cases m2)
        case m2: False
        obtain ok v6 where a6: "vmm_unmap_page RING3_USER_CODE_VIRTUAL v5 = (ok, v6)" by fastforce
        note s6 = vmm_unmap_page_spec [OF v5(1,2) a6]
        have t5: "translation v5 = translation v4" using s5 m2 by simp
        then have "ok" using s6 t4 user_page_addresses by simp
        then have "\<not> user_mapped v6 a" for a
          using s6 t4 t5 v3(5) [of a] user_page_addresses by (auto simp: user_mapped_def split: if_splits)
        then have "kernel_only v6" using s6 by (simp add: kernel_only_def)
        moreover have "{c, st} \<inter> vmm_tables v6 = {}" using s6 v5(4) by simp
        ultimately have "kernel_only (free_frame c (free_frame st v6))"
          using s6 free_frame_spec(4) [of v6 st] by (intro kernel_only_free) auto
        moreover have "((status, pages), w) = ((KERNEL_ERROR_OUT_OF_MEMORY, None), free_frame c (free_frame st v6))"
          unfolding r [symmetric] using False m1 m2 a1 a2 a4 a5 a6 by (simp add: user_pages_def v3_def)
        ultimately show ?thesis by simp
      next
        case m2: True
        then have t5: "translation v5 a = (if page_align_down a = RING3_USER_STACK_VIRTUAL
            then Some (mapping_entry st USER_RW) else translation v4 a)" for a
          using s5 user_page_addresses by simp
        have val: "vmm_validate_mapping RING3_USER_CODE_VIRTUAL USER_RW v5"
          "vmm_validate_mapping RING3_USER_STACK_VIRTUAL USER_RW v5"
          using t5 t4 v5(2) user_page_addresses
          by (simp_all add: vmm_validate_mapping_iff user_rw_valid mapping_entry_bits)
        have "user_page_virtual a" if "user_mapped v5 a" for a
          using that t4 t5 v3(5) [of a] by (auto simp: user_mapped_def user_page_virtual_def split: if_splits)
        then have "user_frames c st v5"
          using v5 ne t4 t5 by (simp add: user_frames_def)
        moreover have "((status, pages), w) = ((KERNEL_OK, Some (c, st)), v5)"
          unfolding r [symmetric] using False m1 m2 a1 a2 a4 a5 val by (simp add: user_pages_def v3_def)
        ultimately show ?thesis using c(4) st(4) by simp
      qed
    qed
  qed
qed

section \<open>The invariant of user mode\<close>

text \<open>
  Until the pages are ready user mode has no access at all; afterwards it has access to the two
  pages, whose frames belong to nobody else and hold no page table.
\<close>

definition ring3_ok :: "'a ring3_state_scheme \<Rightarrow> bool" where
  "ring3_ok s \<longleftrightarrow>
     (if ready (ring3_info s)
      then r3_initialized (ring3_info s) \<and>
        user_frames (code_physical (ring3_info s)) (stack_physical (ring3_info s)) (vm s) \<and>
        user_code_virtual (ring3_info s) = RING3_USER_CODE_VIRTUAL \<and>
        r3_user_stack_top (ring3_info s) = 0x10001FF0
      else kernel_only (vm s))"

lemma ring3_ok_cong:
  assumes "vm t = vm s" "ready (ring3_info t) = ready (ring3_info s)"
    "r3_initialized (ring3_info t) = r3_initialized (ring3_info s)"
    "code_physical (ring3_info t) = code_physical (ring3_info s)"
    "stack_physical (ring3_info t) = stack_physical (ring3_info s)"
    "user_code_virtual (ring3_info t) = user_code_virtual (ring3_info s)"
    "r3_user_stack_top (ring3_info t) = r3_user_stack_top (ring3_info s)"
  shows "ring3_ok t = ring3_ok s"
  using assms by (simp add: ring3_ok_def)

lemma ring3_initialize_again:
  "r3_initialized (ring3_info s) \<Longrightarrow> ring3_initialize s = (r3_last_status (ring3_info s), s)"
  by (simp add: ring3_initialize_def)

lemma ring3_initialize_first:
  assumes "\<not> r3_initialized (ring3_info s)" "kernel_only (vm s)" "ring3_initialize s = (status, t)"
  shows "ring3_ok t \<and> (status = KERNEL_OK \<longleftrightarrow> ready (ring3_info t)) \<and> r3_initialized (ring3_info t)"
proof -
  obtain st pages w where u: "user_pages (vm s) = ((st, pages), w)" by (metis prod.exhaust)
  note spec = user_pages_spec [OF assms(2) u]
  show ?thesis
  proof (cases pages)
    case None
    then show ?thesis
      using spec assms(1,3) by (auto simp: ring3_initialize_def ring3_prepare_pages_def Let_def u ring3_ok_def)
  next
    case (Some p)
    then show ?thesis
      using spec assms(1,3)
      by (cases p) (auto simp: ring3_initialize_def ring3_prepare_pages_def Let_def u ring3_ok_def)
  qed
qed

lemma ring3_initialize_frame:
  assumes "ring3_initialize s = (status, t)"
  shows "vfs_root t = vfs_root s" "vfs_info t = vfs_info s" "initramfs_info t = initramfs_info s" "gdt t = gdt s"
    "ring3_state.more t = ring3_state.more s"
  using assms
  by (auto simp: ring3_initialize_def ring3_prepare_pages_def Let_def split: if_splits option.splits prod.splits)

lemma ring3_initialize_ok:
  assumes "ring3_ok s" and "ring3_initialize s = (status, t)"
  shows "ring3_ok t" "r3_initialized (ring3_info t)"
proof -
  have "ring3_ok t \<and> r3_initialized (ring3_info t)"
  proof (cases "r3_initialized (ring3_info s)")
    case True
    then show ?thesis using assms by (simp add: ring3_initialize_again)
  next
    case False
    then have "kernel_only (vm s)" using assms(1) by (auto simp: ring3_ok_def split: if_splits)
    with False assms(2) show ?thesis using ring3_initialize_first by blast
  qed
  then show "ring3_ok t" "r3_initialized (ring3_info t)" by blast+
qed

lemma physical_code:
  assumes "user_frames code stack v" "page_align_down a = RING3_USER_CODE_VIRTUAL"
  shows "physical v a = Some (code + (a AND 0xFFF))"
  using assms user_frames_page(1) [OF assms(1)] by (simp add: physical_def user_frames_def mapping_entry_frame)

lemma physical_stack:
  assumes "user_frames code stack v" "page_align_down a = RING3_USER_STACK_VIRTUAL"
  shows "physical v a = Some (stack + (a AND 0xFFF))"
  using assms user_frames_page(2) [OF assms(1)] by (simp add: physical_def user_frames_def mapping_entry_frame)

text \<open>Where the bytes of a user address are.\<close>

lemma frame_byte:
  assumes "page_aligned p"
  shows "page_align_down (p + (a AND 0xFFF)) = p" "(p + (a AND 0xFFF)) AND 0xFFF = a AND 0xFFF"
proof -
  have o: "unat (a AND 0xFFF) < 4096" by (simp add: unat_offset)
  have "p + (a AND 0xFFF) = p + of_nat (unat (a AND 0xFFF))" by simp
  note pp = page_plus [OF assms o, folded this]
  show "page_align_down (p + (a AND 0xFFF)) = p" by (rule pp(1))
  show "(p + (a AND 0xFFF)) AND 0xFFF = a AND 0xFFF" using pp(2) by (simp only: word_unat_eq_iff)
qed

lemma user_physical:
  assumes "user_frames code stack v" "user_page_virtual a"
  shows "\<exists>p. physical v a = Some p \<and> page_align_down p \<in> {code, stack}"
  using assms physical_code [OF assms(1)] physical_stack [OF assms(1)]
    frame_byte(1) [OF user_frames_page(1) [OF assms(1)]] frame_byte(1) [OF user_frames_page(2) [OF assms(1)]]
  by (auto simp: user_page_virtual_def)

text \<open>Every store a user program can make lands in one of its two frames.\<close>

lemma user_writable_page:
  "user_frames code stack v \<Longrightarrow> user_writable v a \<Longrightarrow> user_page_virtual a"
  by (auto simp: user_writable_def user_frames_def user_mapped_def split: option.splits)

definition same_outside_user :: "u32 \<Rightarrow> u32 \<Rightarrow> vmm_state \<Rightarrow> vmm_state \<Rightarrow> bool" where
  "same_outside_user code stack v w \<longleftrightarrow>
     (\<forall>a. page_align_down a \<noteq> code \<longrightarrow> page_align_down a \<noteq> stack \<longrightarrow> load8 (mem w) a = load8 (mem v) a)"

lemma write_user_byte:
  assumes "user_frames code stack v" "user_page_virtual a"
  shows "\<exists>w. write_virtual a b v = Some w \<and> same_mapping v w \<and> same_outside_user code stack v w"
proof -
  obtain p where p: "physical v a = Some p" "page_align_down p \<in> {code, stack}"
    using user_physical [OF assms] by blast
  then have "page_align_down p \<notin> vmm_tables v" "vmm_inv v" using assms(1) by (auto simp: user_frames_def)
  from store8_same_mapping [OF this(2,1)] p show ?thesis
    by (auto simp: write_virtual_def same_outside_user_def load8_store8)
qed

lemma same_outside_user_trans:
  "same_outside_user c s u v \<Longrightarrow> same_outside_user c s v w \<Longrightarrow> same_outside_user c s u w"
  by (simp add: same_outside_user_def)

lemma read_user_byte:
  "user_frames code stack v \<Longrightarrow> user_page_virtual a \<Longrightarrow> \<exists>b. read_virtual v a = Some b"
  using user_physical by (fastforce simp: read_virtual_def)

section \<open>Loading a program\<close>

definition load_bytes :: "u32 \<Rightarrow> u8 list \<Rightarrow> nat \<Rightarrow> vmm_state \<Rightarrow> vmm_state" where
  "load_bytes page data n v =
     (let v = ring3_zero_page page v
      in v\<lparr>mem := fold (\<lambda>i. store8 (page + of_nat i) (data ! i)) [0..<n] (mem v)\<rparr>)"

lemma load_bytes_byte:
  assumes "page_aligned page" "n \<le> 4096"
  shows "load8 (mem (load_bytes page data n v)) a =
    (if page_align_down a = page
     then if unat (a AND 0xFFF) < n then data ! unat (a AND 0xFFF) else 0
     else load8 (mem v) a)"
proof -
  have o: "unat (a AND 0xFFF) < 4096" by (simp add: unat_offset)
  show ?thesis
    using o load8_fill [OF assms, of "\<lambda>i. data ! i" "mem (ring3_zero_page page v)" a]
      load8_fill [OF assms(1) order_refl, of "\<lambda>_. 0" "mem v" a]
    by (simp add: load_bytes_def ring3_zero_page_def del: upt_Suc upt_rec_numeral)
qed

lemma load_bytes_same_mapping:
  assumes "vmm_inv v" "page_aligned page" "page \<notin> vmm_tables v" "n \<le> 4096"
  shows "same_mapping v (load_bytes page data n v)"
proof -
  have z: "same_mapping v (ring3_zero_page page v)" by (rule zero_page_same_mapping [OF assms(1-3)])
  have "same_mapping (ring3_zero_page page v) (load_bytes page data n v)"
    unfolding load_bytes_def Let_def
    using z assms by (intro fill_same_mapping) (simp_all add: same_mapping_def)
  with z show ?thesis by (rule same_mapping_trans)
qed

lemma load_cases:
  assumes "ring3_ok s" and "ring3_load_user_image img n s = ((status, loaded), t)"
  obtains (failed) "status \<noteq> KERNEL_OK" "loaded = None" "ring3_ok t"
    "vm t = vm s \<or> vm t = vm (snd (ring3_initialize s))"
  | (loaded) data s' where "status = KERNEL_OK" "img = Some data" "n \<noteq> 0" "unat n \<le> 4096"
    "ring3_initialize s = (KERNEL_OK, s')" "ready (ring3_info t)" "ring3_ok t"
    "code_physical (ring3_info t) = code_physical (ring3_info s')"
    "stack_physical (ring3_info t) = stack_physical (ring3_info s')" "ring3_ok s'"
    "loaded = Some \<lparr>li_entry = RING3_USER_CODE_VIRTUAL, li_user_stack_top = 0x10001FF0, li_image_size = n\<rparr>"
    "vm t = load_bytes (code_physical (ring3_info s')) data (unat n) (vm s')"
    "same_mapping (vm s') (vm t)"
proof -
  obtain st s' where i: "ring3_initialize s = (st, s')" by fastforce
  have ok: "ring3_ok s'" using ring3_initialize_ok(1) [OF assms(1) i] .
  let ?good = "img \<noteq> None \<and> st = KERNEL_OK \<and> ready (ring3_info s') \<and> code_physical (ring3_info s') \<noteq> 0 \<and>
    stack_physical (ring3_info s') \<noteq> 0 \<and> n \<noteq> 0 \<and> n \<le> RING3_USER_PAGE_SIZE"
  show thesis
  proof (cases ?good)
    case True
    then obtain data where data: "img = Some data" by blast
    let ?c = "code_physical (ring3_info s')"
    have n: "unat n \<le> 4096" using True by (simp add: word_le_nat_alt)
    have nle: "(RING3_USER_PAGE_SIZE < n) = False" using True by (simp add: not_less)
    have f: "user_frames ?c (stack_physical (ring3_info s')) (vm s')" "user_code_virtual (ring3_info s') = RING3_USER_CODE_VIRTUAL"
      "r3_user_stack_top (ring3_info s') = 0x10001FF0" "r3_initialized (ring3_info s')"
      using ok True by (simp_all add: ring3_ok_def)
    then have m: "same_mapping (vm s') (load_bytes ?c data (unat n) (vm s'))"
      using user_frames_page(1) [OF f(1)] n by (intro load_bytes_same_mapping) (auto simp: user_frames_def)
    have t: "status = KERNEL_OK" "loaded = Some \<lparr>li_entry = RING3_USER_CODE_VIRTUAL, li_user_stack_top = 0x10001FF0, li_image_size = n\<rparr>"
      "t = ring3_info_update (\<lambda>r. r\<lparr>loaded_image_size := n, r3_successful_loads := r3_successful_loads r + 1, r3_last_status := KERNEL_OK\<rparr>)
        ((ring3_info_update (r3_load_attempts_update (\<lambda>n. n + 1)) s')\<lparr>vm := load_bytes ?c data (unat n) (vm s')\<rparr>)"
      using assms(2) True data f(2,3) nle
      by (simp_all add: ring3_load_user_image_def i load_bytes_def Let_def del: upt_rec_numeral)
    then have "ring3_ok t" using f user_frames_same [OF f(1) m] True by (simp add: ring3_ok_def)
    then show thesis
      using loaded [of data s'] t True data n i m ok by simp
  next
    case False
    define u where "u = (\<lambda>e. ring3_info_update (\<lambda>r. r\<lparr>r3_failed_loads := r3_failed_loads r + 1, r3_last_status := e\<rparr>)
       (ring3_info_update (r3_load_attempts_update (\<lambda>n. n + 1)) s'))"
    have u: "ring3_ok (u e)" "vm (u e) = vm s'" for e
      using ok by (simp_all add: ring3_ok_def u_def)
    have "status \<noteq> KERNEL_OK \<and> loaded = None \<and> (t = s \<or> t = s' \<or> (\<exists>e. t = u e))"
    proof (cases img)
      case (Some data)
      show ?thesis
      proof (cases "st = KERNEL_OK")
        case st: True
        show ?thesis
        proof (cases "\<not> ready (ring3_info s') \<or> code_physical (ring3_info s') = 0 \<or> stack_physical (ring3_info s') = 0")
          case True
          then show ?thesis
            using assms(2) Some st by (auto simp: ring3_load_user_image_def i Let_def u_def)
        next
          case nr: False
          then have "n = 0 \<or> n > RING3_USER_PAGE_SIZE" using False Some st by (auto simp: not_le)
          then show ?thesis
            using assms(2) Some st nr by (auto simp: ring3_load_user_image_def i Let_def u_def)
        qed
      qed (use assms(2) Some in \<open>auto simp: ring3_load_user_image_def i\<close>)
    qed (use assms(2) in \<open>auto simp: ring3_load_user_image_def\<close>)
    then show thesis using failed assms(1) ok i u by auto
  qed
qed

lemma load_ok: "ring3_ok s \<Longrightarrow> ring3_load_user_image img n s = ((status, loaded), t) \<Longrightarrow> ring3_ok t"
  by (erule (1) load_cases)

lemma load_frame:
  assumes "ring3_load_user_image img n s = (res, t)"
  shows "vfs_root t = vfs_root s" "vfs_info t = vfs_info s" "gdt t = gdt s"
    "ring3_state.more t = ring3_state.more s"
proof -
  obtain st s' where i: "ring3_initialize s = (st, s')" by fastforce
  have "vfs_root t = vfs_root s \<and> vfs_info t = vfs_info s \<and> gdt t = gdt s \<and>
      ring3_state.more t = ring3_state.more s"
    using assms ring3_initialize_frame [OF i]
    by (cases img) (auto simp: ring3_load_user_image_def i Let_def split: if_splits)
  then show "vfs_root t = vfs_root s" "vfs_info t = vfs_info s" "gdt t = gdt s"
    "ring3_state.more t = ring3_state.more s" by simp_all
qed

lemma load_user_image_spec:
  assumes "ring3_ok s" and "ring3_load_user_image (Some data) n s = ((KERNEL_OK, loaded), t)"
  shows "0 < unat n \<and> unat n \<le> 4096 \<and>
    (\<forall>i < 4096. read_virtual (vm t) (RING3_USER_CODE_VIRTUAL + of_nat i) =
       Some (if i < unat n then data ! i else 0)) \<and>
    (\<forall>a. page_align_down a \<noteq> code_physical (ring3_info t) \<longrightarrow>
       load8 (mem (vm t)) a = load8 (mem (vm (snd (ring3_initialize s)))) a) \<and>
    loaded = Some \<lparr>li_entry = RING3_USER_CODE_VIRTUAL, li_user_stack_top = 0x10001FF0, li_image_size = n\<rparr>"
  using assms
proof (cases rule: load_cases)
  case (loaded d s')
  let ?c = "code_physical (ring3_info s')"
  have f: "user_frames ?c (stack_physical (ring3_info t)) (vm t)"
    using loaded(6-8) by (simp add: ring3_ok_def)
  note c = user_frames_page(1) [OF f]
  have b: "load8 (mem (vm t)) a = (if page_align_down a = ?c
      then if unat (a AND 0xFFF) < unat n then data ! unat (a AND 0xFFF) else 0 else load8 (mem (vm s')) a)" for a
    using load_bytes_byte [OF c loaded(4)] loaded(2,12) by simp
  have "read_virtual (vm t) (RING3_USER_CODE_VIRTUAL + of_nat i) = Some (if i < unat n then data ! i else 0)"
    if i: "i < 4096" for i
  proof -
    let ?a = "RING3_USER_CODE_VIRTUAL + of_nat i"
    have "page_aligned RING3_USER_CODE_VIRTUAL" by (simp add: page_aligned_def)
    note pa = page_plus [OF this i]
    have "physical (vm t) ?a = Some (?c + (?a AND 0xFFF))" by (rule physical_code [OF f pa(1)])
    then show ?thesis using b frame_byte [OF c, of ?a] pa(2) by (simp add: read_virtual_def)
  qed
  moreover have "load8 (mem (vm t)) a = load8 (mem (vm (snd (ring3_initialize s)))) a"
    if "page_align_down a \<noteq> code_physical (ring3_info t)" for a
    using b that loaded(5,8) by simp
  ultimately show ?thesis using loaded(3,4,11) by (simp add: unat_gt_0)
qed simp

section \<open>Enough memory\<close>

definition free_frames :: "vmm_state \<Rightarrow> nat" where
  "free_frames v = pmm_capacity (pmm v) - card (pmm_allocated (pmm v))"

lemma alloc_room:
  assumes "vmm_inv v" "free_frames v = Suc n"
  obtains p w where "alloc_frame v = (p, w)" "p \<noteq> 0" "free_frames w = n"
proof -
  have i: "pmm_inv (pmm v)" using assms(1) by (simp add: vmm_inv_def)
  have "card (pmm_allocated (pmm v)) + n < pmm_capacity (pmm v)" using assms(2) by (simp add: free_frames_def)
  from pmm_alloc_succeeds [OF i this] obtain p q where q: "pmm_alloc_page (pmm v) = (p, q)" "p \<noteq> 0"
    "p \<notin> pmm_allocated (pmm v)" "pmm_allocated q = insert p (pmm_allocated (pmm v))" by metis
  have "pmm_capacity q = pmm_capacity (pmm v)"
    using pmm_exec_region [of "[Alloc]" "pmm v"] q(1) by (simp add: pmm_capacity_def)
  then have "free_frames (v\<lparr>pmm := q\<rparr>) = n"
    using q(3,4) assms(2) by (simp add: free_frames_def card_insert_disjoint)
  then show thesis using that [of p "v\<lparr>pmm := q\<rparr>"] q by (simp add: alloc_frame_def)
qed

lemma map_room:
  assumes "vmm_inv v" "vmm_initialized v" "free_frames v = Suc n" "vmm_map_page va pa USER_RW v = (ok, w)"
  shows "ok" "n \<le> free_frames w"
proof -
  note sp = vmm_map_page_spec [OF assms(1,2) user_rw_valid assms(4)]
  show ok using sp assms(3) by (auto simp: free_frames_def split: if_splits)
  obtain p u where a: "alloc_frame v = (p, u)" "free_frames u = n" using alloc_room [OF assms(1,3)] by metis
  then have "pmm u = snd (pmm_alloc_page (pmm v))" by (auto simp: alloc_frame_def split: prod.splits)
  then show "n \<le> free_frames w"
    using map_page_pmm [OF assms(4)] a(2) assms(3) by (auto simp: free_frames_def)
qed

lemma user_pages_room:
  assumes k: "kernel_only v" and "4 \<le> free_frames v" and r: "user_pages v = ((status, pages), w)"
  shows "pages \<noteq> None"
proof -
  obtain n where n: "free_frames v = Suc (Suc (Suc (Suc n)))"
    using le_Suc_ex [OF assms(2)] by (auto simp: numeral_eq_Suc)
  have inv: "vmm_inv v" "vmm_initialized v" using k by (auto simp: kernel_only_def)
  obtain c v1 where a1: "alloc_frame v = (c, v1)" "c \<noteq> 0" "free_frames v1 = Suc (Suc (Suc n))"
    using alloc_room [OF inv(1) n] by metis
  note s1 = alloc_frame_spec [OF inv(1) a1(1)]
  obtain st v2 where a2: "alloc_frame v1 = (st, v2)" "st \<noteq> 0" "free_frames v2 = Suc (Suc n)"
    using alloc_room [OF s1(1) a1(3)] by metis
  note s2 = alloc_frame_spec [OF s1(1) a2(1)]
  have z: "same_mapping v2 (ring3_zero_page c v2)"
    using zero_page_same_mapping [OF s2(1), of c] s1 s2 a1(2) by simp
  define v3 where "v3 = ring3_zero_page st (ring3_zero_page c v2)"
  have "same_mapping (ring3_zero_page c v2) v3"
    unfolding v3_def using zero_page_same_mapping [of "ring3_zero_page c v2" st] z s1 s2 a2(2)
    by (simp add: same_mapping_def)
  with z have "same_mapping v2 v3" by (rule same_mapping_trans)
  then have v3: "vmm_inv v3" "vmm_initialized v3" "free_frames v3 = Suc (Suc n)"
    using s1 s2 inv(2) a2(3) by (simp_all add: same_mapping_def free_frames_def)
  obtain m1 v4 where a4: "vmm_map_page RING3_USER_CODE_VIRTUAL c USER_RW v3 = (m1, v4)" by fastforce
  note r4 = map_room [OF v3 a4]
  obtain n' where n': "free_frames v4 = Suc n'" using r4(2) by (metis Suc_le_D)
  have i4: "vmm_inv v4" "vmm_initialized v4" using vmm_map_page_spec [OF v3(1,2) user_rw_valid a4] by auto
  obtain m2 v5 where a5: "vmm_map_page RING3_USER_STACK_VIRTUAL st USER_RW v4 = (m2, v5)" by fastforce
  note r5 = map_room [OF i4 n' a5]
  have t: "translation v5 RING3_USER_CODE_VIRTUAL = Some (mapping_entry c USER_RW)"
    "translation v5 RING3_USER_STACK_VIRTUAL = Some (mapping_entry st USER_RW)" "vmm_initialized v5"
    using vmm_map_page_spec [OF v3(1,2) user_rw_valid a4] vmm_map_page_spec [OF i4 user_rw_valid a5]
      r4(1) r5(1) user_page_addresses by simp_all
  then have "vmm_validate_mapping RING3_USER_CODE_VIRTUAL USER_RW v5"
    "vmm_validate_mapping RING3_USER_STACK_VIRTUAL USER_RW v5"
    by (simp_all add: vmm_validate_mapping_iff user_rw_valid mapping_entry_bits)
  then show ?thesis
    using r a1 a2 a4 a5 r4(1) r5(1) by (auto simp: user_pages_def v3_def)
qed

section \<open>Properties\<close>

definition blank_ring3_info :: ring3_info where
  "blank_ring3_info = \<lparr>r3_initialized = False, ready = False, in_progress = False, completed = False,
     r3_runs = 0, r3_successful_runs = 0, r3_failed_runs = 0, syscall_count = 0, last_syscall_number = 0,
     r3_load_attempts = 0, r3_successful_loads = 0, r3_failed_loads = 0, user_code_virtual = 0,
     user_stack_virtual = 0, r3_user_stack_top = 0, code_physical = 0, stack_physical = 0,
     kernel_syscall_stack_top = 0, previous_tss_esp0 = 0, loaded_image_size = 0, r3_last_status = KERNEL_OK\<rparr>"

definition small_ring3 :: ring3_state where
  "small_ring3 = vfs_state.extend blank_vfs
     \<lparr>vm = small_vmm, gdt = blank_gdt, ring3_info = blank_ring3_info, ring3_kernel_syscall_stack = 0x10A000\<rparr>"

lemma and_power_cases: "(e :: u32) AND 2 ^ k = (if bit e k then 2 ^ k else 0)"
  by (rule bit_word_eqI) (auto simp: bit_simps)

lemma small_kernel_only: "kernel_only small_vmm" "4 \<le> free_frames small_vmm"
proof -
  have tr: "translation small_vmm a = (if a < 0x8000000
      then Some (identity_entry (unat a div 4194304) (unat a div 4096 mod 1024)) else None)" for a
    using boot_translation [OF small_boot_tables refl, where a = a and s = blank_vmm]
    by (simp add: small_vmm_def vmm_initialize_keeps)
  have "(e :: u32) AND VMM_PAGE_USER = 0" if "e AND VMM_PAGE_USER \<noteq> VMM_PAGE_USER" for e
    using and_power_cases [of e 2] that by (auto split: if_splits)
  then have "\<not> user_mapped small_vmm a" for a
    using tr [of a] identity_entry_flags by (auto simp: user_mapped_def split: if_splits)
  then show "kernel_only small_vmm" using small_vmm_facts by (simp add: kernel_only_def)
  have "card (pmm_allocated small_pmm) = 0" using pmm_booted_inv [OF small_pmm_booted] by simp
  then show "4 \<le> free_frames small_vmm"
    by (simp add: free_frames_def small_vmm_facts pmm_capacity_def small_pmm_eq pmm_zero_def)
qed

lemma small_ring3_sel:
  "vm small_ring3 = small_vmm" "ring3_info small_ring3 = blank_ring3_info" "gdt small_ring3 = blank_gdt"
  by (simp_all add: small_ring3_def vfs_state.defs blank_vfs_def vfs_initialize_def)

lemma ready_writable:
  assumes "ring3_ok s" "ready (ring3_info s)"
  shows "user_writable (vm s) a \<longleftrightarrow> user_page_virtual a"
proof -
  have f: "user_frames (code_physical (ring3_info s)) (stack_physical (ring3_info s)) (vm s)"
    using assms by (simp add: ring3_ok_def)
  show ?thesis
    using user_writable_page [OF f] f mapping_entry_bits
    by (auto simp: user_writable_def user_frames_def user_page_virtual_def)
qed

text \<open>Once the user pages are set up, they stay, and nothing outside of them changes.\<close>

definition mem_frame :: "'a ring3_state_scheme \<Rightarrow> 'a ring3_state_scheme \<Rightarrow> bool" where
  "mem_frame s t \<longleftrightarrow> (ring3_ok s \<longrightarrow> ring3_ok t \<and> (ready (ring3_info s) \<longrightarrow> ready (ring3_info t) \<and>
     code_physical (ring3_info t) = code_physical (ring3_info s) \<and>
     stack_physical (ring3_info t) = stack_physical (ring3_info s) \<and> same_mapping (vm s) (vm t) \<and>
     same_outside_user (code_physical (ring3_info s)) (stack_physical (ring3_info s)) (vm s) (vm t)))"

lemma ring3_ok_same: "ring3_ok s \<Longrightarrow> ready (ring3_info s) \<Longrightarrow> same_mapping (vm s) (vm s) \<and> same_outside_user c k (vm s) (vm s)"
  by (simp add: ring3_ok_def user_frames_def same_mapping_refl same_outside_user_def)

lemma mem_frame_same: "vm t = vm s \<Longrightarrow> ring3_info t = ring3_info s \<Longrightarrow> mem_frame s t"
  using ring3_ok_same [of s] by (simp add: mem_frame_def ring3_ok_def)

lemma mem_frame_refl [simp]: "mem_frame s s"
  by (simp add: mem_frame_same)

lemma mem_frame_trans:
  assumes "mem_frame s t" "mem_frame t u"
  shows "mem_frame s u"
proof (cases "ring3_ok s \<and> ready (ring3_info s)")
  case True
  let ?c = "code_physical (ring3_info s)" and ?k = "stack_physical (ring3_info s)"
  have "ring3_ok t" "ready (ring3_info t)" "code_physical (ring3_info t) = ?c" "stack_physical (ring3_info t) = ?k"
    "same_mapping (vm s) (vm t)" "same_outside_user ?c ?k (vm s) (vm t)"
    using assms(1) True by (simp_all add: mem_frame_def)
  then show ?thesis
    using assms(2) same_mapping_trans same_outside_user_trans unfolding mem_frame_def by metis
qed (use assms in \<open>auto simp: mem_frame_def\<close>)

lemma load_mem_frame:
  assumes "ring3_load_user_image img n s = (res, t)"
  shows "mem_frame s t"
proof (cases "ring3_ok s \<and> ready (ring3_info s)")
  case True
  let ?c = "code_physical (ring3_info s)" and ?k = "stack_physical (ring3_info s)"
  have i: "ring3_initialize s = (r3_last_status (ring3_info s), s)"
    using True by (intro ring3_initialize_again) (simp add: ring3_ok_def)
  have r: "ready (ring3_info t)" "code_physical (ring3_info t) = ?c" "stack_physical (ring3_info t) = ?k"
    using assms True by (auto simp: ring3_load_user_image_def i Let_def split: option.splits if_splits)
  obtain st l where res: "res = (st, l)" by fastforce
  show ?thesis using conjunct1 [OF True] assms [unfolded res]
  proof (cases rule: load_cases)
    case failed
    then show ?thesis using i r ring3_ok_same [of s] by (auto simp: mem_frame_def)
  next
    case (loaded data s')
    have "page_aligned ?c" using True user_frames_page(1) by (auto simp: ring3_ok_def)
    then show ?thesis
      using i r loaded load_bytes_byte [of ?c "unat n"] by (simp add: mem_frame_def same_outside_user_def)
  qed
qed (use assms load_ok [of s img n "fst res" "snd res" t] in \<open>auto simp: mem_frame_def\<close>)

lemma ring3_initialize_ready:
  assumes "kernel_only (vm s)" "\<not> r3_initialized (ring3_info s)" "4 \<le> free_frames (vm s)"
    and "ring3_initialize s = (status, t)"
  shows "status = KERNEL_OK"
proof -
  obtain st pages w where u: "user_pages (vm s) = ((st, pages), w)" by (metis prod.exhaust)
  obtain c k where "pages = Some (c, k)" using user_pages_room [OF assms(1,3) u] by auto
  with user_pages_spec [OF assms(1) u] assms(2,4) u show ?thesis
    by (auto simp: ring3_initialize_def ring3_prepare_pages_def Let_def)
qed

text \<open>The states in which a program of a permitted size loads.\<close>

definition can_load :: "'a ring3_state_scheme \<Rightarrow> bool" where
  "can_load s \<longleftrightarrow> ring3_ok s \<and>
     (if r3_initialized (ring3_info s) then ready (ring3_info s) \<and> r3_last_status (ring3_info s) = KERNEL_OK
      else kernel_only (vm s) \<and> 4 \<le> free_frames (vm s))"

lemma can_load_initialize:
  assumes "can_load s"
  obtains t where "ring3_initialize s = (KERNEL_OK, t)" "can_load t" "ready (ring3_info t)"
proof (cases "r3_initialized (ring3_info s)")
  case True
  then show thesis using that [of s] assms by (simp add: can_load_def ring3_initialize_again)
next
  case False
  then have k: "kernel_only (vm s)" "4 \<le> free_frames (vm s)" using assms by (simp_all add: can_load_def)
  obtain st t where i: "ring3_initialize s = (st, t)" by fastforce
  have st: "st = KERNEL_OK" using ring3_initialize_ready [OF k(1) False k(2) i] .
  have "r3_last_status (ring3_info t) = st"
    using i False by (auto simp: ring3_initialize_def Let_def split: prod.splits if_splits)
  then show thesis using that [of t] ring3_initialize_first [OF False k(1) i] i st by (simp add: can_load_def)
qed

lemma load_succeeds:
  assumes "can_load s" "0 < unat n" "unat n \<le> 4096"
  obtains loaded t where "ring3_load_user_image (Some data) n s = ((KERNEL_OK, loaded), t)" "can_load t"
proof -
  obtain s' where i: "ring3_initialize s = (KERNEL_OK, s')" "can_load s'" "ready (ring3_info s')"
    using can_load_initialize [OF assms(1)] .
  have "user_frames (code_physical (ring3_info s')) (stack_physical (ring3_info s')) (vm s')"
    using i by (simp add: ring3_ok_def can_load_def)
  note f = user_frames_page(3,4) [OF this]
  have n: "n \<noteq> 0" "(RING3_USER_PAGE_SIZE < n) = False" using assms(2,3) by (auto simp: word_less_nat_alt)
  obtain loaded t where r: "ring3_load_user_image (Some data) n s = ((KERNEL_OK, loaded), t)"
    "r3_last_status (ring3_info t) = KERNEL_OK"
    using i f n by (simp add: ring3_load_user_image_def Let_def del: upt_rec_numeral)
  have ok: "ring3_ok s" using assms(1) by (simp add: can_load_def)
  from ok r(1) have "ring3_ok t \<and> ready (ring3_info t)" by (cases rule: load_cases) simp_all
  then show thesis using that r by (auto simp: can_load_def ring3_ok_def)
qed

lemma small_can_load: "can_load small_ring3" "\<not> r3_initialized (ring3_info small_ring3)"
  using small_kernel_only by (simp_all add: can_load_def small_ring3_sel blank_ring3_info_def ring3_ok_def)

text \<open>
  C22: the first \<open>ring3_initialize\<close> on a machine without user mappings succeeds if four frames are
  free. It reports success exactly when the pages are ready, and user mode can then write the
  addresses of its code page and its stack page and no other; after a failure it can write
  nothing. The frames of the two pages were free before and hold no page table.
\<close>

theorem ring3_initialize_correct:
  assumes "kernel_only (vm s)" and "\<not> r3_initialized (ring3_info s)" and "ring3_initialize s = (status, t)"
  shows "(4 \<le> free_frames (vm s) \<longrightarrow> status = KERNEL_OK) \<and>
    (if status = KERNEL_OK
     then (\<forall>a. user_writable (vm t) a \<longleftrightarrow> user_page_virtual a) \<and>
       code_physical (ring3_info t) \<noteq> stack_physical (ring3_info t) \<and>
       {code_physical (ring3_info t), stack_physical (ring3_info t)} \<inter> pmm_allocated (pmm (vm s)) = {} \<and>
       {code_physical (ring3_info t), stack_physical (ring3_info t)} \<subseteq> pmm_allocated (pmm (vm t)) - vmm_tables (vm t)
     else \<forall>a. \<not> user_writable (vm t) a)"
proof -
  note i = ring3_initialize_first [OF assms(2,1,3)]
  obtain st pages w where u: "user_pages (vm s) = ((st, pages), w)" by (metis prod.exhaust)
  have fresh: "{code_physical (ring3_info t), stack_physical (ring3_info t)} \<inter> pmm_allocated (pmm (vm s)) = {}"
    if "status = KERNEL_OK"
    using user_pages_spec [OF assms(1) u] assms(2,3) u that
    by (auto simp: ring3_initialize_def ring3_prepare_pages_def Let_def split: option.splits)
  show ?thesis
  proof (cases "status = KERNEL_OK")
    case True
    then have "ready (ring3_info t)" "ring3_ok t" using i by simp_all
    moreover from this have "user_frames (code_physical (ring3_info t)) (stack_physical (ring3_info t)) (vm t)"
      by (simp add: ring3_ok_def)
    ultimately show ?thesis
      using ready_writable [of t] fresh [OF True] True unfolding user_frames_def by auto
  next
    case False
    then have "kernel_only (vm t)" using i by (simp add: ring3_ok_def)
    then have "\<not> user_writable (vm t) a" for a
      by (auto simp: user_writable_def kernel_only_def user_mapped_def split: option.splits)
    then show ?thesis using False ring3_initialize_ready [OF assms(1,2) _ assms(3)] by auto
  qed
qed

theorem ring3_initialize_correct_witness:
  "fst (ring3_initialize small_ring3) = KERNEL_OK \<and>
   user_writable (vm (snd (ring3_initialize small_ring3))) 0x10000ABC \<and>
   \<not> user_writable (vm (snd (ring3_initialize small_ring3))) 0x10002000"
proof -
  have k: "kernel_only (vm small_ring3)" "\<not> r3_initialized (ring3_info small_ring3)" "4 \<le> free_frames (vm small_ring3)"
    using small_kernel_only by (simp_all add: small_ring3_sel blank_ring3_info_def)
  have p: "user_page_virtual 0x10000ABC" "\<not> user_page_virtual 0x10002000"
    by (simp_all add: user_page_virtual_def page_align_down_def)
  note c = ring3_initialize_correct [OF k(1,2) surjective_pairing]
  have s: "fst (ring3_initialize small_ring3) = KERNEL_OK" using c k(3) by blast
  with c p show ?thesis by simp
qed

text \<open>
  A program that was loaded successfully is what user mode sees: reading the code page through
  the page tables gives the bytes of the image and then zeros up to the end of the page, and no
  other byte of physical memory differs from what \<open>ring3_initialize\<close> left.
\<close>

theorem ring3_load_user_image_correct:
  assumes "ring3_ok s" and "ring3_load_user_image (Some data) n s = ((KERNEL_OK, loaded), t)"
  shows "0 < unat n \<and> unat n \<le> 4096 \<and>
    (\<forall>i < 4096. read_virtual (vm t) (RING3_USER_CODE_VIRTUAL + of_nat i) =
       Some (if i < unat n then data ! i else 0)) \<and>
    (\<forall>a. page_align_down a \<noteq> code_physical (ring3_info t) \<longrightarrow>
       load8 (mem (vm t)) a = load8 (mem (vm (snd (ring3_initialize s)))) a) \<and>
    loaded = Some \<lparr>li_entry = RING3_USER_CODE_VIRTUAL, li_user_stack_top = 0x10001FF0, li_image_size = n\<rparr>"
  using load_user_image_spec [OF assms] .

theorem ring3_load_user_image_correct_witness:
  "\<exists>loaded t. ring3_load_user_image (Some [0xCD, 0x80]) 2 small_ring3 = ((KERNEL_OK, loaded), t) \<and>
     read_virtual (vm t) 0x10000001 = Some 0x80 \<and> read_virtual (vm t) 0x10000002 = Some 0"
proof -
  have "0 < unat (2 :: u32)" "unat (2 :: u32) \<le> 4096" by simp_all
  from load_succeeds [OF small_can_load(1) this]
  obtain loaded t where r: "ring3_load_user_image (Some [0xCD, 0x80]) 2 small_ring3 = ((KERNEL_OK, loaded), t)" .
  have "ring3_ok small_ring3" using small_can_load(1) by (simp add: can_load_def)
  note c = ring3_load_user_image_correct [OF this r]
  then have b: "read_virtual (vm t) (RING3_USER_CODE_VIRTUAL + of_nat i) =
      Some (if i < unat (2 :: u32) then [0xCD, 0x80] ! i else 0)" if "i < 4096" for i
    using that by blast
  show ?thesis using r b [of 1] b [of 2] by auto
qed

text \<open>
  C30: one load that fails for its size ends user mode for good: the error stays in \<open>ring3_info\<close>,
  \<open>ring3_initialize\<close> returns it from then on, and every later load, of any image, fails with it.
\<close>

theorem ring3_failed_load_is_final:
  assumes "ring3_ok s" and "ready (ring3_info s)" and "r3_last_status (ring3_info s) = KERNEL_OK"
    and "n = 0 \<or> n > RING3_USER_PAGE_SIZE"
    and "ring3_load_user_image (Some data) n s = (res, t)"
  shows "res = (KERNEL_ERROR_UNSUPPORTED, None) \<and>
    ring3_load_user_image (Some data') n' t = ((KERNEL_ERROR_UNSUPPORTED, None), t)"
proof -
  have s: "r3_initialized (ring3_info s)" "code_physical (ring3_info s) \<noteq> 0" "stack_physical (ring3_info s) \<noteq> 0"
    using assms(1,2) user_frames_page(3,4) [of "code_physical (ring3_info s)" "stack_physical (ring3_info s)" "vm s"]
    by (simp_all add: ring3_ok_def)
  have r: "res = (KERNEL_ERROR_UNSUPPORTED, None)"
    "t = ring3_info_update (\<lambda>r. r\<lparr>r3_failed_loads := r3_failed_loads r + 1, r3_last_status := KERNEL_ERROR_UNSUPPORTED\<rparr>)
       (ring3_info_update (r3_load_attempts_update (\<lambda>n. n + 1)) s)"
    using assms(2-5) s by (auto simp: ring3_load_user_image_def ring3_initialize_again Let_def)
  then have "ring3_initialize t = (KERNEL_ERROR_UNSUPPORTED, t)"
    using s(1) by (simp add: ring3_initialize_again)
  then show ?thesis using r(1) by (simp add: ring3_load_user_image_def)
qed

theorem ring3_failed_load_is_final_witness:
  "\<exists>(s :: ring3_state) t res. ring3_load_user_image (Some []) 0 s = (res, t) \<and>
     ring3_load_user_image (Some [0xCD, 0x80]) 2 t = ((KERNEL_ERROR_UNSUPPORTED, None), t)"
proof -
  obtain s where i: "ring3_initialize small_ring3 = (KERNEL_OK, s)" "can_load s" "ready (ring3_info s)"
    using can_load_initialize [OF small_can_load(1)] .
  then have "ring3_ok s" "r3_last_status (ring3_info s) = KERNEL_OK"
    by (auto simp: can_load_def ring3_ok_def split: if_splits)
  moreover obtain res t where r: "ring3_load_user_image (Some []) 0 s = (res, t)" by fastforce
  ultimately have "ring3_load_user_image (Some [0xCD, 0x80]) 2 t = ((KERNEL_ERROR_UNSUPPORTED, None), t)"
    using ring3_failed_load_is_final [OF _ _ _ disjI1 [OF refl] r] i(3) by simp
  with r show ?thesis by blast
qed

end
