(* ===== verification/Loaders.thy ===== *)
theory Loaders
  imports Ring3
begin

text \<open>
  \<^verbatim>\<open>loader/flat_binary.c\<close>, \<^verbatim>\<open>loader/elf32.c\<close> and \<^verbatim>\<open>core/user_image.c\<close>: loading a user program from a
  file of the tree into the code page. The state extends that of user mode with the statistics
  of the three files. A header of an ELF file is read by casting the pointer to the file's
  bytes; the model reads the fields at their offsets, least significant byte first. That these
  reads stay inside the file is part of what is proved.
\<close>

section \<open>State\<close>

datatype user_image_kind = USER_IMAGE_KIND_EMBEDDED | USER_IMAGE_KIND_FLAT_BINARY | USER_IMAGE_KIND_ELF

record user_image =
  ui_path :: string
  ui_name :: string
  ui_kind :: user_image_kind
  ui_entry :: u32
  ui_user_stack_top :: u32
  ui_image_size :: u32
  ui_flags :: u32

record user_image_info =
  um_initialized :: bool
  registered_count :: u32
  resolve_attempts :: u32
  resolve_failures :: u32
  um_last_status :: kernel_status
  um_last_path :: string

record flat_binary_loader_info =
  fb_initialized :: bool
  fb_load_attempts :: u32
  fb_successful_loads :: u32
  fb_failed_loads :: u32
  fb_last_image_size :: u32
  fb_last_entry :: u32
  fb_last_stack_top :: u32
  fb_last_status :: kernel_status
  fb_last_path :: string

record elf32_header =
  ident :: "u8 list"
  eh_type :: u16
  machine :: u16
  eh_version :: u32
  eh_entry :: u32
  program_header_offset :: u32
  section_header_offset :: u32
  eh_flags :: u32
  header_size :: u16
  program_header_entry_size :: u16
  program_header_count :: u16
  section_header_entry_size :: u16
  section_header_count :: u16
  section_name_string_index :: u16

record elf32_program_header =
  ph_type :: u32
  ph_offset :: u32
  virtual_address :: u32
  physical_address :: u32
  file_size :: u32
  memory_size :: u32
  ph_flags :: u32
  ph_alignment :: u32

record elf32_loader_info =
  ei_initialized :: bool
  validation_attempts :: u32
  successful_validations :: u32
  failed_validations :: u32
  ei_load_attempts :: u32
  ei_successful_loads :: u32
  ei_failed_loads :: u32
  last_entry :: u32
  last_program_header_count :: u32
  last_file_size :: u32
  last_load_segment_offset :: u32
  last_load_segment_vaddr :: u32
  last_load_segment_file_size :: u32
  last_load_segment_memory_size :: u32
  ei_last_status :: kernel_status
  ei_last_path :: string

record loader_state = ring3_state +
  flat_binary_info :: flat_binary_loader_info
  elf32_info :: elf32_loader_info
  user_image_info :: user_image_info

abbreviation (input) USER_IMAGE_PATH_MAX :: nat where "USER_IMAGE_PATH_MAX \<equiv> 64"

section \<open>Flat programs\<close>

definition flat_binary_loader_initialize :: "'a loader_state_scheme \<Rightarrow> 'a loader_state_scheme" where
  "flat_binary_loader_initialize s = s\<lparr>flat_binary_info :=
     \<lparr>fb_initialized = True, fb_load_attempts = 0, fb_successful_loads = 0, fb_failed_loads = 0,
      fb_last_image_size = 0, fb_last_entry = 0, fb_last_stack_top = 0, fb_last_status = KERNEL_OK,
      fb_last_path = []\<rparr>\<rparr>"

text \<open>The loop of the two base name functions; \<open>rest\<close> is the path from \<^verbatim>\<open>i\<close> on.\<close>

fun basename_loop :: "string \<Rightarrow> string \<Rightarrow> string" where
  "basename_loop found [] = found"
| "basename_loop found (c # rest) = basename_loop (if c = SLASH \<and> rest \<noteq> [] then rest else found) rest"

definition flat_binary_basename :: "string option \<Rightarrow> string" where
  "flat_binary_basename path = (case path of None \<Rightarrow> [] | Some path \<Rightarrow> basename_loop path path)"

definition flat_binary_load_from_node ::
  "vfs_node option \<Rightarrow> 'a loader_state_scheme \<Rightarrow> (kernel_status \<times> user_image option) \<times> 'a loader_state_scheme" where
  "flat_binary_load_from_node node s =
     (if \<not> fb_initialized (flat_binary_info s) then ((KERNEL_ERROR_NOT_INITIALIZED, None), s)
      else
      let fail = (\<lambda>status s. ((status, None),
            flat_binary_info_update (\<lambda>b. b\<lparr>fb_failed_loads := fb_failed_loads b + 1, fb_last_status := status\<rparr>) s))
      in case node of
        None \<Rightarrow> fail KERNEL_ERROR_INVALID_ARGUMENT s
      | Some node \<Rightarrow>
        let s = flat_binary_info_update (\<lambda>b. b\<lparr>fb_load_attempts := fb_load_attempts b + 1,
              fb_last_path := bounded_copy USER_IMAGE_PATH_MAX (vn_path node)\<rparr>) s
        in if vn_type node \<noteq> VFS_NODE_FILE \<or> vn_data node = None \<or> vn_size node = 0
           then fail KERNEL_ERROR_INVALID_STATE s
           else
             let ((status, loaded), s) = ring3_load_user_image (vn_data node) (vn_size node) s;
                 s = flat_binary_info_update (fb_last_status_update (\<lambda>_. status)) s
             in if status \<noteq> KERNEL_OK
                then ((status, None), flat_binary_info_update (fb_failed_loads_update (\<lambda>n. n + 1)) s)
                else
                  let result = \<lparr>ui_path = vn_path node, ui_name = flat_binary_basename (Some (vn_path node)),
                        ui_kind = USER_IMAGE_KIND_FLAT_BINARY, ui_entry = li_entry (the loaded),
                        ui_user_stack_top = li_user_stack_top (the loaded),
                        ui_image_size = li_image_size (the loaded), ui_flags = 0\<rparr>;
                      s = flat_binary_info_update (\<lambda>b. b\<lparr>fb_successful_loads := fb_successful_loads b + 1,
                        fb_last_image_size := li_image_size (the loaded), fb_last_entry := li_entry (the loaded),
                        fb_last_stack_top := li_user_stack_top (the loaded)\<rparr>) s
                  in ((KERNEL_OK, Some result), s))"

section \<open>ELF programs\<close>

definition u16_at :: "u8 list \<Rightarrow> nat \<Rightarrow> u16" where
  "u16_at bs i = ucast (bs ! i) OR push_bit 8 (ucast (bs ! (i + 1)))"

definition u32_at :: "u8 list \<Rightarrow> nat \<Rightarrow> u32" where
  "u32_at bs i = ucast (bs ! i) OR push_bit 8 (ucast (bs ! (i + 1))) OR
     push_bit 16 (ucast (bs ! (i + 2))) OR push_bit 24 (ucast (bs ! (i + 3)))"

definition header_at :: "u8 list \<Rightarrow> elf32_header" where
  "header_at bs = \<lparr>ident = take 16 bs, eh_type = u16_at bs 16, machine = u16_at bs 18,
     eh_version = u32_at bs 20, eh_entry = u32_at bs 24, program_header_offset = u32_at bs 28,
     section_header_offset = u32_at bs 32, eh_flags = u32_at bs 36, header_size = u16_at bs 40,
     program_header_entry_size = u16_at bs 42, program_header_count = u16_at bs 44,
     section_header_entry_size = u16_at bs 46, section_header_count = u16_at bs 48,
     section_name_string_index = u16_at bs 50\<rparr>"

definition program_header_at :: "u8 list \<Rightarrow> nat \<Rightarrow> elf32_program_header" where
  "program_header_at bs i = \<lparr>ph_type = u32_at bs i, ph_offset = u32_at bs (i + 4),
     virtual_address = u32_at bs (i + 8), physical_address = u32_at bs (i + 12),
     file_size = u32_at bs (i + 16), memory_size = u32_at bs (i + 20), ph_flags = u32_at bs (i + 24),
     ph_alignment = u32_at bs (i + 28)\<rparr>"

abbreviation (input) ELF32_HEADER_SIZE :: nat where "ELF32_HEADER_SIZE \<equiv> 52"
abbreviation (input) ELF32_PROGRAM_HEADER_SIZE :: nat where "ELF32_PROGRAM_HEADER_SIZE \<equiv> 32"
abbreviation (input) ELF32_PROGRAM_TYPE_LOAD :: u32 where "ELF32_PROGRAM_TYPE_LOAD \<equiv> 1"

definition elf32_initialize :: "'a loader_state_scheme \<Rightarrow> 'a loader_state_scheme" where
  "elf32_initialize s = s\<lparr>elf32_info :=
     \<lparr>ei_initialized = True, validation_attempts = 0, successful_validations = 0, failed_validations = 0,
      ei_load_attempts = 0, ei_successful_loads = 0, ei_failed_loads = 0, last_entry = 0,
      last_program_header_count = 0, last_file_size = 0, last_load_segment_offset = 0,
      last_load_segment_vaddr = 0, last_load_segment_file_size = 0, last_load_segment_memory_size = 0,
      ei_last_status = KERNEL_OK, ei_last_path = []\<rparr>\<rparr>"

definition elf32_fail :: "kernel_status \<Rightarrow> 'a loader_state_scheme \<Rightarrow> 'a loader_state_scheme" where
  "elf32_fail status = elf32_info_update
     (\<lambda>e. e\<lparr>failed_validations := failed_validations e + 1, ei_last_status := status\<rparr>)"

definition elf32_load_fail :: "kernel_status \<Rightarrow> 'a loader_state_scheme \<Rightarrow> 'a loader_state_scheme" where
  "elf32_load_fail status = elf32_info_update
     (\<lambda>e. e\<lparr>ei_failed_loads := ei_failed_loads e + 1, ei_last_status := status\<rparr>)"

definition elf32_basename :: "string option \<Rightarrow> string" where
  "elf32_basename path = (case path of None \<Rightarrow> [] | Some path \<Rightarrow> basename_loop path path)"

text \<open>The checks of a header in the order of the code, for a file of \<open>node_size\<close> bytes.\<close>

definition check_header :: "elf32_header \<Rightarrow> u32 \<Rightarrow> kernel_status" where
  "check_header header node_size =
     (if ident header ! 0 \<noteq> 0x7F \<or> ident header ! 1 \<noteq> 0x45 \<or> ident header ! 2 \<noteq> 0x4C \<or> ident header ! 3 \<noteq> 0x46
      then KERNEL_ERROR_INVALID_STATE
      else if ident header ! 4 \<noteq> 1 then KERNEL_ERROR_UNSUPPORTED
      else if ident header ! 5 \<noteq> 1 then KERNEL_ERROR_UNSUPPORTED
      else if ident header ! 6 \<noteq> 1 then KERNEL_ERROR_UNSUPPORTED
      else if eh_type header \<noteq> 2 then KERNEL_ERROR_UNSUPPORTED
      else if machine header \<noteq> 3 then KERNEL_ERROR_UNSUPPORTED
      else if eh_version header \<noteq> 1 then KERNEL_ERROR_UNSUPPORTED
      else if header_size header \<noteq> of_nat ELF32_HEADER_SIZE then KERNEL_ERROR_INVALID_STATE
      else if program_header_count header > 0
      then
        if program_header_entry_size header \<noteq> of_nat ELF32_PROGRAM_HEADER_SIZE then KERNEL_ERROR_INVALID_STATE
        else
          let program_header_bytes =
                ucast (program_header_count header) * ucast (program_header_entry_size header) :: u32
          in if program_header_offset header \<ge> node_size then KERNEL_ERROR_INVALID_STATE
             else if program_header_bytes > node_size - program_header_offset header then KERNEL_ERROR_INVALID_STATE
             else KERNEL_OK
      else KERNEL_OK)"

definition elf32_validate_from_node ::
  "vfs_node option \<Rightarrow> 'a loader_state_scheme \<Rightarrow> (kernel_status \<times> elf32_header option) \<times> 'a loader_state_scheme" where
  "elf32_validate_from_node node s =
     (case node of
        None \<Rightarrow> ((KERNEL_ERROR_INVALID_ARGUMENT, None), s)
      | Some node \<Rightarrow>
        let s = elf32_info_update (\<lambda>e. e\<lparr>validation_attempts := validation_attempts e + 1,
              last_file_size := vn_size node, last_entry := 0, last_program_header_count := 0,
              ei_last_path := bounded_copy 128 (vn_path node)\<rparr>) s
        in if vn_type node \<noteq> VFS_NODE_FILE
           then ((KERNEL_ERROR_INVALID_ARGUMENT, None), elf32_fail KERNEL_ERROR_INVALID_ARGUMENT s)
           else
             (case vn_data node of
                None \<Rightarrow> ((KERNEL_ERROR_INVALID_STATE, None), elf32_fail KERNEL_ERROR_INVALID_STATE s)
              | Some data \<Rightarrow>
                if vn_size node < of_nat ELF32_HEADER_SIZE
                then ((KERNEL_ERROR_INVALID_STATE, None), elf32_fail KERNEL_ERROR_INVALID_STATE s)
                else
                  let header = header_at data; status = check_header header (vn_size node)
                  in if status \<noteq> KERNEL_OK then ((status, None), elf32_fail status s)
                     else ((KERNEL_OK, Some header), elf32_info_update (\<lambda>e. e\<lparr>
                       successful_validations := successful_validations e + 1, last_entry := eh_entry header,
                       last_program_header_count := ucast (program_header_count header),
                       ei_last_status := KERNEL_OK\<rparr>) s)))"

text \<open>
  The loop over the program headers, from the indices that are left and the segment selected so
  far; \<open>Inl\<close> is the error return for a second loadable segment.
\<close>

fun select_segment ::
  "u8 list \<Rightarrow> elf32_header \<Rightarrow> nat list \<Rightarrow> elf32_program_header option \<Rightarrow>
     kernel_status + elf32_program_header option" where
  "select_segment data header [] selected = Inr selected"
| "select_segment data header (i # is) selected =
     (let program_header = program_header_at data
            (unat (program_header_offset header) + i * unat (program_header_entry_size header))
      in if ph_type program_header \<noteq> ELF32_PROGRAM_TYPE_LOAD then select_segment data header is selected
         else if selected \<noteq> None then Inl KERNEL_ERROR_UNSUPPORTED
         else select_segment data header is (Some program_header))"

definition check_segment :: "elf32_header \<Rightarrow> elf32_program_header \<Rightarrow> u32 \<Rightarrow> kernel_status" where
  "check_segment header segment node_size =
     (if virtual_address segment \<noteq> RING3_USER_CODE_VIRTUAL then KERNEL_ERROR_UNSUPPORTED
      else if eh_entry header < virtual_address segment then KERNEL_ERROR_INVALID_STATE
      else if eh_entry header \<ge> virtual_address segment + memory_size segment then KERNEL_ERROR_INVALID_STATE
      else if file_size segment = 0 then KERNEL_ERROR_INVALID_STATE
      else if file_size segment > memory_size segment then KERNEL_ERROR_INVALID_STATE
      else if memory_size segment > RING3_USER_PAGE_SIZE then KERNEL_ERROR_UNSUPPORTED
      else if ph_offset segment \<ge> node_size then KERNEL_ERROR_INVALID_STATE
      else if file_size segment > node_size - ph_offset segment then KERNEL_ERROR_INVALID_STATE
      else KERNEL_OK)"

definition elf32_load_from_node ::
  "vfs_node option \<Rightarrow> 'a loader_state_scheme \<Rightarrow> (kernel_status \<times> user_image option) \<times> 'a loader_state_scheme" where
  "elf32_load_from_node node s =
     (case node of
        None \<Rightarrow> ((KERNEL_ERROR_INVALID_ARGUMENT, None), s)
      | Some node \<Rightarrow>
        if \<not> ei_initialized (elf32_info s) then ((KERNEL_ERROR_NOT_INITIALIZED, None), s)
        else
        let s = elf32_info_update (\<lambda>e. e\<lparr>ei_load_attempts := ei_load_attempts e + 1,
              ei_last_path := bounded_copy 128 (vn_path node)\<rparr>) s;
            ((status, checked), s) = elf32_validate_from_node (Some node) s;
            fail = (\<lambda>status s. ((status, None), elf32_load_fail status s));
            header = the checked; data = the (vn_data node)
        in if status \<noteq> KERNEL_OK then fail status s
        else if program_header_count header = 0 then fail KERNEL_ERROR_INVALID_STATE s
        else
          (case select_segment data header [0..<unat (program_header_count header)] None of
             Inl status \<Rightarrow> fail status s
           | Inr None \<Rightarrow> fail KERNEL_ERROR_INVALID_STATE s
           | Inr (Some segment) \<Rightarrow>
             let status = check_segment header segment (vn_size node)
             in if status \<noteq> KERNEL_OK then fail status s
             else
             let ((status, loaded), s) =
                   ring3_load_user_image (Some (drop (unat (ph_offset segment)) data)) (file_size segment) s
             in if status \<noteq> KERNEL_OK then fail status s
             else
             let result = \<lparr>ui_path = vn_path node, ui_name = elf32_basename (Some (vn_path node)),
                   ui_kind = USER_IMAGE_KIND_ELF, ui_entry = eh_entry header,
                   ui_user_stack_top = li_user_stack_top (the loaded),
                   ui_image_size = memory_size segment, ui_flags = 0\<rparr>
             in ((KERNEL_OK, Some result), elf32_info_update (\<lambda>e. e\<lparr>
                   ei_successful_loads := ei_successful_loads e + 1, last_entry := eh_entry header,
                   last_program_header_count := ucast (program_header_count header),
                   last_file_size := vn_size node, last_load_segment_offset := ph_offset segment,
                   last_load_segment_vaddr := virtual_address segment,
                   last_load_segment_file_size := file_size segment,
                   last_load_segment_memory_size := memory_size segment, ei_last_status := KERNEL_OK\<rparr>) s)))"

definition elf32_program_type_name :: "u32 \<Rightarrow> string" where
  "elf32_program_type_name type = (if type = 0 then ''null'' else if type = 1 then ''load'' else ''unknown'')"

section \<open>Registered programs\<close>

definition registered_images :: "(string \<times> string \<times> user_image_kind) list" where
  "registered_images =
     [(''/sbin/init'', ''init'', USER_IMAGE_KIND_FLAT_BINARY),
      (''/bin/hello'', ''hello'', USER_IMAGE_KIND_FLAT_BINARY),
      (''/bin/hello-elf'', ''hello-elf'', USER_IMAGE_KIND_ELF),
      (''/bin/syscheck'', ''syscheck'', USER_IMAGE_KIND_FLAT_BINARY),
      (''/bin/sysbadptr'', ''sysbadptr'', USER_IMAGE_KIND_FLAT_BINARY),
      (''/bin/pid'', ''pid'', USER_IMAGE_KIND_FLAT_BINARY),
      (''/bin/ticks'', ''ticks'', USER_IMAGE_KIND_FLAT_BINARY),
      (''/bin/about'', ''about'', USER_IMAGE_KIND_FLAT_BINARY),
      (''/bin/os-release'', ''os-release'', USER_IMAGE_KIND_FLAT_BINARY),
      (''/bin/cat'', ''cat'', USER_IMAGE_KIND_FLAT_BINARY),
      (''/bin/clear'', ''clear'', USER_IMAGE_KIND_FLAT_BINARY),
      (''/bin/help'', ''help'', USER_IMAGE_KIND_FLAT_BINARY),
      (''/bin/uptime'', ''uptime'', USER_IMAGE_KIND_FLAT_BINARY),
      (''/bin/args'', ''args'', USER_IMAGE_KIND_FLAT_BINARY),
      (''/bin/echo'', ''echo'', USER_IMAGE_KIND_FLAT_BINARY),
      (''/bin/sh'', ''sh'', USER_IMAGE_KIND_FLAT_BINARY)]"

definition user_image_count :: nat where
  "user_image_count = length registered_images"

definition user_image_initialize :: "'a loader_state_scheme \<Rightarrow> 'a loader_state_scheme" where
  "user_image_initialize s = s\<lparr>user_image_info :=
     \<lparr>um_initialized = True, registered_count = of_nat (length registered_images), resolve_attempts = 0,
      resolve_failures = 0, um_last_status = KERNEL_OK, um_last_path = []\<rparr>\<rparr>"

definition user_image_resolve_registered_node ::
  "string \<times> string \<times> user_image_kind \<Rightarrow> 'a loader_state_scheme \<Rightarrow>
     (kernel_status \<times> vfs_node option) \<times> 'a loader_state_scheme" where
  "user_image_resolve_registered_node registration s =
     (let ((status, node), s) = vfs_lookup (Some (fst registration)) s
      in if status \<noteq> KERNEL_OK then ((status, None), s)
         else if node = None \<or> vn_type (the node) \<noteq> VFS_NODE_FILE then ((KERNEL_ERROR_INVALID_STATE, None), s)
         else ((KERNEL_OK, node), s))"

definition user_image_load_registered ::
  "string \<times> string \<times> user_image_kind \<Rightarrow> 'a loader_state_scheme \<Rightarrow>
     (kernel_status \<times> user_image option) \<times> 'a loader_state_scheme" where
  "user_image_load_registered registration s =
     (let ((status, node), s) = user_image_resolve_registered_node registration s
      in if status \<noteq> KERNEL_OK then ((status, None), s)
         else case snd (snd registration) of
             USER_IMAGE_KIND_FLAT_BINARY \<Rightarrow> flat_binary_load_from_node node s
           | USER_IMAGE_KIND_ELF \<Rightarrow> elf32_load_from_node node s
           | USER_IMAGE_KIND_EMBEDDED \<Rightarrow> ((KERNEL_ERROR_UNSUPPORTED, None), s))"

definition user_image_get_at ::
  "nat \<Rightarrow> 'a loader_state_scheme \<Rightarrow> (kernel_status \<times> user_image option) \<times> 'a loader_state_scheme" where
  "user_image_get_at index s =
     (if index \<ge> user_image_count then ((KERNEL_ERROR_NOT_FOUND, None), s)
      else
        let registration = registered_images ! index;
            ((status, node), s) = user_image_resolve_registered_node registration s;
            s = user_image_info_update (um_last_status_update (\<lambda>_. status)) s
        in if status \<noteq> KERNEL_OK then ((status, None), s)
           else ((KERNEL_OK, Some \<lparr>ui_path = fst registration, ui_name = fst (snd registration),
                  ui_kind = snd (snd registration), ui_entry = 0, ui_user_stack_top = 0,
                  ui_image_size = vn_size (the node), ui_flags = 0\<rparr>), s))"

definition user_image_lookup ::
  "string option \<Rightarrow> 'a loader_state_scheme \<Rightarrow> (kernel_status \<times> user_image option) \<times> 'a loader_state_scheme" where
  "user_image_lookup path s =
     (case path of
        None \<Rightarrow> ((KERNEL_ERROR_INVALID_ARGUMENT, None), s)
      | Some path \<Rightarrow>
        let s = user_image_info_update (\<lambda>u. u\<lparr>resolve_attempts := resolve_attempts u + 1,
              um_last_path := bounded_copy USER_IMAGE_PATH_MAX path\<rparr>) s;
            fail = (\<lambda>status s. ((status, None),
              user_image_info_update (\<lambda>u. u\<lparr>resolve_failures := resolve_failures u + 1, um_last_status := status\<rparr>) s))
        in case find (\<lambda>r. path = fst r) registered_images of
             None \<Rightarrow> fail KERNEL_ERROR_NOT_FOUND s
           | Some registration \<Rightarrow>
             let ((status, node), s) = user_image_resolve_registered_node registration s
             in if status \<noteq> KERNEL_OK then fail status s
                else ((KERNEL_OK, Some \<lparr>ui_path = fst registration, ui_name = fst (snd registration),
                       ui_kind = snd (snd registration), ui_entry = RING3_USER_CODE_VIRTUAL,
                       ui_user_stack_top = RING3_USER_STACK_VIRTUAL, ui_image_size = vn_size (the node),
                       ui_flags = 0\<rparr>),
                      user_image_info_update (um_last_status_update (\<lambda>_. KERNEL_OK)) s))"

definition user_image_resolve ::
  "string option \<Rightarrow> 'a loader_state_scheme \<Rightarrow> (kernel_status \<times> user_image option) \<times> 'a loader_state_scheme" where
  "user_image_resolve path s =
     (case path of
        None \<Rightarrow> ((KERNEL_ERROR_INVALID_ARGUMENT, None), s)
      | Some path \<Rightarrow>
        let s = user_image_info_update (\<lambda>u. u\<lparr>resolve_attempts := resolve_attempts u + 1,
              um_last_path := bounded_copy USER_IMAGE_PATH_MAX path\<rparr>) s
        in case find (\<lambda>r. path = fst r) registered_images of
             None \<Rightarrow> ((KERNEL_ERROR_NOT_FOUND, None),
               user_image_info_update (\<lambda>u. u\<lparr>resolve_failures := resolve_failures u + 1,
                 um_last_status := KERNEL_ERROR_NOT_FOUND\<rparr>) s)
           | Some registration \<Rightarrow>
             let ((status, result), s) = user_image_load_registered registration s;
                 s = user_image_info_update (um_last_status_update (\<lambda>_. status)) s;
                 s = (if status \<noteq> KERNEL_OK
                      then user_image_info_update (resolve_failures_update (\<lambda>n. n + 1)) s else s)
             in ((status, result), s))"

definition user_image_kind_name :: "user_image_kind \<Rightarrow> string" where
  "user_image_kind_name kind = (case kind of USER_IMAGE_KIND_EMBEDDED \<Rightarrow> ''embedded''
     | USER_IMAGE_KIND_FLAT_BINARY \<Rightarrow> ''flat'' | USER_IMAGE_KIND_ELF \<Rightarrow> ''elf'')"

section \<open>What the loaders leave alone\<close>

text \<open>The tree and the state of the components above the loaders.\<close>

definition loader_frame :: "'a loader_state_scheme \<Rightarrow> 'a loader_state_scheme \<Rightarrow> bool" where
  "loader_frame s t \<longleftrightarrow> mem_frame s t \<and> vfs_root t = vfs_root s \<and> gdt t = gdt s \<and>
     vi_initialized (vfs_info t) = vi_initialized (vfs_info s) \<and> loader_state.more t = loader_state.more s"

lemma loader_frame_refl [simp]: "loader_frame s s"
  by (simp add: loader_frame_def)

lemma loader_frame_trans: "loader_frame s t \<Longrightarrow> loader_frame t u \<Longrightarrow> loader_frame s u"
  by (auto simp: loader_frame_def intro: mem_frame_trans)

lemma loader_frame_info [simp]:
  "loader_frame s (flat_binary_info_update f t) = loader_frame s t"
  "loader_frame s (elf32_info_update g t) = loader_frame s t"
  "loader_frame s (user_image_info_update h t) = loader_frame s t"
  "loader_frame (flat_binary_info_update f s) t = loader_frame s t"
  "loader_frame (elf32_info_update g s) t = loader_frame s t"
  "loader_frame (user_image_info_update h s) t = loader_frame s t"
  by (simp_all add: loader_frame_def mem_frame_def ring3_ok_def)

lemma load_loader_frame: "ring3_load_user_image img n s = (res, t) \<Longrightarrow> loader_frame s t"
  using load_frame [of img n s res t] load_mem_frame [of img n s res t]
  by (cases s; cases t) (simp add: loader_frame_def)

lemma vfs_lookup_loader_frame: "vfs_lookup path s = (res, t) \<Longrightarrow> loader_frame s t"
  using vfs_lookup_frame [of path s] mem_frame_same [of t s]
  by (cases s; cases t) (auto simp: loader_frame_def)

lemma flat_binary_frame: "flat_binary_load_from_node node s = (res, t) \<Longrightarrow> loader_frame s t"
  unfolding flat_binary_load_from_node_def Let_def
  by (auto dest: load_loader_frame split: option.splits if_splits prod.splits)

lemma elf32_fail_frame [simp]:
  "loader_frame s (elf32_fail e t) = loader_frame s t" "loader_frame s (elf32_load_fail e t) = loader_frame s t"
  by (simp_all add: elf32_fail_def elf32_load_fail_def)

lemma elf32_validate_frame: "elf32_validate_from_node node s = (res, t) \<Longrightarrow> loader_frame s t"
  unfolding elf32_validate_from_node_def Let_def by (auto split: option.splits if_splits)

lemma elf32_load_frame: "elf32_load_from_node node s = (res, t) \<Longrightarrow> loader_frame s t"
  unfolding elf32_load_from_node_def Let_def
  by (auto dest!: load_loader_frame elf32_validate_frame intro: loader_frame_trans
      split: option.splits if_splits prod.splits sum.splits)

lemma resolve_node_frame: "user_image_resolve_registered_node r s = (res, t) \<Longrightarrow> loader_frame s t"
  unfolding user_image_resolve_registered_node_def Let_def
  by (auto dest!: vfs_lookup_loader_frame split: if_splits prod.splits)

lemma load_registered_frame: "user_image_load_registered r s = (res, t) \<Longrightarrow> loader_frame s t"
  unfolding user_image_load_registered_def Let_def
  by (auto dest!: resolve_node_frame flat_binary_frame elf32_load_frame intro: loader_frame_trans
      split: if_splits prod.splits user_image_kind.splits)

lemma user_image_lookup_frame: "user_image_lookup path s = (res, t) \<Longrightarrow> loader_frame s t"
  unfolding user_image_lookup_def Let_def
  by (auto dest!: resolve_node_frame split: option.splits if_splits prod.splits)

lemma user_image_resolve_frame: "user_image_resolve path s = (res, t) \<Longrightarrow> loader_frame s t"
  unfolding user_image_resolve_def Let_def
  by (auto dest!: load_registered_frame split: option.splits if_splits prod.splits)

section \<open>Accepted files\<close>

lemma check_header_bounds:
  assumes "check_header h sz = KERNEL_OK" "program_header_count h \<noteq> 0"
  shows "unat (program_header_offset h) + unat (program_header_count h) * 32 \<le> unat sz"
    "program_header_entry_size h = 32"
proof -
  have "unat (program_header_count h) < 2 ^ 16" using unat_less_exp [of "program_header_count h"] by simp
  then have n: "unat (ucast (program_header_count h) * 32 :: u32) = unat (program_header_count h) * 32"
    by (simp add: unat_word_ariths(2) unsigned_ucast_eq take_bit_nat_eq_self)
  have c: "program_header_entry_size h = 32 \<and> \<not> program_header_offset h \<ge> sz \<and>
      \<not> (ucast (program_header_count h) * ucast (program_header_entry_size h) :: u32) > sz - program_header_offset h"
    using assms by (auto simp: check_header_def Let_def word_gt_0 split: if_splits)
  then show "program_header_entry_size h = 32" by blast
  have "(ucast (32 :: u16) :: u32) = 32" by simp
  then have "\<not> program_header_offset h \<ge> sz" "\<not> (ucast (program_header_count h) * 32 :: u32) > sz - program_header_offset h"
    using c by metis+
  then show "unat (program_header_offset h) + unat (program_header_count h) * 32 \<le> unat sz"
    using n by (simp add: u32_nat not_le not_less)
qed

definition segment_index :: "u8 list \<Rightarrow> elf32_header \<Rightarrow> nat \<Rightarrow> elf32_program_header" where
  "segment_index data h i =
     program_header_at data (unat (program_header_offset h) + i * unat (program_header_entry_size h))"

lemma select_segment_result:
  "select_segment data h is selected = Inr r \<Longrightarrow>
     r = selected \<and> (\<forall>i \<in> set is. ph_type (segment_index data h i) \<noteq> ELF32_PROGRAM_TYPE_LOAD) \<or>
     selected = None \<and> (\<exists>i \<in> set is. r = Some (segment_index data h i) \<and> ph_type (segment_index data h i) = ELF32_PROGRAM_TYPE_LOAD)"
proof (induction data h "is" selected rule: select_segment.induct)
  case (2 data h i "is" selected)
  then show ?case by (auto simp: segment_index_def Let_def split: if_splits)
qed simp

lemma select_segment_error: "select_segment data h is selected = Inl e \<Longrightarrow> e = KERNEL_ERROR_UNSUPPORTED"
  by (induction data h "is" selected rule: select_segment.induct) (auto simp: Let_def split: if_splits)

lemma check_segment_bounds:
  assumes "check_segment h g sz = KERNEL_OK"
  shows "virtual_address g = RING3_USER_CODE_VIRTUAL" "RING3_USER_CODE_VIRTUAL \<le> eh_entry h"
    "unat (eh_entry h) < 0x10000000 + unat (memory_size g)" "0 < unat (file_size g)"
    "unat (file_size g) \<le> unat (memory_size g)" "unat (memory_size g) \<le> 4096"
    "unat (ph_offset g) + unat (file_size g) \<le> unat sz"
proof -
  have c: "virtual_address g = RING3_USER_CODE_VIRTUAL" "\<not> eh_entry h < RING3_USER_CODE_VIRTUAL"
    "\<not> eh_entry h \<ge> RING3_USER_CODE_VIRTUAL + memory_size g" "file_size g \<noteq> 0" "\<not> file_size g > memory_size g"
    "\<not> memory_size g > RING3_USER_PAGE_SIZE" "\<not> ph_offset g \<ge> sz" "\<not> file_size g > sz - ph_offset g"
    using assms by (auto simp: check_segment_def split: if_splits)
  show "virtual_address g = RING3_USER_CODE_VIRTUAL" "RING3_USER_CODE_VIRTUAL \<le> eh_entry h" "0 < unat (file_size g)"
    "unat (file_size g) \<le> unat (memory_size g)" "unat (memory_size g) \<le> 4096"
    using c by (simp_all add: unat_gt_0 not_less word_le_nat_alt)
  then show "unat (eh_entry h) < 0x10000000 + unat (memory_size g)"
    using c(3) by (simp add: u32_nat not_le)
  show "unat (ph_offset g) + unat (file_size g) \<le> unat sz"
    using c(7,8) by (simp add: u32_nat not_le not_less)
qed

lemma check_header_magic:
  "check_header h sz = KERNEL_OK \<Longrightarrow>
     ident h ! 0 = 0x7F \<and> ident h ! 1 = 0x45 \<and> ident h ! 2 = 0x4C \<and> ident h ! 3 = 0x46 \<and> machine h = 3"
  by (auto simp: check_header_def Let_def split: if_splits)

text \<open>The steps of a load that succeeds.\<close>

lemma elf32_validate_accepted:
  assumes "elf32_validate_from_node (Some node) s = ((KERNEL_OK, checked), t)"
  shows "vn_type node = VFS_NODE_FILE \<and> vn_data node \<noteq> None \<and> 52 \<le> vn_size node \<and>
    checked = Some (header_at (contents node)) \<and>
    check_header (header_at (contents node)) (vn_size node) = KERNEL_OK \<and>
    vm t = vm s \<and> ring3_info t = ring3_info s"
  using assms
  by (auto simp: elf32_validate_from_node_def Let_def contents_def elf32_fail_def not_less
      split: if_splits option.splits)

lemma elf32_accepted:
  fixes s :: "'a loader_state_scheme"
  assumes "elf32_load_from_node (Some node) s = ((KERNEL_OK, result), t)"
  shows "\<exists>i (u :: 'a loader_state_scheme) t' loaded. let h = header_at (contents node); g = segment_index (contents node) h i in
    52 \<le> vn_size node \<and> check_header h (vn_size node) = KERNEL_OK \<and> i < unat (program_header_count h) \<and>
    check_segment h g (vn_size node) = KERNEL_OK \<and> (ring3_ok s \<longrightarrow> ring3_ok u) \<and>
    ring3_load_user_image (Some (drop (unat (ph_offset g)) (contents node))) (file_size g) u = ((KERNEL_OK, loaded), t') \<and>
    vm t = vm t' \<and>
    result = Some \<lparr>ui_path = vn_path node, ui_name = elf32_basename (Some (vn_path node)),
       ui_kind = USER_IMAGE_KIND_ELF, ui_entry = eh_entry h, ui_user_stack_top = li_user_stack_top (the loaded),
       ui_image_size = memory_size g, ui_flags = 0\<rparr>"
proof -
  define s1 where "s1 = elf32_info_update (\<lambda>e. e\<lparr>ei_load_attempts := ei_load_attempts e + 1,
              ei_last_path := bounded_copy 128 (vn_path node)\<rparr>) s"
  obtain st checked s2 where v: "elf32_validate_from_node (Some node) s1 = ((st, checked), s2)"
    by (metis prod.exhaust)
  have "st = KERNEL_OK" using assms v by (auto simp: elf32_load_from_node_def s1_def Let_def split: if_splits)
  note v = elf32_validate_accepted [OF v [unfolded this]] and v' = v [unfolded this]
  let ?h = "header_at (contents node)"
  have d: "the (vn_data node) = contents node" using v by (auto simp: contents_def)
  obtain g where g: "select_segment (contents node) ?h [0..<unat (program_header_count ?h)] None = Inr (Some g)"
    "check_segment ?h g (vn_size node) = KERNEL_OK"
    using assms v v' d select_segment_error
    by (fastforce simp: elf32_load_from_node_def s1_def [symmetric] Let_def split: if_splits sum.splits option.splits prod.splits)
  obtain i where i: "i < unat (program_header_count ?h)" "g = segment_index (contents node) ?h i"
    using select_segment_result [OF g(1)] by auto
  obtain st3 loaded s3 where l: "ring3_load_user_image (Some (drop (unat (ph_offset g)) (contents node))) (file_size g) s2
      = ((st3, loaded), s3)" by (metis prod.exhaust)
  have r: "st3 = KERNEL_OK" "vm t = vm s3"
    "result = Some \<lparr>ui_path = vn_path node, ui_name = elf32_basename (Some (vn_path node)),
       ui_kind = USER_IMAGE_KIND_ELF, ui_entry = eh_entry ?h, ui_user_stack_top = li_user_stack_top (the loaded),
       ui_image_size = memory_size g, ui_flags = 0\<rparr>"
    using assms v v' d g l
    by (auto simp: elf32_load_from_node_def s1_def [symmetric] Let_def split: if_splits)
  have "ring3_ok s \<longrightarrow> ring3_ok s2" using v by (simp add: ring3_ok_def s1_def)
  then show ?thesis
    using v g(2) i l r
    unfolding Let_def i(2) r(1) by blast
qed

lemma elf32_load_spec:
  fixes s :: "'a loader_state_scheme"
  assumes ok: "ring3_ok s" and f: "file_ok node"
    and r: "elf32_load_from_node (Some node) s = ((KERNEL_OK, result), t)"
  shows "\<exists>i. let data = contents node; h = header_at data; g = segment_index data h i in
    52 \<le> length data \<and> take 4 data = [0x7F, 0x45, 0x4C, 0x46] \<and> i < unat (program_header_count h) \<and>
    unat (program_header_offset h) + unat (program_header_count h) * 32 \<le> length data \<and>
    unat (ph_offset g) + unat (file_size g) \<le> length data \<and> unat (memory_size g) \<le> 4096 \<and>
    0x10000000 \<le> unat (eh_entry h) \<and> unat (eh_entry h) < 0x10000000 + unat (memory_size g) \<and>
    result = Some \<lparr>ui_path = vn_path node, ui_name = elf32_basename (Some (vn_path node)),
       ui_kind = USER_IMAGE_KIND_ELF, ui_entry = eh_entry h, ui_user_stack_top = 0x10001FF0,
       ui_image_size = memory_size g, ui_flags = 0\<rparr> \<and>
    (\<forall>j < 4096. read_virtual (vm t) (RING3_USER_CODE_VIRTUAL + of_nat j) =
       Some (if j < unat (file_size g) then data ! (unat (ph_offset g) + j) else 0))"
proof -
  obtain i loaded and u t' :: "'a loader_state_scheme" where a: "52 \<le> vn_size node"
    "check_header (header_at (contents node)) (vn_size node) = KERNEL_OK"
    "i < unat (program_header_count (header_at (contents node)))"
    "check_segment (header_at (contents node)) (segment_index (contents node) (header_at (contents node)) i) (vn_size node) = KERNEL_OK"
    "ring3_ok s \<longrightarrow> ring3_ok u"
    "ring3_load_user_image (Some (drop (unat (ph_offset (segment_index (contents node) (header_at (contents node)) i))) (contents node)))
       (file_size (segment_index (contents node) (header_at (contents node)) i)) u = ((KERNEL_OK, loaded), t')"
    "vm t = vm t'"
    "result = Some \<lparr>ui_path = vn_path node, ui_name = elf32_basename (Some (vn_path node)),
       ui_kind = USER_IMAGE_KIND_ELF, ui_entry = eh_entry (header_at (contents node)),
       ui_user_stack_top = li_user_stack_top (the loaded),
       ui_image_size = memory_size (segment_index (contents node) (header_at (contents node)) i), ui_flags = 0\<rparr>"
    using elf32_accepted [OF r, unfolded Let_def] by blast
  define data h g where "data = contents node" and "h = header_at data" and "g = segment_index data h i"
  note a = a [folded data_def, folded h_def, folded g_def]
  have z: "unat (vn_size node) = length data"
    using f by (auto simp: file_ok_def data_def contents_def unat_of_nat take_bit_nat_eq_self)
  then have len: "52 \<le> length data" using a(1) by (simp add: word_le_nat_alt)
  have pc: "program_header_count h \<noteq> 0" using a(3) by auto
  note hb = check_header_bounds [OF a(2) pc]
  note sb = check_segment_bounds [OF a(4)]
  have magic: "take 4 data = [0x7F, 0x45, 0x4C, 0x46]"
    using check_header_magic [OF a(2)] len
    by (intro nth_equalityI) (auto simp: h_def header_at_def less_Suc_eq numeral_eq_Suc)
  have "ring3_ok u" using a(5) ok by blast
  note l = load_user_image_spec [OF this a(6)]
  then have "li_user_stack_top (the loaded) = 0x10001FF0" by simp
  moreover have "read_virtual (vm t) (RING3_USER_CODE_VIRTUAL + of_nat j) =
       Some (if j < unat (file_size g) then data ! (unat (ph_offset g) + j) else 0)" if "j < 4096" for j
    using l that a(7) sb(7) z by (simp add: nth_drop)
  moreover have "0x10000000 \<le> unat (eh_entry h)" using sb(2) by (simp add: word_le_nat_alt)
  ultimately show ?thesis
    using a(3,8) hb sb z len magic
    by (intro exI [of _ i]) (simp add: Let_def data_def [symmetric] h_def [symmetric] g_def [symmetric])
qed

section \<open>Loads that succeed\<close>

text \<open>The code page holds \<open>code\<close> and then zeros.\<close>

definition page_holds :: "u8 list \<Rightarrow> vmm_state \<Rightarrow> bool" where
  "page_holds code v \<longleftrightarrow> (\<forall>j < 4096. read_virtual v (RING3_USER_CODE_VIRTUAL + of_nat j) =
     Some (if j < length code then code ! j else 0))"

lemma can_load_info [simp]:
  "can_load (flat_binary_info_update f s) = can_load s" "can_load (elf32_info_update g s) = can_load s"
  "can_load (user_image_info_update h s) = can_load s"
  by (simp_all add: can_load_def ring3_ok_def)

lemma can_load_lookup: "can_load (snd (vfs_lookup path s)) = can_load s"
  using vfs_lookup_frame(3) [of path s]
  by (cases s; cases "snd (vfs_lookup path s)") (simp add: can_load_def ring3_ok_def)

lemma load_user_page:
  assumes "can_load s" "0 < length code" "length code \<le> 4096" "length code \<le> length data" "take (length code) data = code"
  obtains t where "ring3_load_user_image (Some data) (of_nat (length code)) s =
      ((KERNEL_OK, Some \<lparr>li_entry = RING3_USER_CODE_VIRTUAL, li_user_stack_top = 0x10001FF0,
         li_image_size = of_nat (length code)\<rparr>), t)"
    "can_load t" "page_holds code (vm t)"
proof -
  let ?n = "of_nat (length code) :: u32"
  have n: "unat ?n = length code" using assms(3) by (simp add: unat_of_nat take_bit_nat_eq_self)
  then obtain loaded t where r: "ring3_load_user_image (Some data) ?n s = ((KERNEL_OK, loaded), t)" "can_load t"
    using load_succeeds [of s ?n data] assms(1-3) by auto
  have "ring3_ok s" using assms(1) by (simp add: can_load_def)
  note l = load_user_image_spec [OF this r(1), unfolded n]
  have "data ! j = code ! j" if "j < length code" for j
    using that nth_take [of j "length code" data] assms(5) by simp
  with l have "page_holds code (vm t)" by (simp add: page_holds_def)
  then show thesis using that r l by auto
qed

lemma flat_binary_loads:
  assumes "can_load s" "fb_initialized (flat_binary_info s)" "vn_type node = VFS_NODE_FILE"
    "vn_data node = Some code" "vn_size node = of_nat (length code)" "0 < length code" "length code \<le> 4096"
  shows "\<exists>t. flat_binary_load_from_node (Some node) s = ((KERNEL_OK, Some
      \<lparr>ui_path = vn_path node, ui_name = flat_binary_basename (Some (vn_path node)),
       ui_kind = USER_IMAGE_KIND_FLAT_BINARY, ui_entry = RING3_USER_CODE_VIRTUAL, ui_user_stack_top = 0x10001FF0,
       ui_image_size = of_nat (length code), ui_flags = 0\<rparr>), t) \<and> can_load t \<and> page_holds code (vm t)"
proof -
  let ?s = "flat_binary_info_update (\<lambda>b. b\<lparr>fb_load_attempts := fb_load_attempts b + 1,
              fb_last_path := bounded_copy 64 (vn_path node)\<rparr>) s"
  have n: "unat (of_nat (length code) :: u32) = length code"
    using assms(7) by (simp add: unat_of_nat take_bit_nat_eq_self)
  then have nz: "(of_nat (length code) :: u32) \<noteq> 0" using assms(6) by (metis less_numeral_extra(3) unat_0)
  have "can_load ?s" using assms(1) by simp
  from load_user_page [OF this assms(6,7), of code]
  obtain t where t: "ring3_load_user_image (Some code) (of_nat (length code)) ?s =
      ((KERNEL_OK, Some \<lparr>li_entry = RING3_USER_CODE_VIRTUAL, li_user_stack_top = 0x10001FF0,
         li_image_size = of_nat (length code)\<rparr>), t)" "can_load t" "page_holds code (vm t)" by auto
  then show ?thesis
    using assms(2-5) nz by (simp add: flat_binary_load_from_node_def Let_def)
qed

lemma hello_elf_checks:
  "check_header (header_at hello_elf_data) (of_nat (length hello_elf_data)) = KERNEL_OK"
  "program_header_count (header_at hello_elf_data) = 1" "eh_entry (header_at hello_elf_data) = RING3_USER_CODE_VIRTUAL"
  "select_segment hello_elf_data (header_at hello_elf_data) [0] None = Inr (Some (program_header_at hello_elf_data 52))"
  "check_segment (header_at hello_elf_data) (program_header_at hello_elf_data 52) (of_nat (length hello_elf_data)) = KERNEL_OK"
  "unat (ph_offset (program_header_at hello_elf_data 52)) = 84" "file_size (program_header_at hello_elf_data 52) = 92"
  "memory_size (program_header_at hello_elf_data 52) = 92" "length hello_elf_data = 176"
  by code_simp+

lemma hello_elf_loads:
  assumes "can_load s" "ei_initialized (elf32_info s)"
  shows "\<exists>t. elf32_load_from_node (Some hello_elf_node) s = ((KERNEL_OK, Some
      \<lparr>ui_path = ''/bin/hello-elf'', ui_name = ''hello-elf'',
       ui_kind = USER_IMAGE_KIND_ELF, ui_entry = RING3_USER_CODE_VIRTUAL, ui_user_stack_top = 0x10001FF0,
       ui_image_size = 92, ui_flags = 0\<rparr>), t) \<and> can_load t \<and> page_holds (drop 84 hello_elf_data) (vm t)"
proof -
  let ?h = "header_at hello_elf_data" and ?code = "drop 84 hello_elf_data"
  define s1 where "s1 = elf32_info_update (\<lambda>e. e\<lparr>ei_load_attempts := ei_load_attempts e + 1,
              ei_last_path := bounded_copy 128 ''/bin/hello-elf''\<rparr>) s"
  obtain st checked s2 where v: "elf32_validate_from_node (Some hello_elf_node) s1 = ((st, checked), s2)"
    by (metis prod.exhaust)
  then have v': "st = KERNEL_OK" "checked = Some ?h" "can_load s2"
    using assms(1) hello_elf_checks
    by (auto simp: elf32_validate_from_node_def hello_elf_node_def Let_def s1_def)
  have len: "length ?code = 92" using hello_elf_checks(9) by simp
  have "0 < length ?code" "length ?code \<le> 4096" "length ?code \<le> length ?code" "take (length ?code) ?code = ?code"
    unfolding len by (simp_all add: hello_elf_checks(9))
  from load_user_page [OF v'(3) this] obtain t where
    t: "ring3_load_user_image (Some ?code) 92 s2 =
      ((KERNEL_OK, Some \<lparr>li_entry = RING3_USER_CODE_VIRTUAL, li_user_stack_top = 0x10001FF0, li_image_size = 92\<rparr>), t)"
      "can_load t" "page_holds ?code (vm t)" by (simp only: len of_nat_numeral) blast
  have b: "elf32_basename (Some (vn_path hello_elf_node)) = ''hello-elf''" "vn_path hello_elf_node = ''/bin/hello-elf''"
    "vn_data hello_elf_node = Some hello_elf_data" "vn_size hello_elf_node = of_nat (length hello_elf_data)"
    by (simp_all add: elf32_basename_def hello_elf_node_def)
  show ?thesis
    using assms(2) v v' t b hello_elf_checks(1-3,5-9)
    by (simp add: elf32_load_from_node_def s1_def [symmetric] Let_def hello_elf_checks(4) del: select_segment.simps)
qed

section \<open>Properties\<close>

text \<open>Every flat program registered has its file in the tree.\<close>

definition flat_nodes :: "(user_image_label \<Rightarrow> u8 list) \<Rightarrow> vfs_node list" where
  "flat_nodes images = map (\<lambda>f. f images)
     [init_node, hello_node, syscheck_node, sysbadptr_node, pid_node, ticks_node, about_node, os_release_program_node,
      cat_node, clear_node, help_node, uptime_node, args_node, echo_node, sh_node]"

lemma nodes_self [simp]: "node \<in> set (nodes node)"
  by (cases node) simp

lemma flat_nodes_in_tree: "set (flat_nodes images) \<subseteq> set (nodes (root_node images))"
  by (simp add: flat_nodes_def root_node_def sbin_node_def bin_node_def)

lemma flat_nodes_images:
  "list_all2 (\<lambda>l node. vn_type node = VFS_NODE_FILE \<and> vn_data node = Some (images l) \<and>
     vn_size node = of_nat (length (images l)))
   [IMG_user, IMG_hello, IMG_syscheck, IMG_sysbadptr, IMG_pid, IMG_ticks, IMG_about, IMG_os_release, IMG_cat,
    IMG_clear, IMG_help, IMG_uptime, IMG_args, IMG_echo, IMG_sh] (flat_nodes images)"
  by (simp add: flat_nodes_def initramfs_nodes)

lemma flat_nodes_registered:
  "map (\<lambda>n. (vn_path n, flat_binary_basename (Some (vn_path n)))) (flat_nodes images) =
   map (\<lambda>(path, name, _). (path, name)) (filter (\<lambda>(_, _, kind). kind = USER_IMAGE_KIND_FLAT_BINARY) registered_images)"
  by (simp add: flat_nodes_def registered_images_def flat_binary_basename_def initramfs_nodes)

lemma flat_registered:
  assumes "(path, name, USER_IMAGE_KIND_FLAT_BINARY) \<in> set registered_images"
  obtains l node where "node \<in> set (nodes (root_node images))" "vn_path node = path" "vn_type node = VFS_NODE_FILE"
    "vn_data node = Some (images l)" "vn_size node = of_nat (length (images l))" "flat_binary_basename (Some path) = name"
proof -
  let ?f = "\<lambda>n. (vn_path n, flat_binary_basename (Some (vn_path n)))"
  have "(path, name) \<in> set (map ?f (flat_nodes images))"
    unfolding flat_nodes_registered using assms by force
  then obtain node where n: "node \<in> set (flat_nodes images)" "vn_path node = path" "flat_binary_basename (Some path) = name"
    by auto
  then obtain l where "vn_type node = VFS_NODE_FILE \<and> vn_data node = Some (images l) \<and>
     vn_size node = of_nat (length (images l))"
    using list_all2_nthD2 [OF flat_nodes_images, of _ images] by (metis in_set_conv_nth)
  then show thesis using that n flat_nodes_in_tree by blast
qed

lemma elf_registered:
  "(path, name, USER_IMAGE_KIND_ELF) \<in> set registered_images \<Longrightarrow> path = ''/bin/hello-elf'' \<and> name = ''hello-elf''"
  "hello_elf_node \<in> set (nodes (root_node images))" "vn_path hello_elf_node = ''/bin/hello-elf''"
  "vn_type hello_elf_node = VFS_NODE_FILE"
  by (simp_all add: registered_images_def initramfs_nodes)

lemma registered_find:
  assumes "(path, name, kind) \<in> set registered_images"
  shows "find (\<lambda>r. path = fst r) registered_images = Some (path, name, kind)" "kind \<noteq> USER_IMAGE_KIND_EMBEDDED"
proof -
  have "distinct (map fst registered_images)" by (simp add: registered_images_def)
  from find_distinct [OF this assms] show "find (\<lambda>r. path = fst r) registered_images = Some (path, name, kind)"
    by (simp add: eq_commute)
  show "kind \<noteq> USER_IMAGE_KIND_EMBEDDED" using assms by (auto simp: registered_images_def)
qed

lemma resolve_registered:
  assumes "vi_initialized (vfs_info s)" "vfs_root s = Some (root_node images)" "node \<in> set (nodes (root_node images))"
    "vn_path node = path" "vn_type node = VFS_NODE_FILE"
  obtains t where "user_image_resolve_registered_node (path, name, kind) s = ((KERNEL_OK, Some node), t)"
    "can_load t = can_load s" "flat_binary_info t = flat_binary_info s" "elf32_info t = elf32_info s"
proof -
  obtain res t where l: "vfs_lookup (Some path) s = (res, t)" by fastforce
  then have "res = (KERNEL_OK, Some node)"
    using vfs_lookup_fst [OF assms(1), of path] lookup_own_path [OF root_node_facts(1,2) assms(3)] assms(2,4) by simp
  moreover have "flat_binary_info t = flat_binary_info s" "elf32_info t = elf32_info s"
    using vfs_lookup_frame(3) [of "Some path" s] l by (cases s; cases t; simp)+
  moreover have "can_load t = can_load s" using can_load_lookup [of "Some path" s] l by simp
  ultimately show thesis using that [of t] l assms(5) by (simp add: user_image_resolve_registered_node_def)
qed

text \<open>
  C24: a program that the ELF loader accepts is loaded as its file says: the file starts with the ELF
  magic, the program headers and the bytes of the chosen segment lie inside the file, the entry
  point lies inside the segment, and the code page then holds the segment's bytes followed by
  zeros. No read of the loader leaves the file.
\<close>

theorem elf32_load_correct:
  assumes "ring3_ok s" and "file_ok node" and "elf32_load_from_node (Some node) s = ((KERNEL_OK, result), t)"
  shows "\<exists>i. let data = contents node; h = header_at data; g = segment_index data h i in
    52 \<le> length data \<and> take 4 data = [0x7F, 0x45, 0x4C, 0x46] \<and> i < unat (program_header_count h) \<and>
    unat (program_header_offset h) + unat (program_header_count h) * 32 \<le> length data \<and>
    unat (ph_offset g) + unat (file_size g) \<le> length data \<and> unat (memory_size g) \<le> 4096 \<and>
    0x10000000 \<le> unat (eh_entry h) \<and> unat (eh_entry h) < 0x10000000 + unat (memory_size g) \<and>
    result = Some \<lparr>ui_path = vn_path node, ui_name = elf32_basename (Some (vn_path node)),
       ui_kind = USER_IMAGE_KIND_ELF, ui_entry = eh_entry h, ui_user_stack_top = 0x10001FF0,
       ui_image_size = memory_size g, ui_flags = 0\<rparr> \<and>
    (\<forall>j < 4096. read_virtual (vm t) (RING3_USER_CODE_VIRTUAL + of_nat j) =
       Some (if j < unat (file_size g) then data ! (unat (ph_offset g) + j) else 0))"
  using elf32_load_spec [OF assms] .

text \<open>
  C25: with the initial file tree mounted, the loaders initialised and user mode usable, every one of
  the sixteen registered programs loads, provided that the images of the flat ones are not empty
  and fit in a page. The image record names the program, its entry point is the start of the code
  page, and the code page holds the file (for the ELF program: its segment) followed by zeros.
  Afterwards user mode is still usable.
\<close>

theorem registered_program_loads:
  assumes "can_load s" and "vi_initialized (vfs_info s)" and "vfs_root s = Some (root_node images)"
    and "fb_initialized (flat_binary_info s)" and "ei_initialized (elf32_info s)"
    and "\<And>l. 0 < length (images l) \<and> length (images l) \<le> 4096"
    and "(path, name, kind) \<in> set registered_images"
  shows "\<exists>node result t. user_image_resolve (Some path) s = ((KERNEL_OK, Some result), t) \<and>
    node \<in> set (nodes (root_node images)) \<and> vn_path node = path \<and>
    ui_path result = path \<and> ui_name result = name \<and> ui_kind result = kind \<and>
    ui_entry result = RING3_USER_CODE_VIRTUAL \<and> ui_user_stack_top result = 0x10001FF0 \<and> can_load t \<and>
    page_holds (if kind = USER_IMAGE_KIND_ELF then drop 84 hello_elf_data else contents node) (vm t)"
proof -
  define s1 where "s1 = user_image_info_update (\<lambda>u. u\<lparr>resolve_attempts := resolve_attempts u + 1,
              um_last_path := bounded_copy USER_IMAGE_PATH_MAX path\<rparr>) s"
  have s1: "vi_initialized (vfs_info s1)" "vfs_root s1 = Some (root_node images)" "can_load s1"
    "flat_binary_info s1 = flat_binary_info s" "elf32_info s1 = elf32_info s"
    using assms(1-3) by (simp_all add: s1_def)
  note find = registered_find [OF assms(7)]
  obtain node result t where l: "node \<in> set (nodes (root_node images))" "vn_path node = path"
    "user_image_load_registered (path, name, kind) s1 = ((KERNEL_OK, Some result), t)"
    "ui_path result = path \<and> ui_name result = name \<and> ui_kind result = kind \<and>
     ui_entry result = RING3_USER_CODE_VIRTUAL \<and> ui_user_stack_top result = 0x10001FF0" "can_load t"
    "page_holds (if kind = USER_IMAGE_KIND_ELF then drop 84 hello_elf_data else contents node) (vm t)"
  proof (cases kind)
    case USER_IMAGE_KIND_EMBEDDED
    then show thesis using find(2) by simp
  next
    case USER_IMAGE_KIND_FLAT_BINARY
    with assms(7) obtain l node where n: "node \<in> set (nodes (root_node images))" "vn_path node = path"
      "vn_type node = VFS_NODE_FILE" "vn_data node = Some (images l)" "vn_size node = of_nat (length (images l))"
      "flat_binary_basename (Some path) = name" using flat_registered by metis
    obtain u where u: "user_image_resolve_registered_node (path, name, kind) s1 = ((KERNEL_OK, Some node), u)"
      "can_load u" "fb_initialized (flat_binary_info u)"
      using resolve_registered [OF s1(1,2) n(1-3), of name kind] s1(3,4) assms(4) by metis
    note f = flat_binary_loads [OF u(2,3) n(3-5) conjunct1 [OF assms(6)] conjunct2 [OF assms(6)]]
    show thesis
      using that [of node] f u(1) n USER_IMAGE_KIND_FLAT_BINARY
      by (auto simp: user_image_load_registered_def contents_def)
  next
    case USER_IMAGE_KIND_ELF
    note n = elf_registered(1) [OF assms(7) [unfolded USER_IMAGE_KIND_ELF]]
    obtain u where u: "user_image_resolve_registered_node (path, name, kind) s1 = ((KERNEL_OK, Some hello_elf_node), u)"
      "can_load u" "ei_initialized (elf32_info u)"
      using resolve_registered [OF s1(1,2) elf_registered(2) _ elf_registered(4), of path name kind] n
        elf_registered(3) s1(3,5) assms(5) by metis
    show thesis
      using that [of hello_elf_node] hello_elf_loads [OF u(2,3)] u(1) n elf_registered(2,3) USER_IMAGE_KIND_ELF
      by (auto simp: user_image_load_registered_def)
  qed
  then show ?thesis
    using find by (intro exI [of _ node] exI [of _ result]) (simp add: user_image_resolve_def s1_def [symmetric] Let_def)
qed

definition small_loader :: loader_state where
  "small_loader = user_image_initialize (elf32_initialize (flat_binary_loader_initialize
     ((ring3_state.extend small_ring3
        \<lparr>flat_binary_info = \<lparr>fb_initialized = False, fb_load_attempts = 0, fb_successful_loads = 0,
           fb_failed_loads = 0, fb_last_image_size = 0, fb_last_entry = 0, fb_last_stack_top = 0,
           fb_last_status = KERNEL_OK, fb_last_path = []\<rparr>,
         elf32_info = \<lparr>ei_initialized = False, validation_attempts = 0, successful_validations = 0,
           failed_validations = 0, ei_load_attempts = 0, ei_successful_loads = 0, ei_failed_loads = 0,
           last_entry = 0, last_program_header_count = 0, last_file_size = 0, last_load_segment_offset = 0,
           last_load_segment_vaddr = 0, last_load_segment_file_size = 0, last_load_segment_memory_size = 0,
           ei_last_status = KERNEL_OK, ei_last_path = []\<rparr>,
         user_image_info = \<lparr>um_initialized = False, registered_count = 0, resolve_attempts = 0,
           resolve_failures = 0, um_last_status = KERNEL_OK, um_last_path = []\<rparr>\<rparr>)
        \<lparr>vfs_root := Some (root_node (\<lambda>_. [0xC3]))\<rparr>)))"

lemma small_loader_facts:
  "can_load small_loader" "vi_initialized (vfs_info small_loader)" "vfs_root small_loader = Some (root_node (\<lambda>_. [0xC3]))"
  "fb_initialized (flat_binary_info small_loader)" "ei_initialized (elf32_info small_loader)"
proof -
  have "vm (ring3_state.extend small_ring3 m) = vm small_ring3 \<and>
      ring3_info (ring3_state.extend small_ring3 m) = ring3_info small_ring3 \<and>
      vfs_info (ring3_state.extend small_ring3 m) = vfs_info small_ring3" for m :: "\<lparr>flat_binary_info :: flat_binary_loader_info,
        elf32_info :: elf32_loader_info, user_image_info :: user_image_info\<rparr>"
    by (simp add: ring3_state.defs)
  moreover have "vi_initialized (vfs_info small_ring3)"
    by (simp add: small_ring3_def vfs_state.defs blank_vfs_def vfs_initialize_def)
  ultimately show "can_load small_loader" "vi_initialized (vfs_info small_loader)"
    "vfs_root small_loader = Some (root_node (\<lambda>_. [0xC3]))"
    "fb_initialized (flat_binary_info small_loader)" "ei_initialized (elf32_info small_loader)"
    using small_can_load(1)
    by (simp_all add: small_loader_def user_image_initialize_def elf32_initialize_def
        flat_binary_loader_initialize_def can_load_def ring3_ok_def)
qed

theorem registered_program_loads_witness:
  "\<exists>result t. user_image_resolve (Some ''/bin/hello-elf'') small_loader = ((KERNEL_OK, Some result), t) \<and>
     ui_name result = ''hello-elf'' \<and> page_holds (drop 84 hello_elf_data) (vm t)"
proof -
  have "(''/bin/hello-elf'', ''hello-elf'', USER_IMAGE_KIND_ELF) \<in> set registered_images"
    by (simp add: registered_images_def)
  from registered_program_loads [OF small_loader_facts _ this] show ?thesis by auto
qed

theorem elf32_load_correct_witness:
  "\<exists>result t i. elf32_load_from_node (Some hello_elf_node) small_loader = ((KERNEL_OK, result), t) \<and>
     i < unat (program_header_count (header_at (contents hello_elf_node))) \<and>
     read_virtual (vm t) RING3_USER_CODE_VIRTUAL =
       Some (hello_elf_data ! unat (ph_offset (segment_index hello_elf_data (header_at hello_elf_data) i)))"
proof -
  obtain result t where l: "elf32_load_from_node (Some hello_elf_node) small_loader = ((KERNEL_OK, result), t)"
    using hello_elf_loads [OF small_loader_facts(1,5)] by blast
  have d: "file_ok hello_elf_node" "contents hello_elf_node = hello_elf_data"
    using hello_elf_checks(9) by (simp_all add: file_ok_def contents_def hello_elf_node_def)
  have ok: "ring3_ok small_loader" using small_loader_facts(1) by (simp add: can_load_def)
  from elf32_load_correct [OF ok d(1) l, unfolded Let_def d(2)] obtain i where
    i: "i < unat (program_header_count (header_at hello_elf_data))"
    "\<forall>j < 4096. read_virtual (vm t) (RING3_USER_CODE_VIRTUAL + of_nat j) =
       Some (if j < unat (file_size (segment_index hello_elf_data (header_at hello_elf_data) i))
         then hello_elf_data ! (unat (ph_offset (segment_index hello_elf_data (header_at hello_elf_data) i)) + j) else 0)"
    by blast
  have "i = 0" using i(1) hello_elf_checks(2) by simp
  moreover have "segment_index hello_elf_data (header_at hello_elf_data) 0 = program_header_at hello_elf_data 52"
    by (simp add: segment_index_def header_at_def u32_at_def hello_elf_data_def)
  ultimately show ?thesis using l i(1) spec [OF i(2), of 0] hello_elf_checks(6,7) d(2) by auto
qed

end
