(* ===== verification/Process.thy ===== *)
theory Process
  imports Loaders
begin

text \<open>
  \<^verbatim>\<open>core/process.c\<close> and \<^verbatim>\<open>core/fd_table.c\<close>: the process table of the i386 kernel and the open files
  of its processes, except for running a process, which is in \<open>User_Run\<close>.

  A pointer to a process is the index of its slot; \<^verbatim>\<open>current_process\<close> is an optional index. A
  character array is the string it holds; \<open>bounded_copy\<close> and \<open>bounded_word\<close> are the effects of
  \<^verbatim>\<open>string_copy\<close> and \<^verbatim>\<open>string_copy_until_space\<close>. A node pointer is the node, as in \<open>Vfs\<close>.
\<close>

section \<open>State\<close>

record process_file =
  used :: bool
  file_node :: "vfs_node option"
  file_offset :: u32
  file_flags :: u32

datatype process_state = PROCESS_UNUSED | PROCESS_READY | PROCESS_RUNNING | PROCESS_EXITED | PROCESS_FAILED

record process =
  pid :: u32
  proc_name :: string
  state :: process_state
  entry :: u32
  user_stack :: u32
  image_path :: string
  exit_code :: "32 word"
  proc_last_status :: kernel_status
  proc_runs :: u32
  argc :: u32
  arguments :: string
  argv :: "string list"
  files :: "process_file list"

record process_info =
  pi_initialized :: bool
  table_capacity :: u32
  used_slots :: u32
  current_pid :: u32
  pi_next_pid :: u32
  create_attempts :: u32
  successful_creates :: u32
  failed_creates :: u32
  run_attempts :: u32
  pi_successful_runs :: u32
  pi_failed_runs :: u32
  exit_count :: u32
  failed_processes :: u32
  last_created_pid :: u32
  last_run_pid :: u32
  last_exit_pid :: u32
  last_exit_code :: "32 word"
  last_exit_status :: kernel_status
  last_exit_name :: string
  has_last_exit :: bool
  pi_last_status :: kernel_status

record fd_table_info =
  fd_initialized :: bool
  open_attempts :: u32
  successful_opens :: u32
  failed_opens :: u32
  fd_read_attempts :: u32
  successful_reads :: u32
  failed_reads :: u32
  close_attempts :: u32
  successful_closes :: u32
  failed_closes :: u32
  fd_last_status :: kernel_status
  last_fd :: u32
  fd_last_path :: string

record process_manager = loader_state +
  process_table :: "process list"
  next_pid :: u32
  current_process :: "nat option"
  process_count :: u32
  process_info :: process_info
  fd_table_info :: fd_table_info

abbreviation (input) PROCESS_MAX_PROCESSES :: nat where "PROCESS_MAX_PROCESSES \<equiv> 16"
abbreviation (input) PROCESS_NAME_MAX :: nat where "PROCESS_NAME_MAX \<equiv> 32"
abbreviation (input) PROCESS_INVALID_PID :: u32 where "PROCESS_INVALID_PID \<equiv> 0"
abbreviation (input) PROCESS_MAX_OPEN_FILES :: nat where "PROCESS_MAX_OPEN_FILES \<equiv> 16"
abbreviation (input) PROCESS_MAX_ARGUMENTS :: nat where "PROCESS_MAX_ARGUMENTS \<equiv> 8"
abbreviation (input) PROCESS_ARGUMENT_MAX :: nat where "PROCESS_ARGUMENT_MAX \<equiv> 64"
abbreviation (input) PROCESS_ARGUMENT_LINE_MAX :: nat where "PROCESS_ARGUMENT_LINE_MAX \<equiv> 128"
abbreviation (input) PROCESS_IMAGE_PATH_MAX :: nat where "PROCESS_IMAGE_PATH_MAX \<equiv> 64"
abbreviation (input) FD_INVALID :: u32 where "FD_INVALID \<equiv> 0xFFFFFFFF"
abbreviation (input) FD_FIRST_PROCESS_FILE :: nat where "FD_FIRST_PROCESS_FILE \<equiv> 3"

definition update_process :: "nat \<Rightarrow> (process \<Rightarrow> process) \<Rightarrow> 'a process_manager_scheme \<Rightarrow> 'a process_manager_scheme" where
  "update_process i f s = s\<lparr>process_table := (process_table s)[i := f (process_table s ! i)]\<rparr>"

section \<open>Open files\<close>

definition fd_table_initialize :: "'a process_manager_scheme \<Rightarrow> 'a process_manager_scheme" where
  "fd_table_initialize s = s\<lparr>fd_table_info :=
     \<lparr>fd_initialized = True, open_attempts = 0, successful_opens = 0, failed_opens = 0,
      fd_read_attempts = 0, successful_reads = 0, failed_reads = 0, close_attempts = 0,
      successful_closes = 0, failed_closes = 0, fd_last_status = KERNEL_OK, last_fd = FD_INVALID,
      fd_last_path = []\<rparr>\<rparr>"

definition no_file :: process_file where
  "no_file = \<lparr>used = False, file_node = None, file_offset = 0, file_flags = 0\<rparr>"

definition fd_table_initialize_process :: "process \<Rightarrow> process" where
  "fd_table_initialize_process p = p\<lparr>files := replicate PROCESS_MAX_OPEN_FILES no_file\<rparr>"

definition fd_table_allocate_slot :: "process \<Rightarrow> kernel_status \<times> nat option" where
  "fd_table_allocate_slot p =
     (case find (\<lambda>i. \<not> used (files p ! i)) [FD_FIRST_PROCESS_FILE..<PROCESS_MAX_OPEN_FILES] of
        Some i \<Rightarrow> (KERNEL_OK, Some i)
      | None \<Rightarrow> (KERNEL_ERROR_OUT_OF_MEMORY, None))"

definition fd_table_open_current ::
  "string option \<Rightarrow> u32 \<Rightarrow> 'a process_manager_scheme \<Rightarrow> (kernel_status \<times> u32) \<times> 'a process_manager_scheme" where
  "fd_table_open_current path flags s =
     (let s = fd_table_info_update (\<lambda>d. d\<lparr>open_attempts := open_attempts d + 1, last_fd := FD_INVALID,
            fd_last_path := (case path of Some path \<Rightarrow> bounded_copy VFS_PATH_MAX path | None \<Rightarrow> [])\<rparr>) s;
          fail = (\<lambda>status s. ((status, FD_INVALID),
            fd_table_info_update (\<lambda>d. d\<lparr>failed_opens := failed_opens d + 1, fd_last_status := status\<rparr>) s))
      in if \<not> fd_initialized (fd_table_info s) then fail KERNEL_ERROR_NOT_INITIALIZED s
         else
           (case (current_process s, path) of
              (Some i, Some path) \<Rightarrow>
                let ((status, node), s) = vfs_lookup (Some path) s
                in if status \<noteq> KERNEL_OK then fail status s
                   else if vn_type (the node) \<noteq> VFS_NODE_FILE then fail KERNEL_ERROR_INVALID_STATE s
                   else
                     (case fd_table_allocate_slot (process_table s ! i) of
                        (status, None) \<Rightarrow> fail status s
                      | (status, Some fd) \<Rightarrow>
                        let s = update_process i (files_update (\<lambda>fs. fs[fd :=
                              \<lparr>used = True, file_node = node, file_offset = 0, file_flags = flags\<rparr>])) s
                        in ((KERNEL_OK, of_nat fd),
                            fd_table_info_update (\<lambda>d. d\<lparr>successful_opens := successful_opens d + 1,
                              last_fd := of_nat fd, fd_last_status := KERNEL_OK\<rparr>) s))
            | _ \<Rightarrow> fail KERNEL_ERROR_INVALID_ARGUMENT s))"

text \<open>The test shared by reading and closing.\<close>

definition fd_is_open :: "u32 \<Rightarrow> process \<Rightarrow> bool" where
  "fd_is_open fd p \<longleftrightarrow> \<not> (fd \<ge> of_nat PROCESS_MAX_OPEN_FILES \<or> fd < of_nat FD_FIRST_PROCESS_FILE \<or>
     \<not> used (files p ! unat fd))"

text \<open>The bytes read are the second part of the result; their number is \<^verbatim>\<open>*out_bytes_read\<close>.\<close>

definition fd_table_read_current ::
  "u32 \<Rightarrow> u32 \<Rightarrow> 'a process_manager_scheme \<Rightarrow> (kernel_status \<times> u8 list) \<times> 'a process_manager_scheme" where
  "fd_table_read_current fd len s =
     (let s = fd_table_info_update (\<lambda>d. d\<lparr>fd_read_attempts := fd_read_attempts d + 1, last_fd := fd\<rparr>) s;
          fail = (\<lambda>status s. ((status, []),
            fd_table_info_update (\<lambda>d. d\<lparr>failed_reads := failed_reads d + 1, fd_last_status := status\<rparr>) s))
      in if \<not> fd_initialized (fd_table_info s) then fail KERNEL_ERROR_NOT_INITIALIZED s
         else
           (case current_process s of
              None \<Rightarrow> fail KERNEL_ERROR_INVALID_ARGUMENT s
            | Some i \<Rightarrow>
              let process = process_table s ! i
              in if \<not> fd_is_open fd process then fail KERNEL_ERROR_INVALID_ARGUMENT s
              else
              let entry = files process ! unat fd; node = file_node entry
              in if node = None \<or> vn_type (the node) \<noteq> VFS_NODE_FILE then fail KERNEL_ERROR_INVALID_STATE s
              else
              let ((status, bytes_read), s) = vfs_read_node node (file_offset entry) len s
              in if status \<noteq> KERNEL_OK then fail status s
              else
              let s = update_process i (files_update (\<lambda>fs. fs[unat fd :=
                    entry\<lparr>file_offset := file_offset entry + of_nat (length bytes_read)\<rparr>])) s
              in ((KERNEL_OK, bytes_read),
                  fd_table_info_update (\<lambda>d. d\<lparr>successful_reads := successful_reads d + 1,
                    fd_last_status := KERNEL_OK\<rparr>) s)))"

definition fd_table_close_current ::
  "u32 \<Rightarrow> 'a process_manager_scheme \<Rightarrow> kernel_status \<times> 'a process_manager_scheme" where
  "fd_table_close_current fd s =
     (let s = fd_table_info_update (\<lambda>d. d\<lparr>close_attempts := close_attempts d + 1, last_fd := fd\<rparr>) s;
          fail = (\<lambda>status s. (status,
            fd_table_info_update (\<lambda>d. d\<lparr>failed_closes := failed_closes d + 1, fd_last_status := status\<rparr>) s))
      in if \<not> fd_initialized (fd_table_info s) then fail KERNEL_ERROR_NOT_INITIALIZED s
         else
           (case current_process s of
              None \<Rightarrow> fail KERNEL_ERROR_INVALID_ARGUMENT s
            | Some i \<Rightarrow>
              if \<not> fd_is_open fd (process_table s ! i) then fail KERNEL_ERROR_INVALID_ARGUMENT s
              else
              let s = update_process i (files_update (\<lambda>fs. fs[unat fd := no_file])) s
              in (KERNEL_OK,
                  fd_table_info_update (\<lambda>d. d\<lparr>successful_closes := successful_closes d + 1,
                    fd_last_status := KERNEL_OK\<rparr>) s)))"

section \<open>The process table\<close>

definition process_clear_arguments :: "process \<Rightarrow> process" where
  "process_clear_arguments p = p\<lparr>argc := 0, arguments := [], argv := replicate PROCESS_MAX_ARGUMENTS []\<rparr>"

definition process_reset_slot :: "process \<Rightarrow> process" where
  "process_reset_slot p = fd_table_initialize_process (process_clear_arguments
     (p\<lparr>pid := PROCESS_INVALID_PID, proc_name := [], state := PROCESS_UNUSED, entry := 0, user_stack := 0,
        image_path := [], exit_code := 0, proc_last_status := KERNEL_OK, proc_runs := 0\<rparr>))"

definition process_initialize :: "'a process_manager_scheme \<Rightarrow> 'a process_manager_scheme" where
  "process_initialize s = s\<lparr>process_table := map process_reset_slot (process_table s), next_pid := 1,
     current_process := None, process_count := 0, process_info :=
     \<lparr>pi_initialized = True, table_capacity = of_nat PROCESS_MAX_PROCESSES, used_slots = 0,
      current_pid = PROCESS_INVALID_PID, pi_next_pid = 1, create_attempts = 0, successful_creates = 0,
      failed_creates = 0, run_attempts = 0, pi_successful_runs = 0, pi_failed_runs = 0, exit_count = 0,
      failed_processes = 0, last_created_pid = PROCESS_INVALID_PID, last_run_pid = PROCESS_INVALID_PID,
      last_exit_pid = PROCESS_INVALID_PID, last_exit_code = 0, last_exit_status = KERNEL_OK,
      last_exit_name = [], has_last_exit = False, pi_last_status = KERNEL_OK\<rparr>\<rparr>"

definition process_find_free_slot :: "'a process_manager_scheme \<Rightarrow> nat option" where
  "process_find_free_slot s =
     find (\<lambda>i. state (process_table s ! i) = PROCESS_UNUSED) [0..<PROCESS_MAX_PROCESSES]"

text \<open>The three statements that creating a process and configuring its arguments share.\<close>

definition name_as_argument :: "process \<Rightarrow> process" where
  "name_as_argument p =
     (let p = process_clear_arguments p
      in p\<lparr>argc := 1, argv := (argv p)[0 := bounded_copy PROCESS_ARGUMENT_MAX (proc_name p)]\<rparr>)"

definition process_create ::
  "string option \<Rightarrow> u32 \<Rightarrow> u32 \<Rightarrow> 'a process_manager_scheme \<Rightarrow>
     (kernel_status \<times> nat option) \<times> 'a process_manager_scheme" where
  "process_create name entry_point stack s =
     (let s = process_info_update (create_attempts_update (\<lambda>n. n + 1)) s;
          fail = (\<lambda>status. ((status, None),
            process_info_update (\<lambda>p. p\<lparr>failed_creates := failed_creates p + 1, pi_last_status := status\<rparr>) s))
      in case name of
           None \<Rightarrow> fail KERNEL_ERROR_INVALID_ARGUMENT
         | Some name \<Rightarrow>
           if entry_point = 0 \<or> stack = 0 then fail KERNEL_ERROR_INVALID_ARGUMENT
           else
             (case process_find_free_slot s of
                None \<Rightarrow> fail KERNEL_ERROR_OUT_OF_MEMORY
              | Some i \<Rightarrow>
                let new_pid = next_pid s;
                    s = s\<lparr>next_pid := new_pid + 1\<rparr>;
                    s = update_process i (\<lambda>p.
                      let p = p\<lparr>pid := new_pid, proc_name := bounded_copy PROCESS_NAME_MAX name,
                            state := PROCESS_READY, entry := entry_point, user_stack := stack, image_path := [],
                            exit_code := 0, proc_last_status := KERNEL_OK, proc_runs := 0\<rparr>;
                          p = name_as_argument p
                      in fd_table_initialize_process p) s;
                    s = s\<lparr>process_count := process_count s + 1\<rparr>;
                    s = process_info_update (\<lambda>p. p\<lparr>used_slots := process_count s, pi_next_pid := next_pid s,
                          successful_creates := successful_creates p + 1, last_created_pid := new_pid,
                          pi_last_status := KERNEL_OK\<rparr>) s
                in ((KERNEL_OK, Some i), s)))"

definition process_configure_image_path ::
  "nat option \<Rightarrow> string option \<Rightarrow> 'a process_manager_scheme \<Rightarrow> kernel_status \<times> 'a process_manager_scheme" where
  "process_configure_image_path process path s =
     (case (process, path) of
        (Some i, Some path) \<Rightarrow>
          (KERNEL_OK, update_process i (image_path_update (\<lambda>_. bounded_copy PROCESS_IMAGE_PATH_MAX path)) s)
      | _ \<Rightarrow> (KERNEL_ERROR_INVALID_ARGUMENT, s))"

text \<open>The effect of \<^verbatim>\<open>string_copy_until_space\<close> into a buffer of \<open>n\<close> characters.\<close>

definition bounded_word :: "nat \<Rightarrow> string \<Rightarrow> string" where
  "bounded_word n s = take (n - 1) (takeWhile (\<lambda>c. \<not> is_blank c) s)"

function argument_loop :: "string \<Rightarrow> process \<Rightarrow> process" where
  "argument_loop cursor p =
     (if cursor \<noteq> [] \<and> argc p < of_nat PROCESS_MAX_ARGUMENTS
      then
        let copied = bounded_word PROCESS_ARGUMENT_MAX cursor
        in if copied = [] then p\<lparr>argv := (argv p)[unat (argc p) := copied]\<rparr>
           else argument_loop (dropWhile is_blank (drop (length copied) cursor))
             (p\<lparr>argv := (argv p)[unat (argc p) := copied], argc := argc p + 1\<rparr>)
      else p)"
  by pat_completeness auto

termination
proof (relation "measure (\<lambda>(cursor, _). length cursor)")
  fix cursor :: string and p :: process and copied
  assume "cursor \<noteq> [] \<and> argc p < of_nat 8" "copied = bounded_word 64 cursor" "copied \<noteq> []"
  then have "0 < length copied" "0 < length cursor" by simp_all
  moreover have "length (dropWhile is_blank (drop (length copied) cursor)) \<le> length cursor - length copied"
    using length_dropWhile_le [of is_blank "drop (length copied) cursor"] by simp
  ultimately have "length (dropWhile is_blank (drop (length copied) cursor)) < length cursor" by linarith
  then show "((dropWhile is_blank (drop (length copied) cursor),
       p\<lparr>argv := (argv p)[unat (argc p) := copied], argc := argc p + 1\<rparr>), cursor, p)
      \<in> measure (\<lambda>(cursor, _). length cursor)" by simp
qed simp

declare argument_loop.simps [simp del]

definition configured :: "string option \<Rightarrow> process \<Rightarrow> process" where
  "configured args p =
     (let p = name_as_argument p
      in case args of
           None \<Rightarrow> p
         | Some args \<Rightarrow>
           let cursor = dropWhile is_blank args
           in if cursor = [] then p
              else
                let p = p\<lparr>arguments := bounded_copy PROCESS_ARGUMENT_LINE_MAX cursor\<rparr>
                in argument_loop (dropWhile is_blank (arguments p)) p)"

definition process_configure_arguments ::
  "nat option \<Rightarrow> string option \<Rightarrow> 'a process_manager_scheme \<Rightarrow> kernel_status \<times> 'a process_manager_scheme" where
  "process_configure_arguments process args s =
     (case process of
        None \<Rightarrow> (KERNEL_ERROR_INVALID_ARGUMENT, s)
      | Some i \<Rightarrow> (KERNEL_OK, update_process i (configured args) s))"

definition process_get_current_argc :: "'a process_manager_scheme \<Rightarrow> u32" where
  "process_get_current_argc s = (case current_process s of None \<Rightarrow> 0 | Some i \<Rightarrow> argc (process_table s ! i))"

definition process_get_current_argument ::
  "u32 \<Rightarrow> u32 \<Rightarrow> 'a process_manager_scheme \<Rightarrow> kernel_status \<times> string option" where
  "process_get_current_argument index len s =
     (case current_process s of
        None \<Rightarrow> (KERNEL_ERROR_INVALID_ARGUMENT, None)
      | Some i \<Rightarrow>
        if len = 0 then (KERNEL_ERROR_INVALID_ARGUMENT, None)
        else
          let process = process_table s ! i
          in if index \<ge> argc process then (KERNEL_ERROR_NOT_FOUND, None)
             else
               let argument_length = of_nat (length (argv process ! unat index)) :: u32
               in if argument_length + 1 > len then (KERNEL_ERROR_UNSUPPORTED, None)
                  else (KERNEL_OK, Some (bounded_copy (unat len) (argv process ! unat index))))"

definition process_mark_exit :: "32 word \<Rightarrow> 'a process_manager_scheme \<Rightarrow> 'a process_manager_scheme" where
  "process_mark_exit code s =
     (case current_process s of
        None \<Rightarrow> s
      | Some i \<Rightarrow>
        let s = update_process i (\<lambda>p. p\<lparr>exit_code := code, state := PROCESS_EXITED\<rparr>) s
        in process_info_update (\<lambda>p. p\<lparr>exit_count := exit_count p + 1, last_exit_pid := pid (process_table s ! i),
             last_exit_code := code, last_exit_status := KERNEL_OK,
             last_exit_name := bounded_copy PROCESS_NAME_MAX (proc_name (process_table s ! i)),
             has_last_exit := True\<rparr>) s)"

definition process_get_current_pid :: "'a process_manager_scheme \<Rightarrow> u32" where
  "process_get_current_pid s =
     (case current_process s of None \<Rightarrow> PROCESS_INVALID_PID | Some i \<Rightarrow> pid (process_table s ! i))"

definition process_find_by_pid :: "u32 \<Rightarrow> 'a process_manager_scheme \<Rightarrow> nat option" where
  "process_find_by_pid n s =
     (if n = PROCESS_INVALID_PID then None
      else find (\<lambda>i. state (process_table s ! i) \<noteq> PROCESS_UNUSED \<and> pid (process_table s ! i) = n)
             [0..<PROCESS_MAX_PROCESSES])"

definition process_find_next_ready :: "'a process_manager_scheme \<Rightarrow> nat option" where
  "process_find_next_ready s =
     find (\<lambda>i. state (process_table s ! i) = PROCESS_READY) [0..<PROCESS_MAX_PROCESSES]"

text \<open>One round of the loop of \<^verbatim>\<open>process_clear_exited\<close>, with the counter \<^verbatim>\<open>cleared\<close>.\<close>

definition clear_slot :: "nat \<Rightarrow> u32 \<times> 'a process_manager_scheme \<Rightarrow> u32 \<times> 'a process_manager_scheme" where
  "clear_slot i = (\<lambda>(cleared, s).
     if state (process_table s ! i) \<noteq> PROCESS_EXITED \<and> state (process_table s ! i) \<noteq> PROCESS_FAILED
     then (cleared, s)
     else (cleared + 1, update_process i process_reset_slot s))"

definition process_clear_exited :: "'a process_manager_scheme \<Rightarrow> u32 \<times> 'a process_manager_scheme" where
  "process_clear_exited s =
     (let (cleared, s) = fold clear_slot [0..<PROCESS_MAX_PROCESSES] (0, s);
          s = s\<lparr>process_count := (if cleared > process_count s then 0 else process_count s - cleared)\<rparr>;
          s = process_info_update (\<lambda>p. p\<lparr>used_slots := process_count s, pi_last_status := KERNEL_OK\<rparr>) s
      in (cleared, s))"

definition process_get_info :: "'a process_manager_scheme \<Rightarrow> process_info \<times> 'a process_manager_scheme" where
  "process_get_info s =
     (let s = process_info_update (\<lambda>p. p\<lparr>used_slots := process_count s,
            current_pid := process_get_current_pid s, pi_next_pid := next_pid s\<rparr>) s
      in (process_info s, s))"

definition process_state_name :: "process_state \<Rightarrow> string" where
  "process_state_name st = (case st of PROCESS_UNUSED \<Rightarrow> ''unused'' | PROCESS_READY \<Rightarrow> ''ready''
     | PROCESS_RUNNING \<Rightarrow> ''running'' | PROCESS_EXITED \<Rightarrow> ''exited'' | PROCESS_FAILED \<Rightarrow> ''failed'')"

section \<open>Splitting the arguments\<close>

text \<open>The string functions behind \<open>bounded_word\<close>.\<close>

lemma string_copy_until_space_cstr:
  assumes "is_cstring src" and "unat m \<le> length dest" and "m \<noteq> 0"
  shows "\<exists>dest'. string_copy_until_space dest src m = Some (dest', length (bounded_word (unat m) (cstr src))) \<and>
    cstr dest' = bounded_word (unat m) (cstr src)"
proof -
  let ?stop = "\<lambda>c. c = NUL \<or> is_blank c"
  have w: "takeWhile (\<lambda>c. c \<noteq> NUL \<and> \<not> is_blank c) src = takeWhile (\<lambda>c. \<not> is_blank c) (cstr src)"
    by (induction src) (auto simp: cstr_def)
  have "\<exists>x \<in> set src. ?stop x" using assms(1) by (auto simp: is_cstring_def)
  from copy_then_terminate [OF this _ assms(2,3) refl] show ?thesis
    by (auto simp: string_copy_until_space_def assms(3) bounded_word_def w)
qed

function words :: "string \<Rightarrow> string list" where
  "words s = (let t = dropWhile is_blank s
     in if t = [] then [] else takeWhile (\<lambda>c. \<not> is_blank c) t # words (dropWhile (\<lambda>c. \<not> is_blank c) t))"
  by pat_completeness auto

termination
proof (relation "measure length")
  fix s t :: string assume t: "t = dropWhile is_blank s" "t \<noteq> []"
  then have "length t \<le> length s" "\<not> is_blank (hd t)" by (simp_all add: length_dropWhile_le hd_dropWhile)
  with t(2) have "length (dropWhile (\<lambda>c. \<not> is_blank c) t) < length s"
    using length_dropWhile_le [of "\<lambda>c. \<not> is_blank c" "tl t"] by (cases t) auto
  then show "(dropWhile (\<lambda>c. \<not> is_blank c) t, s) \<in> measure length" by simp
qed simp

declare words.simps [simp del]

function chunks :: "string \<Rightarrow> string list" where
  "chunks w = (if w = [] then [] else take 63 w # chunks (drop 63 w))"
  by pat_completeness auto

termination by (relation "measure length") auto

declare chunks.simps [simp del]

text \<open>The arguments of a line: its words, those of more than 63 characters in pieces.\<close>

definition pieces :: "string \<Rightarrow> string list" where
  "pieces line = concat (map chunks (words line))"

lemma words_Nil [simp]: "words [] = []" "words (dropWhile is_blank s) = words s"
  by (simp_all add: words.simps [of "[]"] words.simps [of "dropWhile is_blank s"] words.simps [of s])

lemma words_Cons: "\<not> is_blank c \<Longrightarrow> words (c # s) =
    takeWhile (\<lambda>c. \<not> is_blank c) (c # s) # words (dropWhile (\<lambda>c. \<not> is_blank c) (c # s))"
  by (simp add: words.simps [of "c # s"])

lemma bounded_word_Nil: "\<not> is_blank c \<Longrightarrow> bounded_word 64 (c # s) \<noteq> []"
  by (simp add: bounded_word_def)

lemma pieces_step:
  assumes "s \<noteq> []" "\<not> is_blank (hd s)"
  shows "pieces s = bounded_word 64 s # pieces (dropWhile is_blank (drop (length (bounded_word 64 s)) s))"
proof -
  define w r where "w = takeWhile (\<lambda>c. \<not> is_blank c) s" and "r = dropWhile (\<lambda>c. \<not> is_blank c) s"
  have s: "s = w @ r" "w \<noteq> []" "words s = w # words r"
    using assms words_Cons [of "hd s" "tl s"] by (auto simp: w_def r_def takeWhile_eq_Nil_iff)
  have bw: "bounded_word 64 s = take 63 w" by (simp add: bounded_word_def w_def)
  show ?thesis
  proof (cases "length w \<le> 63")
    case True
    then have "chunks w = [w]" using s(2) by (simp add: chunks.simps [of w] chunks.simps [of "[]"])
    moreover have "drop (length (take 63 w)) s = r" using True by (simp add: s(1))
    ultimately show ?thesis using True by (simp add: bw pieces_def s(3))
  next
    case False
    let ?w = "drop 63 w"
    have nb: "\<forall>c \<in> set w. \<not> is_blank c" by (auto simp: w_def dest: set_takeWhileD)
    have w: "?w \<noteq> []" "\<forall>c \<in> set ?w. \<not> is_blank c" using False nb by (auto dest: in_set_dropD)
    have "r = [] \<or> is_blank (hd r)" using hd_dropWhile [of "\<lambda>c. \<not> is_blank c" s] by (auto simp: r_def)
    then have t: "takeWhile (\<lambda>c. \<not> is_blank c) (?w @ r) = ?w" "dropWhile (\<lambda>c. \<not> is_blank c) (?w @ r) = r"
      using w(2) by (cases r; auto simp: takeWhile_append dropWhile_append)+
    have "hd ?w \<in> set ?w" using w(1) by (rule hd_in_set)
    then have "words (?w @ r) = ?w # words r"
      using words_Cons [of "hd ?w" "tl ?w @ r"] t w by (cases ?w) auto
    moreover have "dropWhile is_blank (?w @ r) = ?w @ r" using w by (cases ?w) auto
    moreover have "drop (length (take 63 w)) s = ?w @ r" using False by (simp add: s(1))
    ultimately show ?thesis using s(2) by (simp add: bw pieces_def s(3) chunks.simps [of w])
  qed
qed

lemma argument_loop_pieces:
  assumes "cursor = [] \<or> \<not> is_blank (hd cursor)" "length (argv p) = 8" "argc p \<le> 8"
  shows "argument_loop cursor p =
    (let new = take (8 - unat (argc p)) (pieces cursor)
     in p\<lparr>argv := take (unat (argc p)) (argv p) @ new @ drop (unat (argc p) + length new) (argv p),
          argc := argc p + of_nat (length new)\<rparr>)"
  using assms
proof (induction cursor p rule: argument_loop.induct)
  case (1 cursor p)
  show ?case
  proof (cases "cursor \<noteq> [] \<and> argc p < 8")
    case False
    moreover have "unat (argc p) = 8" if "\<not> argc p < 8" using that 1(4) by (simp add: word_less_nat_alt word_le_nat_alt)
    ultimately have new: "take (8 - unat (argc p)) (pieces cursor) = []" by (auto simp: pieces_def)
    have "argument_loop cursor p = p" using False by (subst argument_loop.simps) auto
    then show ?thesis unfolding new Let_def by simp
  next
    case True
    let ?b = "bounded_word 64 cursor" and ?a = "unat (argc p)"
    let ?c = "dropWhile is_blank (drop (length ?b) cursor)"
    let ?p = "p\<lparr>argv := (argv p)[?a := ?b], argc := argc p + 1\<rparr>"
    have b: "?b \<noteq> []" using bounded_word_Nil [of "hd cursor" "tl cursor"] 1(2) True by auto
    have a: "?a < 8" "unat (argc p + 1) = ?a + 1" "argc p + 1 \<le> 8"
      using True by (auto simp: word_less_nat_alt word_le_nat_alt unat_word_ariths(1))
    have IH: "argument_loop ?c ?p = (let new = take (8 - (?a + 1)) (pieces ?c)
       in ?p\<lparr>argv := take (?a + 1) (argv ?p) @ new @ drop (?a + 1 + length new) (argv ?p),
          argc := argc p + 1 + of_nat (length new)\<rparr>)"
      using 1(1) [OF _ refl b] True 1(3) a hd_dropWhile [of is_blank "drop (length ?b) cursor"] by auto
    have l: "argument_loop cursor p = argument_loop ?c ?p"
      using True b by (simp add: argument_loop.simps [of cursor p] Let_def)
    have "take (8 - ?a) (pieces cursor) = ?b # take (8 - (?a + 1)) (pieces ?c)"
    proof -
      have "8 - ?a = Suc (8 - (?a + 1))" using a(1) by simp
      then show ?thesis using pieces_step [of cursor] True 1(2) by (metis take_Suc_Cons)
    qed
    moreover have "take (?a + 1) ((argv p)[?a := ?b]) = take ?a (argv p) @ [?b]"
      using a(1) 1(3) by (simp add: take_Suc_conv_app_nth)
    ultimately show ?thesis using l IH by (simp add: Let_def add.commute add.left_commute)
  qed
qed

section \<open>The invariant of the table\<close>

definition file_entry_ok :: "process_file \<Rightarrow> bool" where
  "file_entry_ok f \<longleftrightarrow>
     (if used f then (case file_node f of None \<Rightarrow> False | Some node \<Rightarrow> vn_type node = VFS_NODE_FILE) else f = no_file)"

text \<open>Every array of a process has its length, every string fits in its buffer, and the entries
  of the open files below the first usable one stay closed.\<close>

definition process_ok :: "process \<Rightarrow> bool" where
  "process_ok p \<longleftrightarrow> length (proc_name p) < 32 \<and> length (image_path p) < 64 \<and> length (arguments p) < 128 \<and>
     length (argv p) = 8 \<and> list_all (\<lambda>a. length a < 64) (argv p) \<and> argc p \<le> 8 \<and>
     length (files p) = 16 \<and> list_all file_entry_ok (files p) \<and> list_all (\<lambda>f. f = no_file) (take 3 (files p)) \<and>
     (if state p = PROCESS_UNUSED then pid p = 0 \<and> argc p = 0 else 1 \<le> argc p)"

definition used_processes :: "'a process_manager_scheme \<Rightarrow> nat" where
  "used_processes s = length (filter (\<lambda>p. state p \<noteq> PROCESS_UNUSED) (process_table s))"

definition running :: "'a process_manager_scheme \<Rightarrow> nat \<Rightarrow> bool" where
  "running s i \<longleftrightarrow> i < length (process_table s) \<and> state (process_table s ! i) = PROCESS_RUNNING"

definition table_ok :: "'a process_manager_scheme \<Rightarrow> bool" where
  "table_ok s \<longleftrightarrow> length (process_table s) = 16 \<and> list_all process_ok (process_table s) \<and>
     process_count s = of_nat (used_processes s) \<and>
     (case current_process s of
        None \<Rightarrow> \<forall>i < 16. \<not> running s i
      | Some c \<Rightarrow> c < 16 \<and> state (process_table s ! c) \<in> {PROCESS_RUNNING, PROCESS_EXITED} \<and>
          (\<forall>i < 16. running s i \<longrightarrow> i = c))"

text \<open>The numbers of the used processes; they repeat only after the counter has wrapped.\<close>

definition pids_ok :: "'a process_manager_scheme \<Rightarrow> bool" where
  "pids_ok s \<longleftrightarrow> 0 < next_pid s \<and>
     (\<forall>i < 16. state (process_table s ! i) \<noteq> PROCESS_UNUSED \<longrightarrow>
        0 < pid (process_table s ! i) \<and> pid (process_table s ! i) < next_pid s) \<and>
     (\<forall>i < 16. \<forall>j < 16. state (process_table s ! i) \<noteq> PROCESS_UNUSED \<longrightarrow> state (process_table s ! j) \<noteq> PROCESS_UNUSED \<longrightarrow>
        pid (process_table s ! i) = pid (process_table s ! j) \<longrightarrow> i = j)"

definition same_machine :: "'a process_manager_scheme \<Rightarrow> 'a process_manager_scheme \<Rightarrow> bool" where
  "same_machine s t \<longleftrightarrow> vm t = vm s \<and> ring3_info t = ring3_info s \<and> gdt t = gdt s \<and> vfs_root t = vfs_root s \<and>
     vi_initialized (vfs_info t) = vi_initialized (vfs_info s) \<and>
     fb_initialized (flat_binary_info t) = fb_initialized (flat_binary_info s) \<and>
     ei_initialized (elf32_info t) = ei_initialized (elf32_info s) \<and>
     fd_initialized (fd_table_info t) = fd_initialized (fd_table_info s) \<and>
     process_manager.more t = process_manager.more s"

text \<open>The relation of an operation that changes no state and no number of a process.\<close>

definition quiet :: "'a process_manager_scheme \<Rightarrow> 'a process_manager_scheme \<Rightarrow> bool" where
  "quiet s t \<longleftrightarrow> same_machine s t \<and> (table_ok s \<longrightarrow> table_ok t) \<and> (pids_ok s \<longrightarrow> pids_ok t) \<and>
     current_process t = current_process s \<and> next_pid t = next_pid s \<and>
     map state (process_table t) = map state (process_table s) \<and> map pid (process_table t) = map pid (process_table s)"

lemma quiet_refl [simp]: "quiet s s"
  by (simp add: quiet_def same_machine_def)

lemma quiet_trans [trans]: "quiet s t \<Longrightarrow> quiet t u \<Longrightarrow> quiet s u"
  by (simp add: quiet_def same_machine_def)

lemma filter_list_update:
  assumes "i < length xs"
  shows "length (filter P (xs[i := x])) + (if P (xs ! i) then 1 else 0) =
     length (filter P xs) + (if P x then 1 else 0)"
proof -
  have "length (filter P xs) = length (filter P (take i xs @ xs ! i # drop (Suc i) xs))"
    using assms by (simp flip: id_take_nth_drop)
  then show ?thesis using assms by (simp add: upd_conv_take_nth_drop)
qed

lemma table_ok_info [simp]:
  "table_ok (process_info_update f s) = table_ok s" "table_ok (fd_table_info_update g s) = table_ok s"
  "table_ok (vm_update k s) = table_ok s" "table_ok (user_image_info_update l s) = table_ok s"
  "table_ok (vfs_info_update d s) = table_ok s" "table_ok (ring3_info_update r s) = table_ok s"
  "table_ok (gdt_update e s) = table_ok s"
  "pids_ok (process_info_update f s) = pids_ok s" "pids_ok (fd_table_info_update g s) = pids_ok s"
  "pids_ok (vm_update k s) = pids_ok s" "pids_ok (user_image_info_update l s) = pids_ok s"
  "pids_ok (vfs_info_update d s) = pids_ok s" "pids_ok (ring3_info_update r s) = pids_ok s"
  "pids_ok (gdt_update e s) = pids_ok s"
  "pids_ok (process_count_update h s) = pids_ok s" "used_processes (process_info_update f s) = used_processes s"
  "used_processes (process_count_update h s) = used_processes s"
  by (simp_all add: table_ok_def pids_ok_def used_processes_def running_def cong: option.case_cong)

lemma quiet_info [simp]:
  "quiet s (process_info_update f t) = quiet s t" "quiet (process_info_update f s) t = quiet s t"
  "quiet s (user_image_info_update h t) = quiet s t" "quiet (user_image_info_update h s) t = quiet s t"
  "(\<And>d. fd_initialized (g d) = fd_initialized d) \<Longrightarrow> quiet s (fd_table_info_update g t) = quiet s t"
  "(\<And>d. fd_initialized (g d) = fd_initialized d) \<Longrightarrow> quiet (fd_table_info_update g s) t = quiet s t"
  by (simp_all add: quiet_def same_machine_def)

lemma quiet_update_process:
  assumes "process_ok (process_table s ! i) \<Longrightarrow> process_ok (f (process_table s ! i))"
    "state (f (process_table s ! i)) = state (process_table s ! i)" "pid (f (process_table s ! i)) = pid (process_table s ! i)"
  shows "quiet s (update_process i f s)"
proof (cases "i < length (process_table s)")
  case True
  let ?p = "process_table s ! i" and ?used = "\<lambda>p. state p \<noteq> PROCESS_UNUSED"
  let ?t = "update_process i f s"
  have tab: "process_table ?t = (process_table s)[i := f ?p]" by (simp add: update_process_def)
  have st: "state (process_table ?t ! j) = state (process_table s ! j)" for j
    using assms(2) by (cases "j = i") (auto simp: tab True)
  have u: "used_processes ?t = used_processes s"
    using filter_list_update [OF True, of ?used "f ?p"] assms(2) by (auto simp: used_processes_def tab split: if_splits)
  have r: "running ?t = running s" by (rule ext) (simp add: running_def st, simp add: tab)
  have a: "list_all process_ok (process_table s) \<Longrightarrow> list_all process_ok (process_table ?t)"
    using assms(1) True by (auto simp: tab list_all_iff dest!: set_update_subset_insert [THEN subsetD])
  have m: "map state (process_table ?t) = map state (process_table s)" "map pid (process_table ?t) = map pid (process_table s)"
    by (simp_all add: tab map_update assms True list_update_same_conv)
  have p: "pid (process_table ?t ! j) = pid (process_table s ! j)" for j
    using assms(3) by (cases "j = i") (auto simp: tab True)
  have k: "current_process ?t = current_process s" "next_pid ?t = next_pid s" "process_count ?t = process_count s"
    "length (process_table ?t) = length (process_table s)" "same_machine s ?t"
    by (simp_all add: update_process_def same_machine_def)
  have "table_ok s \<longrightarrow> table_ok ?t"
    unfolding table_ok_def k u r st using a by simp
  moreover have "pids_ok s \<longrightarrow> pids_ok ?t"
    unfolding pids_ok_def k st p by simp
  ultimately show ?thesis using k m by (simp add: quiet_def)
qed (simp add: update_process_def list_update_beyond)

lemma nested_pair: obtains a b c where "x = ((a, b), c)"
  by (metis prod.exhaust)

lemma vfs_lookup_some: "vfs_lookup path s = ((KERNEL_OK, node), t) \<Longrightarrow> node \<noteq> None"
proof -
  assume l: "vfs_lookup path s = ((KERNEL_OK, node), t)"
  have w: "vfs_walk n p = (KERNEL_OK, None) \<Longrightarrow> False" for n p
    using resolve_status [of n "path_components p"] by (simp add: vfs_walk_resolve)
  show ?thesis using l w
    by (auto simp: vfs_lookup_def Let_def vfs_set_last_status_def split: option.splits if_splits prod.splits) metis
qed

lemma quiet_lookup: "vfs_lookup path s = (res, t) \<Longrightarrow> quiet s t"
  using vfs_lookup_frame [of path s]
  by (cases s; cases t) (auto simp: quiet_def same_machine_def table_ok_def pids_ok_def used_processes_def running_def
      cong: option.case_cong)

lemma quiet_read_node: "vfs_read_node node offset len s = (res, t) \<Longrightarrow> quiet s t"
  using vfs_read_node_frame [of node offset len s]
  by (cases s; cases t) (auto simp: quiet_def same_machine_def table_ok_def pids_ok_def used_processes_def running_def
      cong: option.case_cong)

lemma file_entry_ok_simps [simp]: "file_entry_ok no_file" "list_all (\<lambda>f. f = no_file) (replicate n no_file)"
  by (simp_all add: file_entry_ok_def no_file_def list_all_iff)

lemma process_ok_file:
  "process_ok p \<Longrightarrow> 3 \<le> fd \<Longrightarrow> file_entry_ok e \<Longrightarrow> process_ok (files_update (\<lambda>fs. fs[fd := e]) p)"
  by (auto simp: process_ok_def list_all_iff take_update_cancel dest!: set_update_subset_insert [THEN subsetD])

lemma allocate_slot_range: "fd_table_allocate_slot p = (status, Some fd) \<Longrightarrow> 3 \<le> fd \<and> fd < 16 \<and> \<not> used (files p ! fd)"
  by (auto simp: fd_table_allocate_slot_def find_Some_iff simp del: upt_rec_numeral split: option.splits)

lemma fd_open_quiet: "fd_table_open_current path flags s = (res, t) \<Longrightarrow> quiet s t"
proof -
  assume o: "fd_table_open_current path flags s = (res, t)"
  show ?thesis
  proof (cases "fd_initialized (fd_table_info s) \<and> current_process s \<noteq> None \<and> path \<noteq> None")
    case False
    then show ?thesis using o by (auto simp: fd_table_open_current_def Let_def split: if_splits option.splits)
  next
    case True
    then obtain i p where ip: "current_process s = Some i" "path = Some p" by auto
    let ?s = "fd_table_info_update (\<lambda>d. d\<lparr>open_attempts := open_attempts d + 1, last_fd := FD_INVALID,
            fd_last_path := bounded_copy VFS_PATH_MAX p\<rparr>) s"
    obtain status node s1 where l: "vfs_lookup (Some p) ?s = ((status, node), s1)" by (meson nested_pair)
    have q: "quiet s s1" using quiet_lookup [OF l] by simp
    obtain st fd where a: "fd_table_allocate_slot (process_table s1 ! i) = (st, fd)" by fastforce
    show ?thesis
    proof (cases "status = KERNEL_OK \<and> vn_type (the node) = VFS_NODE_FILE \<and> fd \<noteq> None")
      case False
      have "t = fd_table_info_update (\<lambda>d. d\<lparr>failed_opens := failed_opens d + 1, fd_last_status := status\<rparr>) s1" if "status \<noteq> KERNEL_OK"
        using o True ip l that by (simp add: fd_table_open_current_def Let_def)
      moreover have "t = fd_table_info_update (\<lambda>d. d\<lparr>failed_opens := failed_opens d + 1, fd_last_status := KERNEL_ERROR_INVALID_STATE\<rparr>) s1"
        if "status = KERNEL_OK" "vn_type (the node) \<noteq> VFS_NODE_FILE"
        using o True ip l that by (simp add: fd_table_open_current_def Let_def)
      moreover have "t = fd_table_info_update (\<lambda>d. d\<lparr>failed_opens := failed_opens d + 1, fd_last_status := st\<rparr>) s1"
        if "status = KERNEL_OK" "vn_type (the node) = VFS_NODE_FILE" "fd = None"
        using o True ip l a that by (simp add: fd_table_open_current_def Let_def)
      ultimately have "\<exists>st. t = fd_table_info_update (\<lambda>d. d\<lparr>failed_opens := failed_opens d + 1, fd_last_status := st\<rparr>) s1"
        using False by blast
      then show ?thesis using q by auto
    next
      case c: True
      then obtain n where n: "fd = Some n" by auto
      let ?e = "\<lparr>used = True, file_node = node, file_offset = 0, file_flags = flags\<rparr>"
      have nd: "node \<noteq> None" using l c vfs_lookup_some by blast
      have "file_entry_ok ?e" using c nd by (auto simp: file_entry_ok_def)
      then have "quiet s1 (update_process i (files_update (\<lambda>fs. fs[n := ?e])) s1)"
        using allocate_slot_range [OF a [unfolded n]] by (intro quiet_update_process process_ok_file) simp_all
      with q have "quiet s (update_process i (files_update (\<lambda>fs. fs[n := ?e])) s1)" by (rule quiet_trans)
      then show ?thesis using o True ip l a c n by (auto simp: fd_table_open_current_def Let_def)
    qed
  qed
qed

lemma fd_is_open_range: "fd_is_open fd p \<Longrightarrow> 3 \<le> unat fd \<and> unat fd < 16 \<and> used (files p ! unat fd)"
  by (auto simp: fd_is_open_def word_less_nat_alt word_le_nat_alt)

lemma fd_read_quiet: "fd_table_read_current fd len s = (res, t) \<Longrightarrow> quiet s t"
proof -
  assume o: "fd_table_read_current fd len s = (res, t)"
  show ?thesis
  proof (cases "\<exists>i. fd_initialized (fd_table_info s) \<and> current_process s = Some i \<and> fd_is_open fd (process_table s ! i) \<and>
      \<not> (file_node (files (process_table s ! i) ! unat fd) = None \<or>
         vn_type (the (file_node (files (process_table s ! i) ! unat fd))) \<noteq> VFS_NODE_FILE)")
    case False
    then show ?thesis using o
      by (auto simp: fd_table_read_current_def Let_def split: if_splits option.splits)
  next
    case True
    then obtain i where i: "fd_initialized (fd_table_info s)" "current_process s = Some i" "fd_is_open fd (process_table s ! i)"
      "file_node (files (process_table s ! i) ! unat fd) \<noteq> None"
      "vn_type (the (file_node (files (process_table s ! i) ! unat fd))) = VFS_NODE_FILE" by auto
    let ?e = "files (process_table s ! i) ! unat fd"
    let ?s = "fd_table_info_update (\<lambda>d. d\<lparr>fd_read_attempts := fd_read_attempts d + 1, last_fd := fd\<rparr>) s"
    obtain status data s1 where l: "vfs_read_node (file_node ?e) (file_offset ?e) len ?s = ((status, data), s1)"
      by (meson nested_pair)
    have q: "quiet s s1" using quiet_read_node [OF l] by simp
    let ?f = "files_update (\<lambda>fs. fs[unat fd := ?e\<lparr>file_offset := file_offset ?e + of_nat (length data)\<rparr>])"
    have "file_entry_ok (?e\<lparr>file_offset := file_offset ?e + of_nat (length data)\<rparr>)"
      using i fd_is_open_range [OF i(3)] by (auto simp: file_entry_ok_def)
    then have "quiet s1 (update_process i ?f s1)"
      using fd_is_open_range [OF i(3)] by (intro quiet_update_process process_ok_file) simp_all
    with q have "quiet s (update_process i ?f s1)" by (rule quiet_trans)
    moreover have "(\<exists>status. t = fd_table_info_update (\<lambda>d. d\<lparr>failed_reads := failed_reads d + 1, fd_last_status := status\<rparr>) s1) \<or>
        t = fd_table_info_update (\<lambda>d. d\<lparr>successful_reads := successful_reads d + 1, fd_last_status := KERNEL_OK\<rparr>)
          (update_process i ?f s1)"
      using o i l by (cases "status = KERNEL_OK") (simp_all add: fd_table_read_current_def Let_def, blast+)
    ultimately show ?thesis using q by auto
  qed
qed

lemma fd_read_length: "fd_table_read_current fd len s = ((status, data), t) \<Longrightarrow> length data \<le> 512"
proof -
  have "length data \<le> 512" if "vfs_read_node node offset len u = ((st, data), w)" for node offset len st data
    and u w :: "'a process_manager_scheme"
    using that by (auto simp: vfs_read_node_def Let_def word_less_nat_alt split: option.splits if_splits)
  then show "fd_table_read_current fd len s = ((status, data), t) \<Longrightarrow> length data \<le> 512"
    by (auto simp: fd_table_read_current_def Let_def split: option.splits if_splits prod.splits)
qed

lemma fd_close_quiet: "fd_table_close_current fd s = (res, t) \<Longrightarrow> quiet s t"
proof -
  assume o: "fd_table_close_current fd s = (res, t)"
  have "quiet u (update_process i (files_update (\<lambda>fs. fs[unat fd := no_file])) u)" if "fd_is_open fd (process_table s ! i)"
    for i and u :: "'a process_manager_scheme"
    using fd_is_open_range [OF that] by (intro quiet_update_process process_ok_file) simp_all
  then show ?thesis using o
    by (auto simp: fd_table_close_current_def Let_def update_process_def split: if_splits option.splits)
qed

definition fresh_process :: "u32 \<Rightarrow> string \<Rightarrow> u32 \<Rightarrow> u32 \<Rightarrow> process" where
  "fresh_process n name entry_point stack =
     \<lparr>pid = n, proc_name = bounded_copy 32 name, state = PROCESS_READY, entry = entry_point, user_stack = stack,
      image_path = [], exit_code = 0, proc_last_status = KERNEL_OK, proc_runs = 0, argc = 1, arguments = [],
      argv = bounded_copy 32 name # replicate 7 [], files = replicate 16 no_file\<rparr>"

lemma fresh_process_ok: "process_ok (fresh_process n name entry_point stack)"
  by (simp add: process_ok_def fresh_process_def bounded_copy_def list_all_iff min_less_iff_disj)

lemma reset_slot_ok: "process_ok (process_reset_slot p)" "state (process_reset_slot p) = PROCESS_UNUSED"
  by (simp_all add: process_ok_def process_reset_slot_def fd_table_initialize_process_def
      process_clear_arguments_def list_all_iff)

text \<open>Replacing a slot that is not the current one.\<close>

lemma table_ok_slot:
  assumes "table_ok s" "i < 16" "process_ok p" "state p \<noteq> PROCESS_RUNNING" "current_process s \<noteq> Some i"
    and "process_table t = (process_table s)[i := p]" "current_process t = current_process s"
    and "process_count t = of_nat (used_processes t)"
  shows "table_ok t"
proof -
  have n: "length (process_table s) = 16" using assms(1) by (simp add: table_ok_def)
  have "running t j \<longleftrightarrow> running s j \<and> j \<noteq> i" for j
    using assms(2,4,6) n by (cases "j = i") (auto simp: running_def)
  moreover have "state (process_table t ! c) = state (process_table s ! c)" if "current_process s = Some c" for c
    using assms(5,6) that by auto
  moreover have "list_all process_ok (process_table t)"
    using assms(1,3,6) by (auto simp: table_ok_def list_all_iff dest!: set_update_subset_insert [THEN subsetD])
  ultimately show ?thesis
    using assms(1,6,7,8) by (auto simp: table_ok_def split: option.splits)
qed

lemma used_processes_slot:
  assumes "i < length (process_table s)" "process_table t = (process_table s)[i := p]"
  shows "used_processes t + (if state (process_table s ! i) \<noteq> PROCESS_UNUSED then 1 else 0) =
    used_processes s + (if state p \<noteq> PROCESS_UNUSED then 1 else 0)"
  unfolding used_processes_def assms(2) by (rule filter_list_update [OF assms(1)])

lemma process_create_cases:
  assumes "process_create name entry_point stack s = ((status, out), t)"
  obtains (failed) "status \<noteq> KERNEL_OK" "out = None" "quiet s t"
  | (created) n i where "status = KERNEL_OK" "name = Some n" "entry_point \<noteq> 0" "stack \<noteq> 0" "out = Some i" "i < 16"
    "state (process_table s ! i) = PROCESS_UNUSED"
    "process_table t = (process_table s)[i := fresh_process (next_pid s) n entry_point stack]"
    "next_pid t = next_pid s + 1" "current_process t = current_process s" "process_count t = process_count s + 1"
    "same_machine s t"
proof (cases "\<exists>n i. name = Some n \<and> entry_point \<noteq> 0 \<and> stack \<noteq> 0 \<and> process_find_free_slot s = Some i")
  case False
  have f: "process_find_free_slot (process_info_update g s) = process_find_free_slot s" for g
    by (simp add: process_find_free_slot_def)
  have "status \<noteq> KERNEL_OK \<and> out = None \<and> quiet s t"
    using assms False by (auto simp: process_create_def Let_def f split: option.splits if_splits)
  then show thesis using failed by blast
next
  case True
  then obtain n i where n: "name = Some n" "entry_point \<noteq> 0" "stack \<noteq> 0" "process_find_free_slot s = Some i" by blast
  have i: "i < 16" "state (process_table s ! i) = PROCESS_UNUSED"
    using n(4) by (auto simp: process_find_free_slot_def find_Some_iff simp del: upt_rec_numeral)
  have f: "process_find_free_slot (process_info_update g s) = process_find_free_slot s" for g
    by (simp add: process_find_free_slot_def)
  have "replicate 8 [] = ([] :: string) # replicate 7 []" by (simp add: numeral_eq_Suc)
  then have "process_table t = (process_table s)[i := fresh_process (next_pid s) n entry_point stack] \<and>
     status = KERNEL_OK \<and> out = Some i \<and> next_pid t = next_pid s + 1 \<and> current_process t = current_process s \<and>
     process_count t = process_count s + 1 \<and> same_machine s t"
    using assms n f
    by (cases "process_table s ! i")
      (auto simp: process_create_def Let_def update_process_def name_as_argument_def process_clear_arguments_def
        fd_table_initialize_process_def fresh_process_def bounded_copy_def same_machine_def)
  then show thesis using created n i by blast
qed

lemma process_create_ok:
  assumes "table_ok s" "process_create name entry_point stack s = ((status, out), t)"
  shows "table_ok t" "same_machine s t" "current_process t = current_process s"
    "pids_ok s \<Longrightarrow> next_pid s \<le> next_pid t \<Longrightarrow> pids_ok t"
    "next_pid t = next_pid s \<or> next_pid t = next_pid s + 1"
proof -
  have "table_ok t \<and> same_machine s t \<and> current_process t = current_process s \<and>
    (pids_ok s \<longrightarrow> next_pid s \<le> next_pid t \<longrightarrow> pids_ok t) \<and> (next_pid t = next_pid s \<or> next_pid t = next_pid s + 1)"
    using assms(2)
  proof (cases rule: process_create_cases)
    case failed
    then show ?thesis using assms(1) by (simp add: quiet_def)
  next
    case (created n i)
    let ?p = "fresh_process (next_pid s) n entry_point stack"
    have len: "length (process_table s) = 16" "process_count s = of_nat (used_processes s)"
      using assms(1) by (simp_all add: table_ok_def)
    have p: "state ?p = PROCESS_READY" "pid ?p = next_pid s" by (simp_all add: fresh_process_def)
    have c: "current_process s \<noteq> Some i"
      using created(6,7) assms(1) by (auto simp: table_ok_def)
    have "used_processes t = used_processes s + 1"
      using used_processes_slot [of i s t ?p] created(6-8) len p by simp
    then have "table_ok t"
      using assms(1) created(6,8,10,11) fresh_process_ok p c len by (intro table_ok_slot [of s i ?p t]) simp_all
    moreover have "pids_ok t" if "pids_ok s" "next_pid s \<le> next_pid t"
    proof -
      have "next_pid s < next_pid s + 1" using that(2) created(9) by (simp add: order_less_le)
      then show ?thesis
        using that created(6-9) len p
        by (auto simp: pids_ok_def nth_list_update intro: less_trans split: if_splits)
    qed
    ultimately show ?thesis using created by simp
  qed
  then show "table_ok t" "same_machine s t" "current_process t = current_process s"
    "pids_ok s \<Longrightarrow> next_pid s \<le> next_pid t \<Longrightarrow> pids_ok t"
    "next_pid t = next_pid s \<or> next_pid t = next_pid s + 1" by simp_all
qed

lemma configure_image_path_quiet: "process_configure_image_path process path s = (status, t) \<Longrightarrow> quiet s t"
  by (auto simp: process_configure_image_path_def process_ok_def bounded_copy_def min_less_iff_disj
      split: option.splits intro!: quiet_update_process)

lemma pieces_bounds: "a \<in> set (pieces line) \<Longrightarrow> a \<noteq> [] \<and> length a < 64"
proof -
  have "a \<noteq> [] \<and> length a < 64" if "a \<in> set (chunks w)" for w
    using that by (induction w rule: chunks.induct) (subst (asm) (2) chunks.simps, auto split: if_splits)
  then show "a \<in> set (pieces line) \<Longrightarrow> a \<noteq> [] \<and> length a < 64" by (auto simp: pieces_def)
qed

lemma argument_loop_ok:
  assumes "cursor = [] \<or> \<not> is_blank (hd cursor)" "process_ok p" "state p \<noteq> PROCESS_UNUSED"
  shows "process_ok (argument_loop cursor p)" "state (argument_loop cursor p) = state p" "pid (argument_loop cursor p) = pid p"
proof -
  let ?new = "take (8 - unat (argc p)) (pieces cursor)"
  have p: "length (argv p) = 8" "argc p \<le> 8" "1 \<le> argc p" using assms(2,3) by (simp_all add: process_ok_def)
  note l = argument_loop_pieces [OF assms(1) p(1,2), unfolded Let_def]
  have n: "unat (argc p) + length ?new \<le> 8" using p(2) by (simp add: word_le_nat_alt)
  then have u: "unat (argc p + of_nat (length ?new)) = unat (argc p) + length ?new"
    by (simp add: unat_word_ariths(1) unat_of_nat take_bit_nat_eq_self)
  have "list_all (\<lambda>a. length a < 64) ?new" using pieces_bounds by (auto simp: list_all_iff dest: in_set_takeD)
  moreover have "list_all (\<lambda>a. length a < 64) (argv p)" using assms(2) by (simp add: process_ok_def)
  ultimately have "list_all (\<lambda>a. length a < 64) (take (unat (argc p)) (argv p) @ ?new @ drop (unat (argc p) + length ?new) (argv p))"
    by (auto simp: list_all_iff dest: in_set_takeD in_set_dropD)
  moreover have u': "length (take (unat (argc p)) (argv p)) = unat (argc p)" using p by (simp add: word_le_nat_alt)
  moreover have "argc p + of_nat (length ?new) \<le> 8" "1 \<le> argc p + of_nat (length ?new)"
    using n p(3) by (simp_all only: word_le_nat_alt u) simp_all
  ultimately show "process_ok (argument_loop cursor p)"
    using assms(2,3) p n u' unfolding l by (simp add: process_ok_def del: length_take)
  show "state (argument_loop cursor p) = state p" "pid (argument_loop cursor p) = pid p" by (simp_all add: l)
qed

lemma name_as_argument_ok:
  assumes "process_ok p" "state p \<noteq> PROCESS_UNUSED"
  shows "process_ok (name_as_argument p)" "state (name_as_argument p) = state p" "pid (name_as_argument p) = pid p"
  using assms by (auto simp: process_ok_def name_as_argument_def Let_def process_clear_arguments_def bounded_copy_def
      list_all_iff dest!: set_update_subset_insert [THEN subsetD])

lemma configured_ok:
  assumes "process_ok p" "state p \<noteq> PROCESS_UNUSED"
  shows "process_ok (configured args p) \<and> state (configured args p) = state p \<and> pid (configured args p) = pid p"
proof (cases "args = None \<or> dropWhile is_blank (the args) = []")
  case True
  then show ?thesis using name_as_argument_ok [OF assms] by (auto simp: configured_def Let_def split: option.splits)
next
  case False
  then obtain a where a: "args = Some a" "dropWhile is_blank a \<noteq> []"
    by (cases args) (auto simp del: dropWhile_eq_Nil_conv)
  let ?line = "bounded_copy 128 (dropWhile is_blank a)"
  let ?q = "(name_as_argument p)\<lparr>arguments := ?line\<rparr>"
  have q: "process_ok ?q" "state ?q = state p" "pid ?q = pid p"
    using name_as_argument_ok [OF assms] by (auto simp: process_ok_def bounded_copy_def)
  have "dropWhile is_blank ?line = [] \<or> \<not> is_blank (hd (dropWhile is_blank ?line))"
    using hd_dropWhile [of is_blank ?line] by auto
  from argument_loop_ok [OF this q(1)] show ?thesis
    using a q assms(2) by (simp add: configured_def Let_def del: dropWhile_eq_Nil_conv)
qed

lemma configure_arguments_quiet:
  assumes "state (process_table s ! i) \<noteq> PROCESS_UNUSED" "table_ok s" "i < 16"
    "process_configure_arguments (Some i) args s = (status, t)"
  shows "quiet s t"
proof -
  have "process_ok (process_table s ! i)" using assms(2,3) by (auto simp: table_ok_def list_all_iff)
  from configured_ok [OF this assms(1)] show ?thesis
    using assms(4) by (auto simp: process_configure_arguments_def intro!: quiet_update_process)
qed

text \<open>Only the current process changes its state when it exits.\<close>

lemma process_mark_exit_ok:
  assumes "table_ok s"
  shows "table_ok (process_mark_exit code s)" "same_machine s (process_mark_exit code s)"
    "current_process (process_mark_exit code s) = current_process s" "next_pid (process_mark_exit code s) = next_pid s"
    "pids_ok s \<Longrightarrow> pids_ok (process_mark_exit code s)"
proof -
  let ?t = "process_mark_exit code s"
  have "table_ok ?t \<and> same_machine s ?t \<and> current_process ?t = current_process s \<and> next_pid ?t = next_pid s \<and>
    (pids_ok s \<longrightarrow> pids_ok ?t)"
  proof (cases "current_process s")
    case None
    then show ?thesis using assms by (simp add: process_mark_exit_def same_machine_def)
  next
    case (Some c)
    let ?p = "(process_table s ! c)\<lparr>exit_code := code, state := PROCESS_EXITED\<rparr>"
    have tab: "process_table ?t = (process_table s)[c := ?p]" and rest: "current_process ?t = current_process s"
      "next_pid ?t = next_pid s" "process_count ?t = process_count s" "same_machine s ?t"
      using Some by (simp_all add: process_mark_exit_def update_process_def Let_def same_machine_def)
    have c: "c < 16" "length (process_table s) = 16" "state (process_table s ! c) \<noteq> PROCESS_UNUSED"
      "list_all process_ok (process_table s)" using assms Some by (auto simp: table_ok_def)
    then have "process_ok ?p" by (auto simp: process_ok_def list_all_iff)
    then have "list_all process_ok (process_table ?t)"
      using c by (auto simp: tab list_all_iff dest!: set_update_subset_insert [THEN subsetD])
    moreover have "used_processes ?t = used_processes s" using used_processes_slot [OF _ tab] c by simp
    moreover have "running ?t j \<longleftrightarrow> running s j \<and> j \<noteq> c" for j
      by (cases "j = c") (auto simp: running_def tab c)
    moreover have "state (process_table ?t ! c) = PROCESS_EXITED" by (simp add: tab c)
    ultimately have "table_ok ?t" using assms Some c rest by (auto simp: table_ok_def tab)
    moreover have "pids_ok ?t" if "pids_ok s"
      using that c unfolding pids_ok_def rest tab by (auto simp: nth_list_update)
    ultimately show ?thesis using rest by simp
  qed
  then show "table_ok ?t" "same_machine s ?t" "current_process ?t = current_process s" "next_pid ?t = next_pid s"
    "pids_ok s \<Longrightarrow> pids_ok ?t" by simp_all
qed

text \<open>Clearing the slots one after the other.\<close>

lemma clear_slots:
  assumes "table_ok (s\<lparr>process_count := of_nat (used_processes s)\<rparr>)" "current_process s = None" "k \<le> 16"
    "fold clear_slot [0..<k] (0, s) = (cleared, t)"
  shows "table_ok (t\<lparr>process_count := of_nat (used_processes t)\<rparr>) \<and> current_process t = None \<and> same_machine s t \<and>
    next_pid t = next_pid s \<and> process_count t = process_count s \<and> (pids_ok s \<longrightarrow> pids_ok t) \<and>
    used_processes t + unat cleared = used_processes s \<and> unat cleared \<le> k \<and>
    (\<forall>j < 16. process_table t ! j = (if j < k \<and> state (process_table s ! j) \<in> {PROCESS_EXITED, PROCESS_FAILED}
       then process_reset_slot (process_table s ! j) else process_table s ! j))"
  using assms(3,4)
proof (induction k arbitrary: cleared t)
  case 0
  then show ?case using assms by (simp add: same_machine_def)
next
  case (Suc k)
  obtain n u where f: "fold clear_slot [0..<k] (0, s) = (n, u)" by fastforce
  have IH: "table_ok (u\<lparr>process_count := of_nat (used_processes u)\<rparr>)" "current_process u = None" "same_machine s u"
    "next_pid u = next_pid s" "process_count u = process_count s" "pids_ok s \<Longrightarrow> pids_ok u"
    "used_processes u + unat n = used_processes s" "unat n \<le> k"
    "\<forall>j < 16. process_table u ! j = (if j < k \<and> state (process_table s ! j) \<in> {PROCESS_EXITED, PROCESS_FAILED}
       then process_reset_slot (process_table s ! j) else process_table s ! j)"
    using Suc.IH [OF _ f] Suc.prems(1) by simp_all
  have step: "clear_slot k (n, u) = (cleared, t)" using Suc.prems(2) f by simp
  have len: "length (process_table u) = 16" using IH(1) by (simp add: table_ok_def)
  have k: "k < 16" "process_table u ! k = process_table s ! k" using Suc.prems(1) IH(9) by auto
  show ?case
  proof (cases "state (process_table u ! k) \<noteq> PROCESS_EXITED \<and> state (process_table u ! k) \<noteq> PROCESS_FAILED")
    case True
    then show ?thesis using step IH k by (auto simp: clear_slot_def less_Suc_eq)
  next
    case False
    let ?p = "process_reset_slot (process_table u ! k)"
    have t: "t = update_process k process_reset_slot u" "cleared = n + 1"
      using False step by (auto simp: clear_slot_def)
    then have tab: "process_table t = (process_table u)[k := ?p]" by (simp add: update_process_def)
    have used: "used_processes t + 1 = used_processes u"
      using used_processes_slot [OF _ tab] k(1) len False reset_slot_ok(2) [of "process_table u ! k"]
      by (auto split: if_splits)
    have uc: "unat cleared = unat n + 1"
      using IH(8) k(1) by (simp add: t(2) unat_word_ariths(1))
    have "table_ok (t\<lparr>process_count := of_nat (used_processes t)\<rparr>)"
      using IH(1,2) k(1) reset_slot_ok t(1)
      by (intro table_ok_slot [OF IH(1) k(1) reset_slot_ok(1) [of "process_table u ! k"]])
        (simp_all add: tab update_process_def used_processes_def)
    moreover have "pids_ok t" if "pids_ok u"
      using that k(1) len reset_slot_ok(2) [of "process_table u ! k"] unfolding pids_ok_def tab
      by (auto simp: nth_list_update t(1) update_process_def)
    moreover have "same_machine s t" "next_pid t = next_pid s" "process_count t = process_count s" "current_process t = None"
      using IH(2-5) by (simp_all add: t(1) update_process_def same_machine_def)
    ultimately show ?thesis
      using IH(6-9) used uc k len False by (auto simp: tab nth_list_update less_Suc_eq)
  qed
qed

lemma process_clear_exited_ok:
  assumes "table_ok s" "current_process s = None" "process_clear_exited s = (cleared, t)"
  shows "table_ok t" "current_process t = None" "same_machine s t" "next_pid t = next_pid s" "pids_ok s \<Longrightarrow> pids_ok t"
    "used_processes t + unat cleared = used_processes s"
    "\<And>j. j < 16 \<Longrightarrow> process_table t ! j = (if state (process_table s ! j) \<in> {PROCESS_EXITED, PROCESS_FAILED}
       then process_reset_slot (process_table s ! j) else process_table s ! j)"
proof -
  obtain n u where f: "fold clear_slot [0..<16] (0, s) = (n, u)" by fastforce
  have "s\<lparr>process_count := of_nat (used_processes s)\<rparr> = s" using assms(1) by (simp add: table_ok_def)
  with assms(1) have "table_ok (s\<lparr>process_count := of_nat (used_processes s)\<rparr>)" by simp
  note c = clear_slots [OF this assms(2) order_refl f]
  have le: "used_processes s \<le> 16"
    using assms(1) length_filter_le [of _ "process_table s"] by (auto simp: table_ok_def used_processes_def)
  have pc: "process_count u = of_nat (used_processes u + unat n)"
    using c assms(1) by (simp add: table_ok_def)
  then have sum: "process_count u = of_nat (used_processes u) + n" by simp
  have nle: "\<not> n > process_count u"
    using c le pc by (simp add: word_less_nat_alt unat_of_nat take_bit_nat_eq_self)
  have diff: "process_count u - n = of_nat (used_processes u)" unfolding sum by simp
  have t: "cleared = n" "t = process_info_update (\<lambda>p. p\<lparr>used_slots := of_nat (used_processes u), pi_last_status := KERNEL_OK\<rparr>)
      (u\<lparr>process_count := of_nat (used_processes u)\<rparr>)"
    using assms(3) f nle diff by (simp_all add: process_clear_exited_def Let_def del: upt_rec_numeral)
  show "table_ok t" "current_process t = None" "same_machine s t" "next_pid t = next_pid s" "pids_ok s \<Longrightarrow> pids_ok t"
    "used_processes t + unat cleared = used_processes s"
    using c by (simp_all add: t same_machine_def)
  show "process_table t ! j = (if state (process_table s ! j) \<in> {PROCESS_EXITED, PROCESS_FAILED}
       then process_reset_slot (process_table s ! j) else process_table s ! j)" if "j < 16" for j
    using c that by (simp add: t)
qed

section \<open>Reading through a descriptor\<close>

text \<open>The process \<open>i\<close> is current and its descriptor \<open>fd\<close> stands at \<open>offset\<close> of the file \<open>node\<close>.\<close>

definition opened :: "nat \<Rightarrow> u32 \<Rightarrow> vfs_node \<Rightarrow> nat \<Rightarrow> 'a process_manager_scheme \<Rightarrow> bool" where
  "opened i fd node offset s \<longleftrightarrow> table_ok s \<and> fd_initialized (fd_table_info s) \<and> vi_initialized (vfs_info s) \<and>
     current_process s = Some i \<and> i < 16 \<and> fd_is_open fd (process_table s ! i) \<and>
     (let e = files (process_table s ! i) ! unat fd
      in file_node e = Some node \<and> unat (file_offset e) = offset) \<and> offset \<le> length (contents node)"

lemma find_upt: "find P [a..<b] = Some n \<Longrightarrow> a \<le> n \<and> n < b \<and> P n \<and> (\<forall>m. a \<le> m \<and> m < n \<longrightarrow> \<not> P m)"
proof -
  assume "find P [a..<b] = Some n"
  then obtain k where k: "k < b - a" "P (a + k)" "n = a + k" "\<forall>j < k. \<not> P (a + j)"
    by (auto simp: find_Some_iff)
  have "\<not> P m" if "a \<le> m" "m < n" for m
    using k(3,4) that by (metis add_less_cancel_left le_add_diff_inverse)
  with k show ?thesis by auto
qed

lemma fd_open_result:
  assumes "table_ok s" "fd_initialized (fd_table_info s)" "vi_initialized (vfs_info s)" "current_process s = Some i"
    "fd_table_open_current (Some path) flags s = ((status, fd), t)"
  shows "case lookup_result (vfs_root s) path of
      (st, None) \<Rightarrow> status = st \<and> process_table t = process_table s
    | (_, Some node) \<Rightarrow>
      if vn_type node \<noteq> VFS_NODE_FILE then status = KERNEL_ERROR_INVALID_STATE \<and> process_table t = process_table s
      else if \<forall>n. 3 \<le> n \<and> n < 16 \<longrightarrow> used (files (process_table s ! i) ! n)
      then status = KERNEL_ERROR_OUT_OF_MEMORY \<and> process_table t = process_table s
      else status = KERNEL_OK \<and> 3 \<le> unat fd \<and> unat fd < 16 \<and> \<not> used (files (process_table s ! i) ! unat fd) \<and>
        (\<forall>n. 3 \<le> n \<and> n < unat fd \<longrightarrow> used (files (process_table s ! i) ! n)) \<and>
        process_table t = (process_table s)[i := files_update (\<lambda>fs. fs[unat fd :=
          \<lparr>used = True, file_node = Some node, file_offset = 0, file_flags = flags\<rparr>]) (process_table s ! i)]"
proof -
  let ?s = "fd_table_info_update (\<lambda>d. d\<lparr>open_attempts := open_attempts d + 1, last_fd := FD_INVALID,
            fd_last_path := bounded_copy VFS_PATH_MAX path\<rparr>) s"
  obtain st node s1 where l: "vfs_lookup (Some path) ?s = ((st, node), s1)" by (meson nested_pair)
  have r: "lookup_result (vfs_root s) path = (st, node)"
    using vfs_lookup_fst [of ?s path] assms(3) l by simp
  have tab: "process_table s1 = process_table s"
    using vfs_lookup_frame(3) [of "Some path" ?s] l by (cases s1; cases s) simp
  show ?thesis
  proof (cases node)
    case None
    then have "st \<noteq> KERNEL_OK" using l vfs_lookup_some by blast
    then show ?thesis using None r l tab assms(2,4,5) by (auto simp: fd_table_open_current_def Let_def)
  next
    case (Some nd)
    then have st: "st = KERNEL_OK"
      using r resolve_status by (auto simp: lookup_result_def split: option.splits if_splits)
    show ?thesis
    proof (cases "vn_type nd = VFS_NODE_FILE")
      case False
      then show ?thesis using Some st r l tab assms(2,4,5) by (auto simp: fd_table_open_current_def Let_def)
    next
      case True
      show ?thesis
      proof (cases "find (\<lambda>n. \<not> used (files (process_table s ! i) ! n)) [3..<16]")
        case None
        then have "\<forall>n. 3 \<le> n \<and> n < 16 \<longrightarrow> used (files (process_table s ! i) ! n)"
          by (auto simp: find_None_iff simp del: upt_rec_numeral)
        moreover have "fd_table_allocate_slot (process_table s ! i) = (KERNEL_ERROR_OUT_OF_MEMORY, None)"
          using None by (simp add: fd_table_allocate_slot_def)
        ultimately show ?thesis
          using True Some st r l tab assms(2,4,5) by (auto simp: fd_table_open_current_def Let_def)
      next
        case n: (Some n)
        have "3 \<le> n" "n < 16" "\<not> used (files (process_table s ! i) ! n)"
          "\<forall>m. 3 \<le> m \<and> m < n \<longrightarrow> used (files (process_table s ! i) ! m)"
          using find_upt [OF n] by simp_all
        moreover from this have "unat (of_nat n :: u32) = n" by (simp add: unat_of_nat take_bit_nat_eq_self)
        moreover have "fd_table_allocate_slot (process_table s ! i) = (KERNEL_OK, Some n)"
          using n by (simp add: fd_table_allocate_slot_def)
        ultimately show ?thesis
          using True Some st r l tab assms(2,4,5) by (auto simp: fd_table_open_current_def Let_def update_process_def)
      qed
    qed
  qed
qed

lemma fd_read_opened:
  assumes "opened i fd node offset s" "file_ok node"
  shows "\<exists>t. fd_table_read_current fd len s =
      ((KERNEL_OK, take (min (unat len) 512) (drop offset (contents node))), t) \<and>
    opened i fd node (min (offset + min (unat len) 512) (length (contents node))) t"
proof -
  define e where "e = files (process_table s ! i) ! unat fd"
  let ?s = "fd_table_info_update (\<lambda>d. d\<lparr>fd_read_attempts := fd_read_attempts d + 1, last_fd := fd\<rparr>) s"
  let ?data = "take (min (unat len) 512) (drop offset (contents node))"
  have o: "table_ok s" "fd_initialized (fd_table_info s)" "vi_initialized (vfs_info s)" "current_process s = Some i" "i < 16"
    "fd_is_open fd (process_table s ! i)" "file_node e = Some node" "unat (file_offset e) = offset"
    "offset \<le> length (contents node)" using assms(1) by (auto simp: opened_def e_def Let_def)
  have f: "vn_type node = VFS_NODE_FILE" "length (contents node) < 2 ^ 32" using assms(2) by (auto simp: file_ok_def contents_def)
  obtain st data s1 where l: "vfs_read_node (Some node) (file_offset e) len ?s = ((st, data), s1)"
    by (meson nested_pair)
  have d: "st = KERNEL_OK" "data = ?data"
    using vfs_read_node_bytes [of ?s node "file_offset e" len] o assms(2) l by simp_all
  let ?e = "e\<lparr>file_offset := file_offset e + of_nat (length data)\<rparr>"
  let ?u = "update_process i (files_update (\<lambda>fs. fs[unat fd := ?e])) s1"
  obtain t where t: "fd_table_read_current fd len s = ((KERNEL_OK, ?data), t)"
    "t = fd_table_info_update (\<lambda>d. d\<lparr>successful_reads := successful_reads d + 1, fd_last_status := KERNEL_OK\<rparr>) ?u"
    using o f l d by (simp add: fd_table_read_current_def Let_def e_def [symmetric])
  have q: "quiet s t" using fd_read_quiet [OF t(1)] .
  have tab: "process_table s1 = process_table s"
    using vfs_read_node_frame(3) [of "Some node" "file_offset e" len ?s] l by (cases s1; cases s) simp
  have len: "length (process_table s) = 16" "length (files (process_table s ! i)) = 16"
    using o(1,5) by (auto simp: table_ok_def list_all_iff process_ok_def)
  have fd: "unat fd < 16" using fd_is_open_range [OF o(6)] by simp
  have p: "process_table t ! i = (process_table s ! i)\<lparr>files := (files (process_table s ! i))[unat fd := ?e]\<rparr>"
    using len o(5) by (simp add: t(2) update_process_def tab)
  have n: "length data = min (min (unat len) 512) (length (contents node) - offset)" by (simp add: d(2) min.commute)
  then have off: "unat (file_offset ?e) = min (offset + min (unat len) 512) (length (contents node))"
    using o(8,9) f(2) by (auto simp: unat_word_ariths(1) unat_of_nat take_bit_nat_eq_self min_def)
  have op: "fd_is_open fd (process_table t ! i)"
    using o(6) len fd by (simp add: p fd_is_open_def) (simp add: e_def)
  have "opened i fd node (min (offset + min (unat len) 512) (length (contents node))) t"
    using q o(1-5,7) op len fd off by (auto simp: opened_def quiet_def same_machine_def p Let_def)
  with t(1) show ?thesis by blast
qed

fun fd_reads :: "u32 \<Rightarrow> u32 list \<Rightarrow> 'a process_manager_scheme \<Rightarrow> u8 list \<times> 'a process_manager_scheme" where
  "fd_reads fd [] s = ([], s)"
| "fd_reads fd (len # lens) s =
     (let ((status, data), s) = fd_table_read_current fd len s; (rest, s) = fd_reads fd lens s in (data @ rest, s))"

lemma fd_reads_opened:
  assumes "file_ok node"
  shows "opened i fd node offset s \<Longrightarrow>
    fst (fd_reads fd lens s) = take (sum_list (map (\<lambda>n. min (unat n) 512) lens)) (drop offset (contents node))"
proof (induction lens arbitrary: offset s)
  case (Cons len lens)
  let ?k = "min (unat len) 512"
  obtain t where t: "fd_table_read_current fd len s = ((KERNEL_OK, take ?k (drop offset (contents node))), t)"
    "opened i fd node (min (offset + ?k) (length (contents node))) t" using fd_read_opened [OF Cons.prems assms] by blast
  have "drop (min (offset + ?k) (length (contents node))) (contents node) = drop (offset + ?k) (contents node)"
    by (simp add: min_def)
  then show ?case
    using Cons.IH [OF t(2)] t(1) by (simp add: take_add add.commute case_prod_beta)
qed simp

lemma open_opened:
  assumes "table_ok s" "fd_initialized (fd_table_info s)" "vi_initialized (vfs_info s)" "current_process s = Some i"
    "lookup_result (vfs_root s) path = (KERNEL_OK, Some node)" "file_ok node"
    "fd_table_open_current (Some path) flags s = ((KERNEL_OK, fd), t)"
  shows "opened i fd node 0 t"
proof -
  let ?e = "\<lparr>used = True, file_node = Some node, file_offset = 0, file_flags = flags\<rparr>"
  have ft: "vn_type node = VFS_NODE_FILE" using assms(6) by (simp add: file_ok_def)
  note r = fd_open_result [OF assms(1-4,7), unfolded assms(5) prod.case option.case if_not_P [OF not_not [THEN iffD2, OF ft]]]
  have free: "\<not> (\<forall>n. 3 \<le> n \<and> n < 16 \<longrightarrow> used (files (process_table s ! i) ! n))"
  proof
    assume "\<forall>n. 3 \<le> n \<and> n < 16 \<longrightarrow> used (files (process_table s ! i) ! n)"
    from r [unfolded if_P [OF this]] show False by simp
  qed
  have fd: "3 \<le> unat fd" "unat fd < 16"
    "process_table t = (process_table s)[i := files_update (\<lambda>fs. fs[unat fd := ?e]) (process_table s ! i)]"
    using r [unfolded if_not_P [OF free]] by blast+
  have i: "i < 16" "length (process_table s) = 16" "length (files (process_table s ! i)) = 16"
    using assms(1,4) by (auto simp: table_ok_def list_all_iff process_ok_def)
  have q: "quiet s t" using fd_open_quiet [OF assms(7)] .
  have p: "process_table t ! i = files_update (\<lambda>fs. fs[unat fd := ?e]) (process_table s ! i)" using fd(3) i by simp
  then have "fd_is_open fd (process_table t ! i)"
    using fd i by (simp add: fd_is_open_def word_less_nat_alt word_le_nat_alt)
  then show ?thesis
    using q assms(1-4) i fd p by (auto simp: opened_def quiet_def same_machine_def Let_def)
qed

section \<open>Properties\<close>

definition zero_process_info :: process_info where
  "zero_process_info =
     \<lparr>pi_initialized = False, table_capacity = 0, used_slots = 0, current_pid = 0, pi_next_pid = 0, create_attempts = 0,
      successful_creates = 0, failed_creates = 0, run_attempts = 0, pi_successful_runs = 0, pi_failed_runs = 0,
      exit_count = 0, failed_processes = 0, last_created_pid = 0, last_run_pid = 0, last_exit_pid = 0,
      last_exit_code = 0, last_exit_status = KERNEL_OK, last_exit_name = [], has_last_exit = False,
      pi_last_status = KERNEL_OK\<rparr>"

definition zero_fd_info :: fd_table_info where
  "zero_fd_info =
     \<lparr>fd_initialized = False, open_attempts = 0, successful_opens = 0, failed_opens = 0, fd_read_attempts = 0,
      successful_reads = 0, failed_reads = 0, close_attempts = 0, successful_closes = 0, failed_closes = 0,
      fd_last_status = KERNEL_OK, last_fd = 0, fd_last_path = []\<rparr>"

text \<open>The kernel after boot, on the machine of \<open>small_loader\<close>.\<close>

definition small_manager :: process_manager where
  "small_manager = fd_table_initialize (process_initialize (loader_state.extend small_loader
     \<lparr>process_table = replicate 16 (fresh_process 0 [] 0 0), next_pid = 0, current_process = None, process_count = 0,
      process_info = zero_process_info, fd_table_info = zero_fd_info\<rparr>))"

lemma small_manager_sel:
  "process_table small_manager = replicate 16 (process_reset_slot (fresh_process 0 [] 0 0))"
  "next_pid small_manager = 1" "current_process small_manager = None" "process_count small_manager = 0"
  "fd_initialized (fd_table_info small_manager)" "vm small_manager = vm small_loader"
  "ring3_info small_manager = ring3_info small_loader" "vfs_info small_manager = vfs_info small_loader"
  "vfs_root small_manager = vfs_root small_loader" "flat_binary_info small_manager = flat_binary_info small_loader"
  "elf32_info small_manager = elf32_info small_loader"
  by (simp_all add: small_manager_def fd_table_initialize_def process_initialize_def loader_state.defs)

lemma initial_table_ok:
  assumes "length (process_table s) = 16"
  shows "table_ok (process_initialize s)" "pids_ok (process_initialize s)"
proof -
  let ?t = "process_initialize s"
  have t: "process_table ?t = map process_reset_slot (process_table s)" "current_process ?t = None" "process_count ?t = 0" "next_pid ?t = 1"
    by (simp_all add: process_initialize_def)
  have "used_processes ?t = 0" by (simp add: used_processes_def t reset_slot_ok(2) filter_empty_conv)
  then show "table_ok ?t"
    using assms by (simp add: table_ok_def t list_all_iff reset_slot_ok running_def)
  show "pids_ok ?t" using assms by (simp add: pids_ok_def t reset_slot_ok(2))
qed

lemma small_manager_ok: "table_ok small_manager" "pids_ok small_manager"
proof -
  have "table_ok (fd_table_initialize s) = table_ok s" "pids_ok (fd_table_initialize s) = pids_ok s" for s :: process_manager
    by (simp_all add: fd_table_initialize_def table_ok_def pids_ok_def used_processes_def running_def cong: option.case_cong)
  then show "table_ok small_manager" "pids_ok small_manager"
    unfolding small_manager_def by (simp_all add: initial_table_ok loader_state.defs)
qed

text \<open>The machine with its first process running.\<close>

definition small_running :: process_manager where
  "small_running = small_manager\<lparr>
     process_table := (process_table small_manager)[0 := (fresh_process 1 ''cat'' 0x10000000 0x10001FF0)\<lparr>state := PROCESS_RUNNING\<rparr>],
     next_pid := 2, current_process := Some 0, process_count := 1\<rparr>"

lemma small_running_ok: "table_ok small_running"
proof -
  let ?r = "process_reset_slot (fresh_process 0 [] 0 0)" and ?p = "(fresh_process 1 ''cat'' 0x10000000 0x10001FF0)\<lparr>state := PROCESS_RUNNING\<rparr>"
  have tab: "process_table small_running = ?p # replicate 15 ?r"
    by (simp add: small_running_def small_manager_sel numeral_eq_Suc)
  have "process_ok ?p" using fresh_process_ok [of 1 "''cat''" "0x10000000" "0x10001FF0"] by (simp add: process_ok_def fresh_process_def)
  moreover have "process_ok ?r" "state ?r = PROCESS_UNUSED" by (rule reset_slot_ok)+
  moreover have "current_process small_running = Some 0" "process_count small_running = 1"
    by (simp_all add: small_running_def)
  ultimately show ?thesis
    by (auto simp: table_ok_def tab used_processes_def running_def nth_Cons' list_all_iff)
qed

text \<open>
  C1: opening a file gives the current process the lowest free descriptor from 3 on, standing at
  the start of the node that the path names, and changes no other descriptor of any process. A path
  that names nothing reports the error of the lookup, a directory or device is refused, and with
  all thirteen descriptors in use the call fails; then no descriptor changes.
\<close>

theorem fd_open_correct:
  assumes "table_ok s" and "fd_initialized (fd_table_info s)" and "vi_initialized (vfs_info s)" and "current_process s = Some i"
    and "fd_table_open_current (Some path) flags s = ((status, fd), t)"
  shows "case lookup_result (vfs_root s) path of
      (st, None) \<Rightarrow> status = st \<and> process_table t = process_table s
    | (_, Some node) \<Rightarrow>
      if vn_type node \<noteq> VFS_NODE_FILE then status = KERNEL_ERROR_INVALID_STATE \<and> process_table t = process_table s
      else if \<forall>n. 3 \<le> n \<and> n < 16 \<longrightarrow> used (files (process_table s ! i) ! n)
      then status = KERNEL_ERROR_OUT_OF_MEMORY \<and> process_table t = process_table s
      else status = KERNEL_OK \<and> 3 \<le> unat fd \<and> unat fd < 16 \<and> \<not> used (files (process_table s ! i) ! unat fd) \<and>
        (\<forall>n. 3 \<le> n \<and> n < unat fd \<longrightarrow> used (files (process_table s ! i) ! n)) \<and>
        process_table t = (process_table s)[i := files_update (\<lambda>fs. fs[unat fd :=
          \<lparr>used = True, file_node = Some node, file_offset = 0, file_flags = flags\<rparr>]) (process_table s ! i)]"
  by (rule fd_open_result [OF assms])

lemma small_lookup: "lookup_result (vfs_root small_running) ''/etc/os-release'' = (KERNEL_OK, Some os_release_node)"
proof -
  have "os_release_node \<in> set (nodes (root_node (\<lambda>_. [0xC3])))" "vn_path os_release_node = ''/etc/os-release''"
    by (simp_all add: initramfs_nodes)
  then show ?thesis
    using lookup_own_path [OF root_node_facts(1,2), of os_release_node] small_loader_facts(3)
    by (simp add: small_running_def small_manager_sel)
qed

lemma small_running_facts:
  "fd_initialized (fd_table_info small_running)" "vi_initialized (vfs_info small_running)" "current_process small_running = Some 0"
  "files (process_table small_running ! 0) = replicate 16 no_file"
  using small_loader_facts(2)
  by (simp_all add: small_running_def small_manager_sel fresh_process_def)

theorem fd_open_correct_witness:
  "\<exists>fd t. fd_table_open_current (Some ''/etc/os-release'') 0 small_running = ((KERNEL_OK, fd), t) \<and> 3 \<le> unat fd"
proof -
  obtain status fd t where o: "fd_table_open_current (Some ''/etc/os-release'') 0 small_running = ((status, fd), t)"
    by (meson nested_pair)
  have "\<not> (\<forall>n. 3 \<le> n \<and> n < 16 \<longrightarrow> used (files (process_table small_running ! 0) ! n))"
    by (intro notI, drule spec [of _ 3]) (simp add: small_running_facts no_file_def)
  moreover have "vn_type os_release_node = VFS_NODE_FILE" by (simp add: os_release_node_def)
  ultimately have "status = KERNEL_OK \<and> 3 \<le> unat fd"
    using fd_open_correct [OF small_running_ok small_running_facts(1-3) o] unfolding small_lookup prod.case option.case
    by meson
  with o show ?thesis by blast
qed

text \<open>
  C2: reading a file through a descriptor gives its contents: after opening a regular file, reads of
  any lengths deliver, put together, the first bytes of the file, each read at most 512 of them.
  No byte is skipped or repeated, and at the end of the file a read delivers nothing.
\<close>

theorem fd_reads_correct:
  assumes "table_ok s" and "fd_initialized (fd_table_info s)" and "vi_initialized (vfs_info s)" and "current_process s = Some i"
    and "lookup_result (vfs_root s) path = (KERNEL_OK, Some node)" and "file_ok node"
    and "fd_table_open_current (Some path) flags s = ((KERNEL_OK, fd), t)"
  shows "fst (fd_reads fd lens t) = take (sum_list (map (\<lambda>n. min (unat n) 512) lens)) (contents node)"
proof -
  have "opened i fd node 0 t" by (rule open_opened [OF assms])
  from fd_reads_opened [OF assms(6) this] show ?thesis by simp
qed

theorem fd_reads_correct_witness:
  "\<exists>fd t. fd_table_open_current (Some ''/etc/os-release'') 0 small_running = ((KERNEL_OK, fd), t) \<and>
     fst (fd_reads fd [4, 1] t) = bytes ''NAME=''"
proof -
  obtain status fd t where o: "fd_table_open_current (Some ''/etc/os-release'') 0 small_running = ((status, fd), t)"
    by (meson nested_pair)
  have "\<not> (\<forall>n. 3 \<le> n \<and> n < 16 \<longrightarrow> used (files (process_table small_running ! 0) ! n))"
    by (intro notI, drule spec [of _ 3]) (simp add: small_running_facts no_file_def)
  moreover have f: "vn_type os_release_node = VFS_NODE_FILE" "file_ok os_release_node"
    by (simp_all add: os_release_node_def file_ok_def os_release_data_def bytes_def)
  ultimately have st: "status = KERNEL_OK"
    using fd_open_result [OF small_running_ok small_running_facts(1-3) o] unfolding small_lookup prod.case option.case
    by meson
  have "take 5 (contents os_release_node) = bytes ''NAME=''"
    by (simp add: contents_def os_release_node_def os_release_data_def bytes_def)
  then show ?thesis
    using fd_reads_correct [OF small_running_ok small_running_facts(1-3) small_lookup f(2) o [unfolded st], of "[4, 1]"] o st
    by auto
qed

lemma pieces_short: "list_all (\<lambda>w. length w \<le> 63) (words line) \<Longrightarrow> pieces line = words line"
proof -
  have "chunks w = [w]" if "w \<noteq> []" "length w \<le> 63" for w
    using that by (simp add: chunks.simps [of w] chunks.simps [of "[]"])
  moreover have "[] \<notin> set (words line)"
  proof (induction line rule: words.induct)
    case (1 s)
    let ?t = "dropWhile is_blank s"
    have "takeWhile (\<lambda>c. \<not> is_blank c) ?t \<noteq> []" if "?t \<noteq> []"
      using hd_dropWhile [OF that] that by (cases ?t) auto
    then show ?case using 1 by (subst words.simps) (auto simp: Let_def simp del: dropWhile_eq_Nil_conv)
  qed
  ultimately have "chunks w = [w]" if "list_all (\<lambda>w. length w \<le> 63) (words line)" "w \<in> set (words line)" for w
    using that by (metis list_all_iff)
  then have c: "map chunks (words line) = map (\<lambda>w. [w]) (words line)" if "list_all (\<lambda>w. length w \<le> 63) (words line)"
    using that by simp
  show "pieces line = words line" if "list_all (\<lambda>w. length w \<le> 63) (words line)"
    unfolding pieces_def c [OF that] by (simp add: concat_map_singleton [where f = id, simplified])
qed

lemma configured_arguments:
  assumes "process_ok p"
  shows "take (unat (argc (configured (Some line) p))) (argv (configured (Some line) p)) =
    take 8 (proc_name p # pieces (take 127 (dropWhile is_blank line)))"
proof -
  have n: "argc (name_as_argument p) = 1" "argv (name_as_argument p) = proc_name p # replicate 7 []"
    "length (argv (name_as_argument p)) = 8"
    using assms by (simp_all add: name_as_argument_def process_clear_arguments_def Let_def bounded_copy_def process_ok_def
        numeral_eq_Suc)
  show ?thesis
  proof (cases "dropWhile is_blank line = []")
    case True
    then have "configured (Some line) p = name_as_argument p" by (simp add: configured_def)
    then show ?thesis using n True by (simp add: pieces_def del: dropWhile_eq_Nil_conv)
  next
    case False
    let ?cut = "take 127 (dropWhile is_blank line)" and ?q = "(name_as_argument p)\<lparr>arguments := take 127 (dropWhile is_blank line)\<rparr>"
    have h: "\<not> is_blank (hd ?cut)" "?cut \<noteq> []" using hd_dropWhile [OF False] False by simp_all
    then have d: "dropWhile is_blank ?cut = ?cut" by (cases ?cut) auto
    have c: "configured (Some line) p = argument_loop ?cut ?q"
      using False d by (simp add: configured_def Let_def bounded_copy_def del: dropWhile_eq_Nil_conv)
    define new where "new = take 7 (pieces ?cut)"
    have "length new \<le> 7" by (simp add: new_def)
    then have u: "unat (1 + of_nat (length new) :: u32) = 1 + length new"
      by (simp add: unat_word_ariths(1) unat_of_nat take_bit_nat_eq_self)
    have "argument_loop ?cut ?q = ?q\<lparr>argv := take 1 (argv ?q) @ new @ drop (1 + length new) (argv ?q),
        argc := 1 + of_nat (length new)\<rparr>"
      using argument_loop_pieces [of ?cut ?q] h n by (simp add: Let_def new_def)
    then show ?thesis unfolding c using n(2) u by (simp add: new_def [symmetric])
  qed
qed

text \<open>
  C3: \<open>process_configure_arguments\<close> splits an argument line as documented by its callers: the
  arguments are the name of the process and the words of the line, in order, when there are at most
  seven words of at most 63 characters on a line of at most 127. In general the line is cut after 127
  characters, words of more than 63 characters are split into pieces, and the pieces after the
  seventh are dropped. No other process changes.
\<close>

theorem process_arguments_correct:
  assumes "table_ok s" and "i < 16" and "state (process_table s ! i) \<noteq> PROCESS_UNUSED"
    and "process_configure_arguments (Some i) (Some line) s = (status, t)"
  shows "status = KERNEL_OK \<and>
    (let p = process_table t ! i; cut = take 127 (dropWhile is_blank line) in
     take (unat (argc p)) (argv p) = take 8 (proc_name (process_table s ! i) # pieces cut) \<and>
     (length (dropWhile is_blank line) \<le> 127 \<and> list_all (\<lambda>w. length w \<le> 63) (words line) \<and> length (words line) \<le> 7 \<longrightarrow>
        take (unat (argc p)) (argv p) = proc_name (process_table s ! i) # words line)) \<and>
    (\<forall>j < 16. j \<noteq> i \<longrightarrow> process_table t ! j = process_table s ! j)"
proof -
  let ?p = "process_table s ! i" and ?cut = "take 127 (dropWhile is_blank line)"
  have t: "status = KERNEL_OK" "process_table t = (process_table s)[i := configured (Some line) ?p]"
    using assms(4) by (auto simp: process_configure_arguments_def update_process_def)
  have p: "length (process_table s) = 16" "process_ok ?p" using assms(1,2) by (auto simp: table_ok_def list_all_iff)
  have a: "take (unat (argc (process_table t ! i))) (argv (process_table t ! i)) = take 8 (proc_name ?p # pieces ?cut)"
    using configured_arguments [OF p(2)] p(1) t(2) assms(2) by simp
  have "pieces ?cut = words line"
    if "length (dropWhile is_blank line) \<le> 127" "list_all (\<lambda>w. length w \<le> 63) (words line)"
    using that pieces_short [of ?cut] by simp
  with a t p assms(2) show ?thesis by (auto simp: Let_def)
qed

theorem process_arguments_correct_witness:
  "\<exists>t. process_configure_arguments (Some 0) (Some ''  /etc/os-release x'') small_running = (KERNEL_OK, t) \<and>
     take (unat (argc (process_table t ! 0))) (argv (process_table t ! 0)) = [''cat'', ''/etc/os-release'', ''x'']"
proof -
  obtain status t where c: "process_configure_arguments (Some 0) (Some ''  /etc/os-release x'') small_running = (status, t)"
    by fastforce
  have w: "words ''  /etc/os-release x'' = [''/etc/os-release'', ''x'']" by code_simp
  have p: "state (process_table small_running ! 0) \<noteq> PROCESS_UNUSED" "proc_name (process_table small_running ! 0) = ''cat''"
    by (simp_all add: small_running_def small_manager_sel fresh_process_def bounded_copy_def)
  have d: "length (dropWhile is_blank ''  /etc/os-release x'') \<le> 127" by code_simp
  have w': "list_all (\<lambda>w. length w \<le> 63) (words ''  /etc/os-release x'')" "length (words ''  /etc/os-release x'') \<le> 7"
    unfolding w by simp_all
  have "(0 :: nat) < 16" by simp
  note a = process_arguments_correct [OF small_running_ok this p(1) c, unfolded Let_def]
  from a d w' have "take (unat (argc (process_table t ! 0))) (argv (process_table t ! 0)) = ''cat'' # words ''  /etc/os-release x''"
    unfolding p(2) by blast
  with a c show ?thesis unfolding w by blast
qed

end
