(* ===== verification/Log.thy ===== *)
theory Log
  imports Vga
begin

text \<open>
  \<^verbatim>\<open>core/log.c\<close> and the screen of \<^verbatim>\<open>core/panic.c\<close>: coloured messages on the screen. The argument
  \<open>debug\<close> of the debug messages says whether the build defines \<^verbatim>\<open>LIAM_OS_DEBUG\<close>.
  \<open>kernel_panic_screen\<close> is the screen on which the machine stops.
\<close>

section \<open>Messages\<close>

abbreviation (input) VGA_COLOR_BLACK :: u8 where "VGA_COLOR_BLACK \<equiv> 0"
abbreviation (input) VGA_COLOR_RED :: u8 where "VGA_COLOR_RED \<equiv> 4"
abbreviation (input) VGA_COLOR_LIGHT_GREY :: u8 where "VGA_COLOR_LIGHT_GREY \<equiv> 7"
abbreviation (input) VGA_COLOR_DARK_GREY :: u8 where "VGA_COLOR_DARK_GREY \<equiv> 8"
abbreviation (input) VGA_COLOR_LIGHT_GREEN :: u8 where "VGA_COLOR_LIGHT_GREEN \<equiv> 10"
abbreviation (input) VGA_COLOR_LIGHT_CYAN :: u8 where "VGA_COLOR_LIGHT_CYAN \<equiv> 11"
abbreviation (input) VGA_COLOR_LIGHT_RED :: u8 where "VGA_COLOR_LIGHT_RED \<equiv> 12"
abbreviation (input) VGA_COLOR_LIGHT_BROWN :: u8 where "VGA_COLOR_LIGHT_BROWN \<equiv> 14"
abbreviation (input) VGA_COLOR_WHITE :: u8 where "VGA_COLOR_WHITE \<equiv> 15"

definition log_with_prefix :: "string \<Rightarrow> string \<Rightarrow> u8 \<Rightarrow> vga_state \<Rightarrow> vga_state" where
  "log_with_prefix label message prefix_color s =
     (let s = vga_set_color prefix_color VGA_COLOR_BLACK s;
          s = vga_write label s;
          s = vga_set_color VGA_COLOR_WHITE VGA_COLOR_BLACK s
      in vga_write_line message s)"

definition log_info :: "string \<Rightarrow> vga_state \<Rightarrow> vga_state" where
  "log_info message = log_with_prefix ''[INFO] '' message VGA_COLOR_LIGHT_CYAN"

definition log_success :: "string \<Rightarrow> vga_state \<Rightarrow> vga_state" where
  "log_success message = log_with_prefix ''[ OK ] '' message VGA_COLOR_LIGHT_GREEN"

definition log_warning :: "string \<Rightarrow> vga_state \<Rightarrow> vga_state" where
  "log_warning message = log_with_prefix ''[WARN] '' message VGA_COLOR_LIGHT_BROWN"

definition log_error :: "string \<Rightarrow> vga_state \<Rightarrow> vga_state" where
  "log_error message = log_with_prefix ''[FAIL] '' message VGA_COLOR_LIGHT_RED"

definition log_debug :: "bool \<Rightarrow> string \<Rightarrow> vga_state \<Rightarrow> vga_state" where
  "log_debug debug message s =
     (if debug then log_with_prefix ''[DBG ] '' message VGA_COLOR_DARK_GREY s else s)"

definition log_info_hex_u32 :: "string \<Rightarrow> u32 \<Rightarrow> vga_state \<Rightarrow> vga_state" where
  "log_info_hex_u32 label n s =
     (let s = vga_set_color VGA_COLOR_LIGHT_CYAN VGA_COLOR_BLACK s;
          s = vga_write ''[INFO] '' s;
          s = vga_set_color VGA_COLOR_WHITE VGA_COLOR_BLACK s;
          s = vga_write label s;
          s = vga_write '': '' s;
          s = vga_write_hex_u32 n s
      in vga_write_line [] s)"

definition log_info_u32 :: "string \<Rightarrow> u32 \<Rightarrow> vga_state \<Rightarrow> vga_state" where
  "log_info_u32 label n s =
     (let s = vga_set_color VGA_COLOR_LIGHT_CYAN VGA_COLOR_BLACK s;
          s = vga_write ''[INFO] '' s;
          s = vga_set_color VGA_COLOR_WHITE VGA_COLOR_BLACK s;
          s = vga_write label s;
          s = vga_write '': '' s;
          s = vga_write_u32 n s
      in vga_write_line [] s)"

definition log_debug_hex_u32 :: "bool \<Rightarrow> string \<Rightarrow> u32 \<Rightarrow> vga_state \<Rightarrow> vga_state" where
  "log_debug_hex_u32 debug label n s =
     (if debug
      then
        let s = vga_set_color VGA_COLOR_DARK_GREY VGA_COLOR_BLACK s;
            s = vga_write ''[DBG ] '' s;
            s = vga_set_color VGA_COLOR_WHITE VGA_COLOR_BLACK s;
            s = vga_write label s;
            s = vga_write '': '' s;
            s = vga_write_hex_u32 n s
        in vga_write_line [] s
      else s)"

definition log_debug_u32 :: "bool \<Rightarrow> string \<Rightarrow> u32 \<Rightarrow> vga_state \<Rightarrow> vga_state" where
  "log_debug_u32 debug label n s =
     (if debug
      then
        let s = vga_set_color VGA_COLOR_DARK_GREY VGA_COLOR_BLACK s;
            s = vga_write ''[DBG ] '' s;
            s = vga_set_color VGA_COLOR_WHITE VGA_COLOR_BLACK s;
            s = vga_write label s;
            s = vga_write '': '' s;
            s = vga_write_u32 n s
        in vga_write_line [] s
      else s)"

section \<open>Panic\<close>

definition kernel_panic_screen :: "string \<Rightarrow> vga_state \<Rightarrow> vga_state" where
  "kernel_panic_screen message s =
     (let s = vga_set_color VGA_COLOR_WHITE VGA_COLOR_RED s;
          s = vga_clear s;
          s = vga_write_line ''LIAM OS KERNEL PANIC'' s;
          s = vga_write_line [] s;
          s = vga_set_color VGA_COLOR_LIGHT_RED VGA_COLOR_BLACK s;
          s = vga_write_line ''A fatal kernel error occurred.'' s;
          s = vga_write_line [] s;
          s = vga_set_color VGA_COLOR_WHITE VGA_COLOR_BLACK s;
          s = vga_write ''Reason: '' s;
          s = vga_write_line message s;
          s = vga_write_line [] s;
          s = vga_set_color VGA_COLOR_LIGHT_GREY VGA_COLOR_BLACK s
      in vga_write_line ''The system has been halted to prevent damage.'' s)"

section \<open>The screen stays well formed\<close>

text \<open>No message moves the cursor off the screen or writes outside of it.\<close>

definition screen_step :: "vga_state \<Rightarrow> vga_state \<Rightarrow> bool" where
  "screen_step s t \<longleftrightarrow> (vga_inv s \<longrightarrow> vga_inv t \<and> same_outside s t)"

lemma screen_step_refl [simp]: "screen_step s s"
  by (simp add: screen_step_def)

lemma screen_step_trans: "screen_step s t \<Longrightarrow> screen_step t u \<Longrightarrow> screen_step s u"
  by (auto simp: screen_step_def intro: same_outside_trans)

lemma put_char_screen: "screen_step s (put_char c s)"
  using put_char_step [of s] by (simp add: screen_step_def)

lemma fold_put_char_step: "screen_step s (fold put_char cs s)"
  by (induction cs arbitrary: s) (auto intro: screen_step_trans [OF put_char_screen])

lemma vga_write_line_step: "screen_step s (vga_write_line str s)"
  unfolding vga_write_line_def vga_write_def by (rule screen_step_trans [OF fold_put_char_step put_char_screen])

lemma vga_set_color_step: "screen_step s (vga_set_color f b s)"
  by (simp add: screen_step_def vga_set_color_def vga_inv_def same_outside_def)

lemma log_with_prefix_step: "screen_step s (log_with_prefix label message c s)"
  unfolding log_with_prefix_def Let_def vga_write_def
  by (meson screen_step_trans vga_set_color_step fold_put_char_step vga_write_line_step)

end
