(* ===== verification/Syscall.thy ===== *)
theory Syscall
  imports Process Log
begin

text \<open>
  \<^verbatim>\<open>core/syscall.c\<close> and the creation of processes in \<^verbatim>\<open>core/exec.c\<close>.

  The arguments of a system call are numbers chosen by the user program. The kernel reads and
  writes user memory through the page tables; an access to an address without mapping is a page
  fault in the kernel, the value \<open>None\<close>, and that it never happens is part of what is proved. The
  static copy buffer is written before every use and is a local value here; the kernel's own
  memory (this buffer, the screen, the tables) lies outside the frames that user pages are mapped to.
\<close>

section \<open>State\<close>

record exec_info =
  ex_initialized :: bool
  spawn_attempts :: u32
  successful_spawns :: u32
  failed_spawns :: u32
  ex_last_status :: kernel_status
  last_pid :: u32
  ex_last_path :: string

record syscall_info =
  total_calls :: u32
  last_number :: u32
  last_arg1 :: u32
  last_arg2 :: u32
  last_arg3 :: u32
  unsupported_calls :: u32

record syscall_state = process_manager +
  exec_info :: exec_info
  syscall_info :: syscall_info
  screen :: vga_state
  timer_ticks :: u32

abbreviation (input) SYSCALL_WRITE_MAX_BYTES :: u32 where "SYSCALL_WRITE_MAX_BYTES \<equiv> 4096"
abbreviation (input) SYSCALL_COPY_CHUNK_MAX :: u32 where "SYSCALL_COPY_CHUNK_MAX \<equiv> 512"
abbreviation (input) LIAM_SYSCALL_EXIT :: u32 where "LIAM_SYSCALL_EXIT \<equiv> 1"
abbreviation (input) LIAM_SYSCALL_WRITE :: u32 where "LIAM_SYSCALL_WRITE \<equiv> 2"
abbreviation (input) LIAM_SYSCALL_GET_TICKS :: u32 where "LIAM_SYSCALL_GET_TICKS \<equiv> 3"
abbreviation (input) LIAM_SYSCALL_YIELD :: u32 where "LIAM_SYSCALL_YIELD \<equiv> 4"
abbreviation (input) LIAM_SYSCALL_GET_PID :: u32 where "LIAM_SYSCALL_GET_PID \<equiv> 5"
abbreviation (input) LIAM_SYSCALL_OPEN :: u32 where "LIAM_SYSCALL_OPEN \<equiv> 6"
abbreviation (input) LIAM_SYSCALL_READ :: u32 where "LIAM_SYSCALL_READ \<equiv> 7"
abbreviation (input) LIAM_SYSCALL_CLOSE :: u32 where "LIAM_SYSCALL_CLOSE \<equiv> 8"
abbreviation (input) LIAM_SYSCALL_STAT :: u32 where "LIAM_SYSCALL_STAT \<equiv> 9"
abbreviation (input) LIAM_SYSCALL_GET_ARGC :: u32 where "LIAM_SYSCALL_GET_ARGC \<equiv> 10"
abbreviation (input) LIAM_SYSCALL_GET_ARG :: u32 where "LIAM_SYSCALL_GET_ARG \<equiv> 11"
abbreviation (input) LIAM_SYSCALL_EXEC :: u32 where "LIAM_SYSCALL_EXEC \<equiv> 12"

section \<open>Creating a process from a program\<close>

definition exec_initialize :: "'a syscall_state_scheme \<Rightarrow> 'a syscall_state_scheme" where
  "exec_initialize s = s\<lparr>exec_info :=
     \<lparr>ex_initialized = True, spawn_attempts = 0, successful_spawns = 0, failed_spawns = 0,
      ex_last_status = KERNEL_OK, last_pid = PROCESS_INVALID_PID, ex_last_path = []\<rparr>\<rparr>"

definition exec_create_with_args ::
  "string option \<Rightarrow> string option \<Rightarrow> 'a syscall_state_scheme \<Rightarrow>
     (kernel_status \<times> nat option) \<times> 'a syscall_state_scheme" where
  "exec_create_with_args path args s =
     (case path of
        None \<Rightarrow> ((KERNEL_ERROR_INVALID_ARGUMENT, None), s)
      | Some path \<Rightarrow>
        let s = exec_info_update (\<lambda>x. x\<lparr>spawn_attempts := spawn_attempts x + 1,
              ex_last_path := bounded_copy 64 path\<rparr>) s;
            failed = (\<lambda>status n s. exec_info_update (\<lambda>x. x\<lparr>failed_spawns := failed_spawns x + 1,
              ex_last_status := status, last_pid := n\<rparr>) s);
            ((status, img), s) = user_image_lookup (Some path) s
        in if status \<noteq> KERNEL_OK then ((status, None), failed status PROCESS_INVALID_PID s)
        else
        let ((status, process), s) =
              process_create (Some (ui_name (the img))) (ui_entry (the img)) (ui_user_stack_top (the img)) s
        in if status \<noteq> KERNEL_OK then ((status, None), failed status PROCESS_INVALID_PID s)
        else
        let (status, s) = process_configure_image_path process (Some path) s
        in if status \<noteq> KERNEL_OK
           then ((status, process), failed status (pid (process_table s ! the process)) s)
        else
        let (status, s) = process_configure_arguments process args s
        in if status \<noteq> KERNEL_OK
           then ((status, process), failed status (pid (process_table s ! the process)) s)
        else
          ((KERNEL_OK, process),
           exec_info_update (\<lambda>x. x\<lparr>successful_spawns := successful_spawns x + 1, ex_last_status := KERNEL_OK,
             last_pid := pid (process_table s ! the process)\<rparr>) s))"

section \<open>User memory\<close>

definition syscall_user_range_contains :: "u32 \<Rightarrow> u32 \<Rightarrow> u32 \<Rightarrow> u32 \<Rightarrow> bool" where
  "syscall_user_range_contains address len range_start range_length =
     (if len = 0 then True
      else
        let range_end = range_start + range_length - 1; last_byte = address + len - 1
        in if last_byte < address then False
           else address \<ge> range_start \<and> last_byte \<le> range_end)"

definition syscall_user_buffer_is_valid :: "u32 \<Rightarrow> u32 \<Rightarrow> bool" where
  "syscall_user_buffer_is_valid pointer len =
     (if pointer = 0 \<or> len = 0 then False
      else if syscall_user_range_contains pointer len RING3_USER_CODE_VIRTUAL RING3_USER_PAGE_SIZE then True
      else if syscall_user_range_contains pointer len RING3_USER_STACK_VIRTUAL RING3_USER_PAGE_SIZE then True
      else False)"

text \<open>The byte loops of the two copies.\<close>

fun read_bytes :: "vmm_state \<Rightarrow> u32 \<Rightarrow> nat \<Rightarrow> u8 list option" where
  "read_bytes v a 0 = Some []"
| "read_bytes v a (Suc n) =
     (case read_virtual v a of
        None \<Rightarrow> None
      | Some b \<Rightarrow> (case read_bytes v (a + 1) n of None \<Rightarrow> None | Some bs \<Rightarrow> Some (b # bs)))"

fun write_bytes :: "u32 \<Rightarrow> u8 list \<Rightarrow> vmm_state \<Rightarrow> vmm_state option" where
  "write_bytes a [] v = Some v"
| "write_bytes a (b # bs) v =
     (case write_virtual a b v of None \<Rightarrow> None | Some v \<Rightarrow> write_bytes (a + 1) bs v)"

definition syscall_copy_from_user :: "u32 \<Rightarrow> u32 \<Rightarrow> vmm_state \<Rightarrow> (kernel_status \<times> u8 list) option" where
  "syscall_copy_from_user source len v =
     (if len = 0 then Some (KERNEL_OK, [])
      else if \<not> syscall_user_buffer_is_valid source len then Some (KERNEL_ERROR_PERMISSION_DENIED, [])
      else case read_bytes v source (unat len) of None \<Rightarrow> None | Some bs \<Rightarrow> Some (KERNEL_OK, bs))"

definition syscall_copy_to_user :: "u32 \<Rightarrow> u8 list \<Rightarrow> vmm_state \<Rightarrow> (kernel_status \<times> vmm_state) option" where
  "syscall_copy_to_user destination source v =
     (let len = of_nat (length source)
      in if len = 0 then Some (KERNEL_OK, v)
         else if \<not> syscall_user_buffer_is_valid destination len then Some (KERNEL_ERROR_PERMISSION_DENIED, v)
         else case write_bytes destination source v of None \<Rightarrow> None | Some v \<Rightarrow> Some (KERNEL_OK, v))"

text \<open>
  The loop of \<^verbatim>\<open>syscall_copy_user_string\<close> with the number of characters left; the string is
  returned without its terminator, and the contents of the buffer after an error are not used.
\<close>

fun copy_string_loop :: "vmm_state \<Rightarrow> u32 \<Rightarrow> nat \<Rightarrow> (kernel_status \<times> string) option" where
  "copy_string_loop v source 0 = Some (KERNEL_ERROR_INVALID_ARGUMENT, [])"
| "copy_string_loop v source (Suc left) =
     (if \<not> syscall_user_buffer_is_valid source 1 then Some (KERNEL_ERROR_PERMISSION_DENIED, [])
      else
        case read_virtual v source of
          None \<Rightarrow> None
        | Some b \<Rightarrow>
          if b = 0 then Some (KERNEL_OK, [])
          else
            (case copy_string_loop v (source + 1) left of
               None \<Rightarrow> None
             | Some (status, str) \<Rightarrow>
               Some (status, if status = KERNEL_OK then char_of (unat b) # str else [])))"

definition syscall_copy_user_string :: "u32 \<Rightarrow> nat \<Rightarrow> vmm_state \<Rightarrow> (kernel_status \<times> string) option" where
  "syscall_copy_user_string source max_length v =
     (if source = 0 \<or> max_length = 0 then Some (KERNEL_ERROR_INVALID_ARGUMENT, [])
      else copy_string_loop v source max_length)"

section \<open>The calls\<close>

definition syscall_initialize :: "'a syscall_state_scheme \<Rightarrow> 'a syscall_state_scheme" where
  "syscall_initialize s = s\<lparr>syscall_info :=
     \<lparr>total_calls = 0, last_number = 0, last_arg1 = 0, last_arg2 = 0, last_arg3 = 0, unsupported_calls = 0\<rparr>\<rparr>"

function write_loop :: "u32 \<Rightarrow> u32 \<Rightarrow> u32 \<Rightarrow> 'a syscall_state_scheme \<Rightarrow> (u32 \<times> 'a syscall_state_scheme) option" where
  "write_loop buffer len total_written s =
     (if total_written < len
      then
        let chunk_length = len - total_written;
            chunk_length = (if chunk_length > SYSCALL_COPY_CHUNK_MAX then SYSCALL_COPY_CHUNK_MAX else chunk_length)
        in case syscall_copy_from_user (buffer + total_written) chunk_length (vm s) of
             None \<Rightarrow> None
           | Some (status, bs) \<Rightarrow>
             if status \<noteq> KERNEL_OK then Some (status_word status, s)
             else write_loop buffer len (total_written + chunk_length)
                    (s\<lparr>screen := fold (\<lambda>b. vga_write_char (char_of (unat b))) bs (screen s)\<rparr>)
      else Some (total_written, s))"
  by pat_completeness auto

termination
proof (relation "measure (\<lambda>(buffer, len, total, s). unat len - unat total)", simp)
  fix buffer len total_written :: u32 and s :: "'a syscall_state_scheme" and l chunk :: u32
  assume lt: "total_written < len" and l: "l = len - total_written"
    and c: "chunk = (if SYSCALL_COPY_CHUNK_MAX < l then SYSCALL_COPY_CHUNK_MAX else l)"
  have ul: "unat l = unat len - unat total_written" using lt l by (simp add: unat_sub order_less_imp_le)
  then have "0 < unat l" using lt by (simp add: word_less_nat_alt)
  then have "0 < unat chunk" "unat chunk \<le> unat len - unat total_written"
    using ul by (auto simp: c word_less_nat_alt)
  moreover from this have "unat (total_written + chunk) = unat total_written + unat chunk"
    using unat_u32_bound [of len] by (simp add: unat_word_ariths(1))
  ultimately have "unat len - unat (total_written + chunk) < unat len - unat total_written" by linarith
  then show "((buffer, len, total_written + chunk, t), buffer, len, total_written, s)
      \<in> measure (\<lambda>(buffer, len, total, s). unat len - unat total)" for t :: "'a syscall_state_scheme" by simp
qed

declare write_loop.simps [simp del]

definition syscall_write :: "u32 \<Rightarrow> u32 \<Rightarrow> 'a syscall_state_scheme \<Rightarrow> (u32 \<times> 'a syscall_state_scheme) option" where
  "syscall_write buffer len s =
     (if buffer = 0 \<or> len = 0 then Some (0, s)
      else write_loop buffer (if len > SYSCALL_WRITE_MAX_BYTES then SYSCALL_WRITE_MAX_BYTES else len) 0 s)"

definition syscall_open :: "u32 \<Rightarrow> u32 \<Rightarrow> 'a syscall_state_scheme \<Rightarrow> (u32 \<times> 'a syscall_state_scheme) option" where
  "syscall_open path flags s =
     (case syscall_copy_user_string path VFS_PATH_MAX (vm s) of
        None \<Rightarrow> None
      | Some (status, kernel_path) \<Rightarrow>
        if status \<noteq> KERNEL_OK then Some (status_word status, s)
        else
          let ((status, fd), s) = fd_table_open_current (Some kernel_path) flags s
          in Some (if status \<noteq> KERNEL_OK then status_word status else fd, s))"

definition syscall_read ::
  "u32 \<Rightarrow> u32 \<Rightarrow> u32 \<Rightarrow> 'a syscall_state_scheme \<Rightarrow> (u32 \<times> 'a syscall_state_scheme) option" where
  "syscall_read fd buffer len s =
     (if len = 0 then Some (0, s)
      else
        let read_length = (if len > SYSCALL_COPY_CHUNK_MAX then SYSCALL_COPY_CHUNK_MAX else len)
        in if \<not> syscall_user_buffer_is_valid buffer read_length
           then Some (status_word KERNEL_ERROR_PERMISSION_DENIED, s)
           else
             let ((status, bs), s) = fd_table_read_current fd read_length s
             in if status \<noteq> KERNEL_OK then Some (status_word status, s)
                else
                  (case syscall_copy_to_user buffer bs (vm s) of
                     None \<Rightarrow> None
                   | Some (status, v) \<Rightarrow>
                     if status \<noteq> KERNEL_OK then Some (status_word status, s\<lparr>vm := v\<rparr>)
                     else Some (of_nat (length bs), s\<lparr>vm := v\<rparr>)))"

definition syscall_close :: "u32 \<Rightarrow> 'a syscall_state_scheme \<Rightarrow> (u32 \<times> 'a syscall_state_scheme) option" where
  "syscall_close fd s = (let (status, s) = fd_table_close_current fd s in Some (status_word status, s))"

text \<open>The bytes of a \<^verbatim>\<open>vfs_stat_t\<close>: five words, least significant byte first.\<close>

definition word_bytes :: "u32 \<Rightarrow> u8 list" where
  "word_bytes w = map (\<lambda>k. ucast (drop_bit k w)) [0, 8, 16, 24]"

definition stat_bytes :: "vfs_stat \<Rightarrow> u8 list" where
  "stat_bytes st = concat (map word_bytes
     [stat_type st, stat_size st, stat_mode st, stat_flags st, stat_child_count st])"

definition syscall_stat :: "u32 \<Rightarrow> u32 \<Rightarrow> 'a syscall_state_scheme \<Rightarrow> (u32 \<times> 'a syscall_state_scheme) option" where
  "syscall_stat path out_stat s =
     (case syscall_copy_user_string path VFS_PATH_MAX (vm s) of
        None \<Rightarrow> None
      | Some (status, kernel_path) \<Rightarrow>
        if status \<noteq> KERNEL_OK then Some (status_word status, s)
        else
          let ((status, kernel_stat), s) = vfs_stat_path (Some kernel_path) s
          in if status \<noteq> KERNEL_OK then Some (status_word status, s)
             else
               (case syscall_copy_to_user out_stat (stat_bytes (the kernel_stat)) (vm s) of
                  None \<Rightarrow> None
                | Some (status, v) \<Rightarrow> Some (status_word status, s\<lparr>vm := v\<rparr>)))"

definition syscall_get_arg ::
  "u32 \<Rightarrow> u32 \<Rightarrow> u32 \<Rightarrow> 'a syscall_state_scheme \<Rightarrow> (u32 \<times> 'a syscall_state_scheme) option" where
  "syscall_get_arg index buffer len s =
     (if len = 0 then Some (status_word KERNEL_ERROR_INVALID_ARGUMENT, s)
      else
        (case process_get_current_argument index (of_nat PROCESS_ARGUMENT_MAX) s of
           (status, argument) \<Rightarrow>
           if status \<noteq> KERNEL_OK then Some (status_word status, s)
           else
             let argument_length = of_nat (length (the argument)) :: u32
             in if argument_length + 1 > len then Some (status_word KERNEL_ERROR_UNSUPPORTED, s)
                else
                  (case syscall_copy_to_user buffer (map of_char (the argument) @ [0]) (vm s) of
                     None \<Rightarrow> None
                   | Some (status, v) \<Rightarrow>
                     if status \<noteq> KERNEL_OK then Some (status_word status, s\<lparr>vm := v\<rparr>)
                     else Some (argument_length, s\<lparr>vm := v\<rparr>))))"

definition syscall_exec :: "u32 \<Rightarrow> u32 \<Rightarrow> 'a syscall_state_scheme \<Rightarrow> (u32 \<times> 'a syscall_state_scheme) option" where
  "syscall_exec path args s =
     (case syscall_copy_user_string path VFS_PATH_MAX (vm s) of
        None \<Rightarrow> None
      | Some (status, kernel_path) \<Rightarrow>
        if status \<noteq> KERNEL_OK then Some (status_word status, s)
        else
          let create = (\<lambda>kernel_arguments.
                let ((status, process), s) = exec_create_with_args (Some kernel_path) kernel_arguments s
                in if status \<noteq> KERNEL_OK then Some (status_word status, s)
                   else
                     (case process of
                        None \<Rightarrow> Some (status_word KERNEL_ERROR_INVALID_STATE, s)
                      | Some i \<Rightarrow> Some (pid (process_table s ! i), s)))
          in if args = 0 then create None
             else
               (case syscall_copy_user_string args PROCESS_ARGUMENT_LINE_MAX (vm s) of
                  None \<Rightarrow> None
                | Some (status, kernel_arguments) \<Rightarrow>
                  if status \<noteq> KERNEL_OK then Some (status_word status, s)
                  else create (Some kernel_arguments)))"

definition syscall_dispatch ::
  "u32 \<Rightarrow> u32 \<Rightarrow> u32 \<Rightarrow> u32 \<Rightarrow> 'a syscall_state_scheme \<Rightarrow> (u32 \<times> 'a syscall_state_scheme) option" where
  "syscall_dispatch number arg1 arg2 arg3 s =
     (let s = syscall_info_update (\<lambda>y. y\<lparr>total_calls := total_calls y + 1, last_number := number,
            last_arg1 := arg1, last_arg2 := arg2, last_arg3 := arg3\<rparr>) s
      in if number = LIAM_SYSCALL_EXIT then Some (status_word KERNEL_OK, process_mark_exit arg1 s)
         else if number = LIAM_SYSCALL_WRITE then syscall_write arg1 arg2 s
         else if number = LIAM_SYSCALL_GET_TICKS then Some (timer_ticks s, s)
         else if number = LIAM_SYSCALL_YIELD then Some (status_word KERNEL_OK, s)
         else if number = LIAM_SYSCALL_GET_PID then Some (process_get_current_pid s, s)
         else if number = LIAM_SYSCALL_OPEN then syscall_open arg1 arg2 s
         else if number = LIAM_SYSCALL_READ then syscall_read arg1 arg2 arg3 s
         else if number = LIAM_SYSCALL_CLOSE then syscall_close arg1 s
         else if number = LIAM_SYSCALL_STAT then syscall_stat arg1 arg2 s
         else if number = LIAM_SYSCALL_GET_ARGC then Some (process_get_current_argc s, s)
         else if number = LIAM_SYSCALL_GET_ARG then syscall_get_arg arg1 arg2 arg3 s
         else if number = LIAM_SYSCALL_EXEC then syscall_exec arg1 arg2 s
         else Some (status_word KERNEL_ERROR_UNSUPPORTED,
           (syscall_info_update (unsupported_calls_update (\<lambda>n. n + 1)) s)
             \<lparr>screen := log_warning ''Unsupported syscall requested'' (screen s)\<rparr>))"

section \<open>The check of user pointers\<close>

lemma unat_last_byte:
  assumes "len \<noteq> 0"
  shows "unat (a + len - 1 :: u32) =
    (if unat a + unat len \<le> 2 ^ 32 then unat a + unat len - 1 else unat a + unat len - 1 - 2 ^ 32)"
proof -
  have l: "0 < unat len" "unat (len - 1) = unat len - 1" using assms by (simp_all add: unat_gt_0 unat_minus_one)
  have "unat (a + len - 1) = unat (a + (len - 1))" by (simp add: add_diff_eq)
  also have "\<dots> = (unat a + unat (len - 1)) mod 2 ^ 32" by (simp add: unat_word_ariths(1))
  also have "\<dots> = (unat a + unat len - 1) mod 2 ^ 32" using l by simp
  finally show ?thesis
    using unat_u32_bound [of a] unat_u32_bound [of len] l(1) by (simp add: le_mod_geq not_le)
qed

lemma range_contains_iff:
  assumes "len \<noteq> 0" "unat start + 4096 < 2 ^ 32"
  shows "syscall_user_range_contains a len start 4096 \<longleftrightarrow>
    unat start \<le> unat a \<and> unat a + unat len \<le> unat start + 4096"
proof -
  have l: "0 < unat len" using assms(1) by (simp add: unat_gt_0)
  have "unat (start + 4096 - 1) = unat start + 4095" using unat_last_byte [of 4096 start] assms(2) by simp
  then show ?thesis
    using assms unat_last_byte [OF assms(1), of a] l unat_u32_bound [of a] unat_u32_bound [of len]
    by (auto simp: syscall_user_range_contains_def Let_def word_less_nat_alt word_le_nat_alt)
qed

lemma buffer_valid_iff:
  "syscall_user_buffer_is_valid p len \<longleftrightarrow> 0 < unat len \<and>
     (0x10000000 \<le> unat p \<and> unat p + unat len \<le> 0x10001000 \<or> 0x10001000 \<le> unat p \<and> unat p + unat len \<le> 0x10002000)"
proof (cases "p = 0 \<or> len = 0")
  case False
  then have l: "len \<noteq> 0" "0 < unat len" by (simp_all add: unat_gt_0)
  have "syscall_user_range_contains p len 0x10000000 4096 \<longleftrightarrow> 0x10000000 \<le> unat p \<and> unat p + unat len \<le> 0x10001000"
    "syscall_user_range_contains p len 0x10001000 4096 \<longleftrightarrow> 0x10001000 \<le> unat p \<and> unat p + unat len \<le> 0x10002000"
    using range_contains_iff [OF l(1), of "0x10000000" p] range_contains_iff [OF l(1), of "0x10001000" p] by simp_all
  then show ?thesis using False l by (simp add: syscall_user_buffer_is_valid_def)
qed (auto simp: syscall_user_buffer_is_valid_def)

text \<open>Every byte of a buffer that passes the check lies in one of the user pages.\<close>

lemma user_page_virtual_iff:
  "user_page_virtual a \<longleftrightarrow> 0x10000000 \<le> unat a \<and> unat a < 0x10002000"
proof -
  have "unat (page_align_down a) = unat a div 4096 * 4096" by (simp add: unat_page_align_down)
  then have "page_align_down a = c \<longleftrightarrow> unat a div 4096 * 4096 = unat c" for c by (metis word_unat_eq_iff)
  then have "user_page_virtual a \<longleftrightarrow> unat a div 4096 * 4096 = 0x10000000 \<or> unat a div 4096 * 4096 = 0x10001000"
    by (simp add: user_page_virtual_def)
  also have "\<dots> \<longleftrightarrow> 0x10000000 \<le> unat a \<and> unat a < 0x10002000" by auto
  finally show ?thesis .
qed

lemma valid_byte:
  assumes "syscall_user_buffer_is_valid p len" "i < unat len"
  shows "unat (p + of_nat i) = unat p + i" "user_page_virtual (p + of_nat i)"
proof -
  have b: "0x10000000 \<le> unat p" "unat p + unat len \<le> 0x10002000" using assms(1) by (auto simp: buffer_valid_iff)
  then show u: "unat (p + of_nat i) = unat p + i"
    using assms(2) by (simp add: unat_word_ariths(1) unat_of_nat take_bit_nat_eq_self)
  show "user_page_virtual (p + of_nat i)" unfolding user_page_virtual_iff u using b assms(2) by simp
qed

section \<open>Copying between the kernel and user memory\<close>

lemma user_physical_inj:
  assumes f: "user_frames code stack v" and "user_page_virtual a" "user_page_virtual b" "physical v a = physical v b"
  shows "a = b"
proof -
  let ?base = "\<lambda>x. if page_align_down x = RING3_USER_CODE_VIRTUAL then code else stack"
  have ph: "physical v x = Some (?base x + (x AND 0xFFF))" if "user_page_virtual x" for x
    using that physical_code [OF f] physical_stack [OF f] by (auto simp: user_page_virtual_def)
  have "page_aligned (?base x)" for x using user_frames_page [OF f] by simp
  note fb = frame_byte [OF this]
  have e: "?base a + (a AND 0xFFF) = ?base b + (b AND 0xFFF)" using ph assms(2-4) by auto
  have "a AND 0xFFF = b AND 0xFFF" using fb(2) [of a a] fb(2) [of b b] e by metis
  moreover have "?base a = ?base b" using fb(1) [of a a] fb(1) [of b b] e by metis
  then have "page_align_down a = page_align_down b"
    using f assms(2,3) by (auto simp: user_page_virtual_def user_frames_def split: if_splits)
  ultimately show ?thesis using page_split [of a] page_split [of b] by metis
qed

lemma write_user_then_read:
  assumes f: "user_frames code stack v" and "user_page_virtual a" "user_page_virtual x" "write_virtual a b v = Some w"
  shows "read_virtual w x = (if x = a then Some b else read_virtual v x)"
proof -
  obtain p where p: "physical v a = Some p" "w = v\<lparr>mem := store8 p b (mem v)\<rparr>" using assms(4) by (auto simp: write_virtual_def)
  obtain q where q: "physical v x = Some q" using user_physical [OF f assms(3)] by blast
  have "same_mapping v w" using write_user_byte [OF f assms(2), of b] assms(4) by auto
  then have "physical w x = Some q" using q by (simp add: same_mapping_def physical_def)
  moreover have "q = p \<longleftrightarrow> x = a" using user_physical_inj [OF f assms(3,2)] p q by auto
  ultimately show ?thesis using q p(2) by (auto simp: read_virtual_def load8_store8)
qed

lemma read_bytes_user:
  assumes "user_frames code stack v" "\<And>i. i < n \<Longrightarrow> user_page_virtual (a + of_nat i)"
  shows "\<exists>bs. read_bytes v a n = Some bs \<and> length bs = n \<and> (\<forall>i < n. read_virtual v (a + of_nat i) = Some (bs ! i))"
  using assms(2)
proof (induction n arbitrary: a)
  case (Suc n)
  have "user_page_virtual a" using Suc.prems [of 0] by simp
  then obtain b where b: "read_virtual v a = Some b" using read_user_byte [OF assms(1)] by blast
  have e: "a + 1 + of_nat i = a + of_nat (Suc i)" for i by simp
  have "user_page_virtual (a + 1 + of_nat i)" if "i < n" for i unfolding e using Suc.prems [of "Suc i"] that by simp
  from Suc.IH [OF this] obtain bs where bs: "read_bytes v (a + 1) n = Some bs" "length bs = n"
    "\<forall>i < n. read_virtual v (a + of_nat (Suc i)) = Some (bs ! i)" unfolding e by blast
  have "read_virtual v (a + of_nat i) = Some ((b # bs) ! i)" if "i < Suc n" for i
    using that b bs(3) by (cases i) (simp_all del: of_nat_Suc)
  then show ?case using b bs by simp
qed simp

lemma write_bytes_user:
  assumes "user_frames code stack v" "\<And>i. i < length bs \<Longrightarrow> user_page_virtual (a + of_nat i)" "length bs < 2 ^ 32"
  shows "\<exists>w. write_bytes a bs v = Some w \<and> same_mapping v w \<and> same_outside_user code stack v w \<and>
    (\<forall>x. user_page_virtual x \<longrightarrow> (\<forall>i < length bs. x \<noteq> a + of_nat i) \<longrightarrow> read_virtual w x = read_virtual v x) \<and>
    (\<forall>i < length bs. read_virtual w (a + of_nat i) = Some (bs ! i))"
  using assms
proof (induction bs arbitrary: a v)
  case Nil
  then show ?case by (simp add: same_outside_user_def same_mapping_refl user_frames_def)
next
  case (Cons b bs)
  have a: "user_page_virtual a" using Cons.prems(2) [of 0] by simp
  obtain u where u: "write_virtual a b v = Some u" "same_mapping v u" "same_outside_user code stack v u"
    using write_user_byte [OF Cons.prems(1) a, of b] by blast
  have f: "user_frames code stack u" using user_frames_same [OF Cons.prems(1) u(2)] .
  have e: "a + 1 + of_nat i = a + of_nat (Suc i)" for i by simp
  have p: "user_page_virtual (a + 1 + of_nat i)" if "i < length bs" for i unfolding e using Cons.prems(2) [of "Suc i"] that by simp
  have l: "length bs < 2 ^ 32" using Cons.prems(3) by simp
  from Cons.IH [OF f p l] obtain w where w: "write_bytes (a + 1) bs u = Some w" "same_mapping u w" "same_outside_user code stack u w"
    "\<forall>x. user_page_virtual x \<longrightarrow> (\<forall>i < length bs. x \<noteq> a + of_nat (Suc i)) \<longrightarrow> read_virtual w x = read_virtual u x"
    "\<forall>i < length bs. read_virtual w (a + of_nat (Suc i)) = Some (bs ! i)" unfolding e by blast
  have ne: "a \<noteq> a + of_nat (Suc i)" if "i < length bs" for i
    using that Cons.prems(3) eq_of_nat_u32_iff [of "Suc i" 0] by (auto simp del: of_nat_Suc)
  have "read_virtual w x = read_virtual v x" if "user_page_virtual x" "\<forall>i < length (b # bs). x \<noteq> a + of_nat i" for x
    using that w(4) write_user_then_read [OF Cons.prems(1) a that(1) u(1)] by (force simp del: of_nat_Suc)
  moreover have "read_virtual w (a + of_nat i) = Some ((b # bs) ! i)" if "i < length (b # bs)" for i
    using that w(4,5) ne a write_user_then_read [OF Cons.prems(1) a a u(1)] by (cases i) (auto simp del: of_nat_Suc)
  ultimately show ?case
    using u w by (auto intro: same_mapping_trans same_outside_user_trans)
qed

text \<open>What the two copies do on a machine whose user pages are ready.\<close>

lemma copy_from_user_spec:
  assumes "user_frames code stack v"
  shows "syscall_copy_from_user source len v =
      (if len = 0 then Some (KERNEL_OK, [])
       else if \<not> syscall_user_buffer_is_valid source len then Some (KERNEL_ERROR_PERMISSION_DENIED, [])
       else Some (KERNEL_OK, map (\<lambda>i. the (read_virtual v (source + of_nat i))) [0..<unat len]))"
proof (cases "syscall_user_buffer_is_valid source len")
  case True
  obtain bs where bs: "read_bytes v source (unat len) = Some bs" "length bs = unat len"
    "\<forall>i < unat len. read_virtual v (source + of_nat i) = Some (bs ! i)"
    using read_bytes_user [OF assms] valid_byte(2) [OF True] by blast
  then have "bs = map (\<lambda>i. the (read_virtual v (source + of_nat i))) [0..<unat len]"
    by (intro nth_equalityI) simp_all
  with bs(1) True show ?thesis by (simp add: syscall_copy_from_user_def)
qed (simp add: syscall_copy_from_user_def)

lemma copy_to_user_spec:
  assumes f: "user_frames code stack v" and n: "length data < 2 ^ 32"
  obtains (nothing) "data = []" "syscall_copy_to_user destination data v = Some (KERNEL_OK, v)"
  | (refused) "data \<noteq> []" "\<not> syscall_user_buffer_is_valid destination (of_nat (length data))"
    "syscall_copy_to_user destination data v = Some (KERNEL_ERROR_PERMISSION_DENIED, v)"
  | (copied) w where "data \<noteq> []" "syscall_user_buffer_is_valid destination (of_nat (length data))"
    "syscall_copy_to_user destination data v = Some (KERNEL_OK, w)" "same_mapping v w" "same_outside_user code stack v w"
    "\<And>x. user_page_virtual x \<Longrightarrow> (\<forall>i < length data. x \<noteq> destination + of_nat i) \<Longrightarrow> read_virtual w x = read_virtual v x"
    "\<And>i. i < length data \<Longrightarrow> read_virtual w (destination + of_nat i) = Some (data ! i)"
proof -
  let ?len = "of_nat (length data) :: u32"
  have u: "unat ?len = length data" using n by (simp add: unat_of_nat take_bit_nat_eq_self)
  then have z: "?len = 0 \<longleftrightarrow> data = []" by (metis length_0_conv unat_eq_zero)
  consider "data = []" | "data \<noteq> []" "\<not> syscall_user_buffer_is_valid destination ?len"
    | "data \<noteq> []" "syscall_user_buffer_is_valid destination ?len" by blast
  then show thesis
  proof cases
    case 1
    then have "syscall_copy_to_user destination data v = Some (KERNEL_OK, v)" by (simp add: syscall_copy_to_user_def)
    with 1 show thesis by (rule nothing)
  next
    case 2
    then show thesis using refused z by (simp add: syscall_copy_to_user_def)
  next
    case 3
    obtain w where "write_bytes destination data v = Some w" "same_mapping v w" "same_outside_user code stack v w"
      "\<forall>x. user_page_virtual x \<longrightarrow> (\<forall>i < length data. x \<noteq> destination + of_nat i) \<longrightarrow> read_virtual w x = read_virtual v x"
      "\<forall>i < length data. read_virtual w (destination + of_nat i) = Some (data ! i)"
      using write_bytes_user [OF f valid_byte(2) [OF 3(2), unfolded u] n] by blast
    then show thesis using copied [of w] 3 z by (simp add: syscall_copy_to_user_def)
  qed
qed

lemma copy_user_string_total:
  assumes "user_frames code stack v"
  shows "\<exists>status str. syscall_copy_user_string source n v = Some (status, str)"
proof -
  have "\<exists>status str. copy_string_loop v source n = Some (status, str)" for source
  proof (induction n arbitrary: source)
    case (Suc n)
    show ?case
    proof (cases "syscall_user_buffer_is_valid source 1")
      case True
      then have "user_page_virtual source" using valid_byte(2) [of source 1 0] by simp
      then obtain b where "read_virtual v source = Some b" using read_user_byte [OF assms] by blast
      then show ?thesis using Suc [of "source + 1"] True by (cases "b = 0") auto
    qed simp
  qed simp
  then show ?thesis by (simp add: syscall_copy_user_string_def)
qed

section \<open>No call faults, and no call touches foreign memory\<close>

definition sys_ok :: "'a syscall_state_scheme \<Rightarrow> bool" where
  "sys_ok s \<longleftrightarrow> ring3_ok s \<and> ready (ring3_info s) \<and> table_ok s \<and> vga_inv (screen s)"

text \<open>The effect of a system call on the rest of the machine.\<close>

definition sys_step :: "'a syscall_state_scheme \<Rightarrow> 'a syscall_state_scheme \<Rightarrow> bool" where
  "sys_step s t \<longleftrightarrow> sys_ok t \<and> same_mapping (vm s) (vm t) \<and>
     same_outside_user (code_physical (ring3_info s)) (stack_physical (ring3_info s)) (vm s) (vm t) \<and>
     ring3_info t = ring3_info s \<and> gdt t = gdt s \<and> vfs_root t = vfs_root s \<and>
     vi_initialized (vfs_info t) = vi_initialized (vfs_info s) \<and>
     fb_initialized (flat_binary_info t) = fb_initialized (flat_binary_info s) \<and>
     ei_initialized (elf32_info t) = ei_initialized (elf32_info s) \<and>
     fd_initialized (fd_table_info t) = fd_initialized (fd_table_info s) \<and>
     current_process t = current_process s \<and> same_outside (screen s) (screen t) \<and>
     (next_pid t = next_pid s \<or> next_pid t = next_pid s + 1) \<and>
     (pids_ok s \<and> next_pid s \<le> next_pid t \<longrightarrow> pids_ok t)"

lemma sys_ok_frames:
  "sys_ok s \<Longrightarrow> user_frames (code_physical (ring3_info s)) (stack_physical (ring3_info s)) (vm s)"
  by (simp add: sys_ok_def ring3_ok_def)

lemma sys_step_refl: "sys_ok s \<Longrightarrow> sys_step s s"
  using sys_ok_frames [of s] by (simp add: sys_step_def same_outside_user_def user_frames_def same_mapping_refl)

lemma table_ok_more [simp]:
  "table_ok (exec_info_update f s) = table_ok s" "table_ok (syscall_info_update g s) = table_ok s"
  "table_ok (screen_update h s) = table_ok s"
  "pids_ok (exec_info_update f s) = pids_ok s" "pids_ok (syscall_info_update g s) = pids_ok s"
  "pids_ok (screen_update h s) = pids_ok s"
  by (simp_all add: table_ok_def pids_ok_def used_processes_def running_def cong: option.case_cong)

lemma sys_step_info [simp]:
  "sys_step s (exec_info_update f t) = sys_step s t" "sys_step s (syscall_info_update g t) = sys_step s t"
  "sys_step (exec_info_update f s) t = sys_step s t" "sys_step (syscall_info_update g s) t = sys_step s t"
  "sys_ok (exec_info_update f s) = sys_ok s" "sys_ok (syscall_info_update g s) = sys_ok s"
  by (simp_all add: sys_step_def sys_ok_def ring3_ok_def)

lemma quiet_sys_step:
  assumes "sys_ok s" "quiet s t"
  shows "sys_step s t"
proof -
  have m: "screen t = screen s" "timer_ticks t = timer_ticks s"
    using assms(2) by (cases s; cases t; simp add: quiet_def same_machine_def)+
  have k: "vm t = vm s" "ring3_info t = ring3_info s" using assms(2) by (simp_all add: quiet_def same_machine_def)
  have "sys_ok t" using assms k m by (simp add: sys_ok_def quiet_def ring3_ok_def)
  then show ?thesis
    using sys_step_refl [OF assms(1)] assms(2) k m by (simp add: sys_step_def quiet_def same_machine_def)
qed

lemma sys_step_trans:
  assumes st: "sys_step s t" and tu: "sys_step t u" and n: "next_pid t = next_pid s \<or> next_pid u = next_pid t"
  shows "sys_step s u"
proof -
  have r: "ring3_info t = ring3_info s" using st by (simp add: sys_step_def)
  have m: "same_mapping (vm s) (vm t)" "same_mapping (vm t) (vm u)" "same_outside (screen s) (screen t)"
    "same_outside (screen t) (screen u)"
    "same_outside_user (code_physical (ring3_info s)) (stack_physical (ring3_info s)) (vm s) (vm t)"
    "same_outside_user (code_physical (ring3_info s)) (stack_physical (ring3_info s)) (vm t) (vm u)"
    using st tu r by (simp_all add: sys_step_def)
  have p: "next_pid t = next_pid s \<or> next_pid t = next_pid s + 1" "next_pid u = next_pid t \<or> next_pid u = next_pid t + 1"
    "pids_ok s \<and> next_pid s \<le> next_pid t \<longrightarrow> pids_ok t" "pids_ok t \<and> next_pid t \<le> next_pid u \<longrightarrow> pids_ok u"
    using st tu unfolding sys_step_def by blast+
  have "next_pid u = next_pid s \<or> next_pid u = next_pid s + 1" using n p(1,2) by auto
  moreover have "pids_ok s \<and> next_pid s \<le> next_pid u \<longrightarrow> pids_ok u" using n p(3,4) by auto
  ultimately show ?thesis
    using same_mapping_trans [OF m(1,2)] same_outside_trans [OF m(3,4)] same_outside_user_trans [OF m(5,6)] st tu
    unfolding sys_step_def by simp
qed

lemma vm_sys_step:
  assumes "sys_ok s" "same_mapping (vm s) w"
    "same_outside_user (code_physical (ring3_info s)) (stack_physical (ring3_info s)) (vm s) w"
  shows "sys_step s (s\<lparr>vm := w\<rparr>)"
proof -
  have "sys_ok (s\<lparr>vm := w\<rparr>)"
    using assms(1) user_frames_same [OF sys_ok_frames [OF assms(1)] assms(2)] by (simp add: sys_ok_def ring3_ok_def)
  then show ?thesis using assms by (simp add: sys_step_def)
qed

lemma screen_sys_step: "sys_ok s \<Longrightarrow> screen_step (screen s) v \<Longrightarrow> sys_step s (s\<lparr>screen := v\<rparr>)"
  using sys_step_refl [of s] by (simp add: sys_step_def sys_ok_def ring3_ok_def screen_step_def)

lemma copy_to_user_step:
  assumes "sys_ok s" "length data < 2 ^ 32"
  shows "\<exists>status v. syscall_copy_to_user destination data (vm s) = Some (status, v) \<and> sys_step s (s\<lparr>vm := v\<rparr>)"
proof (cases rule: copy_to_user_spec [OF sys_ok_frames [OF assms(1)] assms(2), of destination])
  case (3 w)
  then show ?thesis using vm_sys_step [OF assms(1)] by blast
qed (use sys_step_refl [OF assms(1)] in simp_all)

lemma write_loop_step:
  fixes s :: "'a syscall_state_scheme"
  shows "sys_ok s \<Longrightarrow> \<exists>r t. write_loop buffer len k s = Some (r, t) \<and> sys_step s t \<and> next_pid t = next_pid s"
proof (induction buffer len k s rule: write_loop.induct)
  case (1 buffer len k s)
  show ?case
  proof (cases "k < len")
    case True
    define l where "l = len - k"
    define chunk where "chunk = (if l > 512 then 512 else l)"
    let ?copy = "syscall_copy_from_user (buffer + k) chunk (vm s)"
    obtain status bs where c: "?copy = Some (status, bs)"
      using copy_from_user_spec [OF sys_ok_frames [OF 1(2)], of "buffer + k" chunk] by (simp split: if_splits)
    have w: "write_loop buffer len k s = (if status \<noteq> KERNEL_OK then Some (status_word status, s)
        else write_loop buffer len (k + chunk)
          (s\<lparr>screen := fold (\<lambda>b. vga_write_char (char_of (unat b))) bs (screen s)\<rparr>))"
      using True c by (subst write_loop.simps) (simp add: Let_def l_def [symmetric] chunk_def [symmetric])
    show ?thesis
    proof (cases "status = KERNEL_OK")
      case ok: True
      let ?u = "s\<lparr>screen := fold (\<lambda>b. vga_write_char (char_of (unat b))) bs (screen s)\<rparr>"
      have "fold (\<lambda>b. vga_write_char (char_of (unat b))) bs x = fold put_char (map (\<lambda>b. char_of (unat b)) bs) x" for x
        by (induction bs arbitrary: x) (simp_all add: vga_write_char_def)
      then have "sys_step s ?u" using screen_sys_step [OF 1(2)] fold_put_char_step by simp
      moreover from this have "sys_ok ?u" by (simp add: sys_step_def)
      then obtain r t where "write_loop buffer len (k + chunk) ?u = Some (r, t)" "sys_step ?u t" "next_pid t = next_pid ?u"
        using 1(1) [OF True l_def chunk_def c refl, of] ok by auto
      ultimately show ?thesis using w ok sys_step_trans [of s ?u t] by auto
    qed (use w sys_step_refl [OF 1(2)] in simp)
  qed (use sys_step_refl [OF 1(2)] in \<open>subst write_loop.simps, simp\<close>)
qed

lemma syscall_write_step:
  assumes "sys_ok s"
  shows "\<exists>r t. syscall_write buffer len s = Some (r, t) \<and> sys_step s t"
  unfolding syscall_write_def using write_loop_step [OF assms] sys_step_refl [OF assms] by (simp, blast)

lemma syscall_open_step:
  assumes "sys_ok s"
  shows "\<exists>r t. syscall_open path flags s = Some (r, t) \<and> sys_step s t"
proof -
  obtain status str where c: "syscall_copy_user_string path 128 (vm s) = Some (status, str)"
    using copy_user_string_total [OF sys_ok_frames [OF assms]] by blast
  obtain st fd t where o: "fd_table_open_current (Some str) flags s = ((st, fd), t)" by (meson nested_pair)
  have "sys_step s t" using quiet_sys_step [OF assms fd_open_quiet [OF o]] .
  then show ?thesis using c o sys_step_refl [OF assms] by (simp add: syscall_open_def)
qed

lemma syscall_close_step:
  assumes "sys_ok s"
  shows "\<exists>r t. syscall_close fd s = Some (r, t) \<and> sys_step s t"
proof -
  obtain st t where c: "fd_table_close_current fd s = (st, t)" by fastforce
  have "sys_step s t" using quiet_sys_step [OF assms fd_close_quiet [OF c]] .
  then show ?thesis using c by (simp add: syscall_close_def)
qed

lemma syscall_read_step:
  assumes "sys_ok s"
  shows "\<exists>r t. syscall_read fd buffer len s = Some (r, t) \<and> sys_step s t"
proof (cases "len = 0 \<or> \<not> syscall_user_buffer_is_valid buffer (if len > 512 then 512 else len)")
  case True
  then show ?thesis using sys_step_refl [OF assms] by (auto simp: syscall_read_def)
next
  case False
  let ?n = "if len > 512 then 512 else len"
  obtain st data u where r: "fd_table_read_current fd ?n s = ((st, data), u)" by (meson nested_pair)
  have q: "quiet s u" using fd_read_quiet [OF r] .
  have u: "sys_step s u" using quiet_sys_step [OF assms q] .
  then have ok: "sys_ok u" by (simp add: sys_step_def)
  have d: "length data < 2 ^ 32" using fd_read_length [OF r] by simp
  obtain status v where c: "syscall_copy_to_user buffer data (vm u) = Some (status, v)" "sys_step u (u\<lparr>vm := v\<rparr>)"
    using copy_to_user_step [OF ok d] by blast
  have "sys_step s (u\<lparr>vm := v\<rparr>)" using sys_step_trans [OF u c(2)] by simp
  then show ?thesis using False r c(1) u by (auto simp: syscall_read_def Let_def)
qed

lemma vfs_stat_quiet: "vfs_stat_path path s = (res, t) \<Longrightarrow> quiet s t"
proof -
  assume p: "vfs_stat_path path s = (res, t)"
  obtain st node u where l: "vfs_lookup path s = ((st, node), u)" by (meson nested_pair)
  have "quiet u (vfs_set_last_status x u)" for x and u :: "'a process_manager_scheme"
    by (simp add: vfs_set_last_status_def quiet_def same_machine_def)
  then have "quiet u t \<or> t = u" using p l by (auto simp: vfs_stat_path_def vfs_stat_node_def split: option.splits if_splits)
  then show ?thesis using quiet_lookup [OF l] quiet_trans by blast
qed

lemma syscall_stat_step:
  assumes "sys_ok s"
  shows "\<exists>r t. syscall_stat path out s = Some (r, t) \<and> sys_step s t"
proof -
  obtain status str where c: "syscall_copy_user_string path 128 (vm s) = Some (status, str)"
    using copy_user_string_total [OF sys_ok_frames [OF assms]] by blast
  obtain st ks u where p: "vfs_stat_path (Some str) s = ((st, ks), u)" by (meson nested_pair)
  have q: "quiet s u" using vfs_stat_quiet [OF p] .
  have u: "sys_step s u" using quiet_sys_step [OF assms q] .
  then have ok: "sys_ok u" by (simp add: sys_step_def)
  have d: "length (stat_bytes (the ks)) < 2 ^ 32" by (simp add: stat_bytes_def word_bytes_def)
  obtain st' v where w: "syscall_copy_to_user out (stat_bytes (the ks)) (vm u) = Some (st', v)" "sys_step u (u\<lparr>vm := v\<rparr>)"
    using copy_to_user_step [OF ok d] by blast
  have "sys_step s (u\<lparr>vm := v\<rparr>)" using sys_step_trans [OF u w(2)] by simp
  then show ?thesis using c p w(1) u sys_step_refl [OF assms] by (auto simp: syscall_stat_def Let_def)
qed

lemma syscall_get_arg_step:
  assumes "sys_ok s"
  shows "\<exists>r t. syscall_get_arg index buffer len s = Some (r, t) \<and> sys_step s t"
proof -
  obtain st arg where a: "process_get_current_argument index 64 s = (st, arg)" by fastforce
  show ?thesis
  proof (cases "st = KERNEL_OK")
    case True
    then obtain str where str: "arg = Some str" "length str < 64"
      using a by (auto simp: process_get_current_argument_def Let_def bounded_copy_def split: option.splits if_splits)
    let ?data = "map of_char str @ [0] :: u8 list"
    have "length ?data < 2 ^ 32" using str(2) by simp
    from copy_to_user_step [OF assms this] obtain st' v where
      "syscall_copy_to_user buffer ?data (vm s) = Some (st', v)" "sys_step s (s\<lparr>vm := v\<rparr>)" by blast
    then show ?thesis using True str a sys_step_refl [OF assms] by (auto simp: syscall_get_arg_def Let_def)
  qed (use a sys_step_refl [OF assms] in \<open>auto simp: syscall_get_arg_def\<close>)
qed

lemma user_image_lookup_quiet: "user_image_lookup path s = (res, t) \<Longrightarrow> quiet s t"
proof -
  assume l: "user_image_lookup path s = (res, t)"
  have r: "quiet u w" if "user_image_resolve_registered_node r u = (x, w)" for r x and u w :: "'a process_manager_scheme"
    using that by (auto simp: user_image_resolve_registered_node_def Let_def dest: quiet_lookup split: prod.splits if_splits)
  show ?thesis using l unfolding user_image_lookup_def Let_def
    by (auto dest!: r split: option.splits prod.splits if_splits)
qed

lemma create_sys_step:
  assumes "sys_ok s" "process_create name entry_point stack s = ((status, out), t)"
  shows "sys_step s t"
proof -
  have "table_ok s" using assms(1) by (simp add: sys_ok_def)
  note c = process_create_ok [OF this assms(2)]
  have m: "screen t = screen s" using c(2) by (cases s; cases t) (simp add: same_machine_def)
  have k: "vm t = vm s" "ring3_info t = ring3_info s" using c(2) by (simp_all add: same_machine_def)
  have "sys_ok t" using assms(1) c(1) k m by (simp add: sys_ok_def ring3_ok_def)
  then show ?thesis
    using sys_step_refl [OF assms(1)] c k m by (simp add: sys_step_def same_machine_def)
qed

lemma exec_create_step:
  assumes "sys_ok s" "exec_create_with_args path args s = (res, t)"
  shows "sys_step s t"
proof (cases path)
  case None
  then show ?thesis using assms sys_step_refl by (auto simp: exec_create_with_args_def)
next
  case (Some p)
  define s1 where "s1 = exec_info_update (\<lambda>x. x\<lparr>spawn_attempts := spawn_attempts x + 1,
              ex_last_path := bounded_copy 64 p\<rparr>) s"
  have s1: "sys_ok s1" "sys_step s x = sys_step s1 x" for x using assms(1) by (simp_all add: s1_def)
  obtain st1 img s2 where l: "user_image_lookup (Some p) s1 = ((st1, img), s2)" by (meson nested_pair)
  have s2: "sys_step s1 s2" "sys_ok s2" "next_pid s2 = next_pid s1"
    using quiet_sys_step [OF s1(1) user_image_lookup_quiet [OF l]] user_image_lookup_quiet [OF l]
    by (simp_all add: sys_step_def quiet_def)
  obtain st2 pr s3 where c: "process_create (Some (ui_name (the img))) (ui_entry (the img)) (ui_user_stack_top (the img)) s2
      = ((st2, pr), s3)" by (meson nested_pair)
  have s3: "sys_step s2 s3" "sys_ok s3" using create_sys_step [OF s2(2) c] by (simp_all add: sys_step_def)
  have s13: "sys_step s1 s3" using sys_step_trans [OF s2(1) s3(1)] s2(3) by simp
  obtain st3 s4 where ip: "process_configure_image_path pr (Some p) s3 = (st3, s4)" by fastforce
  have s4: "sys_step s3 s4" "sys_ok s4" "quiet s3 s4"
    using quiet_sys_step [OF s3(2) configure_image_path_quiet [OF ip]] configure_image_path_quiet [OF ip]
    by (simp_all add: sys_step_def)
  have s14: "sys_step s1 s4" using sys_step_trans [OF s13 s4(1)] s4(3) by (simp add: quiet_def)
  obtain st4 s5 where ca: "process_configure_arguments pr args s4 = (st4, s5)" by fastforce
  have s15: "sys_step s1 s5" if ok: "st2 = KERNEL_OK"
  proof -
    obtain n i where pr: "pr = Some i" "i < 16" "process_table s3 = (process_table s2)[i := fresh_process (next_pid s2) n
          (ui_entry (the img)) (ui_user_stack_top (the img))]"
      using c ok by (cases rule: process_create_cases) auto
    have "length (process_table s2) = 16" using s2(2) by (simp add: sys_ok_def table_ok_def)
    then have "map state (process_table s3) ! i = PROCESS_READY" using pr by (simp add: fresh_process_def)
    moreover have "map state (process_table s4) = map state (process_table s3)" "length (process_table s4) = 16"
      using s4(2,3) by (simp_all add: quiet_def sys_ok_def table_ok_def)
    ultimately have "state (process_table s4 ! i) \<noteq> PROCESS_UNUSED"
      using pr(2) by (metis nth_map process_state.distinct(1))
    moreover have "table_ok s4" using s4(2) by (simp add: sys_ok_def)
    ultimately have "quiet s4 s5" using configure_arguments_quiet [of s4 i args st4 s5] pr ca by simp
    then show ?thesis using sys_step_trans [OF s14 quiet_sys_step [OF s4(2)]] by (simp add: quiet_def)
  qed
  show ?thesis
    using assms(2) Some l c ip ca s2(1) s13 s14 s15 unfolding s1(2)
    by (auto simp: exec_create_with_args_def s1_def [symmetric] Let_def split: if_splits)
qed

lemma syscall_exec_step:
  assumes "sys_ok s"
  shows "\<exists>r t. syscall_exec path args s = Some (r, t) \<and> sys_step s t"
proof -
  obtain st1 str where c1: "syscall_copy_user_string path 128 (vm s) = Some (st1, str)"
    using copy_user_string_total [OF sys_ok_frames [OF assms]] by blast
  obtain st2 line where c2: "syscall_copy_user_string args 128 (vm s) = Some (st2, line)"
    using copy_user_string_total [OF sys_ok_frames [OF assms]] by blast
  have "\<exists>r t. (let ((status, process), s) = exec_create_with_args (Some str) a s
                in if status \<noteq> KERNEL_OK then Some (status_word status, s)
                   else
                     (case process of
                        None \<Rightarrow> Some (status_word KERNEL_ERROR_INVALID_STATE, s)
                      | Some i \<Rightarrow> Some (pid (process_table s ! i), s))) = Some (r, t) \<and> sys_step s t" for a
  proof -
    obtain st pr t where e: "exec_create_with_args (Some str) a s = ((st, pr), t)" by (meson nested_pair)
    then show ?thesis using exec_create_step [OF assms e] by (cases pr) auto
  qed
  then show ?thesis using c1 c2 sys_step_refl [OF assms] unfolding syscall_exec_def by simp
qed

lemma mark_exit_step:
  assumes "sys_ok s"
  shows "sys_step s (process_mark_exit code s)"
proof -
  let ?t = "process_mark_exit code s"
  have t: "table_ok s" using assms by (simp add: sys_ok_def)
  note e = process_mark_exit_ok [OF t, of code]
  have m: "screen ?t = screen s" using e(2) by (cases s; cases ?t) (simp add: same_machine_def)
  have k: "vm ?t = vm s" "ring3_info ?t = ring3_info s" using e(2) by (simp_all add: same_machine_def)
  have "sys_ok ?t" using assms e(1) k m by (simp add: sys_ok_def ring3_ok_def)
  then show ?thesis
    using sys_step_refl [OF assms] e k m by (simp add: sys_step_def same_machine_def)
qed

text \<open>The dispatcher, over the lemmas on the single calls.\<close>

lemma syscall_dispatch_step:
  assumes "sys_ok s"
  shows "\<exists>r t. syscall_dispatch number a b c s = Some (r, t) \<and> sys_step s t"
proof -
  define s' where "s' = syscall_info_update (\<lambda>y. y\<lparr>total_calls := total_calls y + 1, last_number := number,
            last_arg1 := a, last_arg2 := b, last_arg3 := c\<rparr>) s"
  have ok: "sys_ok s'" and eq: "\<And>t. sys_step s t = sys_step s' t" using assms by (simp_all add: s'_def)
  have "sys_step s' (s'\<lparr>screen := log_warning msg (screen s')\<rparr>)" for msg
    using screen_sys_step [OF ok] log_with_prefix_step by (simp add: log_warning_def)
  moreover have "(syscall_info_update f s')\<lparr>screen := v\<rparr> = syscall_info_update f (s'\<lparr>screen := v\<rparr>)" for f v by simp
  ultimately have w: "sys_step s' ((syscall_info_update f s')\<lparr>screen := log_warning msg (screen s')\<rparr>)" for f msg
    by (simp only: sys_step_info)
  show ?thesis
    unfolding syscall_dispatch_def Let_def s'_def [symmetric] eq
    using sys_step_refl [OF ok] mark_exit_step [OF ok] syscall_write_step [OF ok] syscall_open_step [OF ok]
      syscall_read_step [OF ok] syscall_close_step [OF ok] syscall_stat_step [OF ok] syscall_get_arg_step [OF ok]
      syscall_exec_step [OF ok] w
    by simp
qed

section \<open>What writing prints\<close>

text \<open>The characters in user memory from an address on.\<close>

definition user_text :: "vmm_state \<Rightarrow> u32 \<Rightarrow> nat \<Rightarrow> nat \<Rightarrow> string" where
  "user_text v a m n = map (\<lambda>i. char_of (unat (the (read_virtual v (a + of_nat i))))) [m..<n]"

lemma valid_part:
  assumes "syscall_user_buffer_is_valid p len" "unat k + unat n \<le> unat len" "n \<noteq> 0"
  shows "syscall_user_buffer_is_valid (p + k) n"
proof -
  have n: "0 < unat n" using assms(3) by (simp add: unat_gt_0)
  have "unat (p + of_nat (unat k)) = unat p + unat k" using valid_byte(1) [OF assms(1), of "unat k"] assms(2) n by simp
  then show ?thesis using assms(1,2) n by (auto simp: buffer_valid_iff)
qed

lemma write_chunk:
  assumes "sys_ok s" "k < len" "chunk = (if len - k > 512 then 512 else len - k)"
    "syscall_user_buffer_is_valid (buffer + k) chunk"
  shows "write_loop buffer len k s = write_loop buffer len (k + chunk)
      (s\<lparr>screen := vga_write (user_text (vm s) buffer (unat k) (unat k + unat chunk)) (screen s)\<rparr>)"
proof -
  let ?bs = "map (\<lambda>i. the (read_virtual (vm s) (buffer + k + of_nat i))) [0..<unat chunk]"
  have "chunk \<noteq> 0" using assms(4) by (auto simp: syscall_user_buffer_is_valid_def)
  then have c: "syscall_copy_from_user (buffer + k) chunk (vm s) = Some (KERNEL_OK, ?bs)"
    using copy_from_user_spec [OF sys_ok_frames [OF assms(1)], of "buffer + k" chunk] assms(4) by simp
  have f: "fold (\<lambda>b. vga_write_char (char_of (unat b))) bs x = vga_write (map (\<lambda>b. char_of (unat b)) bs) x" for bs :: "u8 list" and x
    by (induction bs arbitrary: x) (simp_all add: vga_write_char_def vga_write_def)
  have "map (\<lambda>b. char_of (unat b)) ?bs = user_text (vm s) buffer (unat k) (unat k + unat chunk)"
    unfolding user_text_def by (intro nth_equalityI) (simp_all add: add.assoc)
  then show ?thesis using assms(2) c
    by (subst write_loop.simps) (simp add: Let_def assms(3) [symmetric] f)
qed

lemma sys_ok_screen: "sys_ok s \<Longrightarrow> sys_ok (s\<lparr>screen := vga_write str (screen s)\<rparr>)"
  using screen_sys_step [of s "vga_write str (screen s)"] fold_put_char_step
  by (simp add: vga_write_def sys_step_def)

lemma write_loop_valid:
  fixes s :: "'a syscall_state_scheme"
  assumes "syscall_user_buffer_is_valid buffer len"
  shows "sys_ok s \<Longrightarrow> k \<le> len \<Longrightarrow> write_loop buffer len k s =
    Some (len, s\<lparr>screen := vga_write (user_text (vm s) buffer (unat k) (unat len)) (screen s)\<rparr>)"
proof (induction "unat len - unat k" arbitrary: k s rule: less_induct)
  case less
  show ?case
  proof (cases "k < len")
    case False
    then have "k = len" using less.prems(2) by simp
    then show ?thesis by (subst write_loop.simps) (simp add: user_text_def vga_write_def)
  next
    case True
    define chunk where "chunk = (if len - k > 512 then 512 else len - k)"
    have l: "unat (len - k) = unat len - unat k" "0 < unat len - unat k"
      using True by (simp_all add: unat_sub word_less_nat_alt order_less_imp_le)
    then have c: "0 < unat chunk" "unat k + unat chunk \<le> unat len"
      by (auto simp: chunk_def word_less_nat_alt)
    then have u: "unat (k + chunk) = unat k + unat chunk"
      using unat_u32_bound [of len] by (simp add: unat_word_ariths(1))
    have v: "syscall_user_buffer_is_valid (buffer + k) chunk"
      using valid_part [OF assms c(2)] c(1) by (metis neq0_conv unat_0)
    let ?s = "s\<lparr>screen := vga_write (user_text (vm s) buffer (unat k) (unat k + unat chunk)) (screen s)\<rparr>"
    have "k + chunk \<le> len" using c(2) by (simp add: word_le_nat_alt u)
    then have IH: "write_loop buffer len (k + chunk) ?s =
      Some (len, ?s\<lparr>screen := vga_write (user_text (vm s) buffer (unat k + unat chunk) (unat len)) (screen ?s)\<rparr>)"
      using less.hyps [of "k + chunk" ?s] sys_ok_screen [OF less.prems(1)] c u l(2) by simp
    have "user_text (vm s) buffer (unat k) (unat len) =
        user_text (vm s) buffer (unat k) (unat k + unat chunk) @ user_text (vm s) buffer (unat k + unat chunk) (unat len)"
      unfolding user_text_def
      using upt_add_eq_append [of "unat k" "unat k + unat chunk" "unat len - (unat k + unat chunk)"] c(2)
      by (simp flip: map_append)
    then show ?thesis
      using write_chunk [OF less.prems(1) True chunk_def v] IH by (simp add: vga_write_def)
  qed
qed

section \<open>Properties\<close>

text \<open>The machine of \<open>small_running\<close> with its user pages.\<close>

definition small_sys :: syscall_state where
  "small_sys = snd (ring3_initialize (process_manager.extend small_running
     \<lparr>exec_info = \<lparr>ex_initialized = True, spawn_attempts = 0, successful_spawns = 0, failed_spawns = 0,
        ex_last_status = KERNEL_OK, last_pid = 0, ex_last_path = []\<rparr>,
      syscall_info = \<lparr>total_calls = 0, last_number = 0, last_arg1 = 0, last_arg2 = 0, last_arg3 = 0, unsupported_calls = 0\<rparr>,
      screen = blank_console, timer_ticks = 0\<rparr>))"

lemma small_sys_ok: "sys_ok small_sys"
  and small_sys_facts: "fd_initialized (fd_table_info small_sys)" "vi_initialized (vfs_info small_sys)"
    "current_process small_sys = Some 0" "process_table small_sys = process_table small_running"
    "vfs_root small_sys = vfs_root small_running" "next_pid small_sys = 2"
proof -
  define s0 where "s0 = process_manager.extend small_running
     \<lparr>exec_info = \<lparr>ex_initialized = True, spawn_attempts = 0, successful_spawns = 0, failed_spawns = 0,
        ex_last_status = KERNEL_OK, last_pid = 0, ex_last_path = []\<rparr>,
      syscall_info = \<lparr>total_calls = 0, last_number = 0, last_arg1 = 0, last_arg2 = 0, last_arg3 = 0, unsupported_calls = 0\<rparr>,
      screen = blank_console, timer_ticks = 0\<rparr>"
  have s0: "vm s0 = vm small_loader" "ring3_info s0 = ring3_info small_loader" "process_table s0 = process_table small_running"
    "process_count s0 = process_count small_running" "current_process s0 = Some 0" "next_pid s0 = 2"
    "fd_table_info s0 = fd_table_info small_running" "vfs_info s0 = vfs_info small_running" "vfs_root s0 = vfs_root small_running"
    "vga_inv (screen s0)"
    by (simp_all add: s0_def process_manager.defs small_running_def small_manager_sel vga_inv_def blank_console_def)
  have c: "can_load s0" using small_loader_facts(1) s0(1,2) by (simp add: can_load_def ring3_ok_def)
  obtain t where i: "ring3_initialize s0 = (KERNEL_OK, t)" "can_load t" "ready (ring3_info t)"
    using can_load_initialize [OF c] .
  have t: "small_sys = t" using i(1) by (simp add: small_sys_def s0_def)
  note f = ring3_initialize_frame [OF i(1)]
  have k: "process_table t = process_table s0" "process_count t = process_count s0" "current_process t = current_process s0"
    "next_pid t = next_pid s0" "fd_table_info t = fd_table_info s0" "screen t = screen s0"
    using f(5) by (cases t; cases s0; simp)+
  have "current_process small_running = current_process s0" by (simp add: s0(5) small_running_facts)
  then have "table_ok t" using small_running_ok k s0 by (simp add: table_ok_def used_processes_def running_def)
  then show "sys_ok small_sys" using i k s0 by (simp add: sys_ok_def t can_load_def)
  show "fd_initialized (fd_table_info small_sys)" "vi_initialized (vfs_info small_sys)"
    "current_process small_sys = Some 0" "process_table small_sys = process_table small_running"
    "vfs_root small_sys = vfs_root small_running" "next_pid small_sys = 2"
    using f k s0 small_running_facts(1,2) by (simp_all add: t)
qed

lemma small_sys_open:
  obtains fd and t :: syscall_state where "sys_ok t" "opened 0 fd os_release_node 0 t"
proof -
  obtain status fd t where o: "fd_table_open_current (Some ''/etc/os-release'') 0 small_sys = ((status, fd), t)"
    by (meson nested_pair)
  have tab: "table_ok small_sys" using small_sys_ok by (simp add: sys_ok_def)
  have l: "lookup_result (vfs_root small_sys) ''/etc/os-release'' = (KERNEL_OK, Some os_release_node)"
    unfolding small_sys_facts(5) by (rule small_lookup)
  have "\<not> (\<forall>n. 3 \<le> n \<and> n < 16 \<longrightarrow> used (files (process_table small_sys ! 0) ! n))"
    by (intro notI, drule spec [of _ 3]) (simp add: small_sys_facts small_running_facts no_file_def)
  moreover have f: "vn_type os_release_node = VFS_NODE_FILE" "file_ok os_release_node"
    by (simp_all add: os_release_node_def file_ok_def os_release_data_def bytes_def)
  ultimately have "status = KERNEL_OK"
    using fd_open_result [OF tab small_sys_facts(1-3) o] unfolding l prod.case option.case by meson
  note o = o [unfolded this]
  show thesis
    using that [of t fd] open_opened [OF tab small_sys_facts(1-3) l f(2) o]
      quiet_sys_step [OF small_sys_ok fd_open_quiet [OF o]] by (simp add: sys_step_def)
qed

text \<open>
  C1: the check of user pointers accepts exactly the buffers that are not empty and lie inside the
  code page or inside the stack page; a buffer that wraps around the end of the address space is
  refused.
\<close>

theorem user_buffer_check_correct:
  "syscall_user_buffer_is_valid p len \<longleftrightarrow> 0 < unat len \<and>
     ({unat p..<unat p + unat len} \<subseteq> {0x10000000..<0x10001000} \<or> {unat p..<unat p + unat len} \<subseteq> {0x10001000..<0x10002000})"
  by (auto simp: buffer_valid_iff)

text \<open>
  C2: no system call faults in the kernel, whatever its number and arguments are: it returns, leaves
  the machine well formed, and changes no page table and no byte of physical memory outside the two
  frames of the user pages. The screen is written within its bounds.
\<close>

theorem syscall_dispatch_safe:
  assumes "sys_ok s"
  shows "\<exists>r t. syscall_dispatch number arg1 arg2 arg3 s = Some (r, t) \<and> sys_ok t \<and>
    translation (vm t) = translation (vm s) \<and> pmm (vm t) = pmm (vm s) \<and> same_outside (screen s) (screen t) \<and>
    (\<forall>a. page_align_down a \<notin> {code_physical (ring3_info s), stack_physical (ring3_info s)} \<longrightarrow>
       load8 (mem (vm t)) a = load8 (mem (vm s)) a)"
proof -
  obtain r t where d: "syscall_dispatch number arg1 arg2 arg3 s = Some (r, t)" "sys_step s t"
    using syscall_dispatch_step [OF assms] by blast
  then show ?thesis by (simp add: sys_step_def same_mapping_def same_outside_user_def)
qed

theorem syscall_dispatch_safe_witness:
  "\<exists>r t. syscall_dispatch 7 3 0xFFFFFFFF 0xFFFFFFFF small_sys = Some (r, t) \<and> sys_ok t"
  using syscall_dispatch_safe [OF small_sys_ok, of 7 3 "0xFFFFFFFF" "0xFFFFFFFF"] by blast

text \<open>
  C3: reading a file into a user buffer delivers the bytes of the file: the call returns their
  number, at most 512 and up to the end of the file, the buffer then holds them, and every other
  byte that user mode can see is unchanged. A buffer outside the user pages is refused.
\<close>

theorem syscall_read_correct:
  assumes "sys_ok s" and "opened i fd node offset s" and "file_ok node" and "len \<noteq> 0"
  shows "\<exists>r t. syscall_read fd buffer len s = Some (r, t) \<and>
    (if \<not> syscall_user_buffer_is_valid buffer (if len > 512 then 512 else len)
     then r = status_word KERNEL_ERROR_PERMISSION_DENIED \<and> t = s
     else let data = take (min (unat len) 512) (drop offset (contents node)) in
       unat r = length data \<and> opened i fd node (offset + length data) t \<and>
       (\<forall>j < length data. read_virtual (vm t) (buffer + of_nat j) = Some (data ! j)) \<and>
       (\<forall>x. user_page_virtual x \<and> (\<forall>j < length data. x \<noteq> buffer + of_nat j) \<longrightarrow> read_virtual (vm t) x = read_virtual (vm s) x))"
proof (cases "syscall_user_buffer_is_valid buffer (if len > 512 then 512 else len)")
  case False
  then show ?thesis using assms(4) by (auto simp: syscall_read_def Let_def)
next
  case True
  let ?n = "if len > 512 then 512 else len"
  define data where "data = take (min (unat len) 512) (drop offset (contents node))"
  have n: "min (unat ?n) 512 = min (unat len) 512" "unat ?n \<le> 512" by (auto simp: word_less_nat_alt)
  obtain u where r: "fd_table_read_current fd ?n s = ((KERNEL_OK, data), u)"
    "opened i fd node (min (offset + min (unat len) 512) (length (contents node))) u"
    using fd_read_opened [OF assms(2,3), of ?n] unfolding n data_def by blast
  have off: "min (offset + min (unat len) 512) (length (contents node)) = offset + length data"
    using assms(2) by (auto simp: data_def opened_def min_def)
  have q: "quiet s u" using fd_read_quiet [OF r(1)] .
  have vm: "vm u = vm s" using q by (simp add: quiet_def same_machine_def)
  have ok: "sys_ok u" using quiet_sys_step [OF assms(1) q] by (simp add: sys_step_def)
  have len: "length data \<le> unat ?n" "length data < 2 ^ 32" using n by (auto simp: data_def)
  then have ur: "unat (of_nat (length data) :: u32) = length data" by (simp add: unat_of_nat take_bit_nat_eq_self)
  have op: "opened i fd node (offset + length data) (u\<lparr>vm := w\<rparr>)" for w using r(2) by (simp add: opened_def off)
  show ?thesis
  proof (cases rule: copy_to_user_spec [OF sys_ok_frames [OF ok] len(2), of buffer])
    case 1
    then show ?thesis
      using True r(1) assms(4) op [of "vm u"] vm by (auto simp: syscall_read_def Let_def data_def [symmetric])
  next
    case 2
    then have "of_nat (length data) \<noteq> (0 :: u32)" using ur by (metis length_0_conv unat_0)
    then have "syscall_user_buffer_is_valid buffer (of_nat (length data))"
      using valid_part [OF True, of 0 "of_nat (length data)"] len(1) ur by simp
    with 2 show ?thesis by simp
  next
    case (3 w)
    then show ?thesis
      using True r(1) assms(4) op [of w] vm ur by (auto simp: syscall_read_def Let_def data_def [symmetric])
  qed
qed

theorem syscall_read_correct_witness:
  "\<exists>(s :: syscall_state) fd r t. syscall_read fd 0x10000100 5 s = Some (r, t) \<and> unat r = 5 \<and>
     read_virtual (vm t) 0x10000100 = Some (of_char CHR ''N'')"
proof -
  obtain fd and s :: syscall_state where s: "sys_ok s" "opened 0 fd os_release_node 0 s" using small_sys_open .
  have f: "file_ok os_release_node" "take 5 (contents os_release_node) = bytes ''NAME=''"
    by (simp_all add: os_release_node_def file_ok_def os_release_data_def bytes_def contents_def)
  have v: "syscall_user_buffer_is_valid 0x10000100 5" by (simp add: buffer_valid_iff)
  have z: "(5 :: u32) \<noteq> 0" by simp
  from syscall_read_correct [OF s f(1) z, of "0x10000100"] v f(2)
  show ?thesis by (fastforce simp: Let_def bytes_def)
qed

text \<open>
  C4: writing prints what the user buffer holds: for a buffer inside a user page the call returns its
  length and the text appears on the screen. A buffer that is valid only in its first 512
  bytes is printed that far although the call reports an error.
\<close>

theorem syscall_write_correct:
  assumes "sys_ok s"
  shows "(syscall_user_buffer_is_valid buffer len \<longrightarrow>
      syscall_write buffer len s = Some (len, s\<lparr>screen := vga_write (user_text (vm s) buffer 0 (unat len)) (screen s)\<rparr>)) \<and>
    (512 < len \<and> len \<le> 4096 \<and> syscall_user_buffer_is_valid buffer 512 \<and>
      \<not> syscall_user_buffer_is_valid (buffer + 512) (if len - 512 > 512 then 512 else len - 512) \<longrightarrow>
      syscall_write buffer len s = Some (status_word KERNEL_ERROR_PERMISSION_DENIED,
        s\<lparr>screen := vga_write (user_text (vm s) buffer 0 512) (screen s)\<rparr>))"
proof (intro conjI impI)
  assume v: "syscall_user_buffer_is_valid buffer len"
  then have "unat len \<le> 4096" by (auto simp: buffer_valid_iff)
  then have "syscall_write buffer len s = write_loop buffer len 0 s"
    using v by (auto simp: syscall_write_def word_less_nat_alt syscall_user_buffer_is_valid_def)
  then show "syscall_write buffer len s =
      Some (len, s\<lparr>screen := vga_write (user_text (vm s) buffer 0 (unat len)) (screen s)\<rparr>)"
    using write_loop_valid [OF v assms, of 0] by simp
next
  let ?k = "if len - 512 > 512 then 512 else len - 512 :: u32"
  assume a: "512 < len \<and> len \<le> 4096 \<and> syscall_user_buffer_is_valid buffer 512 \<and> \<not> syscall_user_buffer_is_valid (buffer + 512) ?k"
  let ?s = "s\<lparr>screen := vga_write (user_text (vm s) buffer 0 512) (screen s)\<rparr>"
  have z: "(0 :: u32) < len" "(4096 < len) = False" "buffer \<noteq> 0" "?k \<noteq> 0"
    using a by (auto simp: syscall_user_buffer_is_valid_def order_less_trans [of 0 512])
  have "write_loop buffer len 0 s = write_loop buffer len 512 ?s"
    using write_chunk [OF assms z(1), of 512 buffer] a by simp
  moreover have "write_loop buffer len 512 ?s = Some (status_word KERNEL_ERROR_PERMISSION_DENIED, ?s)"
    using a z(4) by (subst write_loop.simps) (simp add: Let_def syscall_copy_from_user_def)
  ultimately show "syscall_write buffer len s = Some (status_word KERNEL_ERROR_PERMISSION_DENIED, ?s)"
    using z by (auto simp: syscall_write_def)
qed

theorem syscall_write_correct_witness:
  "\<exists>t. syscall_write 0x10000010 4 small_sys = Some (4, t) \<and>
   fst (the (syscall_write 0x10001E00 600 small_sys)) = status_word KERNEL_ERROR_PERMISSION_DENIED"
proof -
  have "syscall_user_buffer_is_valid 0x10000010 4" "syscall_user_buffer_is_valid 0x10001E00 512"
    "\<not> syscall_user_buffer_is_valid (0x10001E00 + 512) (if (600 :: u32) - 512 > 512 then 512 else 600 - 512)"
    by (simp_all add: buffer_valid_iff)
  then show ?thesis
    using syscall_write_correct [OF small_sys_ok, of "0x10000010" 4] syscall_write_correct [OF small_sys_ok, of "0x10001E00" 600]
    by simp
qed

end
