(* ===== verification/User_Run.thy ===== *)
theory User_Run
  imports Syscall
begin

text \<open>
  Running user programs: the entry to user mode and the way back (\<^verbatim>\<open>arch/i386/ring3.c\<close>,
  \<^verbatim>\<open>arch/i386/ring3_entry.asm\<close>), the running part of \<^verbatim>\<open>core/process.c\<close>, \<^verbatim>\<open>core/exec.c\<close> and
  \<^verbatim>\<open>core/user_program.c\<close>.

  What a user program does is not known to the kernel. A run is the list of its actions that the
  machine can observe: stores to memory, system calls with the registers at the interrupt, and timer
  ticks in between; the properties hold for every such list. The processor lets user mode store only
  to pages that are mapped for it; any other store is a fault, which stops the machine. A run that
  faults, or that ends without leaving user mode, does not return to the kernel: the value \<open>None\<close>.
\<close>

section \<open>System call entry\<close>

record registers =
  eax :: u32
  ebx :: u32
  ecx :: u32
  edx :: u32
  esi :: u32
  edi :: u32
  ebp :: u32
  esp :: u32

record user_program_info =
  up_initialized :: bool
  available_programs :: u32
  up_runs :: u32
  up_successful_runs :: u32
  up_failed_runs :: u32
  up_last_status :: kernel_status
  last_program_name :: string

record user_state = syscall_state +
  user_program_info :: user_program_info

text \<open>The first part of the result says that the kernel was resumed instead of the program.\<close>

definition ring3_syscall_entry ::
  "u32 \<Rightarrow> u32 \<Rightarrow> u32 \<Rightarrow> u32 \<Rightarrow> 'a syscall_state_scheme \<Rightarrow> (bool \<times> u32 \<times> 'a syscall_state_scheme) option" where
  "ring3_syscall_entry syscall_number arg1 arg2 arg3 s =
     (let s = ring3_info_update (\<lambda>r. r\<lparr>syscall_count := syscall_count r + 1,
            last_syscall_number := syscall_number\<rparr>) s
      in case syscall_dispatch syscall_number arg1 arg2 arg3 s of
           None \<Rightarrow> None
         | Some (result, s) \<Rightarrow>
           if in_progress (ring3_info s) \<and> syscall_number = LIAM_SYSCALL_EXIT \<and> result = status_word KERNEL_OK
           then
             let s = ring3_info_update (\<lambda>r. r\<lparr>completed := True, in_progress := False\<rparr>) s;
                 s = gdt_update (tss_set_kernel_stack (previous_tss_esp0 (ring3_info s))) s
             in Some (True, result, s)
           else if syscall_number \<noteq> LIAM_SYSCALL_EXIT then Some (False, result, s)
           else
             let s = ring3_info_update (\<lambda>r. r\<lparr>in_progress := False, r3_failed_runs := r3_failed_runs r + 1,
                   r3_last_status := KERNEL_ERROR_UNSUPPORTED\<rparr>) s;
                 s = gdt_update (tss_set_kernel_stack (previous_tss_esp0 (ring3_info s))) s
             in Some (True, result, s))"

text \<open>
  The stub between the interrupt and the entry, on the words of the kernel stack from its top.
  \<^verbatim>\<open>pushad\<close> leaves \<^verbatim>\<open>edi\<close> on top and \<^verbatim>\<open>popad\<close> ignores the stack pointer it finds.
\<close>

definition pushad :: "registers \<Rightarrow> u32 list" where
  "pushad r = [edi r, esi r, ebp r, esp r, ebx r, edx r, ecx r, eax r]"

definition popad :: "u32 list \<Rightarrow> u32 \<Rightarrow> registers" where
  "popad stack sp = \<lparr>eax = stack ! 7, ebx = stack ! 4, ecx = stack ! 6, edx = stack ! 5, esi = stack ! 1,
     edi = stack ! 0, ebp = stack ! 2, esp = sp\<rparr>"

definition push_word_at :: "nat \<Rightarrow> u32 list \<Rightarrow> u32 list" where
  "push_word_at offset stack = stack ! (offset div 4) # stack"

definition ring3_syscall_stub ::
  "registers \<Rightarrow> 'a syscall_state_scheme \<Rightarrow> (registers option \<times> 'a syscall_state_scheme) option" where
  "ring3_syscall_stub r s =
     (let stack = pushad r;
          stack = push_word_at 20 stack;
          stack = push_word_at 28 stack;
          stack = push_word_at 24 stack;
          stack = push_word_at 40 stack
      in case ring3_syscall_entry (stack ! 0) (stack ! 1) (stack ! 2) (stack ! 3) s of
           None \<Rightarrow> None
         | Some (resumed, result, s) \<Rightarrow>
           if resumed then Some (None, s)
           else
             let stack = drop 4 stack;
                 stack = stack[28 div 4 := result]
             in Some (Some (popad stack (esp r)), s))"

section \<open>User mode\<close>

datatype user_action = Store u32 u8 | Interrupt registers | Tick

fun ring3_enter_user_mode :: "user_action list \<Rightarrow> 'a syscall_state_scheme \<Rightarrow> 'a syscall_state_scheme option" where
  "ring3_enter_user_mode [] s = None"
| "ring3_enter_user_mode (Store a b # rest) s =
     (if user_writable (vm s) a
      then (case write_virtual a b (vm s) of None \<Rightarrow> None | Some v \<Rightarrow> ring3_enter_user_mode rest (s\<lparr>vm := v\<rparr>))
      else None)"
| "ring3_enter_user_mode (Interrupt r # rest) s =
     (case ring3_syscall_stub r s of
        None \<Rightarrow> None
      | Some (None, s) \<Rightarrow> Some s
      | Some (Some _, s) \<Rightarrow> ring3_enter_user_mode rest s)"
| "ring3_enter_user_mode (Tick # rest) s = ring3_enter_user_mode rest (timer_ticks_update (\<lambda>n. n + 1) s)"

definition ring3_run_user_image ::
  "user_action list \<Rightarrow> u32 \<Rightarrow> u32 \<Rightarrow> 'a syscall_state_scheme \<Rightarrow> (kernel_status \<times> 'a syscall_state_scheme) option" where
  "ring3_run_user_image actions user_eip user_esp s =
     (let (status, s) = ring3_initialize s;
          fail = (\<lambda>status s. (status, ring3_info_update (\<lambda>r. r\<lparr>r3_failed_runs := r3_failed_runs r + 1,
            r3_last_status := status\<rparr>) s))
      in if status \<noteq> KERNEL_OK then Some (fail status s)
         else if \<not> ready (ring3_info s) then Some (fail KERNEL_ERROR_INVALID_STATE s)
         else if user_eip = 0 \<or> user_esp = 0 then Some (fail KERNEL_ERROR_INVALID_ARGUMENT s)
         else
           let s = ring3_info_update (\<lambda>r. r\<lparr>r3_runs := r3_runs r + 1, in_progress := True, completed := False,
                 last_syscall_number := 0, previous_tss_esp0 := esp0 (tss_info (gdt s))\<rparr>) s;
               s = gdt_update (tss_set_kernel_stack (kernel_syscall_stack_top (ring3_info s))) s
           in case ring3_enter_user_mode actions s of
                None \<Rightarrow> None
              | Some s \<Rightarrow>
                if \<not> completed (ring3_info s)
                then Some (fail KERNEL_ERROR_INVALID_STATE (ring3_info_update (in_progress_update (\<lambda>_. False)) s))
                else Some (KERNEL_OK, ring3_info_update (\<lambda>r. r\<lparr>r3_successful_runs := r3_successful_runs r + 1,
                       r3_last_status := KERNEL_OK\<rparr>) s))"

section \<open>Running processes\<close>

text \<open>The bookkeeping of \<^verbatim>\<open>process_run\<close> after the program has come back.\<close>

definition process_finish ::
  "nat \<Rightarrow> kernel_status \<Rightarrow> 'a process_manager_scheme \<Rightarrow> 'a process_manager_scheme" where
  "process_finish i status s =
     (let s = (if state (process_table s ! i) = PROCESS_RUNNING
               then if status = KERNEL_OK
                 then process_info_update (\<lambda>p. p\<lparr>exit_count := exit_count p + 1,
                        last_exit_pid := pid (process_table s ! i), last_exit_code := 0, last_exit_status := KERNEL_OK,
                        last_exit_name := bounded_copy PROCESS_NAME_MAX (proc_name (process_table s ! i)),
                        has_last_exit := True\<rparr>)
                        (update_process i (\<lambda>p. p\<lparr>state := PROCESS_EXITED, exit_code := 0\<rparr>) s)
                 else process_info_update (\<lambda>p. p\<lparr>failed_processes := failed_processes p + 1,
                        last_exit_pid := pid (process_table s ! i), last_exit_code := -1, last_exit_status := status,
                        last_exit_name := bounded_copy PROCESS_NAME_MAX (proc_name (process_table s ! i)),
                        has_last_exit := True\<rparr>)
                        (update_process i (\<lambda>p. p\<lparr>state := PROCESS_FAILED, exit_code := -1\<rparr>) s)
               else s);
          s = update_process i (proc_last_status_update (\<lambda>_. status)) s;
          s = s\<lparr>current_process := None\<rparr>;
          s = process_info_update (\<lambda>p. p\<lparr>current_pid := PROCESS_INVALID_PID, pi_last_status := status\<rparr>) s
      in if status = KERNEL_OK then process_info_update (pi_successful_runs_update (\<lambda>n. n + 1)) s
         else process_info_update (pi_failed_runs_update (\<lambda>n. n + 1)) s)"

definition process_run ::
  "user_action list \<Rightarrow> nat option \<Rightarrow> 'a syscall_state_scheme \<Rightarrow> (kernel_status \<times> 'a syscall_state_scheme) option" where
  "process_run actions process s =
     (let s = process_info_update (run_attempts_update (\<lambda>n. n + 1)) s
      in case process of
           None \<Rightarrow> Some (KERNEL_ERROR_INVALID_ARGUMENT, process_info_update
             (\<lambda>p. p\<lparr>pi_failed_runs := pi_failed_runs p + 1, pi_last_status := KERNEL_ERROR_INVALID_ARGUMENT\<rparr>) s)
         | Some i \<Rightarrow>
           if state (process_table s ! i) \<noteq> PROCESS_READY \<and> state (process_table s ! i) \<noteq> PROCESS_EXITED
           then Some (KERNEL_ERROR_INVALID_STATE, process_info_update
             (\<lambda>p. p\<lparr>pi_failed_runs := pi_failed_runs p + 1, last_run_pid := pid (process_table s ! i),
                pi_last_status := KERNEL_ERROR_INVALID_STATE\<rparr>) s)
           else
             let ((load_status, img), s) =
                   (if image_path (process_table s ! i) \<noteq> []
                    then user_image_resolve (Some (image_path (process_table s ! i))) s
                    else ((KERNEL_OK, None), s))
             in if load_status \<noteq> KERNEL_OK
                then
                  let s = process_info_update (\<lambda>p. p\<lparr>pi_failed_runs := pi_failed_runs p + 1,
                        last_run_pid := pid (process_table s ! i), pi_last_status := load_status\<rparr>) s;
                      s = update_process i (\<lambda>p. p\<lparr>proc_last_status := load_status, state := PROCESS_FAILED\<rparr>) s;
                      s = process_info_update (failed_processes_update (\<lambda>n. n + 1)) s
                  in Some (load_status, s)
                else
                  let s = (case img of None \<Rightarrow> s
                           | Some img \<Rightarrow> update_process i (\<lambda>p. p\<lparr>entry := ui_entry img,
                               user_stack := ui_user_stack_top img\<rparr>) s);
                      s = update_process i (\<lambda>p. p\<lparr>state := PROCESS_RUNNING, proc_runs := proc_runs p + 1,
                            exit_code := 0, proc_last_status := KERNEL_OK\<rparr>) s;
                      s = s\<lparr>current_process := Some i\<rparr>;
                      s = process_info_update (\<lambda>p. p\<lparr>current_pid := pid (process_table s ! i),
                            last_run_pid := pid (process_table s ! i)\<rparr>) s
                  in case ring3_run_user_image actions (entry (process_table s ! i)) (user_stack (process_table s ! i)) s of
                       None \<Rightarrow> None
                     | Some (status, s) \<Rightarrow> Some (status, process_finish i status s))"

definition process_run_next_ready ::
  "user_action list \<Rightarrow> 'a syscall_state_scheme \<Rightarrow> ((kernel_status \<times> nat option) \<times> 'a syscall_state_scheme) option" where
  "process_run_next_ready actions s =
     (case process_find_next_ready s of
        None \<Rightarrow> Some ((KERNEL_ERROR_NOT_FOUND, None), s)
      | Some i \<Rightarrow>
        (case process_run actions (Some i) s of
           None \<Rightarrow> None
         | Some (status, s) \<Rightarrow> Some ((status, Some i), s)))"

definition process_run_by_pid ::
  "user_action list \<Rightarrow> u32 \<Rightarrow> 'a syscall_state_scheme \<Rightarrow> ((kernel_status \<times> nat option) \<times> 'a syscall_state_scheme) option" where
  "process_run_by_pid actions n s =
     (case process_find_by_pid n s of
        None \<Rightarrow> Some ((KERNEL_ERROR_NOT_FOUND, None), s)
      | Some i \<Rightarrow>
        if state (process_table s ! i) \<noteq> PROCESS_READY then Some ((KERNEL_ERROR_INVALID_STATE, Some i), s)
        else
          (case process_run actions (Some i) s of
             None \<Rightarrow> None
           | Some (status, s) \<Rightarrow> Some ((status, Some i), s)))"

text \<open>The loop of \<^verbatim>\<open>process_run_all_ready\<close>: the rounds that are left, the processes run so far; the
  program run in round \<open>k\<close> acts as \<open>programs k\<close>.\<close>

fun run_all_loop ::
  "(nat \<Rightarrow> user_action list) \<Rightarrow> nat \<Rightarrow> nat \<Rightarrow> 'a syscall_state_scheme \<Rightarrow> ((kernel_status \<times> nat) \<times> 'a syscall_state_scheme) option" where
  "run_all_loop programs 0 run_count s =
     Some ((if process_find_next_ready s \<noteq> None then KERNEL_ERROR_BUSY else KERNEL_OK, run_count), s)"
| "run_all_loop programs (Suc left) run_count s =
     (case process_find_next_ready s of
        None \<Rightarrow> Some ((if run_count = 0 then KERNEL_ERROR_NOT_FOUND else KERNEL_OK, run_count), s)
      | Some i \<Rightarrow>
        (case process_run (programs run_count) (Some i) s of
           None \<Rightarrow> None
         | Some (status, s) \<Rightarrow>
           if status \<noteq> KERNEL_OK then Some ((status, run_count), s)
           else run_all_loop programs left (run_count + 1) s))"

definition process_run_all_ready ::
  "(nat \<Rightarrow> user_action list) \<Rightarrow> u32 \<Rightarrow> 'a syscall_state_scheme \<Rightarrow> ((kernel_status \<times> nat) \<times> 'a syscall_state_scheme) option" where
  "process_run_all_ready programs max_runs s =
     run_all_loop programs (if max_runs = 0 then PROCESS_MAX_PROCESSES else unat max_runs) 0 s"

section \<open>Spawning\<close>

definition exec_spawn_with_args ::
  "user_action list \<Rightarrow> string option \<Rightarrow> string option \<Rightarrow> 'a syscall_state_scheme \<Rightarrow>
     ((kernel_status \<times> nat option) \<times> 'a syscall_state_scheme) option" where
  "exec_spawn_with_args actions path args s =
     (let ((status, process), s) = exec_create_with_args path args s
      in if status \<noteq> KERNEL_OK then Some ((status, process), s)
         else
           (case process_run actions process s of
              None \<Rightarrow> None
            | Some (status, s) \<Rightarrow>
              let s = exec_info_update (\<lambda>x. x\<lparr>ex_last_status := status, last_pid := pid (process_table s ! the process)\<rparr>) s;
                  s = (if status \<noteq> KERNEL_OK then exec_info_update (failed_spawns_update (\<lambda>n. n + 1)) s else s)
              in Some ((status, process), s)))"

definition exec_spawn ::
  "user_action list \<Rightarrow> string option \<Rightarrow> 'a syscall_state_scheme \<Rightarrow>
     ((kernel_status \<times> nat option) \<times> 'a syscall_state_scheme) option" where
  "exec_spawn actions path s = exec_spawn_with_args actions path (Some []) s"

definition exec_start_init :: "user_action list \<Rightarrow> 'a syscall_state_scheme \<Rightarrow> (kernel_status \<times> 'a syscall_state_scheme) option" where
  "exec_start_init actions s =
     (case exec_spawn actions (Some ''/sbin/init'') s of
        None \<Rightarrow> None
      | Some ((status, process), s) \<Rightarrow> Some (status, s))"

definition builtin_programs :: "(string \<times> string) list" where
  "builtin_programs = [(''hello'', ''Prints a message from ring 3 through syscall_write'')]"

definition user_program_initialize :: "'a user_state_scheme \<Rightarrow> 'a user_state_scheme" where
  "user_program_initialize s = s\<lparr>user_program_info :=
     \<lparr>up_initialized = True, available_programs = of_nat (length builtin_programs), up_runs = 0,
      up_successful_runs = 0, up_failed_runs = 0, up_last_status = KERNEL_OK, last_program_name = []\<rparr>\<rparr>"

definition user_program_count :: nat where
  "user_program_count = length builtin_programs"

definition user_program_name_at :: "nat \<Rightarrow> string option" where
  "user_program_name_at index =
     (if index \<ge> user_program_count then None else Some (fst (builtin_programs ! index)))"

definition user_program_exists :: "string \<Rightarrow> bool" where
  "user_program_exists name = list_ex (\<lambda>p. name = fst p) builtin_programs"

definition user_program_run ::
  "user_action list \<Rightarrow> string option \<Rightarrow> 'a user_state_scheme \<Rightarrow> (kernel_status \<times> 'a user_state_scheme) option" where
  "user_program_run actions name s =
     (case name of
        None \<Rightarrow> Some (KERNEL_ERROR_INVALID_ARGUMENT, s)
      | Some name \<Rightarrow>
        if name = [] then Some (KERNEL_ERROR_INVALID_ARGUMENT, s)
        else
        let s = user_program_info_update (\<lambda>u. u\<lparr>up_runs := up_runs u + 1,
              last_program_name := bounded_copy 32 name\<rparr>) s;
            fail = (\<lambda>status s. (status, user_program_info_update (\<lambda>u. u\<lparr>up_failed_runs := up_failed_runs u + 1,
              up_last_status := status\<rparr>) s))
        in if \<not> user_program_exists name then Some (fail KERNEL_ERROR_NOT_FOUND s)
        else
        let (status, s) = ring3_initialize s
        in if status \<noteq> KERNEL_OK then Some (fail status s)
        else
        let ((status, process), s) =
              process_create (Some name) (user_code_virtual (ring3_info s)) (r3_user_stack_top (ring3_info s)) s
        in if status \<noteq> KERNEL_OK then Some (fail status s)
        else
          (case process_run actions process s of
             None \<Rightarrow> None
           | Some (status, s) \<Rightarrow>
             if status = KERNEL_OK
             then Some (status, user_program_info_update (\<lambda>u. u\<lparr>up_successful_runs := up_successful_runs u + 1,
                    up_last_status := status\<rparr>) s)
             else Some (fail status s)))"

section \<open>Frames\<close>

text \<open>The process numbers after at most \<open>n\<close> creations.\<close>

definition pid_step :: "nat \<Rightarrow> 'a process_manager_scheme \<Rightarrow> 'a process_manager_scheme \<Rightarrow> bool" where
  "pid_step n s t \<longleftrightarrow> (unat (next_pid s) + n < 2 ^ 32 \<longrightarrow> unat (next_pid s) \<le> unat (next_pid t) \<and>
     unat (next_pid t) \<le> unat (next_pid s) + n \<and> (pids_ok s \<longrightarrow> pids_ok t))"

definition kernel_ok :: "'a syscall_state_scheme \<Rightarrow> bool" where
  "kernel_ok s \<longleftrightarrow> ring3_ok s \<and> table_ok s \<and> vga_inv (screen s)"

definition kstep :: "nat \<Rightarrow> 'a syscall_state_scheme \<Rightarrow> 'a syscall_state_scheme \<Rightarrow> bool" where
  "kstep n s t \<longleftrightarrow> (kernel_ok s \<longrightarrow> kernel_ok t \<and> mem_frame s t \<and> vfs_root t = vfs_root s \<and>
     vi_initialized (vfs_info t) = vi_initialized (vfs_info s) \<and> same_outside (screen s) (screen t) \<and> pid_step n s t)"

lemma pid_step_refl [simp]: "pid_step n s s"
  by (simp add: pid_step_def)

lemma pid_step_trans: "pid_step m s t \<Longrightarrow> pid_step n t u \<Longrightarrow> pid_step (m + n) s u"
  unfolding pid_step_def by linarith

lemma kstep_refl [simp]: "kstep n s s"
  by (simp add: kstep_def)

lemma kstep_trans: "kstep m s t \<Longrightarrow> kstep n t u \<Longrightarrow> kstep (m + n) s u"
  unfolding kstep_def by (auto intro: mem_frame_trans pid_step_trans same_outside_trans)

lemma kstep_ok: "kstep n s t \<Longrightarrow> kernel_ok s \<Longrightarrow> kernel_ok t"
  by (simp add: kstep_def)

lemma kstep_weaken: "kstep m s t \<Longrightarrow> m \<le> n \<Longrightarrow> kstep n s t"
  using kstep_trans [of m s t "n - m" t] by simp

lemma kernel_ok_info [simp]:
  "kernel_ok (process_info_update f s) = kernel_ok s" "kernel_ok (exec_info_update g s) = kernel_ok s"
  "kernel_ok (timer_ticks_update h s) = kernel_ok s" "kernel_ok (gdt_update k s) = kernel_ok s"
  by (simp_all add: kernel_ok_def ring3_ok_def table_ok_def used_processes_def running_def cong: option.case_cong)

lemma kstep_info:
  "kstep 0 s (process_info_update f s)" "kstep 0 s (exec_info_update g s)" "kstep 0 s (timer_ticks_update h s)"
  "kstep 0 s (gdt_update k s)"
  by (simp_all add: kstep_def mem_frame_same pid_step_def pids_ok_def)

lemma kstep_ring3_info:
  assumes "\<And>r. ready (f r) = ready r" "\<And>r. r3_initialized (f r) = r3_initialized r" "\<And>r. code_physical (f r) = code_physical r"
    "\<And>r. stack_physical (f r) = stack_physical r" "\<And>r. user_code_virtual (f r) = user_code_virtual r"
    "\<And>r. r3_user_stack_top (f r) = r3_user_stack_top r"
  shows "kstep 0 s (ring3_info_update f s)"
proof -
  have "ring3_ok (ring3_info_update f s) = ring3_ok s" using assms by (simp add: ring3_ok_def)
  then show ?thesis
    using assms ring3_ok_same [of s] by (simp add: kstep_def mem_frame_def pid_step_def pids_ok_def kernel_ok_def)
qed

lemma kernel_sys_ok: "sys_ok s \<longleftrightarrow> kernel_ok s \<and> ready (ring3_info s)"
  by (auto simp: sys_ok_def kernel_ok_def)

lemma sys_kstep:
  assumes "sys_ok s" "sys_step s t"
  shows "kstep 1 s t" "ready (ring3_info t)"
proof -
  have n: "next_pid t = next_pid s \<or> next_pid t = next_pid s + 1" "pids_ok s \<and> next_pid s \<le> next_pid t \<longrightarrow> pids_ok t"
    using assms(2) unfolding sys_step_def by blast+
  have "pid_step 1 s t"
  proof (cases "unat (next_pid s) + 1 < 2 ^ 32")
    case True
    then have "unat (next_pid s + 1) = unat (next_pid s) + 1" by (simp add: unat_word_ariths(1))
    then show ?thesis using n by (auto simp: pid_step_def word_le_nat_alt)
  qed (simp add: pid_step_def)
  then show "kstep 1 s t" "ready (ring3_info t)"
    using assms by (simp_all add: kstep_def mem_frame_def sys_step_def sys_ok_def kernel_ok_def)
qed

section \<open>Runs in user mode\<close>

lemma stub_eq:
  "ring3_syscall_stub r s =
     (case ring3_syscall_entry (eax r) (ebx r) (ecx r) (edx r) s of
        None \<Rightarrow> None
      | Some (resumed, result, s) \<Rightarrow> Some (if resumed then None else Some (r\<lparr>eax := result\<rparr>), s))"
  by (cases r) (simp add: ring3_syscall_stub_def pushad_def popad_def push_word_at_def Let_def split: option.splits)

text \<open>What the rest of the run needs to know of a system call.\<close>

lemma syscall_entry_step:
  assumes "sys_ok s"
  obtains result t where "ring3_syscall_entry n a b c s = Some (n = 1, result, t)" "sys_ok t" "kstep 1 s t"
    "current_process t = current_process s"
    "completed (ring3_info t) = (completed (ring3_info s) \<or> in_progress (ring3_info s) \<and> n = 1)"
    "n \<noteq> 1 \<longrightarrow> in_progress (ring3_info t) = in_progress (ring3_info s)"
    "n = 1 \<longrightarrow> process_table t = process_table (process_mark_exit a s)"
    "n = 1 \<longrightarrow> r3_last_status (ring3_info t) = (if in_progress (ring3_info s) then r3_last_status (ring3_info s) else KERNEL_ERROR_UNSUPPORTED)"
proof -
  define s1 where "s1 = ring3_info_update (\<lambda>r. r\<lparr>syscall_count := syscall_count r + 1, last_syscall_number := n\<rparr>) s"
  have s1: "kstep 0 s s1" "sys_ok s1" "process_table s1 = process_table s" "current_process s1 = current_process s"
    "in_progress (ring3_info s1) = in_progress (ring3_info s)" "completed (ring3_info s1) = completed (ring3_info s)"
    "r3_last_status (ring3_info s1) = r3_last_status (ring3_info s)"
    using assms kstep_ring3_info [of "\<lambda>r. r\<lparr>syscall_count := syscall_count r + 1, last_syscall_number := n\<rparr>" s]
    by (simp_all add: s1_def kstep_def kernel_sys_ok)
  obtain r s2 where d: "syscall_dispatch n a b c s1 = Some (r, s2)" "sys_step s1 s2" using syscall_dispatch_step [OF s1(2)] by blast
  have s2: "kstep 1 s s2" "sys_ok s2" "ring3_info s2 = ring3_info s1" "current_process s2 = current_process s"
    using kstep_trans [OF s1(1) sys_kstep(1) [OF s1(2) d(2)]] d(2) s1(4) by (simp_all add: sys_step_def)
  show thesis
  proof (cases "n = 1")
    case False
    then show thesis using that [of r s2] d(1) s1 s2 by (simp add: ring3_syscall_entry_def Let_def s1_def [symmetric])
  next
    case True
    have x: "r = status_word KERNEL_OK" "process_table s2 = process_table (process_mark_exit a s1)"
      using d(1) True by (auto simp: syscall_dispatch_def Let_def process_mark_exit_def update_process_def split: option.splits)
    have e: "process_table (process_mark_exit a s1) = process_table (process_mark_exit a s)"
      using s1(3,4) by (simp add: process_mark_exit_def update_process_def Let_def split: option.split)
    let ?f = "\<lambda>r. r\<lparr>completed := True, in_progress := False\<rparr>"
    let ?g = "\<lambda>r. r\<lparr>in_progress := False, r3_failed_runs := r3_failed_runs r + 1, r3_last_status := KERNEL_ERROR_UNSUPPORTED\<rparr>"
    have "kstep 1 s (gdt_update k (ring3_info_update ?f s2))" "kstep 1 s (gdt_update k (ring3_info_update ?g s2))" for k
      using kstep_trans [OF s2(1) kstep_trans [OF kstep_ring3_info kstep_info(4)]] by simp_all
    note k = this
    have "kernel_ok s" "ready (ring3_info s2)" using assms s2(2) by (simp_all add: kernel_sys_ok)
    then have ok: "sys_ok (gdt_update k (ring3_info_update ?f s2))" "sys_ok (gdt_update k (ring3_info_update ?g s2))" for k
      using kstep_ok [OF k(1)] kstep_ok [OF k(2)] by (simp_all add: kernel_sys_ok)
    show thesis
    proof (cases "in_progress (ring3_info s)")
      case ip: True
      let ?t = "gdt_update (tss_set_kernel_stack (previous_tss_esp0 (ring3_info s2))) (ring3_info_update ?f s2)"
      have "ring3_syscall_entry n a b c s = Some (n = 1, r, ?t)"
        using d(1) [unfolded s1_def] ip True x(1) s1(5) s2(3) by (simp add: ring3_syscall_entry_def Let_def)
      then show thesis using that [of r ?t] k(1) ok(1) True ip s1(3-) s2(3-) x e by simp
    next
      case ip: False
      let ?t = "gdt_update (tss_set_kernel_stack (previous_tss_esp0 (ring3_info s2))) (ring3_info_update ?g s2)"
      have "ring3_syscall_entry n a b c s = Some (n = 1, r, ?t)"
        using d(1) [unfolded s1_def] ip True x(1) s1(5) s2(3) by (simp add: ring3_syscall_entry_def Let_def)
      then show thesis using that [of r ?t] k(2) ok(2) True ip s1(3-) s2(3-) x e by simp
    qed
  qed
qed

lemma stub_step:
  assumes "sys_ok s"
  obtains next_registers t where "ring3_syscall_stub r s = Some (next_registers, t)" "sys_ok t" "kstep 1 s t"
    "(next_registers = None) = (eax r = 1)" "current_process t = current_process s"
    "completed (ring3_info t) = (completed (ring3_info s) \<or> in_progress (ring3_info s) \<and> eax r = 1)"
    "eax r \<noteq> 1 \<longrightarrow> in_progress (ring3_info t) = in_progress (ring3_info s)"
    "eax r = 1 \<longrightarrow> process_table t = process_table (process_mark_exit (ebx r) s)"
  by (rule syscall_entry_step [OF assms, of "eax r" "ebx r" "ecx r" "edx r"]) (use that in \<open>simp add: stub_eq\<close>)

lemma user_page_writable:
  assumes "user_frames code stack v" "user_page_virtual a"
  shows "user_writable v a"
proof -
  have "translation v a = Some (mapping_entry code USER_RW) \<or> translation v a = Some (mapping_entry stack USER_RW)"
    using assms by (auto simp: user_page_virtual_def user_frames_def)
  then show ?thesis using mapping_entry_bits by (auto simp: user_writable_def)
qed

lemma store_step:
  assumes "sys_ok s" "user_writable (vm s) a"
  obtains v where "write_virtual a b (vm s) = Some v" "sys_ok (s\<lparr>vm := v\<rparr>)" "kstep 1 s (s\<lparr>vm := v\<rparr>)"
proof -
  note f = sys_ok_frames [OF assms(1)]
  obtain v where v: "write_virtual a b (vm s) = Some v" "same_mapping (vm s) v"
    "same_outside_user (code_physical (ring3_info s)) (stack_physical (ring3_info s)) (vm s) v"
    using write_user_byte [OF f user_writable_page [OF f assms(2)]] by blast
  have "sys_step s (s\<lparr>vm := v\<rparr>)" by (rule vm_sys_step [OF assms(1) v(2,3)])
  then show thesis using that [OF v(1)] sys_kstep(1) [OF assms(1)] by (simp add: sys_step_def)
qed

lemma tick_step: "sys_ok s \<Longrightarrow> sys_ok (timer_ticks_update f s) \<and> kstep 1 s (timer_ticks_update f s)"
  using kstep_weaken [OF kstep_info(3) [of s f]] by (simp add: kernel_sys_ok)

lemma user_mode_step:
  "sys_ok s \<Longrightarrow> ring3_enter_user_mode acts s = Some t \<Longrightarrow>
     sys_ok t \<and> kstep (length acts) s t \<and> current_process t = current_process s"
proof (induction acts s rule: ring3_enter_user_mode.induct)
  case (2 a b rest s)
  then have w: "user_writable (vm s) a" by (simp split: if_splits)
  then obtain v where v: "write_virtual a b (vm s) = Some v" "sys_ok (s\<lparr>vm := v\<rparr>)" "kstep 1 s (s\<lparr>vm := v\<rparr>)"
    by (rule store_step [OF 2(2), of a b]) blast
  from 2(1) [OF w v(1,2)] 2(3) w v show ?case using kstep_trans [OF v(3)] by fastforce
next
  case (3 r rest s)
  obtain n u where u: "ring3_syscall_stub r s = Some (n, u)" "sys_ok u" "kstep 1 s u" "current_process u = current_process s"
    by (rule stub_step [OF 3(2), of r]) blast
  show ?case
  proof (cases n)
    case None
    then show ?thesis using u 3(3) kstep_weaken [OF u(3)] by simp
  next
    case (Some x)
    from 3(1) [OF u(1) refl Some u(2)] 3(3) u Some show ?thesis using kstep_trans [OF u(3)] by fastforce
  qed
next
  case (4 rest s)
  note k = tick_step [OF 4(2), of "\<lambda>n. n + 1"]
  from 4(1) [OF conjunct1 [OF k]] 4(3) show ?case using kstep_trans [OF conjunct2 [OF k]] by fastforce
qed simp

text \<open>The programs that leave user mode: no store outside of the user pages before an exit call.\<close>

fun exits_with :: "u32 \<Rightarrow> user_action list \<Rightarrow> bool" where
  "exits_with code [] = False"
| "exits_with code (Store a b # rest) = (user_page_virtual a \<and> exits_with code rest)"
| "exits_with code (Interrupt r # rest) = (if eax r = LIAM_SYSCALL_EXIT then ebx r = code else exits_with code rest)"
| "exits_with code (Tick # rest) = exits_with code rest"

lemma user_mode_exits:
  "sys_ok s \<Longrightarrow> in_progress (ring3_info s) \<Longrightarrow> current_process s = Some i \<Longrightarrow> exits_with code acts \<Longrightarrow>
   \<exists>t. ring3_enter_user_mode acts s = Some t \<and> completed (ring3_info t) \<and>
     state (process_table t ! i) = PROCESS_EXITED \<and> exit_code (process_table t ! i) = code"
proof (induction acts s rule: ring3_enter_user_mode.induct)
  case (2 a b rest s)
  then have w: "user_writable (vm s) a" using sys_ok_frames user_page_writable by fastforce
  then obtain v where v: "write_virtual a b (vm s) = Some v" "sys_ok (s\<lparr>vm := v\<rparr>)"
    by (rule store_step [OF 2(2), of a b]) blast
  from 2(1) [OF w v] 2(3-) w v(1) show ?case by simp
next
  case (3 r rest s)
  obtain n u where u: "ring3_syscall_stub r s = Some (n, u)" "sys_ok u" "(n = None) = (eax r = 1)"
    "current_process u = current_process s"
    "completed (ring3_info u) = (completed (ring3_info s) \<or> in_progress (ring3_info s) \<and> eax r = 1)"
    "eax r \<noteq> 1 \<longrightarrow> in_progress (ring3_info u) = in_progress (ring3_info s)"
    "eax r = 1 \<longrightarrow> process_table u = process_table (process_mark_exit (ebx r) s)"
    by (rule stub_step [OF 3(2), of r]) blast
  show ?case
  proof (cases n)
    case None
    moreover have "i < length (process_table s)" using 3(2,4) by (simp add: sys_ok_def table_ok_def)
    ultimately show ?thesis using u 3(3-) by (simp add: process_mark_exit_def update_process_def Let_def)
  next
    case (Some x)
    from 3(1) [OF u(1) refl Some u(2)] 3(3-) u Some show ?thesis by simp
  qed
next
  case (4 rest s)
  from 4(1) [OF conjunct1 [OF tick_step [OF 4(2)]]] 4(3-) show ?case by simp
qed simp

end
