(* ===== verification/Heap_Allocator.thy ===== *)
theory Heap_Allocator
  imports Kernel_Prelude
begin

text \<open>
  The contract between the kernel heap (\<^verbatim>\<open>memory/heap.c\<close>) and its clients, the scheduler's stacks
  first. \<open>rep s A\<close> relates a heap state to the abstract heap, the set of the blocks that are out
  as pairs of pointer and size; an operation that does not return is \<open>None\<close>.
\<close>

text \<open>The blocks lie apart from each other, with room for a header in front of each.\<close>

definition separate :: "(u32 \<times> u32) set \<Rightarrow> bool" where
  "separate A \<longleftrightarrow> (\<forall>(p, n) \<in> A. \<forall>(q, m) \<in> A.
     (p = q \<longrightarrow> n = m) \<and> (p \<noteq> q \<longrightarrow> unat p + unat n + 16 \<le> unat q \<or> unat q + unat m + 16 \<le> unat p))"

lemma separate_insertD:
  assumes "separate (insert (p, n) A)" "p \<notin> fst ` A" "(q, m) \<in> A"
  shows "unat p + unat n \<le> unat q \<or> unat q + unat m \<le> unat p"
proof -
  have "p \<noteq> q" using assms(2,3) by force
  then show ?thesis using assms(1,3) by (fastforce simp: separate_def)
qed

text \<open>What an allocation answers: no pointer and no change, or one more block of at least the wanted size.\<close>

definition granted :: "u32 \<Rightarrow> (u32 \<times> u32) set \<Rightarrow> u32 \<Rightarrow> (u32 \<times> u32) set \<Rightarrow> bool" where
  "granted wanted A p B \<longleftrightarrow>
     (if p = 0 then B = A else p \<notin> fst ` A \<and> (\<exists>n. wanted \<le> n \<and> B = insert (p, n) A))"

lemma granted_mono: "granted r A p B \<Longrightarrow> w \<le> r \<Longrightarrow> granted w A p B"
  unfolding granted_def using order_trans by (metis (no_types, lifting))

text \<open>
  A client that allocates and frees, and keeps the pointers \<open>L\<close> it holds. The run gets stuck
  when an operation does not return, or hands out a pointer the client still holds.
\<close>

datatype heap_op = Alloc u32 | Free u32

fun heap_run :: "(u32 \<Rightarrow> 's \<Rightarrow> (u32 \<times> 's) option) \<Rightarrow> (u32 \<Rightarrow> 's \<Rightarrow> 's option) \<Rightarrow> heap_op list \<Rightarrow>
    u32 set \<times> 's \<Rightarrow> (u32 set \<times> 's) option" where
  "heap_run alloc release [] (L, s) = Some (L, s)"
| "heap_run alloc release (Alloc n # ops) (L, s) =
     Option.bind (alloc n s) (\<lambda>(p, t).
       if p \<in> L then None else heap_run alloc release ops (if p = 0 then L else insert p L, t))"
| "heap_run alloc release (Free p # ops) (L, s) =
     Option.bind (release p s) (\<lambda>t. heap_run alloc release ops (L - {p}, t))"

locale heap_allocator =
  fixes rep :: "'s \<Rightarrow> (u32 \<times> u32) set \<Rightarrow> bool"
    and alloc :: "u32 \<Rightarrow> 's \<Rightarrow> (u32 \<times> 's) option"
    and release :: "u32 \<Rightarrow> 's \<Rightarrow> 's option"
    and fits :: "u32 \<Rightarrow> bool"
    and valid :: "u32 \<Rightarrow> 's \<Rightarrow> bool"
  assumes rep_separate: "rep s A \<Longrightarrow> separate A"
    and rep_nonnull: "rep s A \<Longrightarrow> 0 \<notin> fst ` A"
    and valid_live: "rep s A \<Longrightarrow> valid p s \<Longrightarrow> p \<in> fst ` A"
    and alloc_returns: "rep s A \<Longrightarrow> fits n \<Longrightarrow>
          \<exists>p t B. alloc n s = Some (p, t) \<and> rep t B \<and> granted n A p B \<and> (p \<noteq> 0 \<longrightarrow> valid p t)"
    and release_returns: "rep s A \<Longrightarrow>
          \<exists>t B. release p s = Some t \<and> rep t B \<and> B \<subseteq> A \<and> fst ` A - {p} \<subseteq> fst ` B"
begin

lemma heap_run_safe:
  assumes "rep s A" "L \<subseteq> fst ` A" "\<forall>n. Alloc n \<in> set ops \<longrightarrow> fits n"
  shows "\<exists>M t B. heap_run alloc release ops (L, s) = Some (M, t) \<and> rep t B \<and> M \<subseteq> fst ` B \<and> separate B"
  using assms
proof (induction ops arbitrary: L s A)
  case Nil
  then show ?case using rep_separate by auto
next
  case (Cons x ops)
  have f: "\<forall>n. Alloc n \<in> set ops \<longrightarrow> fits n" using Cons.prems(3) by simp
  show ?case
  proof (cases x)
    case (Alloc n)
    then have "fits n" using Cons.prems(3) by simp
    then obtain p t B where a: "alloc n s = Some (p, t)" "rep t B" "granted n A p B"
      using alloc_returns [OF Cons.prems(1)] by blast
    have "p \<notin> L" using a(3) Cons.prems(2) rep_nonnull [OF Cons.prems(1)] by (auto simp: granted_def split: if_splits)
    moreover have "(if p = 0 then L else insert p L) \<subseteq> fst ` B"
      using a(3) Cons.prems(2) by (auto simp: granted_def split: if_splits)
    ultimately show ?thesis using Cons.IH [OF a(2) _ f] a(1) Alloc by simp
  next
    case (Free p)
    obtain t B where r: "release p s = Some t" "rep t B" "fst ` A - {p} \<subseteq> fst ` B"
      using release_returns [OF Cons.prems(1)] by blast
    have "L - {p} \<subseteq> fst ` B" using r(3) Cons.prems(2) by blast
    then show ?thesis using Cons.IH [OF r(2) _ f] r(1) Free by simp
  qed
qed

end

end
