(* ===== verification/Kernel_Heap.thy ===== *)
theory Kernel_Heap
  imports Vmm Heap_Allocator
begin

text \<open>
  \<^verbatim>\<open>memory/heap.c\<close>: the kernel heap, a first-fit allocator on a singly linked list of blocks in
  the virtual range from \<open>0xC1000000\<close>, grown page by page through the PMM and the VMM.

  State: \<open>heap_state\<close> holds \<^verbatim>\<open>heap_stats\<close>, \<^verbatim>\<open>heap_audit_info\<close>, the list head (0 is the null
  pointer), the block headers as a store from virtual addresses to \<open>heap_block\<close>, and the
  machine below (\<open>vmm_state\<close>, with the PMM in it). A header takes 16 bytes on the 32-bit
  target; the bytes behind it belong to the client and are not modelled. The walks that the
  code bounds by \<^verbatim>\<open>HEAP_MAX_AUDIT_BLOCKS\<close> recurse on the number of visits left; the two
  that it does not bound (\<open>heap_find_last_block\<close>, the merging loop) and the recursive call
  of \<open>kmalloc\<close> are \<open>partial_function (option)\<close>.
\<close>

section \<open>State and operations\<close>

abbreviation (input) HEAP_INITIAL_PAGES :: u32 where "HEAP_INITIAL_PAGES \<equiv> 1"
abbreviation (input) HEAP_MAX_GROW_PAGES :: u32 where "HEAP_MAX_GROW_PAGES \<equiv> 16"
abbreviation (input) HEAP_ALIGNMENT :: u32 where "HEAP_ALIGNMENT \<equiv> 8"
abbreviation (input) HEAP_MIN_SPLIT_SIZE :: u32 where "HEAP_MIN_SPLIT_SIZE \<equiv> 16"
abbreviation (input) HEAP_BLOCK_MAGIC :: u32 where "HEAP_BLOCK_MAGIC \<equiv> 0x48454150"
abbreviation (input) HEAP_MAX_AUDIT_BLOCKS :: nat where "HEAP_MAX_AUDIT_BLOCKS \<equiv> 4096"
abbreviation (input) MEMORY_LAYOUT_KERNEL_HEAP_START :: u32 where "MEMORY_LAYOUT_KERNEL_HEAP_START \<equiv> 0xC1000000"
abbreviation (input) MEMORY_LAYOUT_KERNEL_HEAP_END :: u32 where "MEMORY_LAYOUT_KERNEL_HEAP_END \<equiv> 0xC1FFFFFF"

record heap_block =
  hb_magic :: u32
  hb_size :: u32
  hb_used :: bool
  hb_next :: u32

record heap_state =
  heap_initialized :: bool
  virtual_start :: u32
  virtual_end :: u32
  next_virtual_page :: u32
  total_pages :: u32
  total_bytes :: u32
  used_bytes :: u32
  free_bytes :: u32
  allocation_count :: u32
  free_block_count :: u32
  grow_count :: u32
  failed_grow_count :: u32
  failed_allocation_count :: u32
  successful_free_count :: u32
  invalid_free_count :: u32
  double_free_count :: u32
  heap_audits_run :: u32
  heap_issues_found :: u32
  blocks_seen :: u32
  used_blocks :: u32
  free_blocks :: u32
  invalid_magic_blocks :: u32
  out_of_range_blocks :: u32
  misaligned_blocks :: u32
  invalid_size_blocks :: u32
  invalid_next_links :: u32
  unmapped_heap_pages :: u32
  calculated_used_bytes :: u32
  calculated_free_bytes :: u32
  calculated_total_payload_bytes :: u32
  heap_head :: u32
  blocks :: "u32 \<Rightarrow> heap_block"
  vmm :: vmm_state

definition heap_header_size :: u32 where
  "heap_header_size = align_up 16 HEAP_ALIGNMENT"

definition heap_address_in_range :: "u32 \<Rightarrow> heap_state \<Rightarrow> bool" where
  "heap_address_in_range address s \<longleftrightarrow> address \<ge> virtual_start s \<and> address \<le> virtual_end s"

definition heap_payload_address_in_range :: "u32 \<Rightarrow> heap_state \<Rightarrow> bool" where
  "heap_payload_address_in_range address s \<longleftrightarrow>
     address \<ge> virtual_start s + heap_header_size \<and> address \<le> virtual_end s"

definition heap_address_is_aligned :: "u32 \<Rightarrow> bool" where
  "heap_address_is_aligned address \<longleftrightarrow> address AND (HEAP_ALIGNMENT - 1) = 0"

definition set_block :: "u32 \<Rightarrow> heap_block \<Rightarrow> heap_state \<Rightarrow> heap_state" where
  "set_block a b s = s\<lparr>blocks := (blocks s)(a := b)\<rparr>"

definition heap_initialize_block :: "u32 \<Rightarrow> u32 \<Rightarrow> heap_state \<Rightarrow> heap_state" where
  "heap_initialize_block block block_size s =
     set_block block \<lparr>hb_magic = HEAP_BLOCK_MAGIC, hb_size = block_size, hb_used = False, hb_next = 0\<rparr> s"

definition heap_clear_audit_snapshot :: "heap_state \<Rightarrow> heap_state" where
  "heap_clear_audit_snapshot s = s\<lparr>heap_issues_found := 0, blocks_seen := 0, used_blocks := 0,
     free_blocks := 0, invalid_magic_blocks := 0, out_of_range_blocks := 0, misaligned_blocks := 0,
     invalid_size_blocks := 0, invalid_next_links := 0, unmapped_heap_pages := 0,
     calculated_used_bytes := 0, calculated_free_bytes := 0, calculated_total_payload_bytes := 0\<rparr>"

definition heap_block_header_is_sane :: "u32 \<Rightarrow> heap_state \<Rightarrow> bool" where
  "heap_block_header_is_sane block s =
     (if block = 0 then False
      else if \<not> heap_address_in_range block s then False
      else if \<not> heap_address_is_aligned block then False
      else if hb_magic (blocks s block) \<noteq> HEAP_BLOCK_MAGIC then False
      else if hb_size (blocks s block) = 0 then False
      else if block + heap_header_size + hb_size (blocks s block) - 1 > virtual_end s then False
      else True)"

fun recalculate_loop :: "nat \<Rightarrow> u32 \<Rightarrow> heap_state \<Rightarrow> u32 \<times> u32 \<times> u32 \<times> u32 \<Rightarrow> u32 \<times> u32 \<times> u32 \<times> u32" where
  "recalculate_loop 0 block s acc = acc"
| "recalculate_loop (Suc n) block s (used, free, count, free_count) =
     (if block = 0 then (used, free, count, free_count)
      else if \<not> heap_block_header_is_sane block s then (used, free, count, free_count)
      else
        let b = blocks s block
        in recalculate_loop n (hb_next b) s
             (if hb_used b then (used + hb_size b, free, count + 1, free_count)
              else (used, free + hb_size b, count, free_count + 1)))"

definition heap_recalculate_stats :: "heap_state \<Rightarrow> heap_state" where
  "heap_recalculate_stats s =
     (case recalculate_loop HEAP_MAX_AUDIT_BLOCKS (heap_head s) s (0, 0, 0, 0) of
        (used, free, count, free_count) \<Rightarrow>
          s\<lparr>used_bytes := used, free_bytes := free, allocation_count := count, free_block_count := free_count\<rparr>)"

partial_function (option) last_block_loop :: "u32 \<Rightarrow> heap_state \<Rightarrow> u32 option" where
  "last_block_loop block s =
     (if hb_next (blocks s block) \<noteq> 0 then last_block_loop (hb_next (blocks s block)) s else Some block)"

definition heap_find_last_block :: "heap_state \<Rightarrow> u32 option" where
  "heap_find_last_block s = (if heap_head s = 0 then Some 0 else last_block_loop (heap_head s) s)"

fun find_block_loop :: "nat \<Rightarrow> u32 \<Rightarrow> u32 \<Rightarrow> heap_state \<Rightarrow> u32" where
  "find_block_loop 0 block pointer s = 0"
| "find_block_loop (Suc n) block pointer s =
     (if block = 0 then 0
      else if \<not> heap_block_header_is_sane block s then 0
      else if block + heap_header_size = pointer then block
      else find_block_loop n (hb_next (blocks s block)) pointer s)"

definition heap_find_block_for_pointer :: "u32 \<Rightarrow> heap_state \<Rightarrow> u32" where
  "heap_find_block_for_pointer pointer s =
     (if pointer = 0 \<or> \<not> heap_initialized s then 0
      else if \<not> heap_payload_address_in_range pointer s then 0
      else find_block_loop HEAP_MAX_AUDIT_BLOCKS (heap_head s) pointer s)"

definition heap_split_block :: "u32 \<Rightarrow> u32 \<Rightarrow> heap_state \<Rightarrow> heap_state" where
  "heap_split_block block requested_size s =
     (if \<not> heap_block_header_is_sane block s then s
      else if hb_size (blocks s block) \<le> requested_size + heap_header_size + HEAP_MIN_SPLIT_SIZE then s
      else
        let remaining_size = hb_size (blocks s block) - requested_size - heap_header_size;
            new_block = block + heap_header_size + requested_size;
            s = heap_initialize_block new_block remaining_size s;
            s = set_block new_block ((blocks s new_block)\<lparr>hb_next := hb_next (blocks s block)\<rparr>) s
        in set_block block ((blocks s block)\<lparr>hb_size := requested_size, hb_next := new_block\<rparr>) s)"

partial_function (option) merge_loop :: "u32 \<Rightarrow> nat \<Rightarrow> heap_state \<Rightarrow> heap_state option" where
  "merge_loop block visited s =
     (let b = blocks s block; n = blocks s (hb_next b)
      in if block \<noteq> 0 \<and> hb_next b \<noteq> 0 \<and> visited < HEAP_MAX_AUDIT_BLOCKS
         then if \<not> heap_block_header_is_sane block s \<or> \<not> heap_block_header_is_sane (hb_next b) s then Some s
              else if \<not> hb_used b \<and> \<not> hb_used n \<and> block + heap_header_size + hb_size b = hb_next b
              then merge_loop block visited
                     (set_block block (b\<lparr>hb_size := hb_size b + (heap_header_size + hb_size n), hb_next := hb_next n\<rparr>) s)
              else merge_loop (hb_next b) (visited + 1) s
         else Some s)"

definition heap_merge_free_blocks :: "heap_state \<Rightarrow> heap_state option" where
  "heap_merge_free_blocks s = merge_loop (heap_head s) 0 s"

definition heap_virtual_range_has_space :: "u32 \<Rightarrow> heap_state \<Rightarrow> bool" where
  "heap_virtual_range_has_space pages s =
     (let bytes = pages * PMM_PAGE_SIZE
      in if next_virtual_page s < virtual_start s then False
         else if next_virtual_page s + bytes - 1 > virtual_end s then False
         else True)"

definition release_frame :: "u32 \<Rightarrow> heap_state \<Rightarrow> heap_state" where
  "release_frame page s = s\<lparr>vmm := (vmm s)\<lparr>pmm := pmm_free_page page (pmm (vmm s))\<rparr>\<rparr>"

definition heap_rollback_growth :: "(u32 \<times> u32) list \<Rightarrow> u32 \<Rightarrow> u32 \<Rightarrow> u32 \<Rightarrow> heap_state \<Rightarrow> heap_state" where
  "heap_rollback_growth mapped original_next original_pages original_bytes s =
     (let s = fold (\<lambda>(virtual_page, physical_page) s.
                release_frame physical_page (s\<lparr>vmm := snd (vmm_unmap_page virtual_page (vmm s))\<rparr>)) mapped s
      in s\<lparr>next_virtual_page := original_next, total_pages := original_pages, total_bytes := original_bytes\<rparr>)"

text \<open>
  The growing loop: \<open>n\<close> iterations left, the pages mapped so far, the first and the previous
  new block. The Boolean result tells whether all pages were mapped.
\<close>

fun grow_loop :: "nat \<Rightarrow> (u32 \<times> u32) list \<Rightarrow> u32 \<Rightarrow> u32 \<Rightarrow> heap_state \<Rightarrow> bool \<times> (u32 \<times> u32) list \<times> u32 \<times> heap_state" where
  "grow_loop 0 mapped first_new previous_new s = (True, mapped, first_new, s)"
| "grow_loop (Suc n) mapped first_new previous_new s =
     (let virtual_address = next_virtual_page s;
          (physical_page, q) = pmm_alloc_page (pmm (vmm s));
          s = s\<lparr>vmm := (vmm s)\<lparr>pmm := q\<rparr>\<rparr>
      in if physical_page = 0 then (False, mapped, first_new, s)
         else
           let (ok, v) = vmm_map_page virtual_address physical_page VMM_PAGE_WRITABLE (vmm s);
               s = s\<lparr>vmm := v\<rparr>
           in if \<not> ok then (False, mapped, first_new, release_frame physical_page s)
              else
                let new_block = virtual_address;
                    s = heap_initialize_block new_block (PMM_PAGE_SIZE - heap_header_size) s;
                    first_new = (if first_new = 0 then new_block else first_new);
                    s = (if previous_new \<noteq> 0
                         then set_block previous_new ((blocks s previous_new)\<lparr>hb_next := new_block\<rparr>) s else s)
                in grow_loop n (mapped @ [(virtual_address, physical_page)]) first_new new_block
                     (s\<lparr>next_virtual_page := next_virtual_page s + PMM_PAGE_SIZE,
                        total_pages := total_pages s + 1, total_bytes := total_bytes s + PMM_PAGE_SIZE\<rparr>))"

definition heap_grow :: "u32 \<Rightarrow> heap_state \<Rightarrow> (bool \<times> heap_state) option" where
  "heap_grow minimum_size s =
     (let required_bytes = minimum_size + heap_header_size;
          required_pages = align_up required_bytes PMM_PAGE_SIZE div PMM_PAGE_SIZE;
          required_pages = (if required_pages = 0 then 1 else required_pages);
          failed = (\<lambda>s. s\<lparr>failed_grow_count := failed_grow_count s + 1\<rparr>);
          rollback = (\<lambda>mapped t. failed (heap_rollback_growth mapped (next_virtual_page s) (total_pages s) (total_bytes s) t))
      in if required_pages > HEAP_MAX_GROW_PAGES then Some (False, failed s)
         else if \<not> heap_virtual_range_has_space required_pages s then Some (False, failed s)
         else
           case grow_loop (unat required_pages) [] 0 0 s of (ok, mapped, first_new, t) \<Rightarrow>
             if \<not> ok then Some (False, rollback mapped t)
             else
               Option.bind
                 (if heap_head t = 0 then Some (True, t\<lparr>heap_head := first_new\<rparr>)
                  else map_option
                         (\<lambda>last. if last = 0 then (False, rollback mapped t)
                                 else (True, set_block last ((blocks t last)\<lparr>hb_next := first_new\<rparr>) t))
                         (heap_find_last_block t))
                 (\<lambda>(linked, t).
                    if \<not> linked then Some (False, t)
                    else map_option (\<lambda>t. (True, heap_recalculate_stats t))
                           (heap_merge_free_blocks (t\<lparr>grow_count := grow_count t + 1\<rparr>))))"

definition heap_reset :: "heap_state \<Rightarrow> heap_state" where
  "heap_reset s = heap_clear_audit_snapshot
     (s\<lparr>heap_head := 0, heap_initialized := False, virtual_start := MEMORY_LAYOUT_KERNEL_HEAP_START,
        virtual_end := MEMORY_LAYOUT_KERNEL_HEAP_END, next_virtual_page := MEMORY_LAYOUT_KERNEL_HEAP_START,
        total_pages := 0, total_bytes := 0, used_bytes := 0, free_bytes := 0, allocation_count := 0,
        free_block_count := 0, grow_count := 0, failed_grow_count := 0, failed_allocation_count := 0,
        successful_free_count := 0, invalid_free_count := 0, double_free_count := 0, heap_audits_run := 0\<rparr>)"

definition heap_initialize :: "heap_state \<Rightarrow> heap_state option" where
  "heap_initialize s =
     map_option
       (\<lambda>(ok, t). if \<not> ok then t else heap_recalculate_stats (t\<lparr>heap_initialized := True\<rparr>))
       (heap_grow (HEAP_INITIAL_PAGES * PMM_PAGE_SIZE - heap_header_size) (heap_reset s))"

datatype search = Found u32 | Corrupt | Nothing_fits

fun first_fit :: "nat \<Rightarrow> u32 \<Rightarrow> u32 \<Rightarrow> heap_state \<Rightarrow> search" where
  "first_fit 0 block requested_size s = Nothing_fits"
| "first_fit (Suc n) block requested_size s =
     (if block = 0 then Nothing_fits
      else if \<not> heap_block_header_is_sane block s then Corrupt
      else if \<not> hb_used (blocks s block) \<and> hb_size (blocks s block) \<ge> requested_size then Found block
      else first_fit n (hb_next (blocks s block)) requested_size s)"

definition take_block :: "u32 \<Rightarrow> u32 \<Rightarrow> heap_state \<Rightarrow> u32 \<times> heap_state" where
  "take_block block requested_size s =
     (let s = heap_split_block block requested_size s;
          s = set_block block ((blocks s block)\<lparr>hb_used := True\<rparr>) s
      in (block + heap_header_size, heap_recalculate_stats s))"

partial_function (option) kmalloc :: "u32 \<Rightarrow> heap_state \<Rightarrow> (u32 \<times> heap_state) option" where
  "kmalloc wanted s =
     (if \<not> heap_initialized s \<or> wanted = 0
      then Some (0, s\<lparr>failed_allocation_count := failed_allocation_count s + 1\<rparr>)
      else
        let requested_size = align_up wanted HEAP_ALIGNMENT
        in case first_fit HEAP_MAX_AUDIT_BLOCKS (heap_head s) requested_size s of
             Found block \<Rightarrow> Some (take_block block requested_size s)
           | Corrupt \<Rightarrow> Some (0, s\<lparr>failed_allocation_count := failed_allocation_count s + 1\<rparr>)
           | Nothing_fits \<Rightarrow>
             Option.bind (heap_grow requested_size s)
               (\<lambda>(ok, t). if \<not> ok then Some (0, t\<lparr>failed_allocation_count := failed_allocation_count t + 1\<rparr>)
                          else kmalloc requested_size t))"

definition kfree :: "u32 \<Rightarrow> heap_state \<Rightarrow> heap_state option" where
  "kfree pointer s =
     (if pointer = 0 then Some s
      else
        let block = heap_find_block_for_pointer pointer s
        in if block = 0 then Some (s\<lparr>invalid_free_count := invalid_free_count s + 1\<rparr>)
           else if \<not> hb_used (blocks s block) then Some (s\<lparr>double_free_count := double_free_count s + 1\<rparr>)
           else
             let s = set_block block ((blocks s block)\<lparr>hb_used := False\<rparr>) s;
                 s = s\<lparr>successful_free_count := successful_free_count s + 1\<rparr>
             in map_option heap_recalculate_stats (heap_merge_free_blocks s))"

definition heap_validate_pointer :: "u32 \<Rightarrow> heap_state \<Rightarrow> bool" where
  "heap_validate_pointer pointer s =
     (let block = heap_find_block_for_pointer pointer s
      in if block = 0 then False else hb_used (blocks s block))"

definition heap_is_pointer_allocated :: "u32 \<Rightarrow> heap_state \<Rightarrow> bool" where
  "heap_is_pointer_allocated pointer s = heap_validate_pointer pointer s"

definition heap_validate_pointer_status :: "u32 \<Rightarrow> heap_state \<Rightarrow> int" where
  "heap_validate_pointer_status pointer s =
     (if pointer = 0 then KERNEL_ERROR_INVALID_ARGUMENT
      else if \<not> heap_initialized s then KERNEL_ERROR_NOT_INITIALIZED
      else if pointer < virtual_start s \<or> pointer \<ge> virtual_end s then KERNEL_ERROR_INVALID_ARGUMENT
      else if \<not> heap_validate_pointer pointer s then KERNEL_ERROR_CORRUPTION_DETECTED
      else if \<not> heap_is_pointer_allocated pointer s then KERNEL_ERROR_INVALID_STATE
      else KERNEL_OK)"

definition audit_issue :: "((u32 \<Rightarrow> u32) \<Rightarrow> heap_state \<Rightarrow> heap_state) \<Rightarrow> heap_state \<Rightarrow> heap_state" where
  "audit_issue counter_update s =
     counter_update (\<lambda>c. c + 1) (s\<lparr>heap_issues_found := heap_issues_found s + 1\<rparr>)"

fun audit_loop :: "nat \<Rightarrow> u32 \<Rightarrow> u32 \<Rightarrow> heap_state \<Rightarrow> heap_state" where
  "audit_loop 0 block previous_address s =
     (if block = 0 then s else audit_issue invalid_next_links_update s)"
| "audit_loop (Suc n) block previous_address s =
     (if block = 0 then s
      else
        let b = blocks s block;
            s = s\<lparr>blocks_seen := blocks_seen s + 1\<rparr>
        in if \<not> heap_address_in_range block s then audit_issue out_of_range_blocks_update s
           else
             let s = (if \<not> heap_address_is_aligned block then audit_issue misaligned_blocks_update s else s)
             in if hb_magic b \<noteq> HEAP_BLOCK_MAGIC then audit_issue invalid_magic_blocks_update s
                else if hb_size b = 0 \<or> block + heap_header_size + hb_size b - 1 > virtual_end s
                then audit_issue invalid_size_blocks_update s
                else if previous_address \<noteq> 0 \<and> block \<le> previous_address
                then audit_issue invalid_next_links_update s
                else
                  let s = (if hb_used b
                           then s\<lparr>used_blocks := used_blocks s + 1,
                                  calculated_used_bytes := calculated_used_bytes s + hb_size b\<rparr>
                           else s\<lparr>free_blocks := free_blocks s + 1,
                                  calculated_free_bytes := calculated_free_bytes s + hb_size b\<rparr>)
                  in audit_loop n (hb_next b) block
                       (s\<lparr>calculated_total_payload_bytes := calculated_total_payload_bytes s + hb_size b\<rparr>))"

partial_function (option) audit_pages_loop :: "u32 \<Rightarrow> heap_state \<Rightarrow> heap_state option" where
  "audit_pages_loop address s =
     (if address < next_virtual_page s
      then audit_pages_loop (address + PMM_PAGE_SIZE)
             (if \<not> vmm_is_mapped address (vmm s) then audit_issue unmapped_heap_pages_update s else s)
      else Some s)"

definition heap_audit :: "heap_state \<Rightarrow> (u32 \<times> heap_state) option" where
  "heap_audit s =
     (let s = heap_clear_audit_snapshot (s\<lparr>heap_audits_run := heap_audits_run s + 1\<rparr>)
      in if \<not> heap_initialized s
         then let s = audit_issue out_of_range_blocks_update s in Some (heap_issues_found s, s)
         else
           map_option
             (\<lambda>s. let s = (if calculated_used_bytes s \<noteq> used_bytes s
                           then s\<lparr>heap_issues_found := heap_issues_found s + 1\<rparr> else s);
                      s = (if calculated_free_bytes s \<noteq> free_bytes s
                           then s\<lparr>heap_issues_found := heap_issues_found s + 1\<rparr> else s)
                  in (heap_issues_found s, s))
             (audit_pages_loop (virtual_start s) (audit_loop HEAP_MAX_AUDIT_BLOCKS (heap_head s) 0 s)))"

section \<open>The list of blocks\<close>

lemma heap_header_size_16 [simp]: "heap_header_size = 16"
  by (simp add: heap_header_size_def align_up_def)

text \<open>
  \<open>tiles h a bs e\<close>: the blocks \<open>bs\<close> have valid headers in \<open>h\<close> and cover the addresses from
  \<open>a\<close> to \<open>e\<close> without gap or overlap. \<open>linked h bs p\<close>: they are chained in this order, the last one to \<open>p\<close>.
\<close>

definition block_end :: "(u32 \<Rightarrow> heap_block) \<Rightarrow> u32 \<Rightarrow> nat" where
  "block_end h b = unat b + 16 + unat (hb_size (h b))"

definition header_ok :: "heap_block \<Rightarrow> bool" where
  "header_ok b \<longleftrightarrow> hb_magic b = HEAP_BLOCK_MAGIC \<and> hb_size b \<noteq> 0 \<and> unat (hb_size b) mod 8 = 0"

fun tiles :: "(u32 \<Rightarrow> heap_block) \<Rightarrow> nat \<Rightarrow> u32 list \<Rightarrow> nat \<Rightarrow> bool" where
  "tiles h a [] e \<longleftrightarrow> a = e"
| "tiles h a (b # bs) e \<longleftrightarrow> unat b = a \<and> header_ok (h b) \<and> tiles h (block_end h b) bs e"

definition head_or :: "u32 list \<Rightarrow> u32 \<Rightarrow> u32" where
  "head_or bs p = (case bs of [] \<Rightarrow> p | b # _ \<Rightarrow> b)"

fun linked :: "(u32 \<Rightarrow> heap_block) \<Rightarrow> u32 list \<Rightarrow> u32 \<Rightarrow> bool" where
  "linked h [] p \<longleftrightarrow> True"
| "linked h (b # bs) p \<longleftrightarrow> hb_next (h b) = head_or bs p \<and> linked h bs p"

lemma head_or_simps [simp]: "head_or [] p = p" "head_or (b # bs) p = b"
  "head_or (xs @ ys) p = head_or xs (head_or ys p)"
  by (simp_all add: head_or_def split: list.splits)

lemma tiles_append: "tiles h a (xs @ ys) e \<longleftrightarrow> (\<exists>m. tiles h a xs m \<and> tiles h m ys e)"
  by (induction xs arbitrary: a) auto

lemma linked_append [simp]: "linked h (xs @ ys) p \<longleftrightarrow> linked h xs (head_or ys p) \<and> linked h ys p"
  by (induction xs) auto

lemma tiles_le: "tiles h a bs e \<Longrightarrow> a \<le> e"
proof (induction bs arbitrary: a)
  case (Cons b bs)
  then have "block_end h b \<le> e" by simp
  with Cons.prems show ?case by (simp add: block_end_def)
qed simp

lemma tiles_unique: "tiles h a bs e \<Longrightarrow> tiles h a bs e' \<Longrightarrow> e = e'"
  by (induction bs arbitrary: a) auto

lemma tiles_bounds:
  assumes "tiles h a bs e" "b \<in> set bs"
  shows "a \<le> unat b" "block_end h b \<le> e" "header_ok (h b)"
proof -
  obtain xs ys where "bs = xs @ b # ys" using assms(2) by (meson split_list)
  with assms(1) obtain m where "tiles h a xs m" "tiles h m (b # ys) e" by (auto simp: tiles_append)
  then show "a \<le> unat b" "block_end h b \<le> e" "header_ok (h b)" using tiles_le by fastforce+
qed

lemma tiles_before: "tiles h a (xs @ b # ys) e \<Longrightarrow> x \<in> set xs \<Longrightarrow> block_end h x \<le> unat b"
  using tiles_bounds(2) by (fastforce simp: tiles_append)

lemma tiles_after: "tiles h a (xs @ b # ys) e \<Longrightarrow> y \<in> set ys \<Longrightarrow> block_end h b \<le> unat y"
  using tiles_bounds(1) by (fastforce simp: tiles_append)

lemma tiles_distinct: "tiles h a bs e \<Longrightarrow> distinct bs"
proof (induction bs arbitrary: a)
  case (Cons b bs)
  then have "b \<notin> set bs" using tiles_after [of h a "[]" b bs e b] by (auto simp: block_end_def)
  with Cons show ?case by auto
qed simp

lemma tiles_aligned:
  assumes "tiles h a bs e" "a mod 8 = 0" "b \<in> set bs"
  shows "unat b mod 8 = 0"
  using assms
proof (induction bs arbitrary: a)
  case (Cons c bs)
  then have "block_end h c mod 8 = 0" by (auto simp: block_end_def header_ok_def mod_add_eq [symmetric])
  with Cons show ?case by auto
qed simp

lemma tiles_cong: "(\<And>b. b \<in> set bs \<Longrightarrow> h b = h' b) \<Longrightarrow> tiles h a bs e = tiles h' a bs e"
  by (induction bs arbitrary: a) (auto simp: block_end_def)

lemma linked_cong: "(\<And>b. b \<in> set bs \<Longrightarrow> h b = h' b) \<Longrightarrow> linked h bs p = linked h' bs p"
  by (induction bs) auto

section \<open>The invariant\<close>

definition heap_ok :: "u32 list \<Rightarrow> heap_state \<Rightarrow> bool" where
  "heap_ok bs s \<longleftrightarrow>
     virtual_start s = MEMORY_LAYOUT_KERNEL_HEAP_START \<and> virtual_end s = MEMORY_LAYOUT_KERNEL_HEAP_END \<and>
     tiles (blocks s) 0xC1000000 bs (unat (next_virtual_page s)) \<and> linked (blocks s) bs 0 \<and>
     heap_head s = head_or bs 0 \<and>
     unat (next_virtual_page s) mod 4096 = 0 \<and> unat (next_virtual_page s) \<le> 0xC2000000 \<and>
     vmm_inv (vmm s) \<and> vmm_initialized (vmm s) \<and>
     (\<forall>a. virtual_start s \<le> a \<and> a < next_virtual_page s \<longrightarrow> translation (vmm s) a \<noteq> None)"

text \<open>The abstract state: the blocks in use, with their sizes.\<close>

definition allocations :: "u32 list \<Rightarrow> heap_state \<Rightarrow> (u32 \<times> u32) set" where
  "allocations bs s = {(b + heap_header_size, hb_size (blocks s b)) | b. b \<in> set bs \<and> hb_used (blocks s b)}"

lemma heap_ok_block:
  assumes "heap_ok bs s" "b \<in> set bs"
  shows "header_ok (blocks s b)" "0xC1000000 \<le> unat b" "block_end (blocks s) b \<le> 0xC2000000"
    "block_end (blocks s) b \<le> unat (next_virtual_page s)" "unat b mod 8 = 0" "b \<noteq> 0"
proof -
  have t: "tiles (blocks s) 0xC1000000 bs (unat (next_virtual_page s))" "unat (next_virtual_page s) \<le> 0xC2000000"
    using assms(1) by (simp_all add: heap_ok_def)
  show "header_ok (blocks s b)" "0xC1000000 \<le> unat b" "block_end (blocks s) b \<le> unat (next_virtual_page s)"
    using tiles_bounds [OF t(1) assms(2)] by auto
  then show "block_end (blocks s) b \<le> 0xC2000000" "b \<noteq> 0" using t(2) by auto
  show "unat b mod 8 = 0" using tiles_aligned [OF t(1) _ assms(2)] by simp
qed

lemma heap_address_is_aligned_iff: "heap_address_is_aligned a \<longleftrightarrow> unat a mod 8 = 0"
proof -
  have "unat (a AND 7) = unat a mod 8" using unat_and_low [of 3 a] by simp
  moreover have "unat (a AND 7) = 0 \<longleftrightarrow> a AND 7 = 0" by (rule unat_eq_zero)
  ultimately show ?thesis by (simp add: heap_address_is_aligned_def)
qed

lemma block_last_byte:
  assumes "header_ok (h b)" "block_end h b \<le> 0xC2000000"
  shows "unat (b + 16 + hb_size (h b) - 1) = block_end h b - 1"
proof -
  have s: "unat (b + 16 + hb_size (h b)) = block_end h b"
    using assms(2) by (simp add: block_end_def unat_plus_if')
  have "block_end h b \<noteq> 0" by (simp add: block_end_def)
  then have "b + 16 + hb_size (h b) \<noteq> 0" using s by (metis unat_0)
  from unat_pred [OF this] s show ?thesis by simp
qed

lemma heap_ok_sane:
  assumes "heap_ok bs s" "b \<in> set bs"
  shows "heap_block_header_is_sane b s"
proof -
  note b = heap_ok_block [OF assms]
  have v: "virtual_start s = 0xC1000000" "virtual_end s = 0xC1FFFFFF" using assms(1) by (simp_all add: heap_ok_def)
  have "unat (b + 16 + hb_size (blocks s b) - 1) \<le> 0xC1FFFFFF"
    using block_last_byte [OF b(1,3)] b(3) by simp
  moreover have "unat b \<le> 0xC1FFFFFF" using b(3) by (simp add: block_end_def)
  ultimately show ?thesis
    using b v by (simp add: heap_block_header_is_sane_def heap_address_in_range_def
        heap_address_is_aligned_iff header_ok_def word_le_nat_alt word_less_nat_alt)
qed

section \<open>Walks along the list\<close>

lemma first_fit_walk:
  assumes "\<forall>b \<in> set bs. b \<noteq> 0 \<and> heap_block_header_is_sane b s" "linked (blocks s) bs 0"
  shows "first_fit n (head_or bs 0) r s =
    (case find (\<lambda>b. \<not> hb_used (blocks s b) \<and> r \<le> hb_size (blocks s b)) (take n bs) of
       None \<Rightarrow> Nothing_fits | Some b \<Rightarrow> Found b)"
  using assms
proof (induction bs arbitrary: n)
  case Nil
  then show ?case by (cases n) simp_all
next
  case (Cons b bs)
  then show ?case by (cases n) auto
qed

lemma find_block_walk:
  assumes "\<forall>b \<in> set bs. b \<noteq> 0 \<and> heap_block_header_is_sane b s" "linked (blocks s) bs 0"
  shows "find_block_loop n (head_or bs 0) p s =
    (case find (\<lambda>b. b + heap_header_size = p) (take n bs) of None \<Rightarrow> 0 | Some b \<Rightarrow> b)"
  using assms
proof (induction bs arbitrary: n)
  case Nil
  then show ?case by (cases n) simp_all
next
  case (Cons b bs)
  then show ?case by (cases n) auto
qed

lemma recalculate_walk:
  assumes "\<forall>b \<in> set bs. b \<noteq> 0 \<and> heap_block_header_is_sane b s" "linked (blocks s) bs 0"
  shows "recalculate_loop n (head_or bs 0) s (u, f, c, fc) =
    (let us = filter (\<lambda>b. hb_used (blocks s b)) (take n bs); fs = filter (\<lambda>b. \<not> hb_used (blocks s b)) (take n bs)
     in (u + sum_list (map (\<lambda>b. hb_size (blocks s b)) us), f + sum_list (map (\<lambda>b. hb_size (blocks s b)) fs),
         c + of_nat (length us), fc + of_nat (length fs)))"
  using assms
proof (induction bs arbitrary: n u f c fc)
  case Nil
  then show ?case by (cases n) simp_all
next
  case (Cons b bs)
  then show ?case by (cases n) (auto simp: Let_def algebra_simps)
qed

lemma last_block_walk:
  assumes "\<forall>b \<in> set bs. b \<noteq> 0" "linked (blocks s) bs 0" "bs \<noteq> []"
  shows "last_block_loop (head_or bs 0) s = Some (last bs)"
  using assms
proof (induction bs)
  case (Cons b bs)
  then show ?case by (subst last_block_loop.simps) (cases bs; simp)
qed simp

section \<open>What the invariant depends on\<close>

definition heap_core :: "heap_state \<Rightarrow> bool \<times> u32 \<times> u32 \<times> u32 \<times> u32 \<times> (u32 \<Rightarrow> heap_block) \<times> vmm_state" where
  "heap_core s = (heap_initialized s, virtual_start s, virtual_end s, next_virtual_page s, heap_head s, blocks s, vmm s)"

lemma heap_ok_core:
  assumes "heap_core t = heap_core s"
  shows "heap_ok bs t = heap_ok bs s" "allocations bs t = allocations bs s"
    "heap_initialized t = heap_initialized s" "next_virtual_page t = next_virtual_page s" "vmm t = vmm s"
  using assms by (simp_all add: heap_core_def heap_ok_def allocations_def)

lemma heap_core_recalculate [simp]: "heap_core (heap_recalculate_stats s) = heap_core s"
  by (simp add: heap_recalculate_stats_def heap_core_def split: prod.splits)

lemma heap_core_counters [simp]:
  "heap_core (s\<lparr>failed_allocation_count := n\<rparr>) = heap_core s"
  "heap_core (s\<lparr>failed_grow_count := n\<rparr>) = heap_core s" "heap_core (s\<lparr>grow_count := n\<rparr>) = heap_core s"
  "heap_core (s\<lparr>invalid_free_count := n\<rparr>) = heap_core s" "heap_core (s\<lparr>double_free_count := n\<rparr>) = heap_core s"
  "heap_core (s\<lparr>successful_free_count := n\<rparr>) = heap_core s"
  by (simp_all add: heap_core_def)

lemma tiles_same_sizes:
  "(\<And>b. b \<in> set bs \<Longrightarrow> header_ok (h' b) = header_ok (h b) \<and> hb_size (h' b) = hb_size (h b)) \<Longrightarrow>
     tiles h' a bs e = tiles h a bs e"
  by (induction bs arbitrary: a) (auto simp: block_end_def)

lemma linked_same_next:
  "(\<And>b. b \<in> set bs \<Longrightarrow> hb_next (h' b) = hb_next (h b)) \<Longrightarrow> linked h' bs p = linked h bs p"
  by (induction bs) auto

lemma set_block_simps [simp]:
  "blocks (set_block a b s) = (blocks s)(a := b)" "vmm (set_block a b s) = vmm s"
  "heap_head (set_block a b s) = heap_head s" "next_virtual_page (set_block a b s) = next_virtual_page s"
  "virtual_start (set_block a b s) = virtual_start s" "virtual_end (set_block a b s) = virtual_end s"
  "heap_initialized (set_block a b s) = heap_initialized s"
  by (simp_all add: set_block_def)

text \<open>Rewriting the list of blocks keeps the rest of the invariant.\<close>

lemma heap_ok_relist:
  assumes "heap_ok bs s" "tiles (blocks t) 0xC1000000 bs' (unat (next_virtual_page s))"
    "linked (blocks t) bs' 0" "head_or bs' 0 = head_or bs 0"
    "virtual_start t = virtual_start s" "virtual_end t = virtual_end s"
    "next_virtual_page t = next_virtual_page s" "heap_head t = heap_head s" "vmm t = vmm s"
  shows "heap_ok bs' t"
  using assms by (simp add: heap_ok_def)

lemma heap_ok_set_used:
  assumes "heap_ok bs s" "b \<in> set bs"
  shows "heap_ok bs (set_block b ((blocks s b)\<lparr>hb_used := u\<rparr>) s)"
proof (rule heap_ok_relist [OF assms(1)])
  let ?h = "(blocks s)(b := (blocks s b)\<lparr>hb_used := u\<rparr>)"
  show "tiles (blocks (set_block b ((blocks s b)\<lparr>hb_used := u\<rparr>) s)) 0xC1000000 bs (unat (next_virtual_page s))"
    using assms(1) tiles_same_sizes [of bs ?h "blocks s"] by (simp add: heap_ok_def header_ok_def)
  show "linked (blocks (set_block b ((blocks s b)\<lparr>hb_used := u\<rparr>) s)) bs 0"
    using assms(1) linked_same_next [of bs ?h "blocks s"] by (simp add: heap_ok_def)
qed simp_all

section \<open>Splitting and taking a block\<close>

lemma split_tiles:
  assumes t: "tiles h a (xs @ b # ys) e" and l: "linked h (xs @ b # ys) 0" and e: "e \<le> 0xC2000000"
    and r: "unat r mod 8 = 0" "r \<noteq> 0" "unat r + 32 < unat (hb_size (h b))"
    and n: "n = b + 16 + r"
    and h': "h' = h(n := \<lparr>hb_magic = HEAP_BLOCK_MAGIC, hb_size = hb_size (h b) - r - 16, hb_used = False,
        hb_next = hb_next (h b)\<rparr>, b := (h b)\<lparr>hb_size := r, hb_next := n\<rparr>)"
  shows "tiles h' a (xs @ b # n # ys) e" "linked h' (xs @ b # n # ys) 0" "n \<notin> set (xs @ b # ys)"
proof -
  have be: "block_end h b \<le> e" "header_ok (h b)" using tiles_bounds [OF t] by auto
  have un: "unat n = unat b + 16 + unat r"
    using be(1) e r(3) by (simp add: n unat_plus_if' block_end_def)
  show nn: "n \<notin> set (xs @ b # ys)"
    using tiles_before [OF t, of n] tiles_after [OF t, of n] un r(3) by (auto simp: block_end_def)
  have bn: "b \<notin> set xs" "b \<notin> set ys" using tiles_distinct [OF t] by auto
  have sz: "unat (hb_size (h b) - r - 16) = unat (hb_size (h b)) - unat r - 16"
    using r(3) by (simp add: unat_sub_if')
  have m: "unat (hb_size (h b) - r - 16) mod 8 = 0"
    unfolding sz using r(1,3) be(2) by (auto simp: header_ok_def mod_eq_0_iff_dvd)
  have nz: "hb_size (h b) - r - 16 \<noteq> 0" using sz r(3) by (auto simp: word_unat_eq_iff)
  have nb: "n \<noteq> b" using nn by auto
  have hb: "header_ok (h' b)" "block_end h' b = unat n" "header_ok (h' n)" "block_end h' n = block_end h b"
    using be(2) r m nz nb un sz by (auto simp: h' header_ok_def block_end_def)
  have xs: "h' x = h x" if "x \<in> set xs \<union> set ys" for x using that nn bn by (auto simp: h')
  obtain k where k: "tiles h a xs k" "k = unat b" "tiles h (block_end h b) ys e"
    using t by (auto simp: tiles_append)
  have "tiles h' a xs k" "tiles h' (block_end h b) ys e"
    using k tiles_cong [of xs h' h] tiles_cong [of ys h' h] xs by auto
  then show "tiles h' a (xs @ b # n # ys) e" using hb k(2) by (auto simp: tiles_append)
  have "linked h' xs b" "linked h' ys 0" using l linked_cong [of xs h' h] linked_cong [of ys h' h] xs by auto
  then show "linked h' (xs @ b # n # ys) 0" using l nb by (simp add: h')
qed

lemma in_take_prefix:
  assumes "b \<notin> set xs" "b \<in> set (take k (xs @ b # ys))"
  shows "b \<in> set (take k (xs @ b # zs))"
proof -
  have "length xs < k" using assms by (metis append_eq_conv_conj in_set_takeD not_less take_all take_append append_Nil2 diff_is_0_eq' take0)
  then show ?thesis by (cases "k - length xs") auto
qed

lemma heap_split_block_ok:
  assumes ok: "heap_ok bs s" and b: "b \<in> set bs" and r: "unat r mod 8 = 0" "r \<noteq> 0" "r \<le> hb_size (blocks s b)"
    and t: "t = heap_split_block b r s"
  shows "\<exists>bs'. heap_ok bs' t \<and> b \<in> set bs' \<and> r \<le> hb_size (blocks t b) \<and>
    (\<forall>k. b \<in> set (take k bs) \<longrightarrow> b \<in> set (take k bs')) \<and> hb_used (blocks t b) = hb_used (blocks s b) \<and> vmm t = vmm s \<and>
    next_virtual_page t = next_virtual_page s \<and> heap_initialized t = heap_initialized s \<and>
    {(c, hb_size (blocks t c)) | c. c \<in> set bs' \<and> hb_used (blocks t c) \<and> c \<noteq> b} =
    {(c, hb_size (blocks s c)) | c. c \<in> set bs \<and> hb_used (blocks s c) \<and> c \<noteq> b}"
proof -
  note k = heap_ok_block [OF ok b] heap_ok_sane [OF ok b]
  have small: "unat (hb_size (blocks s b)) \<le> 0x1000000" using k(2,3) by (simp add: block_end_def)
  have u: "unat (r + 16 + 16) = unat r + 32"
    using r(3) small by (simp add: word_le_nat_alt unat_plus_if')
  show ?thesis
  proof (cases "hb_size (blocks s b) \<le> r + 16 + 16")
    case True
    then have "t = s" using k(7) by (simp add: t heap_split_block_def)
    then show ?thesis using ok b r(3) by (intro exI [of _ bs]) simp
  next
    case False
    obtain xs ys where bs: "bs = xs @ b # ys" and nx: "b \<notin> set xs" using b by (meson split_list_first)
    have lt: "unat r + 32 < unat (hb_size (blocks s b))" using False u by (simp add: word_le_nat_alt)
    define n where "n = b + 16 + r"
    have ti: "tiles (blocks s) 0xC1000000 (xs @ b # ys) (unat (next_virtual_page s))"
      and li: "linked (blocks s) (xs @ b # ys) 0" and le: "unat (next_virtual_page s) \<le> 0xC2000000"
      using ok by (auto simp: heap_ok_def bs)
    note sp = split_tiles [OF ti li le r(1,2) lt n_def refl]
    have nb: "n \<noteq> b" using sp(3) by auto
    have blk: "blocks t = (blocks s)(n := \<lparr>hb_magic = HEAP_BLOCK_MAGIC, hb_size = hb_size (blocks s b) - r - 16,
        hb_used = False, hb_next = hb_next (blocks s b)\<rparr>, b := (blocks s b)\<lparr>hb_size := r, hb_next := n\<rparr>)"
      using False k(7) nb
      by (simp add: t heap_split_block_def Let_def heap_initialize_block_def n_def fun_eq_iff)
    have rest: "vmm t = vmm s" "next_virtual_page t = next_virtual_page s" "heap_head t = heap_head s"
      "virtual_start t = virtual_start s" "virtual_end t = virtual_end s" "heap_initialized t = heap_initialized s"
      by (simp_all add: t heap_split_block_def Let_def heap_initialize_block_def)
    have "heap_ok (xs @ b # n # ys) t"
      by (rule heap_ok_relist [OF ok sp(1,2) [folded blk]]) (use rest in \<open>simp_all add: bs\<close>)
    moreover have "{(c, hb_size (blocks t c)) | c. c \<in> set (xs @ b # n # ys) \<and> hb_used (blocks t c) \<and> c \<noteq> b} =
        {(c, hb_size (blocks s c)) | c. c \<in> set bs \<and> hb_used (blocks s c) \<and> c \<noteq> b}"
      using sp(3) by (auto simp: blk bs)
    moreover have "\<forall>k. b \<in> set (take k bs) \<longrightarrow> b \<in> set (take k (xs @ b # n # ys))" using in_take_prefix [OF nx] by (auto simp: bs)
    ultimately show ?thesis using rest nb by (intro exI [of _ "xs @ b # n # ys"]) (simp add: blk)
  qed
qed

lemma take_block_ok:
  assumes ok: "heap_ok bs s" and b: "b \<in> set bs" "\<not> hb_used (blocks s b)"
    and r: "unat r mod 8 = 0" "r \<noteq> 0" "r \<le> hb_size (blocks s b)" and t: "take_block b r s = (p, t)"
  shows "\<exists>bs' sz. heap_ok bs' t \<and> p = b + 16 \<and> r \<le> sz \<and> allocations bs' t = insert (p, sz) (allocations bs s) \<and>
    vmm t = vmm s \<and> next_virtual_page t = next_virtual_page s \<and> heap_initialized t = heap_initialized s \<and>
    (\<forall>k. b \<in> set (take k bs) \<longrightarrow> b \<in> set (take k bs')) \<and> hb_used (blocks t b)"
proof -
  define u where "u = heap_split_block b r s"
  obtain bs' where k: "heap_ok bs' u" "b \<in> set bs'" "r \<le> hb_size (blocks u b)" "vmm u = vmm s"
      "next_virtual_page u = next_virtual_page s" "heap_initialized u = heap_initialized s"
      "{(c, hb_size (blocks u c)) | c. c \<in> set bs' \<and> hb_used (blocks u c) \<and> c \<noteq> b} =
       {(c, hb_size (blocks s c)) | c. c \<in> set bs \<and> hb_used (blocks s c) \<and> c \<noteq> b}"
      "\<forall>k. b \<in> set (take k bs) \<longrightarrow> b \<in> set (take k bs')"
    using heap_split_block_ok [OF ok b(1) r u_def] by blast
  define v where "v = set_block b ((blocks u b)\<lparr>hb_used := True\<rparr>) u"
  have c: "heap_core t = heap_core v" and p: "p = b + 16"
    using t by (auto simp: take_block_def Let_def u_def v_def)
  have f: "allocations cs w = (\<lambda>(c, z). (c + 16, z)) ` {(c, hb_size (blocks w c)) | c. c \<in> set cs \<and> hb_used (blocks w c)}" for cs w
    by (auto simp: allocations_def)
  have "{(c, hb_size (blocks v c)) | c. c \<in> set bs' \<and> hb_used (blocks v c)} =
      insert (b, hb_size (blocks u b)) {(c, hb_size (blocks u c)) | c. c \<in> set bs' \<and> hb_used (blocks u c) \<and> c \<noteq> b}"
    using k(2) by (auto simp: v_def)
  also have "\<dots> = insert (b, hb_size (blocks u b)) {(c, hb_size (blocks s c)) | c. c \<in> set bs \<and> hb_used (blocks s c)}"
    unfolding k(7) using b(2) by blast
  finally have "allocations bs' v = insert (p, hb_size (blocks u b)) (allocations bs s)"
    unfolding f p by simp
  moreover have "heap_ok bs' v" using heap_ok_set_used [OF k(1,2)] by (simp add: v_def)
  moreover have "blocks t = blocks v" using c by (simp add: heap_core_def)
  ultimately show ?thesis
    using heap_ok_core [OF c] k p by (intro exI [of _ bs'] exI [of _ "hb_size (blocks u b)"]) (simp add: v_def)
qed

section \<open>Merging\<close>

lemma merge_tiles:
  assumes t: "tiles h a (xs @ b # c # ys) e" and l: "linked h (xs @ b # c # ys) 0" and e: "e \<le> 0xC2000000"
    and h': "h' = h(b := (h b)\<lparr>hb_size := hb_size (h b) + (16 + hb_size (h c)), hb_next := hb_next (h c)\<rparr>)"
  shows "tiles h' a (xs @ b # ys) e" "linked h' (xs @ b # ys) 0" "b + 16 + hb_size (h b) = c"
proof -
  have bo: "header_ok (h b)" "header_ok (h c)" "block_end h c \<le> e" "block_end h b = unat c"
    using tiles_bounds [OF t] t by (auto simp: tiles_append)
  have be: "unat b + 16 + unat (hb_size (h b)) \<le> 0xC2000000"
    using bo(3,4) e by (simp add: block_end_def)
  then have "unat (b + 16 + hb_size (h b)) = unat c" using bo(4) by (simp add: block_end_def unat_plus_if')
  then show "b + 16 + hb_size (h b) = c" by (simp add: word_unat_eq_iff)
  have "unat b + 16 + unat (hb_size (h b)) + 16 + unat (hb_size (h c)) \<le> 0xC2000000"
    using bo(3,4) e by (simp add: block_end_def)
  then have sz: "unat (hb_size (h b) + (16 + hb_size (h c))) = unat (hb_size (h b)) + 16 + unat (hb_size (h c))"
    by (simp add: unat_plus_if')
  have bn: "b \<notin> set xs" "b \<notin> set ys" using tiles_distinct [OF t] by auto
  have "unat (hb_size (h b) + (16 + hb_size (h c))) mod 8 = 0"
    unfolding sz using bo(1,2) by (auto simp: header_ok_def mod_eq_0_iff_dvd)
  moreover have "hb_size (h b) + (16 + hb_size (h c)) \<noteq> 0" using sz by (auto simp: word_unat_eq_iff)
  ultimately have hb: "header_ok (h' b)" "block_end h' b = block_end h c"
    using bo sz by (auto simp: h' header_ok_def block_end_def)
  have eq: "h' x = h x" if "x \<in> set xs \<union> set ys" for x using that bn by (auto simp: h')
  have k: "tiles h a xs (unat b)" "tiles h (block_end h c) ys e"
    using t by (auto simp: tiles_append)
  have "tiles h' a xs (unat b)" "tiles h' (block_end h c) ys e"
    using k tiles_cong [of xs h' h] tiles_cong [of ys h' h] eq by auto
  then show "tiles h' a (xs @ b # ys) e" using hb by (auto simp: tiles_append)
  have "linked h' xs b" "linked h' ys 0" using l linked_cong [of xs h' h] linked_cong [of ys h' h] eq by auto
  then show "linked h' (xs @ b # ys) 0" using l by (simp add: h')
qed

definition merged :: "u32 list \<Rightarrow> heap_state \<Rightarrow> heap_state \<Rightarrow> bool" where
  "merged bs s t \<longleftrightarrow> (\<exists>bs'. heap_ok bs' t \<and> allocations bs' t = allocations bs s) \<and> vmm t = vmm s \<and>
     next_virtual_page t = next_virtual_page s \<and> heap_initialized t = heap_initialized s"

lemma merge_loop_ok:
  assumes "heap_ok (xs @ b # ys) s"
  shows "\<exists>t. merge_loop b v s = Some t \<and> merged (xs @ b # ys) s t"
  using assms
proof (induction "length ys" arbitrary: xs b ys v s rule: less_induct)
  case less
  have fin: "merged (xs @ b # ys) s s" using less.prems by (auto simp: merged_def)
  have nx: "hb_next (blocks s b) = head_or ys 0" using less.prems by (simp add: heap_ok_def)
  show ?case
  proof (cases "ys = [] \<or> v \<ge> 4096")
    case True
    with fin nx show ?thesis by (subst merge_loop.simps) (auto simp: Let_def)
  next
    case False
    then obtain c zs where ys: "ys = c # zs" by (cases ys) auto
    have nz: "b \<noteq> 0" "c \<noteq> 0" and sane: "heap_block_header_is_sane b s" "heap_block_header_is_sane c s"
      using heap_ok_block(6) [OF less.prems] heap_ok_sane [OF less.prems] by (auto simp: ys)
    show ?thesis
    proof (cases "\<not> hb_used (blocks s b) \<and> \<not> hb_used (blocks s c)")
      case True
      define t where "t = set_block b ((blocks s b)\<lparr>hb_size := hb_size (blocks s b) + (16 + hb_size (blocks s c)),
          hb_next := hb_next (blocks s c)\<rparr>) s"
      have ti: "tiles (blocks s) 0xC1000000 (xs @ b # c # zs) (unat (next_virtual_page s))"
        and li: "linked (blocks s) (xs @ b # c # zs) 0" and le: "unat (next_virtual_page s) \<le> 0xC2000000"
        using less.prems by (auto simp: heap_ok_def ys)
      note m = merge_tiles [OF ti li le refl]
      have bt: "blocks t = (blocks s)(b := (blocks s b)\<lparr>hb_size := hb_size (blocks s b) + (16 + hb_size (blocks s c)),
          hb_next := hb_next (blocks s c)\<rparr>)" by (simp add: t_def)
      have ok: "heap_ok (xs @ b # zs) t"
        by (rule heap_ok_relist [OF less.prems m(1,2) [folded bt]]) (simp_all add: ys t_def)
      have al: "allocations (xs @ b # zs) t = allocations (xs @ b # ys) s"
        using True tiles_distinct [OF ti] by (auto simp: allocations_def bt ys)
      have "merge_loop b v s = merge_loop b v t"
        using False nz sane True m(3) by (subst merge_loop.simps) (simp add: Let_def ys nx t_def)
      moreover have "length zs < length ys" by (simp add: ys)
      ultimately show ?thesis
        using less.hyps [OF _ ok, of v] al by (auto simp: merged_def t_def)
    next
      case False
      then have "merge_loop b v s = merge_loop c (v + 1) s"
        using \<open>\<not> (ys = [] \<or> v \<ge> 4096)\<close> nz sane by (subst merge_loop.simps) (auto simp: Let_def ys nx)
      then show ?thesis
        using less.hyps [of zs "xs @ [b]" c s "v + 1"] less.prems by (simp add: ys)
    qed
  qed
qed

lemma heap_merge_ok:
  assumes "heap_ok bs s"
  shows "\<exists>t. heap_merge_free_blocks s = Some t \<and> merged bs s t"
proof (cases bs)
  case Nil
  then have "heap_head s = 0" using assms by (simp add: heap_ok_def)
  then have "heap_merge_free_blocks s = Some s"
    unfolding heap_merge_free_blocks_def by (subst merge_loop.simps) (simp add: Let_def)
  with assms show ?thesis by (auto simp: merged_def)
next
  case (Cons b ys)
  then show ?thesis
    using merge_loop_ok [of "[]" b ys s 0] assms by (simp add: heap_merge_free_blocks_def heap_ok_def)
qed

section \<open>Growing\<close>

text \<open>
  Inside the growing loop: the old blocks \<open>bs\<close> and the new ones \<open>ns\<close> tile the range, in two
  separate chains; the frames of the new pages are out and hold no page table.
\<close>

definition frames_ok :: "u32 set \<Rightarrow> vmm_state \<Rightarrow> bool" where
  "frames_ok F v \<longleftrightarrow> F \<subseteq> pmm_allocated (pmm v) \<and> F \<inter> vmm_tables v = {}"

definition growing :: "u32 list \<Rightarrow> u32 list \<Rightarrow> (u32 \<times> u32) list \<Rightarrow> heap_state \<Rightarrow> bool" where
  "growing bs ns mapped s \<longleftrightarrow>
     virtual_start s = MEMORY_LAYOUT_KERNEL_HEAP_START \<and> virtual_end s = MEMORY_LAYOUT_KERNEL_HEAP_END \<and>
     tiles (blocks s) 0xC1000000 (bs @ ns) (unat (next_virtual_page s)) \<and>
     linked (blocks s) bs 0 \<and> linked (blocks s) ns 0 \<and> heap_head s = head_or bs 0 \<and>
     unat (next_virtual_page s) mod 4096 = 0 \<and> unat (next_virtual_page s) \<le> 0xC2000000 \<and>
     vmm_inv (vmm s) \<and> vmm_initialized (vmm s) \<and>
     (\<forall>a. virtual_start s \<le> a \<and> a < next_virtual_page s \<longrightarrow> translation (vmm s) a \<noteq> None) \<and>
     map fst mapped = ns \<and> (\<forall>n \<in> set ns. page_aligned n \<and> \<not> hb_used (blocks s n)) \<and> frames_ok (snd ` set mapped) (vmm s)"

lemma growing_start: "heap_ok bs s \<Longrightarrow> growing bs [] [] s"
  by (simp add: heap_ok_def growing_def frames_ok_def)

lemma frames_ok_alloc:
  assumes "vmm_inv v" "frames_ok F v" "pmm_alloc_page (pmm v) = (p, q)"
  shows "vmm_inv (v\<lparr>pmm := q\<rparr>)" "p \<noteq> 0 \<Longrightarrow> frames_ok (insert p F) (v\<lparr>pmm := q\<rparr>) \<and> p \<notin> F"
    "p = 0 \<Longrightarrow> v\<lparr>pmm := q\<rparr> = v"
proof -
  have i: "pmm_inv (pmm v)" using assms(1) by (simp add: vmm_inv_def)
  show "vmm_inv (v\<lparr>pmm := q\<rparr>)" using vmm_inv_alloc(1) [OF assms(1,3)] .
  show "frames_ok (insert p F) (v\<lparr>pmm := q\<rparr>) \<and> p \<notin> F" if "p \<noteq> 0"
    using vmm_inv_alloc(2) [OF assms(1,3) that] pmm_alloc_fresh [OF i assms(3) that] assms(2)
    by (auto simp: frames_ok_def vmm_tables_update)
  show "v\<lparr>pmm := q\<rparr> = v" if "p = 0"
    using pmm_alloc_fail [OF i, of q] assms(3) that by simp
qed

lemma frames_ok_free:
  assumes "vmm_inv v" "frames_ok (insert p F) v" "p \<notin> F"
  shows "vmm_inv (v\<lparr>pmm := pmm_free_page p (pmm v)\<rparr>)" "frames_ok F (v\<lparr>pmm := pmm_free_page p (pmm v)\<rparr>)"
proof -
  have i: "pmm_inv (pmm v)" using assms(1) by (simp add: vmm_inv_def)
  show "vmm_inv (v\<lparr>pmm := pmm_free_page p (pmm v)\<rparr>)"
    using assms by (intro vmm_inv_free) (auto simp: frames_ok_def)
  show "frames_ok F (v\<lparr>pmm := pmm_free_page p (pmm v)\<rparr>)"
    using assms(2,3) pmm_free_allocated [OF i, of p] by (auto simp: frames_ok_def vmm_tables_update)
qed

lemma frames_ok_map:
  assumes "vmm_inv v" "vmm_initialized v" "frames_ok F v" "vmm_map_page va p VMM_PAGE_WRITABLE v = (ok, w)"
  shows "frames_ok F w" "vmm_inv w" "vmm_initialized w" "\<not> ok \<Longrightarrow> translation w = translation v"
    "ok \<Longrightarrow> translation w a = (if page_align_down a = page_align_down va then Some (mapping_entry p 2) else translation v a)"
  using vmm_map_page_spec [OF assms(1,2) writable_valid assms(4)] assms(3)
  by (auto simp: frames_ok_def split: if_splits)

lemma rollback_pages:
  assumes "vmm_inv (vmm s)" "vmm_initialized (vmm s)" "snd ` set mapped \<inter> vmm_tables (vmm s) = {}"
    and "t = fold (\<lambda>(va, p) s. release_frame p (s\<lparr>vmm := snd (vmm_unmap_page va (vmm s))\<rparr>)) mapped s"
  shows "vmm_inv (vmm t) \<and> vmm_initialized (vmm t) \<and> t = s\<lparr>vmm := vmm t\<rparr> \<and>
    (\<forall>a. (\<forall>va \<in> fst ` set mapped. page_align_down a \<noteq> page_align_down va) \<longrightarrow>
       translation (vmm t) a = translation (vmm s) a)"
  using assms
proof (induction mapped arbitrary: s)
  case (Cons m mapped)
  obtain va p where m: "m = (va, p)" by fastforce
  obtain ok w where u: "vmm_unmap_page va (vmm s) = (ok, w)" by fastforce
  note sp = vmm_unmap_page_spec [OF Cons.prems(1,2) u]
  define s1 where "s1 = release_frame p (s\<lparr>vmm := w\<rparr>)"
  have "vmm_inv (w\<lparr>pmm := pmm_free_page p (pmm w)\<rparr>)"
    using sp Cons.prems(3) by (intro vmm_inv_free) (auto simp: m)
  then have v1: "vmm_inv (vmm s1)" "vmm_initialized (vmm s1)" "vmm_tables (vmm s1) = vmm_tables (vmm s)"
      "s1 = s\<lparr>vmm := vmm s1\<rparr>" "translation (vmm s1) = translation w"
    using sp by (simp_all add: s1_def release_frame_def vmm_tables_update vmm_pmm_update)
  have "snd ` set mapped \<inter> vmm_tables (vmm s1) = {}" using Cons.prems(3) v1(3) by auto
  moreover have "t = fold (\<lambda>(va, p) s. release_frame p (s\<lparr>vmm := snd (vmm_unmap_page va (vmm s))\<rparr>)) mapped s1"
    using Cons.prems(4) by (simp add: m u s1_def)
  ultimately have IH: "vmm_inv (vmm t)" "vmm_initialized (vmm t)" "t = s1\<lparr>vmm := vmm t\<rparr>"
    "\<forall>a. (\<forall>va \<in> fst ` set mapped. page_align_down a \<noteq> page_align_down va) \<longrightarrow>
       translation (vmm t) a = translation (vmm s1) a"
    using Cons.IH [OF v1(1,2)] by blast+
  have "t = s\<lparr>vmm := vmm t\<rparr>" using IH(3) v1(4) by (metis heap_state.update_convs(33) heap_state.surjective)
  with IH v1(5) sp show ?case by (auto simp: m)
qed simp

lemma page_of_range:
  assumes "unat n mod 4096 = 0" "unat n \<le> unat a" "unat a < unat n + 4096"
  shows "page_align_down a = page_align_down n"
proof -
  obtain k where k: "unat n = 4096 * k" using assms(1) by (metis mod_0_imp_dvd dvdE)
  then have "unat a div 4096 = k" using assms(2,3) by (intro div_nat_eqI) auto
  then show ?thesis using k by (simp add: word_unat_eq_iff unat_page_align_down)
qed

text \<open>One more block at the end of the range, chained to the last new one.\<close>

lemma append_block:
  assumes ti: "tiles h a (bs @ ns) (unat n)" and lk: "linked h bs 0" "linked h ns 0"
    and u: "unat (n + 4096) = unat n + 4096"
    and h1: "h1 = h(n := \<lparr>hb_magic = HEAP_BLOCK_MAGIC, hb_size = 4080, hb_used = False, hb_next = 0\<rparr>)"
    and h': "h' = (if ns \<noteq> [] then h1(last ns := (h (last ns))\<lparr>hb_next := n\<rparr>) else h1)"
  shows "tiles h' a (bs @ ns @ [n]) (unat (n + 4096))" "linked h' bs 0" "linked h' (ns @ [n]) 0"
    "\<forall>c \<in> set bs. h' c = h c" "\<forall>c \<in> set ns. hb_used (h' c) = hb_used (h c)" "\<not> hb_used (h' n)"
proof -
  have nin: "n \<notin> set (bs @ ns)" using tiles_bounds(2) [OF ti, of n] by (auto simp: block_end_def)
  have d: "distinct (bs @ ns)" using tiles_distinct [OF ti] .
  have lb: "last ns \<notin> set bs" "last ns \<noteq> n" if "ns \<noteq> []" using that d nin last_in_set by fastforce+
  show old: "\<forall>c \<in> set bs. h' c = h c" using lb nin by (auto simp: h' h1)
  have hn: "h' n = \<lparr>hb_magic = HEAP_BLOCK_MAGIC, hb_size = 4080, hb_used = False, hb_next = 0\<rparr>"
    using lb by (auto simp: h' h1)
  show "\<forall>c \<in> set ns. hb_used (h' c) = hb_used (h c)" using nin by (auto simp: h' h1)
  show "\<not> hb_used (h' n)" by (simp add: hn)
  have "tiles h' a (bs @ ns) (unat n)"
    using ti nin by (subst tiles_same_sizes [of _ h' h]) (auto simp: h' h1 header_ok_def)
  then show "tiles h' a (bs @ ns @ [n]) (unat (n + 4096))"
    unfolding append_assoc [symmetric] tiles_append [of _ _ "bs @ ns"]
    using hn u by (auto simp: header_ok_def block_end_def)
  show "linked h' bs 0" using lk(1) old linked_cong [of bs h' h] by simp
  show "linked h' (ns @ [n]) 0"
  proof (cases "ns = []")
    case False
    then obtain ms l where ns: "ns = ms @ [l]" by (metis rev_exhaust)
    have "linked h' ms l"
      using lk(2) d nin by (subst linked_cong [of _ _ h]) (auto simp: ns h' h1)
    then show ?thesis using hn by (simp add: ns h')
  qed (simp add: hn)
qed

lemma growing_step:
  assumes g: "growing bs ns mapped s" and n: "n = next_virtual_page s" "unat n + 4096 \<le> 0xC2000000"
    and al: "pmm_alloc_page (pmm (vmm s)) = (p, q)" "p \<noteq> 0"
    and mp: "vmm_map_page n p VMM_PAGE_WRITABLE ((vmm s)\<lparr>pmm := q\<rparr>) = (True, w)"
    and t: "t = (if ns \<noteq> [] then set_block (last ns) ((blocks s (last ns))\<lparr>hb_next := n\<rparr>) else id)
        (heap_initialize_block n (PMM_PAGE_SIZE - heap_header_size) (s\<lparr>vmm := w\<rparr>))"
  shows "growing bs (ns @ [n]) (mapped @ [(n, p)])
      (t\<lparr>next_virtual_page := n + PMM_PAGE_SIZE, total_pages := a, total_bytes := b\<rparr>)"
    and "\<forall>c \<in> set bs. blocks t c = blocks s c"
proof -
  have G: "tiles (blocks s) 0xC1000000 (bs @ ns) (unat n)" "linked (blocks s) bs 0" "linked (blocks s) ns 0"
      "vmm_inv (vmm s)" "vmm_initialized (vmm s)" "frames_ok (snd ` set mapped) (vmm s)" "unat n mod 4096 = 0"
      "\<forall>a. virtual_start s \<le> a \<and> a < n \<longrightarrow> translation (vmm s) a \<noteq> None"
    using g by (simp_all add: growing_def n(1))
  note fa = frames_ok_alloc [OF G(4,6) al(1)]
  have v: "vmm_initialized ((vmm s)\<lparr>pmm := q\<rparr>)" "frames_ok (insert p (snd ` set mapped)) ((vmm s)\<lparr>pmm := q\<rparr>)"
    using G(5) fa(2) al(2) by auto
  note fm = frames_ok_map [OF fa(1) v mp]
  have u: "unat (n + 4096) = unat n + 4096" using n(2) by (simp add: unat_plus_if')
  have bl: "blocks t = (if ns \<noteq> [] then (blocks s)(n := \<lparr>hb_magic = HEAP_BLOCK_MAGIC, hb_size = 4080, hb_used = False, hb_next = 0\<rparr>,
        last ns := (blocks s (last ns))\<lparr>hb_next := n\<rparr>)
      else (blocks s)(n := \<lparr>hb_magic = HEAP_BLOCK_MAGIC, hb_size = 4080, hb_used = False, hb_next = 0\<rparr>))"
    by (simp add: t heap_initialize_block_def)
  note ab = append_block [OF G(1-3) u refl bl]
  show "\<forall>c \<in> set bs. blocks t c = blocks s c" by (rule ab(4))
  have "translation w a \<noteq> None" if "virtual_start s \<le> a" "a < n + 4096" for a
  proof (cases "a < n")
    case True
    then show ?thesis using that G(8) fm(5) by (simp add: vmm_pmm_update)
  next
    case False
    then have "page_align_down a = page_align_down n"
      using that(2) u G(7) by (intro page_of_range) (auto simp: word_less_nat_alt)
    then show ?thesis using fm(5) by simp
  qed
  moreover have "page_aligned n" "unat (n + 4096) mod 4096 = 0" using G(7) u by (simp_all add: page_aligned_def)
  moreover have "virtual_start t = virtual_start s" "virtual_end t = virtual_end s" "heap_head t = heap_head s" "vmm t = w"
    by (auto simp: t heap_initialize_block_def)
  ultimately show "growing bs (ns @ [n]) (mapped @ [(n, p)])
      (t\<lparr>next_virtual_page := n + PMM_PAGE_SIZE, total_pages := a, total_bytes := b\<rparr>)"
    using g ab(1-3,5,6) fm(1,2,3) n(2) u by (simp add: growing_def)
qed

lemma growing_map_failed:
  assumes g: "growing bs ns mapped s" and al: "pmm_alloc_page (pmm (vmm s)) = (p, q)" "p \<noteq> 0"
    and mp: "vmm_map_page n p VMM_PAGE_WRITABLE ((vmm s)\<lparr>pmm := q\<rparr>) = (False, w)"
  shows "growing bs ns mapped (release_frame p (s\<lparr>vmm := w\<rparr>))"
proof -
  have G: "vmm_inv (vmm s)" "vmm_initialized (vmm s)" "frames_ok (snd ` set mapped) (vmm s)"
    using g by (simp_all add: growing_def)
  note fa = frames_ok_alloc [OF G(1,3) al(1)]
  have v: "vmm_initialized ((vmm s)\<lparr>pmm := q\<rparr>)" "frames_ok (insert p (snd ` set mapped)) ((vmm s)\<lparr>pmm := q\<rparr>)"
    "p \<notin> snd ` set mapped"
    using G(2) fa(2) al(2) by auto
  note fm = frames_ok_map [OF fa(1) v(1,2) mp]
  have "translation w = translation (vmm s)" using fm(4) by (simp add: vmm_pmm_update)
  then show ?thesis
    using g frames_ok_free [OF fm(2) fm(1) v(3)] fm(3)
    by (simp add: growing_def release_frame_def vmm_pmm_update)
qed

lemma grow_loop_ok:
  assumes "growing bs ns mapped s" "unat (next_virtual_page s) + 4096 * k \<le> 0xC2000000"
    and "grow_loop k mapped (head_or ns 0) (if ns = [] then 0 else last ns) s = (ok, mapped', first', t)"
  shows "\<exists>ns'. growing bs ns' mapped' t \<and> first' = head_or ns' 0 \<and> (\<forall>c \<in> set bs. blocks t c = blocks s c) \<and>
    heap_initialized t = heap_initialized s \<and>
    (ok \<longrightarrow> length ns' = length ns + k \<and> unat (next_virtual_page t) = unat (next_virtual_page s) + 4096 * k)"
  using assms
proof (induction k arbitrary: ns mapped s)
  case 0
  then show ?case by auto
next
  case (Suc k)
  define n where "n = next_virtual_page s"
  obtain p q where al: "pmm_alloc_page (pmm (vmm s)) = (p, q)" by fastforce
  have G: "vmm_inv (vmm s)" "frames_ok (snd ` set mapped) (vmm s)"
    "tiles (blocks s) 0xC1000000 (bs @ ns) (unat n)" using Suc.prems(1) by (simp_all add: growing_def n_def)
  show ?case
  proof (cases "p = 0")
    case True
    have "s\<lparr>vmm := (vmm s)\<lparr>pmm := q\<rparr>\<rparr> = s\<lparr>vmm := vmm s\<rparr>"
      by (simp only: frames_ok_alloc(3) [OF G(1,2) al True])
    then have "s\<lparr>vmm := (vmm s)\<lparr>pmm := q\<rparr>\<rparr> = s" by (rule trans) simp
    then have "(ok, mapped', first', t) = (False, mapped, head_or ns 0, s)"
      using Suc.prems(3) al True by (simp add: Let_def)
    with Suc.prems(1) show ?thesis by (intro exI [of _ ns]) simp
  next
    case nz: False
    obtain mok w where mp: "vmm_map_page n p VMM_PAGE_WRITABLE ((vmm s)\<lparr>pmm := q\<rparr>) = (mok, w)" by fastforce
    show ?thesis
    proof (cases mok)
      case False
      then have "ok = False" "mapped' = mapped" "first' = head_or ns 0" "t = release_frame p (s\<lparr>vmm := w\<rparr>)"
        using Suc.prems(3) al nz mp by (auto simp: Let_def n_def)
      then show ?thesis using growing_map_failed [OF Suc.prems(1) al nz] mp False by (auto simp: release_frame_def)
    next
      case True
      define u where "u = (if ns \<noteq> [] then set_block (last ns) ((blocks s (last ns))\<lparr>hb_next := n\<rparr>) else id)
        (heap_initialize_block n (PMM_PAGE_SIZE - heap_header_size) (s\<lparr>vmm := w\<rparr>))"
      define u' where "u' = u\<lparr>next_virtual_page := n + PMM_PAGE_SIZE, total_pages := total_pages u + 1,
        total_bytes := total_bytes u + PMM_PAGE_SIZE\<rparr>"
      have le: "unat n + 4096 \<le> 0xC2000000" using Suc.prems(2) by (simp add: n_def)
      have mp': "vmm_map_page n p VMM_PAGE_WRITABLE ((vmm s)\<lparr>pmm := q\<rparr>) = (True, w)" using mp True by simp
      note st = growing_step [OF Suc.prems(1) n_def le al nz mp' u_def]
      have "unat (n + 4096) = unat n + 4096" using le by (simp add: unat_plus_if')
      then have le': "unat (next_virtual_page u') + 4096 * k \<le> 0xC2000000"
        using Suc.prems(2) by (simp add: u'_def n_def)
      have lz: "last ns \<noteq> 0 \<and> head_or ns 0 \<noteq> 0 \<and> last ns \<noteq> n" if "ns \<noteq> []"
      proof -
        have "last ns \<in> set (bs @ ns)" "hd ns \<in> set (bs @ ns)" using that by auto
        then have "0xC1000000 \<le> unat (last ns)" "0xC1000000 \<le> unat (hd ns)" "block_end (blocks s) (last ns) \<le> unat n"
          using tiles_bounds [OF G(3)] by blast+
        then show ?thesis using that by (cases ns) (auto simp: block_end_def)
      qed
      have nn: "n \<noteq> 0" using tiles_le [OF G(3)] by auto
      have g: "grow_loop k (mapped @ [(n, p)]) (head_or (ns @ [n]) 0) (if ns @ [n] = [] then 0 else last (ns @ [n])) u'
          = (ok, mapped', first', t)"
        using Suc.prems(3) al nz mp' lz nn
        by (cases "ns = []") (simp_all add: Let_def u_def u'_def n_def heap_initialize_block_def head_or_def split: list.splits)
      have "growing bs (ns @ [n]) (mapped @ [(n, p)]) u'" unfolding u'_def by (rule st(1))
      from Suc.IH [OF this le' g] obtain ns' where "growing bs ns' mapped' t" "first' = head_or ns' 0"
        "\<forall>c \<in> set bs. blocks t c = blocks u' c" "heap_initialized t = heap_initialized u'"
        "ok \<longrightarrow> length ns' = length (ns @ [n]) + k \<and> unat (next_virtual_page t) = unat (next_virtual_page u') + 4096 * k"
        by blast
      moreover have "heap_initialized u' = heap_initialized s" "unat (next_virtual_page u') = unat (next_virtual_page s) + 4096"
        "\<forall>c \<in> set bs. blocks u' c = blocks s c"
        using st(2) le by (auto simp: u'_def u_def heap_initialize_block_def n_def unat_plus_if')
      ultimately show ?thesis by (intro exI [of _ ns']) auto
    qed
  qed
qed

text \<open>Growing keeps the allocations, whether it succeeds or is rolled back.\<close>

definition grown :: "u32 list \<Rightarrow> heap_state \<Rightarrow> heap_state \<Rightarrow> bool" where
  "grown bs s t \<longleftrightarrow> (\<exists>bs'. heap_ok bs' t \<and> allocations bs' t = allocations bs s) \<and>
     heap_initialized t = heap_initialized s"

lemma grow_undone:
  assumes ok: "heap_ok bs s" and g: "growing bs ns mapped t" and h: "\<forall>c \<in> set bs. blocks t c = blocks s c"
    and i: "heap_initialized t = heap_initialized s"
    and u: "u = heap_rollback_growth mapped (next_virtual_page s) pages bytes t"
  shows "heap_ok bs u \<and> allocations bs u = allocations bs s \<and> heap_initialized u = heap_initialized s \<and>
    next_virtual_page u = next_virtual_page s"
proof -
  define w where "w = fold (\<lambda>(va, p) s. release_frame p (s\<lparr>vmm := snd (vmm_unmap_page va (vmm s))\<rparr>)) mapped t"
  have G: "tiles (blocks t) 0xC1000000 (bs @ ns) (unat (next_virtual_page t))" "vmm_inv (vmm t)" "vmm_initialized (vmm t)"
      "snd ` set mapped \<inter> vmm_tables (vmm t) = {}" "map fst mapped = ns" "\<forall>n \<in> set ns. page_aligned n"
      "virtual_start t = 0xC1000000" "virtual_end t = 0xC1FFFFFF" "heap_head t = head_or bs 0" "linked (blocks t) bs 0"
      "\<forall>a. virtual_start t \<le> a \<and> a < next_virtual_page t \<longrightarrow> translation (vmm t) a \<noteq> None"
    using g by (auto simp: growing_def frames_ok_def)
  have S: "tiles (blocks s) 0xC1000000 bs (unat (next_virtual_page s))" "unat (next_virtual_page s) mod 4096 = 0"
      "unat (next_virtual_page s) \<le> 0xC2000000"
    using ok by (auto simp: heap_ok_def)
  note rb = rollback_pages [OF G(2-4) w_def]
  have w: "w = t\<lparr>vmm := vmm w\<rparr>" using rb by blast
  have sel: "blocks w = blocks t" "virtual_start w = virtual_start t" "virtual_end w = virtual_end t"
    "heap_head w = heap_head t" "heap_initialized w = heap_initialized t"
    by (subst w, simp)+
  have tb: "tiles (blocks t) 0xC1000000 bs (unat (next_virtual_page s))"
    using S(1) h by (subst tiles_cong [of _ _ "blocks s"]) auto
  obtain m where m: "tiles (blocks t) 0xC1000000 bs m" "tiles (blocks t) m ns (unat (next_virtual_page t))"
    using G(1) unfolding tiles_append by blast
  have tn: "tiles (blocks t) (unat (next_virtual_page s)) ns (unat (next_virtual_page t))"
    using m(2) tiles_unique [OF tb m(1)] by simp
  have "unat (next_virtual_page s) \<le> unat (next_virtual_page t)" by (rule tiles_le [OF tn])
  moreover have "page_align_down a \<noteq> page_align_down va" if a: "a < next_virtual_page s" and "va \<in> fst ` set mapped" for a va
  proof -
    have "va \<in> set ns" using that(2) G(5) by (metis list.set_map)
    then have "unat (page_align_down va) = unat va" "unat (next_virtual_page s) \<le> unat va"
      using G(6) tiles_bounds(1) [OF tn] by (auto simp: page_aligned_def unat_page_align_down)
    moreover have "unat (page_align_down a) \<le> unat a" by (simp add: unat_page_align_down)
    ultimately show ?thesis using a by (auto simp: word_less_nat_alt)
  qed
  ultimately have "translation (vmm w) a \<noteq> None" if "0xC1000000 \<le> a" "a < next_virtual_page s" for a
    using that rb G(7,11) by (fastforce simp: word_less_nat_alt)
  then have "heap_ok bs u"
    using S tb G(7-10) rb sel by (simp add: u heap_rollback_growth_def w_def [symmetric] heap_ok_def)
  moreover have "blocks u = blocks t" using sel by (simp add: u heap_rollback_growth_def w_def [symmetric])
  ultimately show ?thesis
    using h i sel by (auto simp: u heap_rollback_growth_def w_def [symmetric] allocations_def)
qed

lemma grow_linked:
  assumes g: "growing bs ns mapped t" and ns: "ns \<noteq> []"
    and u: "u = (if bs = [] then t\<lparr>heap_head := head_or ns 0\<rparr>
        else set_block (last bs) ((blocks t (last bs))\<lparr>hb_next := head_or ns 0\<rparr>) t)"
  shows "heap_ok (bs @ ns) u" "allocations (bs @ ns) u = allocations bs t" "heap_initialized u = heap_initialized t"
    "next_virtual_page u = next_virtual_page t"
proof -
  have G: "tiles (blocks t) 0xC1000000 (bs @ ns) (unat (next_virtual_page t))" "linked (blocks t) bs 0" "linked (blocks t) ns 0"
      "\<forall>n \<in> set ns. \<not> hb_used (blocks t n)"
    using g by (simp_all add: growing_def)
  have d: "distinct (bs @ ns)" using tiles_distinct [OF G(1)] .
  have li: "linked (blocks u) (bs @ ns) 0"
  proof (cases "bs = []")
    case False
    then obtain cs l where bs: "bs = cs @ [l]" by (metis rev_exhaust)
    have "linked (blocks u) cs l"
      using G(2) d by (subst linked_cong [of _ _ "blocks t"]) (auto simp: bs u)
    moreover have "linked (blocks u) ns 0"
      using G(3) d by (subst linked_cong [of _ _ "blocks t"]) (auto simp: bs u)
    ultimately show ?thesis by (simp add: bs u)
  qed (use G u in simp)
  have ti: "tiles (blocks u) 0xC1000000 (bs @ ns) (unat (next_virtual_page t))"
    using G(1) by (subst tiles_same_sizes [of _ _ "blocks t"]) (auto simp: u header_ok_def)
  show "heap_initialized u = heap_initialized t" "next_virtual_page u = next_virtual_page t" by (auto simp: u)
  have "virtual_start u = virtual_start t" "virtual_end u = virtual_end t" "vmm u = vmm t" "heap_head u = head_or (bs @ ns) 0"
    using g by (auto simp: u growing_def neq_Nil_conv)
  then show "heap_ok (bs @ ns) u" using g ti li by (simp add: growing_def heap_ok_def u split del: if_split split: if_splits)
  have "hb_used (blocks u c) = hb_used (blocks t c)" "hb_size (blocks u c) = hb_size (blocks t c)" for c by (simp_all add: u)
  then show "allocations (bs @ ns) u = allocations bs t" using G(4) by (auto simp: allocations_def)
qed

lemma has_space_bound:
  assumes "heap_ok bs s" "heap_virtual_range_has_space pages s" "pages \<le> HEAP_MAX_GROW_PAGES"
  shows "unat (next_virtual_page s) + 4096 * unat pages \<le> 0xC2000000"
proof -
  have n: "unat (next_virtual_page s) \<le> 0xC2000000" "virtual_end s = 0xC1FFFFFF" "virtual_start s = 0xC1000000"
    using assms(1) by (auto simp: heap_ok_def)
  have p: "unat pages \<le> 16" using assms(3) by (simp add: word_le_nat_alt)
  then have b: "unat (pages * 4096) = unat pages * 4096"
    using iffD1 [OF unat_mult_lem, of pages 4096] by simp
  have "unat (next_virtual_page s + pages * 4096) = unat (next_virtual_page s) + unat pages * 4096"
    using n p b by (simp add: unat_plus_if')
  moreover have "next_virtual_page s \<noteq> 0 \<and> next_virtual_page s + pages * 4096 - 1 \<le> 0xC1FFFFFF"
    using assms(2) n by (auto simp: heap_virtual_range_has_space_def Let_def split: if_splits)
  ultimately show ?thesis by (auto simp: word_le_nat_alt unat_sub_if' split: if_splits)
qed

lemma grown_core: "grown bs s t \<Longrightarrow> heap_core u = heap_core t \<Longrightarrow> grown bs s u"
  using heap_ok_core [of u t] by (simp add: grown_def)

lemma heap_grow_linked:
  assumes g: "growing bs ns mapped t" and ns: "ns \<noteq> []" and h: "\<forall>c \<in> set bs. blocks t c = blocks s c"
    and i: "heap_initialized t = heap_initialized s"
    and u: "u = (if bs = [] then t\<lparr>heap_head := head_or ns 0\<rparr>
        else set_block (last bs) ((blocks t (last bs))\<lparr>hb_next := head_or ns 0\<rparr>) t)"
  shows "\<exists>w. map_option (\<lambda>t. (True, heap_recalculate_stats t)) (heap_merge_free_blocks (u\<lparr>grow_count := grow_count u + 1\<rparr>)) =
      Some (True, w) \<and> grown bs s w \<and> next_virtual_page w = next_virtual_page t"
proof -
  note gl = grow_linked [OF g ns u]
  have "heap_ok (bs @ ns) (u\<lparr>grow_count := grow_count u + 1\<rparr>)" using gl(1) heap_ok_core(1) [OF heap_core_counters(3)] by simp
  from heap_merge_ok [OF this] obtain w where w: "heap_merge_free_blocks (u\<lparr>grow_count := grow_count u + 1\<rparr>) = Some w"
    "merged (bs @ ns) (u\<lparr>grow_count := grow_count u + 1\<rparr>) w" by blast
  have "allocations bs t = allocations bs s" using h by (auto simp: allocations_def)
  moreover have "allocations (bs @ ns) (u\<lparr>grow_count := grow_count u + 1\<rparr>) = allocations (bs @ ns) u"
    by (rule heap_ok_core(2)) simp
  ultimately have "grown bs s w" "next_virtual_page w = next_virtual_page t" using w(2) gl(2-4) i by (auto simp: merged_def grown_def)
  then show ?thesis using w(1) grown_core [of bs s w] heap_ok_core(4) [OF heap_core_recalculate, of w] by simp
qed

lemma heap_grow_ok:
  assumes ok: "heap_ok bs s"
  shows "\<exists>r t. heap_grow m s = Some (r, t) \<and> grown bs s t \<and>
    (if r then unat (next_virtual_page s) + 4096 \<le> unat (next_virtual_page t) else next_virtual_page t = next_virtual_page s)"
proof -
  define n where "n = (if align_up (m + heap_header_size) PMM_PAGE_SIZE div PMM_PAGE_SIZE = 0 then 1
      else align_up (m + heap_header_size) PMM_PAGE_SIZE div PMM_PAGE_SIZE)"
  note unf = heap_grow_def [of m s, unfolded Let_def, folded n_def]
  have n1: "1 \<le> unat n" by (simp add: n_def Suc_le_eq unat_gt_0)
  have same: "grown bs s (s\<lparr>failed_grow_count := failed_grow_count s + 1\<rparr>)"
    using grown_core [OF _ heap_core_counters(2)] ok by (fastforce simp: grown_def)
  show ?thesis
  proof (cases "n \<le> 16 \<and> heap_virtual_range_has_space n s")
    case False
    then have "heap_grow m s = Some (False, s\<lparr>failed_grow_count := failed_grow_count s + 1\<rparr>)" by (auto simp: unf)
    then show ?thesis using same by (intro exI [of _ False]) simp
  next
    case True
    then have n16: "\<not> 16 < n" by (simp add: not_less)
    obtain r mapped f t where gr: "grow_loop (unat n) [] 0 0 s = (r, mapped, f, t)" by (metis prod_cases4)
    have "grow_loop (unat n) [] (head_or [] 0) (if [] = ([] :: u32 list) then 0 else last []) s = (r, mapped, f, t)"
      using gr by simp
    from grow_loop_ok [OF growing_start [OF ok] has_space_bound [OF ok] this] True
    obtain ns where g: "growing bs ns mapped t" "f = head_or ns 0" "\<forall>c \<in> set bs. blocks t c = blocks s c"
      "heap_initialized t = heap_initialized s"
      "r \<longrightarrow> length ns = unat n \<and> unat (next_virtual_page t) = unat (next_virtual_page s) + 4096 * unat n"
      by auto
    show ?thesis
    proof (cases r)
      case False
      define u where "u = heap_rollback_growth mapped (next_virtual_page s) (total_pages s) (total_bytes s) t"
      have "heap_grow m s = Some (False, u\<lparr>failed_grow_count := failed_grow_count u + 1\<rparr>)"
        using True n16 gr False by (simp add: unf u_def)
      moreover have "grown bs s (u\<lparr>failed_grow_count := failed_grow_count u + 1\<rparr>)"
        using grow_undone [OF ok g(1,3,4) u_def] by (intro grown_core [OF _ heap_core_counters(2)]) (auto simp: grown_def)
      ultimately show ?thesis using grow_undone [OF ok g(1,3,4) u_def] by (intro exI [of _ False]) simp
    next
      case r: True
      then have ns: "ns \<noteq> []" using g(5) n1 by auto
      define u where "u = (if bs = [] then t\<lparr>heap_head := head_or ns 0\<rparr>
        else set_block (last bs) ((blocks t (last bs))\<lparr>hb_next := head_or ns 0\<rparr>) t)"
      have nz: "\<forall>b \<in> set bs. b \<noteq> 0" using heap_ok_block(6) [OF ok] by blast
      have hd: "heap_head t = head_or bs 0" "linked (blocks t) bs 0" using g(1) by (simp_all add: growing_def)
      have "heap_head t = 0 \<longleftrightarrow> bs = []" using hd(1) nz by (cases bs) auto
      moreover have "heap_find_last_block t = Some (last bs)" "last bs \<noteq> 0" if "bs \<noteq> []"
        using last_block_walk [OF nz hd(2) that] that hd(1) nz by (auto simp: heap_find_last_block_def neq_Nil_conv)
      ultimately have "heap_grow m s = map_option (\<lambda>t. (True, heap_recalculate_stats t))
          (heap_merge_free_blocks (u\<lparr>grow_count := grow_count u + 1\<rparr>))"
        using True n16 gr r g(2) by (simp add: unf u_def)
      then obtain w where "heap_grow m s = Some (True, w)" "grown bs s w" "next_virtual_page w = next_virtual_page t"
        using heap_grow_linked [OF g(1) ns g(3,4) u_def] by auto
      then show ?thesis using g(5) r n1 by (intro exI [of _ True]) simp
    qed
  qed
qed

section \<open>Allocating and freeing\<close>

lemma find_SomeD: "find P xs = Some x \<Longrightarrow> x \<in> set xs \<and> P x"
  by (auto simp: find_Some_iff)

lemma heap_ok_walk:
  assumes "heap_ok bs s"
  shows "\<forall>b \<in> set bs. b \<noteq> 0 \<and> heap_block_header_is_sane b s" "linked (blocks s) bs 0" "heap_head s = head_or bs 0"
  using heap_ok_block(6) [OF assms] heap_ok_sane [OF assms] assms by (auto simp: heap_ok_def)

lemma find_unique:
  assumes "x \<in> set xs" "P x" "\<And>y. P y \<Longrightarrow> y = x"
  shows "find P xs = Some x"
proof (cases "find P xs")
  case None
  then show ?thesis using assms(1,2) by (auto simp: find_None_iff)
next
  case (Some y)
  then have "P y" using find_SomeD by metis
  then show ?thesis using Some assms(3) [of y] by simp
qed

lemma align_up_8:
  assumes "unat (n :: u32) + 7 < 2 ^ 32" "n \<noteq> 0"
  shows "n \<le> align_up n 8" "unat (align_up n 8) mod 8 = 0" "align_up n 8 \<noteq> 0" "unat (align_up n 8) + 7 < 2 ^ 32"
    "align_up (align_up n 8) 8 = align_up n 8"
proof -
  have e: "unat (align_up m 8) = (unat m + 7) div 8 * 8" if "unat m + 7 < 2 ^ 32" for m :: u32
    using unat_align_up [of 3 m] that by simp
  have u: "unat (align_up n 8) = (unat n + 7) div 8 * 8" using assms(1) by (rule e)
  have d: "unat n \<le> (unat n + 7) div 8 * 8" by presburger
  show "n \<le> align_up n 8" using u d by (simp add: word_le_nat_alt)
  then show "align_up n 8 \<noteq> 0" using assms(2) by auto
  show "unat (align_up n 8) mod 8 = 0" by (simp add: u)
  have l: "(unat n + 7) div 8 * 8 \<le> 4294967288" using assms(1) by simp
  then show less: "unat (align_up n 8) + 7 < 2 ^ 32" by (simp add: u)
  have "((unat n + 7) div 8 * 8 + 7) div 8 * 8 = (unat n + 7) div 8 * 8" by presburger
  then show "align_up (align_up n 8) 8 = align_up n 8" by (simp add: word_unat_eq_iff e [OF less] u)
qed

lemma align_up_wraps: "(n :: u32) \<ge> 0xFFFFFFF9 \<Longrightarrow> align_up n 8 = 0"
proof -
  assume "n \<ge> 0xFFFFFFF9"
  then have "unat (n + 7) < 8" using unat_u32_bound [of n] by (simp add: word_le_nat_alt unat_plus_if')
  then have "unat ((n + 7) AND NOT 7) = 0" using unat_and_not_low [of 3 "n + 7"] by simp
  then show ?thesis by (simp add: align_up_def word_unat_eq_iff algebra_simps)
qed

lemma allocation_ptr: "heap_ok bs s \<Longrightarrow> b \<in> set bs \<Longrightarrow> b + 16 \<noteq> 0"
  using heap_ok_block(2,3) [of bs s b] by (auto simp: block_end_def word_unat_eq_iff unat_plus_if')

lemma find_block_ok:
  assumes ok: "heap_ok bs s" and i: "heap_initialized s" and b: "b \<in> set (take 4096 bs)"
  shows "heap_find_block_for_pointer (b + 16) s = b"
proof -
  note w = heap_ok_walk [OF ok]
  have bs: "b \<in> set bs" using b by (rule in_set_takeD)
  note bb = heap_ok_block [OF ok bs]
  have "0xC1000000 \<le> unat b" "unat b + 16 < 0xC2000000"
    using bb by (auto simp: block_end_def header_ok_def word_unat_eq_iff)
  then have u: "unat (b + 16) = unat b + 16" by (simp add: unat_plus_if')
  have v: "virtual_start s = 0xC1000000" "virtual_end s = 0xC1FFFFFF" using ok by (simp_all add: heap_ok_def)
  have "heap_payload_address_in_range (b + 16) s"
    using bb(2) \<open>unat b + 16 < 0xC2000000\<close> u v by (simp add: heap_payload_address_in_range_def word_le_nat_alt)
  moreover have "find (\<lambda>c. c + heap_header_size = b + 16) (take 4096 bs) = Some b"
    using b by (intro find_unique) auto
  ultimately show ?thesis
    using find_block_walk [OF w(1,2), of 4096 "b + 16"] w(3) i allocation_ptr [OF ok bs]
    by (simp add: heap_find_block_for_pointer_def)
qed

lemma validate_ok: "heap_ok bs s \<Longrightarrow> heap_initialized s \<Longrightarrow> b \<in> set (take 4096 bs) \<Longrightarrow> hb_used (blocks s b) \<Longrightarrow>
    heap_validate_pointer (b + 16) s"
  using find_block_ok [of bs s b] heap_ok_block(6) [of bs s b] by (auto simp: heap_validate_pointer_def Let_def dest: in_set_takeD)

lemma kmalloc_ok:
  assumes "heap_ok bs s" "heap_initialized s" "wanted \<noteq> 0" "unat wanted + 7 < 2 ^ 32"
  shows "\<exists>p t bs'. kmalloc wanted s = Some (p, t) \<and> heap_ok bs' t \<and> heap_initialized t \<and>
    granted wanted (allocations bs s) p (allocations bs' t) \<and> (p \<noteq> 0 \<longrightarrow> heap_validate_pointer p t)"
  using assms
proof (induction "0xC2000000 - unat (next_virtual_page s)" arbitrary: bs s wanted rule: less_induct)
  case less
  define r where "r = align_up wanted 8"
  note al = align_up_8 [OF less.prems(4,3), folded r_def]
  note w = heap_ok_walk [OF less.prems(1)]
  note unf = kmalloc.simps [of wanted s, unfolded Let_def, folded r_def]
  have bound: "unat (next_virtual_page t) \<le> 0xC2000000" if "heap_ok cs t" for cs t using that by (simp add: heap_ok_def)
  show ?case
  proof (cases "first_fit 4096 (heap_head s) r s")
    case (Found b)
    then have b: "b \<in> set bs" "\<not> hb_used (blocks s b)" "r \<le> hb_size (blocks s b)" "b \<in> set (take 4096 bs)"
      using first_fit_walk [OF w(1,2), of 4096 r] w(3) find_SomeD [of _ "take 4096 bs" b]
      by (auto split: option.splits dest: in_set_takeD)
    obtain p t where t: "take_block b r s = (p, t)" by fastforce
    from take_block_ok [OF less.prems(1) b(1,2) al(2,3) b(3) t] obtain bs' n where
      o: "heap_ok bs' t" "p = b + 16" "r \<le> n" "allocations bs' t = insert (p, n) (allocations bs s)"
        "heap_initialized t = heap_initialized s" "b \<in> set (take 4096 bs) \<longrightarrow> b \<in> set (take 4096 bs')" "hb_used (blocks t b)"
      by blast
    have v: "heap_validate_pointer p t" using validate_ok [OF o(1)] o(2,5-7) b(4) less.prems(2) by simp
    have "p \<notin> fst ` allocations bs s" "p \<noteq> 0"
      using b o(2) allocation_ptr [OF less.prems(1) b(1)] by (auto simp: allocations_def)
    then have "granted r (allocations bs s) p (allocations bs' t)"
      unfolding granted_def o(4) using o(3) by (simp, blast)
    then have "granted wanted (allocations bs s) p (allocations bs' t)" using al(1) by (rule granted_mono)
    moreover have "kmalloc wanted s = Some (p, t)" using Found t less.prems(2,3) by (simp add: unf)
    ultimately show ?thesis
      using o(1,5) less.prems(2) v by (intro exI [of _ p] exI [of _ t] exI [of _ bs']) simp
  next
    case Corrupt
    then show ?thesis using first_fit_walk [OF w(1,2), of 4096 r] w(3) by (simp split: option.splits)
  next
    case Nothing_fits
    from heap_grow_ok [OF less.prems(1), of r] obtain ok t where gr: "heap_grow r s = Some (ok, t)" "grown bs s t"
      "if ok then unat (next_virtual_page s) + 4096 \<le> unat (next_virtual_page t) else next_virtual_page t = next_virtual_page s"
      by blast
    then obtain bs' where o: "heap_ok bs' t" "allocations bs' t = allocations bs s" "heap_initialized t"
      using less.prems(2) by (auto simp: grown_def)
    show ?thesis
    proof (cases ok)
      case False
      define u where "u = t\<lparr>failed_allocation_count := failed_allocation_count t + 1\<rparr>"
      have c: "heap_core u = heap_core t" by (simp add: u_def)
      have "kmalloc wanted s = Some (0, u)" using Nothing_fits gr(1) False less.prems(2,3) by (simp add: unf u_def)
      then show ?thesis using heap_ok_core [OF c] o by (auto simp: granted_def)
    next
      case True
      have "0xC2000000 - unat (next_virtual_page t) < 0xC2000000 - unat (next_virtual_page s)"
        using gr(3) True bound [OF o(1)] by simp
      from less.hyps [OF this o(1,3) al(3,4)] obtain p u cs where
        "kmalloc r t = Some (p, u)" "heap_ok cs u" "heap_initialized u" "granted r (allocations bs s) p (allocations cs u)"
        "p \<noteq> 0 \<longrightarrow> heap_validate_pointer p u"
        using o(2) by auto
      moreover have "kmalloc wanted s = kmalloc r t" using Nothing_fits gr(1) True less.prems(2,3) by (simp add: unf)
      ultimately show ?thesis using granted_mono [OF _ al(1)] by auto
    qed
  qed
qed

text \<open>
  \<open>kfree\<close> takes the block of a live pointer out of the allocations; a null pointer, a pointer that
  is not a live one (counted as an invalid or a double free) changes none. The search visits
  the first 4096 blocks of the list.
\<close>

lemma find_block_result:
  assumes ok: "heap_ok bs s" and f: "heap_find_block_for_pointer p s = b" "b \<noteq> 0"
  shows "b \<in> set bs" "p = b + 16"
proof -
  note w = heap_ok_walk [OF ok]
  have "find_block_loop 4096 (heap_head s) p s = b"
    using f by (auto simp: heap_find_block_for_pointer_def split: if_splits)
  then have "find (\<lambda>c. c + heap_header_size = p) (take 4096 bs) = Some b"
    using find_block_walk [OF w(1,2), of 4096 p] w(3) f(2) by (auto split: option.splits)
  from find_SomeD [OF this] show "b \<in> set bs" "p = b + 16" by (auto dest: in_set_takeD)
qed

lemma allocations_set_unused:
  "b \<in> set bs \<Longrightarrow> allocations bs (set_block b ((blocks s b)\<lparr>hb_used := False\<rparr>) s) =
     allocations bs s - {(b + 16, hb_size (blocks s b))}"
  by (auto simp: allocations_def)

lemma kfree_ok:
  assumes ok: "heap_ok bs s"
  shows "\<exists>t bs'. kfree p s = Some t \<and> heap_ok bs' t \<and> heap_initialized t = heap_initialized s \<and>
    {a \<in> allocations bs s. fst a \<noteq> p} \<subseteq> allocations bs' t \<and> allocations bs' t \<subseteq> allocations bs s \<and>
    (heap_initialized s \<and> length bs \<le> 4096 \<longrightarrow> p \<notin> fst ` allocations bs' t)"
proof -
  define b where "b = heap_find_block_for_pointer p s"
  have live: "b \<noteq> 0 \<and> hb_used (blocks s b)" if i: "heap_initialized s" and l: "length bs \<le> 4096" and p: "p \<in> fst ` allocations bs s"
  proof -
    obtain c where c: "c \<in> set bs" "hb_used (blocks s c)" "p = c + 16" using p by (auto simp: allocations_def)
    then have "b = c" using find_block_ok [OF ok i, of c] l by (simp add: b_def)
    then show ?thesis using c heap_ok_block(6) [OF ok] by simp
  qed
  show ?thesis
  proof (cases "p \<noteq> 0 \<and> b \<noteq> 0 \<and> hb_used (blocks s b)")
    case False
    define t where "t = (if p = 0 then s else if b = 0 then s\<lparr>invalid_free_count := invalid_free_count s + 1\<rparr>
        else s\<lparr>double_free_count := double_free_count s + 1\<rparr>)"
    have c: "heap_core t = heap_core s" by (simp add: t_def)
    have "kfree p s = Some t" using False by (auto simp: kfree_def Let_def b_def t_def)
    moreover have "p \<noteq> 0" if "p \<in> fst ` allocations bs s"
      using that allocation_ptr [OF ok] by (auto simp: allocations_def)
    ultimately show ?thesis using heap_ok_core [OF c] ok live False by auto
  next
    case True
    have fb: "b \<in> set bs" "p = b + 16" using find_block_result [OF ok b_def [symmetric]] True by auto
    define u where "u = set_block b ((blocks s b)\<lparr>hb_used := False\<rparr>) s"
    define v where "v = u\<lparr>successful_free_count := successful_free_count u + 1\<rparr>"
    have c: "heap_core v = heap_core u" by (simp add: v_def)
    have "heap_ok bs v" using heap_ok_core(1) [OF c] heap_ok_set_used [OF ok fb(1)] by (simp add: u_def)
    from heap_merge_ok [OF this] obtain t where t: "heap_merge_free_blocks v = Some t" "merged bs v t" by blast
    have "kfree p s = Some (heap_recalculate_stats t)" using True t(1) by (simp add: kfree_def Let_def b_def [symmetric] u_def v_def)
    moreover have "allocations bs v = allocations bs s - {(p, hb_size (blocks s b))}"
      using heap_ok_core(2) [OF c] allocations_set_unused [OF fb(1), of s] by (simp add: u_def fb(2))
    moreover have "p \<notin> fst ` (allocations bs s - {(p, hb_size (blocks s b))})" by (auto simp: allocations_def fb(2))
    moreover obtain bs' where "heap_ok bs' t" "allocations bs' t = allocations bs v" "heap_initialized t = heap_initialized v"
      using t(2) by (auto simp: merged_def)
    ultimately show ?thesis
      using heap_ok_core [OF heap_core_recalculate [of t]] heap_ok_core(3) [OF c]
      by (intro exI [of _ "heap_recalculate_stats t"] exI [of _ bs']) (auto simp: u_def)
  qed
qed

section \<open>The heap as an allocator\<close>

lemma allocations_separate: "heap_ok bs s \<Longrightarrow> separate (allocations bs s)"
proof -
  assume ok: "heap_ok bs s"
  have u: "unat (b + 16) = unat b + 16" if "b \<in> set bs" for b
    using heap_ok_block(3) [OF ok that] by (simp add: block_end_def unat_plus_if')
  have "block_end (blocks s) b \<le> unat c \<or> block_end (blocks s) c \<le> unat b" if "b \<in> set bs" "c \<in> set bs" "b \<noteq> c" for b c
  proof -
    have t: "tiles (blocks s) 0xC1000000 bs (unat (next_virtual_page s))" using ok by (simp add: heap_ok_def)
    obtain xs ys where "bs = xs @ b # ys" using \<open>b \<in> set bs\<close> by (meson split_list)
    then show ?thesis using tiles_before [of _ _ xs b ys] tiles_after [of _ _ xs b ys] t that by auto
  qed
  then show ?thesis using u by (fastforce simp: separate_def allocations_def block_end_def)
qed

lemma allocation_place:
  assumes ok: "heap_ok bs s" and a: "(p, n) \<in> allocations bs s"
  shows "unat p mod 8 = 0" "0xC1000000 < unat p" "unat p + unat n \<le> 0xC2000000"
    "p \<le> a \<Longrightarrow> a < p + n \<Longrightarrow> translation (vmm s) a \<noteq> None"
proof -
  obtain b where b: "b \<in> set bs" "p = b + 16" "n = hb_size (blocks s b)" using a by (auto simp: allocations_def)
  note bb = heap_ok_block [OF ok b(1)]
  have u: "unat p = unat b + 16" using bb(3) b(2) by (simp add: block_end_def unat_plus_if')
  show "unat p mod 8 = 0" using bb(5) u by presburger
  show "0xC1000000 < unat p" using bb(2) u by simp
  show e: "unat p + unat n \<le> 0xC2000000" using bb(3) u b(3) by (simp add: block_end_def)
  show "translation (vmm s) a \<noteq> None" if "p \<le> a" "a < p + n"
  proof -
    have "unat (p + n) = unat p + unat n" using e by (simp add: unat_plus_if')
    then have "virtual_start s \<le> a" "a < next_virtual_page s"
      using that bb(2,4) u b(3) ok by (auto simp: heap_ok_def block_end_def word_le_nat_alt word_less_nat_alt)
    then show ?thesis using ok by (simp add: heap_ok_def)
  qed
qed

definition heap_rep :: "heap_state \<Rightarrow> (u32 \<times> u32) set \<Rightarrow> bool" where
  "heap_rep s A \<longleftrightarrow> (\<exists>bs. heap_ok bs s \<and> heap_initialized s \<and> A = allocations bs s)"

definition request_fits :: "u32 \<Rightarrow> bool" where
  "request_fits n \<longleftrightarrow> unat n + 7 < 2 ^ 32"

lemma kmalloc_zero: "kmalloc 0 s = Some (0, s\<lparr>failed_allocation_count := failed_allocation_count s + 1\<rparr>)"
  by (simp add: kmalloc.simps)

interpretation kernel_heap: heap_allocator heap_rep kmalloc kfree request_fits heap_validate_pointer
proof
  show "separate A" if "heap_rep s A" for s A using that allocations_separate by (auto simp: heap_rep_def)
  show "0 \<notin> fst ` A" if "heap_rep s A" for s A
    using that allocation_ptr by (force simp: heap_rep_def allocations_def)
  show "p \<in> fst ` A" if h: "heap_rep s A" and v: "heap_validate_pointer p s" for s A p
  proof -
    obtain bs where bs: "heap_ok bs s" "A = allocations bs s" using h by (auto simp: heap_rep_def)
    define b where "b = heap_find_block_for_pointer p s"
    have "b \<noteq> 0" "hb_used (blocks s b)" using v by (auto simp: heap_validate_pointer_def Let_def b_def split: if_splits)
    with find_block_result [OF bs(1) b_def [symmetric]] show ?thesis by (auto simp: bs(2) allocations_def image_iff)
  qed
  show "\<exists>p t B. kmalloc n s = Some (p, t) \<and> heap_rep t B \<and> granted n A p B \<and> (p \<noteq> 0 \<longrightarrow> heap_validate_pointer p t)" if h: "heap_rep s A" and f: "request_fits n" for s A n
  proof -
    obtain bs where bs: "heap_ok bs s" "heap_initialized s" "A = allocations bs s" using h by (auto simp: heap_rep_def)
    show ?thesis
    proof (cases "n = 0")
      case True
      show ?thesis
        using heap_ok_core [OF heap_core_counters(1) [of "failed_allocation_count s + 1" s]] bs
        by (auto simp: True kmalloc_zero granted_def heap_rep_def)
    next
      case False
      with kmalloc_ok [OF bs(1,2), of n] f bs(3) show ?thesis by (fastforce simp: request_fits_def heap_rep_def)
    qed
  qed
  show "\<exists>t B. kfree p s = Some t \<and> heap_rep t B \<and> B \<subseteq> A \<and> fst ` A - {p} \<subseteq> fst ` B" if h: "heap_rep s A" for s A p
  proof -
    obtain bs where bs: "heap_ok bs s" "heap_initialized s" "A = allocations bs s" using h by (auto simp: heap_rep_def)
    from kfree_ok [OF bs(1), of p] obtain t bs' where t: "kfree p s = Some t" "heap_ok bs' t" "heap_initialized t"
      "{a \<in> A. fst a \<noteq> p} \<subseteq> allocations bs' t" "allocations bs' t \<subseteq> A" using bs(2,3) by auto
    then have "heap_rep t (allocations bs' t)" "allocations bs' t \<subseteq> A" "fst ` A - {p} \<subseteq> fst ` allocations bs' t"
      by (auto simp: heap_rep_def image_iff)
    with t(1) show ?thesis by blast
  qed
qed

section \<open>Correctness\<close>

lemma heap_reset_ok:
  assumes "vmm_inv (vmm s)" "vmm_initialized (vmm s)"
  shows "heap_ok [] (heap_reset s)" "allocations [] (heap_reset s) = {}" "vmm (heap_reset s) = vmm s"
  using assms by (auto simp: heap_ok_def allocations_def heap_reset_def heap_clear_audit_snapshot_def)

text \<open>A heap of one free page, for the examples: the first page of the range is mapped.\<close>

definition one_page_vmm :: vmm_state where
  "one_page_vmm = snd (vmm_map_page 0xC1000000 0x105000 VMM_PAGE_WRITABLE small_vmm)"

definition one_page_heap :: heap_state where
  "one_page_heap = \<lparr>heap_initialized = True, virtual_start = 0xC1000000, virtual_end = 0xC1FFFFFF,
     next_virtual_page = 0xC1001000, total_pages = 1, total_bytes = 4096, used_bytes = 0, free_bytes = 4080,
     allocation_count = 0, free_block_count = 1, grow_count = 1, failed_grow_count = 0,
     failed_allocation_count = 0, successful_free_count = 0, invalid_free_count = 0, double_free_count = 0,
     heap_audits_run = 0, heap_issues_found = 0, blocks_seen = 0, used_blocks = 0, free_blocks = 0,
     invalid_magic_blocks = 0, out_of_range_blocks = 0, misaligned_blocks = 0, invalid_size_blocks = 0,
     invalid_next_links = 0, unmapped_heap_pages = 0, calculated_used_bytes = 0, calculated_free_bytes = 0,
     calculated_total_payload_bytes = 0, heap_head = 0xC1000000,
     blocks = (\<lambda>_. \<lparr>hb_magic = HEAP_BLOCK_MAGIC, hb_size = 4080, hb_used = False, hb_next = 0\<rparr>),
     vmm = one_page_vmm\<rparr>"

lemma one_page_vmm_facts:
  "vmm_inv one_page_vmm" "vmm_initialized one_page_vmm"
  "unat a div 4096 = 0xC1000 \<Longrightarrow> translation one_page_vmm a \<noteq> None"
proof -
  obtain ok t where r: "vmm_map_page 0xC1000000 0x105000 VMM_PAGE_WRITABLE small_vmm = (ok, t)" by fastforce
  have t: "one_page_vmm = t" by (simp add: one_page_vmm_def r)
  note sp = vmm_map_page_spec [OF small_vmm_facts(1,2) writable_valid r]
  show "vmm_inv one_page_vmm" "vmm_initialized one_page_vmm" using sp by (auto simp: t split: if_splits)
  have ok
    using sp small_vmm_facts(3) small_pmm_room by (auto split: if_splits)
  then show "translation one_page_vmm a \<noteq> None" if "unat a div 4096 = 0xC1000"
    using sp that by (simp add: t word_unat_eq_iff unat_page_align_down)
qed

lemma one_page_heap_ok: "heap_ok [0xC1000000] one_page_heap" "heap_initialized one_page_heap"
  "allocations [0xC1000000] one_page_heap = {}"
proof -
  have "translation one_page_vmm a \<noteq> None" if "0xC1000000 \<le> a" "a < 0xC1001000" for a
  proof -
    have "unat a div 4096 = 0xC1000"
      using that by (intro div_nat_eqI) (simp_all add: word_le_nat_alt word_less_nat_alt)
    then show ?thesis by (rule one_page_vmm_facts(3))
  qed
  then show "heap_ok [0xC1000000] one_page_heap"
    using one_page_vmm_facts(1,2) by (simp add: heap_ok_def one_page_heap_def header_ok_def block_end_def)
  show "heap_initialized one_page_heap" "allocations [0xC1000000] one_page_heap = {}"
    by (simp_all add: one_page_heap_def allocations_def)
qed

text \<open>
  C1: on a well-formed heap \<open>kmalloc\<close> returns, for every size below \<open>2 ^ 32 - 7\<close>. It gives no
  pointer and leaves the allocated blocks alone, or it gives an 8-aligned pointer to one more block, of
  at least the wanted size, inside the heap range, with every byte of it mapped to a frame, and
  apart from all blocks that were out already. The heap stays well formed.
\<close>

theorem kmalloc_correct:
  assumes "heap_ok bs s" and "heap_initialized s" and "unat wanted + 7 < 2 ^ 32"
  shows "\<exists>p t bs'. kmalloc wanted s = Some (p, t) \<and> heap_ok bs' t \<and> heap_initialized t \<and>
    (if p = 0 then allocations bs' t = allocations bs s
     else \<exists>n. wanted \<le> n \<and> allocations bs' t = insert (p, n) (allocations bs s) \<and> unat p mod 8 = 0 \<and>
        0xC1000000 < unat p \<and> unat p + unat n \<le> 0xC2000000 \<and>
        (\<forall>a. p \<le> a \<and> a < p + n \<longrightarrow> translation (vmm t) a \<noteq> None) \<and>
        (\<forall>(q, m) \<in> allocations bs s. unat p + unat n \<le> unat q \<or> unat q + unat m \<le> unat p))"
proof (cases "wanted = 0")
  case True
  then show ?thesis
    using heap_ok_core [OF heap_core_counters(1) [of "failed_allocation_count s + 1" s]] assms(1,2)
    by (auto simp: kmalloc_zero)
next
  case False
  from kmalloc_ok [OF assms(1,2) False assms(3)] obtain p t bs' where k: "kmalloc wanted s = Some (p, t)"
    "heap_ok bs' t" "heap_initialized t" "granted wanted (allocations bs s) p (allocations bs' t)" by auto
  show ?thesis
  proof (cases "p = 0")
    case False
    then obtain n where n: "wanted \<le> n" "allocations bs' t = insert (p, n) (allocations bs s)" "p \<notin> fst ` allocations bs s"
      using k(4) by (auto simp: granted_def)
    note pl = allocation_place [OF k(2), of p n]
    have "unat p + unat n \<le> unat q \<or> unat q + unat m \<le> unat p" if "(q, m) \<in> allocations bs s" for q m
      by (rule separate_insertD [OF allocations_separate [OF k(2), unfolded n(2)] n(3) that])
    then have "wanted \<le> n \<and> allocations bs' t = insert (p, n) (allocations bs s) \<and> unat p mod 8 = 0 \<and>
        0xC1000000 < unat p \<and> unat p + unat n \<le> 0xC2000000 \<and>
        (\<forall>a. p \<le> a \<and> a < p + n \<longrightarrow> translation (vmm t) a \<noteq> None) \<and>
        (\<forall>(q, m) \<in> allocations bs s. unat p + unat n \<le> unat q \<or> unat q + unat m \<le> unat p)"
      using n(1,2) pl by auto
    then show ?thesis using k(1-3) False by (simp del: split_paired_Ex) blast
  qed (use k in \<open>auto simp: granted_def\<close>)
qed

theorem kmalloc_correct_witness:
  "\<exists>p t bs'. kmalloc 100 one_page_heap = Some (p, t) \<and> heap_ok bs' t"
  using kmalloc_correct [OF one_page_heap_ok(1,2), of 100] by auto

text \<open>
  \<open>kfree\<close> returns on a well-formed heap and keeps it well formed. It removes at most the block
  behind the given pointer from the allocated ones, and touches no other; an invalid pointer or
  a second free of the same one changes none. In a heap of at most 4096 blocks the pointer is
  not allocated afterwards.
\<close>

theorem kfree_correct:
  assumes "heap_ok bs s"
  shows "\<exists>t bs'. kfree p s = Some t \<and> heap_ok bs' t \<and> heap_initialized t = heap_initialized s \<and>
    {a \<in> allocations bs s. fst a \<noteq> p} \<subseteq> allocations bs' t \<and> allocations bs' t \<subseteq> allocations bs s \<and>
    (heap_initialized s \<and> length bs \<le> 4096 \<longrightarrow> p \<notin> fst ` allocations bs' t)"
  by (rule kfree_ok [OF assms])

theorem kfree_correct_witness:
  "\<exists>t bs'. kfree 0xC1000010 one_page_heap = Some t \<and> 0xC1000010 \<notin> fst ` allocations bs' t"
  using kfree_correct [OF one_page_heap_ok(1), of "0xC1000010"] one_page_heap_ok(2) by auto

text \<open>
  C2: a client that allocates and frees in any order never gets stuck and is never handed a
  pointer it still holds; at every end the blocks it holds are allocated and lie apart.
\<close>

theorem kernel_heap_any_trace:
  assumes "heap_ok bs s" and "heap_initialized s" and "\<forall>n. Alloc n \<in> set ops \<longrightarrow> unat n + 7 < 2 ^ 32"
  shows "\<exists>M t bs'. heap_run kmalloc kfree ops ({}, s) = Some (M, t) \<and> heap_ok bs' t \<and>
    M \<subseteq> fst ` allocations bs' t \<and> separate (allocations bs' t)"
proof -
  have "heap_rep s (allocations bs s)" using assms(1,2) by (auto simp: heap_rep_def)
  from kernel_heap.heap_run_safe [OF this, of "{}" ops] assms(3) show ?thesis
    by (fastforce simp: heap_rep_def request_fits_def)
qed

theorem kernel_heap_any_trace_witness:
  "\<exists>M t bs'. heap_run kmalloc kfree [Alloc 100, Alloc 5000, Free 0xC1000010, Free 0xC1000010, Alloc 0] ({}, one_page_heap)
     = Some (M, t) \<and> separate (allocations bs' t)"
proof -
  have "\<forall>n. Alloc n \<in> set [Alloc 100, Alloc 5000, Free 0xC1000010, Free 0xC1000010, Alloc 0] \<longrightarrow> unat n + 7 < 2 ^ 32" by auto
  from kernel_heap_any_trace [OF one_page_heap_ok(1,2) this] show ?thesis by blast
qed

text \<open>
  \<open>heap_initialize\<close> on a machine with paging up returns, with a well-formed heap that has no
  allocated block, whether or not the first page could be mapped.
\<close>

theorem heap_initialize_correct:
  assumes "vmm_inv (vmm s)" and "vmm_initialized (vmm s)"
  shows "\<exists>t bs. heap_initialize s = Some t \<and> heap_ok bs t \<and> allocations bs t = {} \<and>
    (heap_initialized t \<longrightarrow> unat (next_virtual_page t) \<ge> 0xC1001000)"
proof -
  note r = heap_reset_ok [OF assms]
  have n: "next_virtual_page (heap_reset s) = 0xC1000000" "\<not> heap_initialized (heap_reset s)"
    by (simp_all add: heap_reset_def heap_clear_audit_snapshot_def)
  from heap_grow_ok [OF r(1), of "HEAP_INITIAL_PAGES * PMM_PAGE_SIZE - heap_header_size"] obtain ok t where
    g: "heap_grow (HEAP_INITIAL_PAGES * PMM_PAGE_SIZE - heap_header_size) (heap_reset s) = Some (ok, t)"
      "grown [] (heap_reset s) t" "if ok then unat (next_virtual_page (heap_reset s)) + 4096 \<le> unat (next_virtual_page t)
         else next_virtual_page t = next_virtual_page (heap_reset s)" by blast
  obtain bs where bs: "heap_ok bs t" "allocations bs t = {}" "\<not> heap_initialized t"
    using g(2) r(2) n(2) by (auto simp: grown_def)
  define u where "u = t\<lparr>heap_initialized := True\<rparr>"
  have u: "heap_ok bs u" "allocations bs u = {}" "heap_initialized u" "next_virtual_page u = next_virtual_page t"
    using bs by (auto simp: u_def heap_ok_def allocations_def)
  have "heap_initialize s = Some (if ok then heap_recalculate_stats u else t)" using g(1) by (simp add: heap_initialize_def u_def)
  then show ?thesis
    using bs u g(3) n(1) heap_ok_core [OF heap_core_recalculate [of u]]
    by (intro exI [of _ "if ok then heap_recalculate_stats u else t"] exI [of _ bs]) auto
qed

theorem heap_initialize_correct_witness:
  "\<exists>t bs. heap_initialize (one_page_heap\<lparr>vmm := small_vmm\<rparr>) = Some t \<and> heap_ok bs t \<and> allocations bs t = {}"
  using heap_initialize_correct [of "one_page_heap\<lparr>vmm := small_vmm\<rparr>"] small_vmm_facts(1,2) by auto

text \<open>
  C33: a request of \<open>0xFFFFFFF9\<close> bytes or more wraps around to size 0 when it is rounded up. \<open>kmalloc\<close>
  then succeeds: it splits the first free block at size 0 and gives out a pointer to the very
  address of the header of the next block.
\<close>

theorem kmalloc_huge_request:
  assumes "heap_ok (b # bs) s" and "heap_initialized s" and "wanted \<ge> 0xFFFFFFF9"
    and "\<not> hb_used (blocks s b)" and "hb_size (blocks s b) > 32"
  shows "\<exists>t. kmalloc wanted s = Some (b + 16, t) \<and> hb_size (blocks t b) = 0 \<and> hb_used (blocks t b) \<and>
    hb_next (blocks t b) = b + 16 \<and> hb_magic (blocks t (b + 16)) = HEAP_BLOCK_MAGIC"
proof -
  have z: "align_up wanted 8 = 0" using assms(3) by (rule align_up_wraps)
  have sane: "heap_block_header_is_sane b s" using heap_ok_sane [OF assms(1)] by simp
  have hd: "heap_head s = b" "b \<noteq> 0" using assms(1) heap_ok_block(6) [OF assms(1), of b] by (auto simp: heap_ok_def)
  have "first_fit 4096 (heap_head s) 0 s = Found b"
    using first_fit.simps(2) [of 4095 b 0 s] sane hd assms(4) by simp
  then have k: "kmalloc wanted s = Some (take_block b 0 s)"
    using assms(2,3) z by (subst kmalloc.simps) auto
  have ne: "b + 16 \<noteq> b" by simp
  define t where "t = heap_split_block b 0 s"
  have "t = set_block b ((blocks s b)\<lparr>hb_size := 0, hb_next := b + 16\<rparr>)
      (set_block (b + 16) \<lparr>hb_magic = HEAP_BLOCK_MAGIC, hb_size = hb_size (blocks s b) - 16, hb_used = False,
        hb_next = hb_next (blocks s b)\<rparr> (heap_initialize_block (b + 16) (hb_size (blocks s b) - 16) s))"
    using assms(5) sane by (auto simp: t_def heap_split_block_def Let_def heap_initialize_block_def not_le)
  then have t: "blocks t b = (blocks s b)\<lparr>hb_size := 0, hb_next := b + 16\<rparr>" "hb_magic (blocks t (b + 16)) = HEAP_BLOCK_MAGIC"
    by simp_all
  have "take_block b 0 s = (b + 16, heap_recalculate_stats (set_block b ((blocks t b)\<lparr>hb_used := True\<rparr>) t))"
    by (simp add: take_block_def t_def Let_def)
  with k t show ?thesis using heap_core_recalculate by (auto simp: heap_core_def)
qed

theorem kmalloc_huge_request_witness:
  "\<exists>t. kmalloc 0xFFFFFFFF one_page_heap = Some (0xC1000010, t) \<and> hb_size (blocks t 0xC1000000) = 0"
proof -
  have "\<not> hb_used (blocks one_page_heap 0xC1000000)" "hb_size (blocks one_page_heap 0xC1000000) > 32"
    by (simp_all add: one_page_heap_def)
  from kmalloc_huge_request [OF one_page_heap_ok(1,2) _ this, of "0xFFFFFFFF"] show ?thesis by auto
qed

end
