(* ===== verification/Scheduler.thy ===== *)
theory Scheduler
  imports Kernel_Heap Kernel_Status Kernel_String "HOL-Library.Monad_Syntax"
begin

text \<open>
  \<^verbatim>\<open>core/scheduler.c\<close>: the task table of the i386 kernel, its round-robin selection, sleeping and
  waking, the dispatch of a task (directly or on its own stack), the interrupt lock, and the
  audit and repair of the table.

  State: \<open>sched\<close> holds the static variables of the file, one nested record per C structure, the
  kernel heap, the tick counter of \<^verbatim>\<open>drivers/timer.c\<close> and the EFLAGS register. A pointer into the
  task table is the index of the slot (\<open>None\<close> is null); an index of 16 or more is a pointer
  elsewhere. The state of a task is the number the C enumeration has, so that a damaged table can
  be expressed. What a task does when it is dispatched is a parameter, \<open>run_entry\<close>, a function of
  the entry address and the scheduler state. An operation that does not return (a failed
  assertion panics and halts) has the result \<open>None\<close>; the counter of passed assertions and the
  messages on the screen are not modelled. The context switch saves the registers of the processor, the
  field \<open>cpu\<close>, into the old context and goes on in the new one.
\<close>

section \<open>State\<close>

abbreviation (input) SCHEDULER_MAX_TASKS :: nat where "SCHEDULER_MAX_TASKS \<equiv> 16"
abbreviation (input) SCHEDULER_TASK_NAME_MAX :: u32 where "SCHEDULER_TASK_NAME_MAX \<equiv> 32"
abbreviation (input) SCHEDULER_KERNEL_STACK_SIZE :: u32 where "SCHEDULER_KERNEL_STACK_SIZE \<equiv> 4096"
abbreviation (input) SCHEDULER_NO_TASK_SELECTED :: u32 where "SCHEDULER_NO_TASK_SELECTED \<equiv> 0xFFFFFFFF"
abbreviation (input) SCHEDULER_TASK_UNUSED :: u32 where "SCHEDULER_TASK_UNUSED \<equiv> 0"
abbreviation (input) SCHEDULER_TASK_ACTIVE :: u32 where "SCHEDULER_TASK_ACTIVE \<equiv> 1"
abbreviation (input) SCHEDULER_TASK_RUNNING :: u32 where "SCHEDULER_TASK_RUNNING \<equiv> 2"
abbreviation (input) SCHEDULER_TASK_DISABLED :: u32 where "SCHEDULER_TASK_DISABLED \<equiv> 3"
abbreviation (input) SCHEDULER_TASK_COMPLETED :: u32 where "SCHEDULER_TASK_COMPLETED \<equiv> 4"
abbreviation (input) SCHEDULER_TASK_SLEEPING :: u32 where "SCHEDULER_TASK_SLEEPING \<equiv> 5"

datatype scheduler_task_mode = SCHEDULER_TASK_RECURRING | SCHEDULER_TASK_ONESHOT

record scheduler_context =
  eip :: u32
  esp :: u32
  ebp :: u32
  eflags :: u32
  eax :: u32
  ebx :: u32
  ecx :: u32
  edx :: u32
  esi :: u32
  edi :: u32

record scheduler_task =
  used :: bool
  task_id :: u32
  task_name :: "char list"
  state :: u32
  mode :: scheduler_task_mode
  interval_ticks :: u32
  last_run_tick :: u32
  run_count :: u32
  wake_tick :: u32
  sleep_count :: u32
  kernel_stack_base :: u32
  kernel_stack_size :: u32
  kernel_stack_top :: u32
  task_context :: scheduler_context
  task_entry :: u32

record scheduler_stats =
  initialized :: bool
  next_task_id :: u32
  active_tasks :: u32
  running_tasks :: u32
  completed_tasks :: u32
  disabled_tasks :: u32
  sleeping_tasks :: u32
  total_created_tasks :: u32
  scheduler_runs :: u32
  task_dispatches :: u32
  manual_dispatches :: u32
  switched_dispatches :: u32
  switched_returns :: u32
  current_task_index :: u32
  last_selected_task_id :: u32
  round_robin_passes :: u32
  tasks_considered :: u32
  tasks_selected :: u32
  no_task_selected :: u32
  allocated_kernel_stacks :: u32
  freed_kernel_stacks :: u32
  failed_stack_allocations :: u32
  trampoline_entries :: u32
  task_completions :: u32
  task_sleeps :: u32
  task_wakes :: u32
  task_yields :: u32
  failed_task_yields :: u32
  last_yielded_task_id :: u32
  context_self_tests :: u32
  switch_tests :: u32
  switch_test_failures :: u32

record switch_test_info =
  stack_allocated :: bool
  started :: bool
  entered :: bool
  completed :: bool
  returned_unexpectedly :: bool
  test_run_count :: u32
  test_stack_base :: u32
  test_stack_top :: u32
  test_entry_address :: u32
  return_eip :: u32
  test_saved_eip :: u32

record preempt_test_info =
  preempt_enabled :: bool
  in_timer_dispatch :: bool
  tick_interval :: u32
  last_dispatch_tick :: u32
  timer_ticks_seen :: u32
  timer_dispatches :: u32
  skipped_reentrant_dispatches :: u32

record ready_queue_info =
  rebuilds :: u32
  queue_count :: u32
  queue_head :: u32
  queue_tail :: u32
  overflows :: u32
  selected_slot :: u32
  queue_task_ids :: "u32 list"

record scheduler_audit_info =
  audits_run :: u32
  repairs_run :: u32
  issues_found :: u32
  issues_repaired :: u32
  invalid_used_state :: u32
  unused_task_with_stack :: u32
  active_task_without_stack :: u32
  active_task_without_entry :: u32
  sleeping_task_without_wake_tick :: u32
  inactive_task_with_stack :: u32
  ready_queue_invalid_slot :: u32
  ready_queue_task_id_mismatch :: u32
  ready_queue_over_capacity :: u32
  current_task_invalid :: u32
  switched_task_invalid :: u32

record lock_info =
  locked :: bool
  interrupts_enabled_now :: bool
  depth :: u32
  saved_flags :: u32
  lock_count :: u32
  unlock_count :: u32
  max_depth :: u32
  failed_unlocks :: u32
  test_runs :: u32

record sched =
  tasks :: "scheduler_task list"
  stats :: scheduler_stats
  test_workload_counter :: u32
  test_workload_task_id :: u32
  switch_test_return_context :: scheduler_context
  switch_test_context :: scheduler_context
  switch_info :: switch_test_info
  main_context :: scheduler_context
  current_switched_task :: "nat option"
  current_running_task :: "nat option"
  running_on_task_stack :: bool
  preempt :: preempt_test_info
  queue :: ready_queue_info
  queue_slots :: "u32 list"
  audit_info :: scheduler_audit_info
  lock :: lock_info
  heap :: heap_state
  ticks :: u32
  flags :: u32
  cpu :: scheduler_context

definition upd_task :: "nat \<Rightarrow> (scheduler_task \<Rightarrow> scheduler_task) \<Rightarrow> sched \<Rightarrow> sched" where
  "upd_task i f s = s\<lparr>tasks := (tasks s)[i := f (tasks s ! i)]\<rparr>"

definition upd_stats :: "(scheduler_stats \<Rightarrow> scheduler_stats) \<Rightarrow> sched \<Rightarrow> sched" where
  "upd_stats f s = s\<lparr>stats := f (stats s)\<rparr>"

abbreviation incr :: "((u32 \<Rightarrow> u32) \<Rightarrow> scheduler_stats \<Rightarrow> scheduler_stats) \<Rightarrow> sched \<Rightarrow> sched" where
  "incr field_update \<equiv> upd_stats (field_update (\<lambda>n. n + 1))"

definition kernel_assert :: "bool \<Rightarrow> unit option" where
  "kernel_assert c = (if c then Some () else None)"

section \<open>Clearing\<close>

definition scheduler_clear_context :: scheduler_context where
  "scheduler_clear_context = \<lparr>eip = 0, esp = 0, ebp = 0, eflags = 0x202, eax = 0, ebx = 0, ecx = 0, edx = 0, esi = 0, edi = 0\<rparr>"

definition scheduler_clear_task :: scheduler_task where
  "scheduler_clear_task =
     \<lparr>used = False, task_id = 0, task_name = replicate 32 NUL, state = SCHEDULER_TASK_UNUSED,
      mode = SCHEDULER_TASK_RECURRING, interval_ticks = 0, last_run_tick = 0, run_count = 0, wake_tick = 0,
      sleep_count = 0, kernel_stack_base = 0, kernel_stack_size = 0, kernel_stack_top = 0,
      task_context = scheduler_clear_context, task_entry = 0\<rparr>"

definition scheduler_clear_switch_test_info :: switch_test_info where
  "scheduler_clear_switch_test_info =
     \<lparr>stack_allocated = False, started = False, entered = False, completed = False, returned_unexpectedly = False,
      test_run_count = 0, test_stack_base = 0, test_stack_top = 0, test_entry_address = 0, return_eip = 0, test_saved_eip = 0\<rparr>"

definition scheduler_clear_preempt_test_info :: preempt_test_info where
  "scheduler_clear_preempt_test_info =
     \<lparr>preempt_enabled = False, in_timer_dispatch = False, tick_interval = 0, last_dispatch_tick = 0,
      timer_ticks_seen = 0, timer_dispatches = 0, skipped_reentrant_dispatches = 0\<rparr>"

definition scheduler_clear_ready_queue_info :: "sched \<Rightarrow> sched" where
  "scheduler_clear_ready_queue_info s =
     s\<lparr>queue := \<lparr>rebuilds = 0, queue_count = 0, queue_head = 0, queue_tail = 0, overflows = 0,
         selected_slot = SCHEDULER_NO_TASK_SELECTED, queue_task_ids = replicate SCHEDULER_MAX_TASKS 0\<rparr>,
       queue_slots := replicate SCHEDULER_MAX_TASKS SCHEDULER_NO_TASK_SELECTED\<rparr>"

definition scheduler_clear_audit_info :: scheduler_audit_info where
  "scheduler_clear_audit_info =
     \<lparr>audits_run = 0, repairs_run = 0, issues_found = 0, issues_repaired = 0, invalid_used_state = 0,
      unused_task_with_stack = 0, active_task_without_stack = 0, active_task_without_entry = 0,
      sleeping_task_without_wake_tick = 0, inactive_task_with_stack = 0, ready_queue_invalid_slot = 0,
      ready_queue_task_id_mismatch = 0, ready_queue_over_capacity = 0, current_task_invalid = 0, switched_task_invalid = 0\<rparr>"

definition irq_are_enabled :: "sched \<Rightarrow> bool" where
  "irq_are_enabled s \<longleftrightarrow> flags s AND 0x200 \<noteq> 0"

definition irq_save :: "sched \<Rightarrow> u32 \<times> sched" where
  "irq_save s = (flags s, s\<lparr>flags := flags s AND NOT 0x200\<rparr>)"

definition irq_restore :: "u32 \<Rightarrow> sched \<Rightarrow> sched" where
  "irq_restore f s = s\<lparr>flags := f\<rparr>"

definition scheduler_clear_lock_info :: "sched \<Rightarrow> sched" where
  "scheduler_clear_lock_info s =
     s\<lparr>lock := \<lparr>locked = False, interrupts_enabled_now = irq_are_enabled s, depth = 0, saved_flags = 0, lock_count = 0,
         unlock_count = 0, max_depth = 0, failed_unlocks = 0, test_runs = 0\<rparr>\<rparr>"

section \<open>The table\<close>

definition scheduler_find_available_slot :: "sched \<Rightarrow> nat option" where
  "scheduler_find_available_slot s =
     find (\<lambda>i. let t = tasks s ! i in \<not> used t \<or> state t = SCHEDULER_TASK_UNUSED \<or>
                 state t = SCHEDULER_TASK_DISABLED \<or> state t = SCHEDULER_TASK_COMPLETED) [0..<SCHEDULER_MAX_TASKS]"

definition scheduler_task_state_is_valid :: "u32 \<Rightarrow> bool" where
  "scheduler_task_state_is_valid st \<longleftrightarrow>
     st = SCHEDULER_TASK_UNUSED \<or> st = SCHEDULER_TASK_ACTIVE \<or> st = SCHEDULER_TASK_RUNNING \<or>
     st = SCHEDULER_TASK_DISABLED \<or> st = SCHEDULER_TASK_COMPLETED \<or> st = SCHEDULER_TASK_SLEEPING"

definition scheduler_assign_task_state :: "nat \<Rightarrow> u32 \<Rightarrow> sched \<Rightarrow> sched" where
  "scheduler_assign_task_state i st = upd_task i (\<lambda>t. t\<lparr>state := st\<rparr>)"

definition scheduler_find_task_by_id_mutable :: "u32 \<Rightarrow> sched \<Rightarrow> nat option" where
  "scheduler_find_task_by_id_mutable tid s =
     find (\<lambda>i. used (tasks s ! i) \<and> task_id (tasks s ! i) = tid) [0..<SCHEDULER_MAX_TASKS]"

definition scheduler_recalculate_task_counts :: "sched \<Rightarrow> sched" where
  "scheduler_recalculate_task_counts s =
     (let (active, running, completed, disabled, sleeping) =
        fold (\<lambda>i (active, running, completed, disabled, sleeping).
            let t = tasks s ! i
            in if \<not> used t then (active, running, completed, disabled, sleeping)
               else if state t = SCHEDULER_TASK_ACTIVE then (active + 1, running, completed, disabled, sleeping)
               else if state t = SCHEDULER_TASK_RUNNING then (active, running + 1, completed, disabled, sleeping)
               else if state t = SCHEDULER_TASK_COMPLETED then (active, running, completed + 1, disabled, sleeping)
               else if state t = SCHEDULER_TASK_DISABLED then (active, running, completed, disabled + 1, sleeping)
               else if state t = SCHEDULER_TASK_SLEEPING then (active, running, completed, disabled, sleeping + 1)
               else (active, running, completed, disabled, sleeping))
          [0..<SCHEDULER_MAX_TASKS] (0, 0, 0, 0, 0)
      in upd_stats (\<lambda>st. st\<lparr>active_tasks := active, running_tasks := running, completed_tasks := completed,
           disabled_tasks := disabled, sleeping_tasks := sleeping\<rparr>) s)"

definition wake_slot :: "u32 \<Rightarrow> nat \<Rightarrow> sched \<times> bool \<Rightarrow> sched \<times> bool" where
  "wake_slot current_tick i = (\<lambda>(s, changed).
     let t = tasks s ! i
     in if \<not> used t \<or> state t \<noteq> SCHEDULER_TASK_SLEEPING then (s, changed)
        else if current_tick - wake_tick t < 0x80000000
        then (incr task_wakes_update (upd_task i (\<lambda>t. t\<lparr>wake_tick := 0\<rparr>)
                (scheduler_assign_task_state i SCHEDULER_TASK_ACTIVE s)), True)
        else (s, changed))"

definition scheduler_wake_sleeping_tasks :: "u32 \<Rightarrow> sched \<Rightarrow> sched" where
  "scheduler_wake_sleeping_tasks current_tick s =
     (let (s, changed) = fold (wake_slot current_tick) [0..<SCHEDULER_MAX_TASKS] (s, False)
      in if changed then scheduler_recalculate_task_counts s else s)"

section \<open>Selecting a task\<close>

definition scheduler_task_is_ready_to_run :: "scheduler_task \<Rightarrow> u32 \<Rightarrow> bool" where
  "scheduler_task_is_ready_to_run t current_tick =
     (if \<not> used t \<or> state t \<noteq> SCHEDULER_TASK_ACTIVE then False
      else if mode t = SCHEDULER_TASK_ONESHOT then True
      else if current_tick - last_run_tick t < interval_ticks t then False
      else True)"

definition scheduler_reset_ready_queue_snapshot :: "sched \<Rightarrow> sched" where
  "scheduler_reset_ready_queue_snapshot s =
     s\<lparr>queue := (queue s)\<lparr>queue_count := 0, queue_head := 0, queue_tail := 0,
         selected_slot := SCHEDULER_NO_TASK_SELECTED, queue_task_ids := replicate SCHEDULER_MAX_TASKS 0\<rparr>,
       queue_slots := replicate SCHEDULER_MAX_TASKS SCHEDULER_NO_TASK_SELECTED\<rparr>"

definition enqueue_slot :: "u32 \<Rightarrow> nat \<Rightarrow> nat \<Rightarrow> sched \<Rightarrow> sched" where
  "enqueue_slot current_tick start_index attempts s =
     (let index = (start_index + attempts) mod SCHEDULER_MAX_TASKS;
          t = tasks s ! index;
          s = incr tasks_considered_update s;
          s = (if attempts > 0 \<and> index = 0 then incr round_robin_passes_update s else s)
      in if \<not> scheduler_task_is_ready_to_run t current_tick then s
         else if queue_count (queue s) \<ge> of_nat SCHEDULER_MAX_TASKS
         then s\<lparr>queue := (queue s)\<lparr>overflows := overflows (queue s) + 1\<rparr>\<rparr>
         else
           let queue_index = unat (queue_count (queue s))
           in s\<lparr>queue_slots := (queue_slots s)[queue_index := of_nat index],
                queue := (queue s)\<lparr>queue_task_ids := (queue_task_ids (queue s))[queue_index := task_id t],
                           queue_count := queue_count (queue s) + 1\<rparr>\<rparr>)"

definition scheduler_rebuild_ready_queue :: "u32 \<Rightarrow> sched \<Rightarrow> sched" where
  "scheduler_rebuild_ready_queue current_tick s =
     (let s = s\<lparr>queue := (queue s)\<lparr>rebuilds := rebuilds (queue s) + 1\<rparr>\<rparr>;
          s = scheduler_reset_ready_queue_snapshot s;
          start_index = unat (current_task_index (stats s)) mod SCHEDULER_MAX_TASKS;
          s = fold (enqueue_slot current_tick start_index) [0..<SCHEDULER_MAX_TASKS] s
      in s\<lparr>queue := (queue s)\<lparr>queue_tail := queue_count (queue s)\<rparr>\<rparr>)"

definition scheduler_select_next_ready_task :: "u32 \<Rightarrow> sched \<Rightarrow> (nat option \<times> sched) option" where
  "scheduler_select_next_ready_task current_tick s = do {
     let s = scheduler_rebuild_ready_queue current_tick s;
     let none_selected = upd_stats (\<lambda>st. st\<lparr>last_selected_task_id := SCHEDULER_NO_TASK_SELECTED,
                            no_task_selected := no_task_selected st + 1\<rparr>) s;
     if queue_count (queue s) = 0 then Some (None, none_selected)
     else do {
       let slot = unat (queue_slots s ! 0);
       if slot \<ge> SCHEDULER_MAX_TASKS then Some (None, none_selected)
       else do {
         kernel_assert (slot < SCHEDULER_MAX_TASKS);
         kernel_assert (used (tasks s ! slot));
         let s = s\<lparr>queue := (queue s)\<lparr>selected_slot := of_nat slot, queue_head := 1\<rparr>\<rparr>;
         Some (Some slot, upd_stats (\<lambda>st. st\<lparr>current_task_index := of_nat ((slot + 1) mod SCHEDULER_MAX_TASKS),
            last_selected_task_id := task_id (tasks s ! slot), tasks_selected := tasks_selected st + 1\<rparr>) s)
       }
     }
   }"

section \<open>The lock\<close>

definition upd_lock :: "(lock_info \<Rightarrow> lock_info) \<Rightarrow> sched \<Rightarrow> sched" where
  "upd_lock f s = s\<lparr>lock := f (lock s)\<rparr>"

definition scheduler_lock :: "sched \<Rightarrow> sched" where
  "scheduler_lock s =
     (let (saved, s) = irq_save s;
          s = (if depth (lock s) = 0 then upd_lock (\<lambda>l. l\<lparr>saved_flags := saved\<rparr>) s else s);
          s = upd_lock (\<lambda>l. l\<lparr>depth := depth l + 1, locked := True, lock_count := lock_count l + 1\<rparr>) s;
          s = (if depth (lock s) > max_depth (lock s) then upd_lock (\<lambda>l. l\<lparr>max_depth := depth l\<rparr>) s else s)
      in upd_lock (\<lambda>l. l\<lparr>interrupts_enabled_now := irq_are_enabled s\<rparr>) s)"

definition scheduler_unlock :: "sched \<Rightarrow> sched option" where
  "scheduler_unlock s =
     (if depth (lock s) = 0 then None
      else
        let s = upd_lock (\<lambda>l. l\<lparr>depth := depth l - 1, unlock_count := unlock_count l + 1\<rparr>) s;
            s = (if depth (lock s) = 0
                 then let saved = saved_flags (lock s)
                      in irq_restore saved (upd_lock (\<lambda>l. l\<lparr>saved_flags := 0, locked := False\<rparr>) s)
                 else s)
        in Some (upd_lock (\<lambda>l. l\<lparr>interrupts_enabled_now := irq_are_enabled s\<rparr>) s))"

text \<open>A public operation runs its unlocked version between the two.\<close>

definition with_lock :: "(sched \<Rightarrow> ('a \<times> sched) option) \<Rightarrow> sched \<Rightarrow> ('a \<times> sched) option" where
  "with_lock f s = do { (r, s) \<leftarrow> f (scheduler_lock s); s \<leftarrow> scheduler_unlock s; Some (r, s) }"

definition scheduler_run_lock_test :: "sched \<Rightarrow> (bool \<times> sched) option" where
  "scheduler_run_lock_test s = do {
     let before = irq_are_enabled s;
     let s = upd_lock (\<lambda>l. l\<lparr>test_runs := test_runs l + 1\<rparr>) s;
     let s = scheduler_lock s;
     let locked_once = locked (lock s);
     let depth_once = depth (lock s);
     let interrupts_after_lock = irq_are_enabled s;
     let s = scheduler_lock s;
     let depth_twice = depth (lock s);
     s \<leftarrow> scheduler_unlock s;
     let depth_after_one_unlock = depth (lock s);
     s \<leftarrow> scheduler_unlock s;
     let after = irq_are_enabled s;
     let s = upd_lock (\<lambda>l. l\<lparr>interrupts_enabled_now := after\<rparr>) s;
     Some (if \<not> locked_once then False
           else if depth_once \<noteq> 1 \<or> depth_twice \<noteq> 2 \<or> depth_after_one_unlock \<noteq> 1 then False
           else if interrupts_after_lock then False
           else if before \<noteq> after then False
           else True, s)
   }"

section \<open>Stacks\<close>

definition scheduler_allocate_kernel_stack :: "nat \<Rightarrow> sched \<Rightarrow> (bool \<times> sched) option" where
  "scheduler_allocate_kernel_stack i s = do {
     (stack, h) \<leftarrow> kmalloc SCHEDULER_KERNEL_STACK_SIZE (heap s);
     let s = s\<lparr>heap := h\<rparr>;
     if stack = 0 then Some (False, incr failed_stack_allocations_update s)
     else do {
       kernel_assert (heap_validate_pointer stack (heap s));
       let top = stack + SCHEDULER_KERNEL_STACK_SIZE;
       let s = upd_task i (\<lambda>t. t\<lparr>kernel_stack_base := stack, kernel_stack_size := SCHEDULER_KERNEL_STACK_SIZE, kernel_stack_top := top,
          task_context := (task_context t)\<lparr>esp := top, ebp := top, eflags := 0x202, eax := 0, ebx := 0, ecx := 0,
            edx := 0, esi := 0, edi := 0\<rparr>\<rparr>) s;
       Some (True, incr allocated_kernel_stacks_update s)
     }
   }"

definition scheduler_free_kernel_stack :: "nat \<Rightarrow> sched \<Rightarrow> sched option" where
  "scheduler_free_kernel_stack i s =
     (if kernel_stack_base (tasks s ! i) = 0 then Some s
      else do {
        kernel_assert (heap_validate_pointer (kernel_stack_base (tasks s ! i)) (heap s));
        h \<leftarrow> kfree (kernel_stack_base (tasks s ! i)) (heap s);
        let s = s\<lparr>heap := h\<rparr>;
        let s = upd_task i (\<lambda>t. t\<lparr>kernel_stack_base := 0, kernel_stack_size := 0, kernel_stack_top := 0,
           task_context := (task_context t)\<lparr>esp := 0, ebp := 0\<rparr>\<rparr>) s;
        Some (incr freed_kernel_stacks_update s)
      })"

section \<open>Running a task\<close>

definition scheduler_task_trampoline :: "(u32 \<Rightarrow> sched \<Rightarrow> sched option) \<Rightarrow> nat \<Rightarrow> sched \<Rightarrow> sched option" where
  "scheduler_task_trampoline run_entry i s =
     (if task_entry (tasks s ! i) = 0 then Some s
      else do {
        let s = incr trampoline_entries_update s;
        let s = scheduler_assign_task_state i SCHEDULER_TASK_RUNNING s;
        let s = s\<lparr>current_running_task := Some i\<rparr>;
        let s = scheduler_recalculate_task_counts s;
        s \<leftarrow> run_entry (task_entry (tasks s ! i)) s;
        let s = s\<lparr>current_running_task := None\<rparr>;
        let s = upd_task i (\<lambda>t. t\<lparr>run_count := run_count t + 1\<rparr>) s;
        s \<leftarrow> (if mode (tasks s ! i) = SCHEDULER_TASK_ONESHOT
             then do {
               let s = scheduler_assign_task_state i SCHEDULER_TASK_COMPLETED s;
               s \<leftarrow> (if \<not> running_on_task_stack s then scheduler_free_kernel_stack i s else Some s);
               Some (incr task_completions_update s)
             }
             else Some (scheduler_assign_task_state i SCHEDULER_TASK_ACTIVE s));
        Some (scheduler_recalculate_task_counts s)
      })"

text \<open>
  \<^verbatim>\<open>scheduler_context_switch\<close> saves the registers and the flags and loads those of the next context;
  \<open>resume_eip\<close> is the address in the assembly the saved context resumes at. After the switch to
  a task, \<open>scheduler_switched_task_entry\<close> runs on its stack and switches back to the main context.
\<close>

definition context_switch :: "u32 \<Rightarrow> scheduler_context \<Rightarrow> sched \<Rightarrow> scheduler_context \<times> sched" where
  "context_switch resume_eip next s =
     ((cpu s)\<lparr>eip := resume_eip, eflags := flags s\<rparr>, s\<lparr>cpu := next, flags := eflags next\<rparr>)"

definition scheduler_switched_task_entry ::
  "(u32 \<Rightarrow> sched \<Rightarrow> sched option) \<Rightarrow> u32 \<Rightarrow> sched \<Rightarrow> sched option" where
  "scheduler_switched_task_entry run_entry resume_eip s =
     (case current_switched_task s of
        None \<Rightarrow> None
      | Some i \<Rightarrow> do {
          s \<leftarrow> scheduler_task_trampoline run_entry i s;
          let (saved, s) = context_switch resume_eip (main_context s) s;
          Some (upd_task i (\<lambda>t. t\<lparr>task_context := saved\<rparr>) s)
        })"

definition scheduler_prepare_switched_context :: "u32 \<Rightarrow> nat \<Rightarrow> sched \<Rightarrow> sched" where
  "scheduler_prepare_switched_context entry_eip i s =
     (let top = kernel_stack_top (tasks s ! i) AND 0xFFFFFFF0
      in upd_task i (\<lambda>t. t\<lparr>task_context := \<lparr>eip = entry_eip, esp = top, ebp = top, eflags = 0x202, eax = 0, ebx = 0,
           ecx = 0, edx = 0, esi = 0, edi = 0\<rparr>\<rparr>) s)"

section \<open>Creating tasks\<close>

definition scheduler_initialize :: "sched \<Rightarrow> sched" where
  "scheduler_initialize s =
     (let s = s\<lparr>tasks := replicate SCHEDULER_MAX_TASKS scheduler_clear_task,
            switch_test_return_context := scheduler_clear_context, switch_test_context := scheduler_clear_context,
            switch_info := scheduler_clear_switch_test_info, main_context := scheduler_clear_context,
            current_switched_task := None, current_running_task := None, running_on_task_stack := False,
            preempt := scheduler_clear_preempt_test_info\<rparr>;
          s = scheduler_clear_ready_queue_info s;
          s = s\<lparr>audit_info := scheduler_clear_audit_info\<rparr>;
          s = scheduler_clear_lock_info s
      in s\<lparr>stats := \<lparr>initialized = True, next_task_id = 1, active_tasks = 0, running_tasks = 0, completed_tasks = 0,
             disabled_tasks = 0, sleeping_tasks = 0, total_created_tasks = 0, scheduler_runs = 0, task_dispatches = 0,
             manual_dispatches = 0, switched_dispatches = 0, switched_returns = 0, current_task_index = 0,
             last_selected_task_id = 0, round_robin_passes = 0, tasks_considered = 0, tasks_selected = 0,
             no_task_selected = 0, allocated_kernel_stacks = 0, freed_kernel_stacks = 0, failed_stack_allocations = 0,
             trampoline_entries = 0, task_completions = 0, task_sleeps = 0, task_wakes = 0, task_yields = 0,
             failed_task_yields = 0, last_yielded_task_id = 0, context_self_tests = 0, switch_tests = 0,
             switch_test_failures = 0\<rparr>,
           test_workload_counter := 0, test_workload_task_id := 0\<rparr>)"

text \<open>The result is the task number, or -1; the number is cast to a signed integer.\<close>

definition scheduler_create_task_internal_unlocked ::
  "char list \<Rightarrow> u32 \<Rightarrow> u32 \<Rightarrow> scheduler_task_mode \<Rightarrow> sched \<Rightarrow> (int \<times> sched) option" where
  "scheduler_create_task_internal_unlocked name interval entry md s =
     (if \<not> initialized (stats s) \<or> entry = 0 then Some (-1, s)
      else if md = SCHEDULER_TASK_RECURRING \<and> interval = 0 then Some (-1, s)
      else case scheduler_find_available_slot s of
        None \<Rightarrow> Some (-1, s)
      | Some slot \<Rightarrow> do {
          s \<leftarrow> (if kernel_stack_base (tasks s ! slot) \<noteq> 0 then scheduler_free_kernel_stack slot s else Some s);
          let t = scheduler_clear_task;
          let t = t\<lparr>used := True, task_id := next_task_id (stats s), state := SCHEDULER_TASK_ACTIVE, mode := md,
             interval_ticks := interval, last_run_tick := ticks s, run_count := 0, task_entry := entry\<rparr>;
          copied \<leftarrow> string_copy (task_name t) name SCHEDULER_TASK_NAME_MAX;
          let t = t\<lparr>task_name := copied, task_context := (task_context t)\<lparr>eip := entry\<rparr>\<rparr>;
          let s = upd_task slot (\<lambda>_. t) s;
          (ok, s) \<leftarrow> scheduler_allocate_kernel_stack slot s;
          if \<not> ok then Some (-1, scheduler_recalculate_task_counts (upd_task slot (\<lambda>_. scheduler_clear_task) s))
          else do {
            let s = incr next_task_id_update s;
            let s = incr total_created_tasks_update s;
            let s = scheduler_recalculate_task_counts s;
            Some (sint (task_id (tasks s ! slot)), s)
          }
        })"

definition scheduler_create_kernel_task :: "char list \<Rightarrow> u32 \<Rightarrow> u32 \<Rightarrow> sched \<Rightarrow> (int \<times> sched) option" where
  "scheduler_create_kernel_task name interval entry =
     with_lock (scheduler_create_task_internal_unlocked name interval entry SCHEDULER_TASK_RECURRING)"

definition scheduler_create_oneshot_kernel_task :: "char list \<Rightarrow> u32 \<Rightarrow> sched \<Rightarrow> (int \<times> sched) option" where
  "scheduler_create_oneshot_kernel_task name entry =
     with_lock (scheduler_create_task_internal_unlocked name 0 entry SCHEDULER_TASK_ONESHOT)"

text \<open>The status versions return the status and what they store in the result variable; a null name is \<open>None\<close>.\<close>

definition scheduler_create_kernel_task_status ::
  "char list option \<Rightarrow> u32 \<Rightarrow> u32 \<Rightarrow> sched \<Rightarrow> ((kernel_status \<times> u32) \<times> sched) option" where
  "scheduler_create_kernel_task_status name interval entry s =
     (if \<not> initialized (stats s) then Some ((KERNEL_ERROR_NOT_INITIALIZED, 0), s)
      else case name of
        None \<Rightarrow> Some ((KERNEL_ERROR_INVALID_ARGUMENT, 0), s)
      | Some name \<Rightarrow>
          if entry = 0 \<or> interval = 0 then Some ((KERNEL_ERROR_INVALID_ARGUMENT, 0), s)
          else do {
            (result, s) \<leftarrow> with_lock (scheduler_create_task_internal_unlocked name interval entry SCHEDULER_TASK_RECURRING) s;
            Some (if result < 0 then (KERNEL_ERROR_OUT_OF_MEMORY, 0) else (KERNEL_OK, word_of_int result), s)
          })"

definition scheduler_create_oneshot_kernel_task_status ::
  "char list option \<Rightarrow> u32 \<Rightarrow> sched \<Rightarrow> ((kernel_status \<times> u32) \<times> sched) option" where
  "scheduler_create_oneshot_kernel_task_status name entry s =
     (if \<not> initialized (stats s) then Some ((KERNEL_ERROR_NOT_INITIALIZED, 0), s)
      else case name of
        None \<Rightarrow> Some ((KERNEL_ERROR_INVALID_ARGUMENT, 0), s)
      | Some name \<Rightarrow>
          if entry = 0 then Some ((KERNEL_ERROR_INVALID_ARGUMENT, 0), s)
          else do {
            (result, s) \<leftarrow> with_lock (scheduler_create_task_internal_unlocked name 0 entry SCHEDULER_TASK_ONESHOT) s;
            Some (if result < 0 then (KERNEL_ERROR_OUT_OF_MEMORY, 0) else (KERNEL_OK, word_of_int result), s)
          })"

section \<open>Controlling tasks\<close>

definition scheduler_disable_task_unlocked :: "u32 \<Rightarrow> sched \<Rightarrow> (bool \<times> sched) option" where
  "scheduler_disable_task_unlocked tid s =
     (case scheduler_find_task_by_id_mutable tid s of
        None \<Rightarrow> Some (False, s)
      | Some i \<Rightarrow>
          if state (tasks s ! i) \<noteq> SCHEDULER_TASK_ACTIVE \<and> state (tasks s ! i) \<noteq> SCHEDULER_TASK_RUNNING then Some (False, s)
          else do {
            s \<leftarrow> scheduler_free_kernel_stack i (scheduler_assign_task_state i SCHEDULER_TASK_DISABLED s);
            Some (True, scheduler_recalculate_task_counts s)
          })"

definition scheduler_disable_task :: "u32 \<Rightarrow> sched \<Rightarrow> (bool \<times> sched) option" where
  "scheduler_disable_task tid = with_lock (scheduler_disable_task_unlocked tid)"

definition scheduler_sleep_task_unlocked :: "u32 \<Rightarrow> u32 \<Rightarrow> sched \<Rightarrow> (bool \<times> sched) option" where
  "scheduler_sleep_task_unlocked tid sleep_ticks s =
     (case scheduler_find_task_by_id_mutable tid s of
        None \<Rightarrow> Some (False, s)
      | Some i \<Rightarrow>
          if sleep_ticks = 0 then Some (False, s)
          else if state (tasks s ! i) \<noteq> SCHEDULER_TASK_ACTIVE then Some (False, s)
          else
            let s = scheduler_assign_task_state i SCHEDULER_TASK_SLEEPING s;
                s = upd_task i (\<lambda>t. t\<lparr>wake_tick := ticks s + sleep_ticks, sleep_count := sleep_count t + 1\<rparr>) s;
                s = incr task_sleeps_update s
            in Some (True, scheduler_recalculate_task_counts s))"

definition scheduler_sleep_task :: "u32 \<Rightarrow> u32 \<Rightarrow> sched \<Rightarrow> (bool \<times> sched) option" where
  "scheduler_sleep_task tid sleep_ticks = with_lock (scheduler_sleep_task_unlocked tid sleep_ticks)"

definition scheduler_wake_task_unlocked :: "u32 \<Rightarrow> sched \<Rightarrow> (bool \<times> sched) option" where
  "scheduler_wake_task_unlocked tid s =
     (case scheduler_find_task_by_id_mutable tid s of
        None \<Rightarrow> Some (False, s)
      | Some i \<Rightarrow>
          if state (tasks s ! i) \<noteq> SCHEDULER_TASK_SLEEPING then Some (False, s)
          else
            let s = scheduler_assign_task_state i SCHEDULER_TASK_ACTIVE s;
                s = upd_task i (\<lambda>t. t\<lparr>wake_tick := 0\<rparr>) s;
                s = incr task_wakes_update s
            in Some (True, scheduler_recalculate_task_counts s))"

definition scheduler_wake_task :: "u32 \<Rightarrow> sched \<Rightarrow> (bool \<times> sched) option" where
  "scheduler_wake_task tid = with_lock (scheduler_wake_task_unlocked tid)"

definition scheduler_yield_task_unlocked :: "u32 \<Rightarrow> sched \<Rightarrow> (bool \<times> sched) option" where
  "scheduler_yield_task_unlocked tid s =
     (case scheduler_find_task_by_id_mutable tid s of
        None \<Rightarrow> Some (False, incr failed_task_yields_update s)
      | Some i \<Rightarrow>
          if state (tasks s ! i) \<noteq> SCHEDULER_TASK_ACTIVE \<and> state (tasks s ! i) \<noteq> SCHEDULER_TASK_RUNNING
          then Some (False, incr failed_task_yields_update s)
          else
            let s = upd_task i (\<lambda>t. t\<lparr>last_run_tick := ticks s\<rparr>) s;
                s = incr task_yields_update s
            in Some (True, upd_stats (\<lambda>st. st\<lparr>last_yielded_task_id := task_id (tasks s ! i)\<rparr>) s))"

definition scheduler_yield_task :: "u32 \<Rightarrow> sched \<Rightarrow> (bool \<times> sched) option" where
  "scheduler_yield_task tid = with_lock (scheduler_yield_task_unlocked tid)"

definition scheduler_yield_current_task :: "sched \<Rightarrow> (bool \<times> sched) option" where
  "scheduler_yield_current_task s =
     (case current_running_task s of
        None \<Rightarrow> Some (False, incr failed_task_yields_update s)
      | Some i \<Rightarrow> scheduler_yield_task_unlocked (task_id (tasks s ! i)) s)"

text \<open>The status versions look the task up under the lock before they call the plain one.\<close>

definition status_of :: "(u32 \<Rightarrow> bool) \<Rightarrow> (sched \<Rightarrow> (bool \<times> sched) option) \<Rightarrow> u32 \<Rightarrow> sched \<Rightarrow> (kernel_status \<times> sched) option" where
  "status_of allowed act tid s =
     (if \<not> initialized (stats s) then Some (KERNEL_ERROR_NOT_INITIALIZED, s)
      else
        let s = scheduler_lock s
        in case scheduler_find_task_by_id_mutable tid s of
             None \<Rightarrow> do { s \<leftarrow> scheduler_unlock s; Some (KERNEL_ERROR_NOT_FOUND, s) }
           | Some i \<Rightarrow>
               if \<not> allowed (state (tasks s ! i)) then do { s \<leftarrow> scheduler_unlock s; Some (KERNEL_ERROR_INVALID_STATE, s) }
               else do {
                 (result, s) \<leftarrow> act s;
                 s \<leftarrow> scheduler_unlock s;
                 Some (if result then KERNEL_OK else KERNEL_ERROR_UNKNOWN, s)
               })"

definition scheduler_disable_task_status :: "u32 \<Rightarrow> sched \<Rightarrow> (kernel_status \<times> sched) option" where
  "scheduler_disable_task_status tid s =
     (if tid = 0 then Some (KERNEL_ERROR_INVALID_ARGUMENT, s)
      else status_of (\<lambda>st. st = SCHEDULER_TASK_ACTIVE \<or> st = SCHEDULER_TASK_RUNNING) (scheduler_disable_task_unlocked tid) tid s)"

definition scheduler_sleep_task_status :: "u32 \<Rightarrow> u32 \<Rightarrow> sched \<Rightarrow> (kernel_status \<times> sched) option" where
  "scheduler_sleep_task_status tid sleep_ticks s =
     (if tid = 0 \<or> sleep_ticks = 0 then Some (KERNEL_ERROR_INVALID_ARGUMENT, s)
      else status_of (\<lambda>st. st = SCHEDULER_TASK_ACTIVE) (scheduler_sleep_task_unlocked tid sleep_ticks) tid s)"

definition scheduler_wake_task_status :: "u32 \<Rightarrow> sched \<Rightarrow> (kernel_status \<times> sched) option" where
  "scheduler_wake_task_status tid s =
     (if tid = 0 then Some (KERNEL_ERROR_INVALID_ARGUMENT, s)
      else status_of (\<lambda>st. st = SCHEDULER_TASK_SLEEPING) (scheduler_wake_task_unlocked tid) tid s)"

definition scheduler_yield_task_status :: "u32 \<Rightarrow> sched \<Rightarrow> (kernel_status \<times> sched) option" where
  "scheduler_yield_task_status tid s =
     (if tid = 0 then Some (KERNEL_ERROR_INVALID_ARGUMENT, s)
      else status_of (\<lambda>st. st = SCHEDULER_TASK_ACTIVE \<or> st = SCHEDULER_TASK_RUNNING) (scheduler_yield_task_unlocked tid) tid s)"

section \<open>Dispatching\<close>

definition scheduler_run_task_now_unlocked :: "(u32 \<Rightarrow> sched \<Rightarrow> sched option) \<Rightarrow> u32 \<Rightarrow> sched \<Rightarrow> (bool \<times> sched) option" where
  "scheduler_run_task_now_unlocked run_entry tid s =
     (case scheduler_find_task_by_id_mutable tid s of
        None \<Rightarrow> Some (False, s)
      | Some i \<Rightarrow>
          if state (tasks s ! i) \<noteq> SCHEDULER_TASK_ACTIVE then Some (False, s)
          else do {
            let s = incr manual_dispatches_update s;
            let s = incr task_dispatches_update s;
            let s = upd_task i (\<lambda>t. t\<lparr>last_run_tick := ticks s\<rparr>) s;
            s \<leftarrow> scheduler_task_trampoline run_entry i s;
            Some (True, s)
          })"

definition scheduler_run_task_now :: "(u32 \<Rightarrow> sched \<Rightarrow> sched option) \<Rightarrow> u32 \<Rightarrow> sched \<Rightarrow> (bool \<times> sched) option" where
  "scheduler_run_task_now run_entry tid = with_lock (scheduler_run_task_now_unlocked run_entry tid)"

text \<open>\<open>entry_eip\<close> is the address of \<^verbatim>\<open>scheduler_switched_task_entry\<close>.\<close>

definition scheduler_run_task_with_context_switch_unlocked ::
  "(u32 \<Rightarrow> sched \<Rightarrow> sched option) \<Rightarrow> u32 \<Rightarrow> u32 \<Rightarrow> u32 \<Rightarrow> sched \<Rightarrow> (bool \<times> sched) option" where
  "scheduler_run_task_with_context_switch_unlocked run_entry entry_eip resume_eip tid s =
     (case scheduler_find_task_by_id_mutable tid s of
        None \<Rightarrow> Some (False, s)
      | Some i \<Rightarrow>
          if state (tasks s ! i) \<noteq> SCHEDULER_TASK_ACTIVE then Some (False, s)
          else if kernel_stack_base (tasks s ! i) = 0 \<or> kernel_stack_top (tasks s ! i) = 0 then Some (False, s)
          else do {
            let s = s\<lparr>current_switched_task := Some i\<rparr>;
            let s = scheduler_prepare_switched_context entry_eip i s;
            let s = incr switched_dispatches_update s;
            let s = incr task_dispatches_update s;
            let s = upd_task i (\<lambda>t. t\<lparr>last_run_tick := ticks s\<rparr>) s;
            let s = s\<lparr>running_on_task_stack := True\<rparr>;
            let (saved, s) = context_switch resume_eip (task_context (tasks s ! i)) s;
            let s = s\<lparr>main_context := saved\<rparr>;
            s \<leftarrow> scheduler_switched_task_entry run_entry resume_eip s;
            let s = s\<lparr>running_on_task_stack := False\<rparr>;
            let s = incr switched_returns_update s;
            let s = s\<lparr>current_switched_task := None\<rparr>;
            s \<leftarrow> (if state (tasks s ! i) = SCHEDULER_TASK_COMPLETED then scheduler_free_kernel_stack i s else Some s);
            Some (True, scheduler_recalculate_task_counts s)
          })"

definition scheduler_run_task_with_context_switch ::
  "(u32 \<Rightarrow> sched \<Rightarrow> sched option) \<Rightarrow> u32 \<Rightarrow> u32 \<Rightarrow> u32 \<Rightarrow> sched \<Rightarrow> (bool \<times> sched) option" where
  "scheduler_run_task_with_context_switch run_entry entry_eip resume_eip tid =
     with_lock (scheduler_run_task_with_context_switch_unlocked run_entry entry_eip resume_eip tid)"

definition clear_inactive_slot :: "nat \<Rightarrow> u32 \<times> sched \<Rightarrow> (u32 \<times> sched) option" where
  "clear_inactive_slot i = (\<lambda>(cleared, s).
     let t = tasks s ! i
     in if \<not> used t then Some (cleared, s)
        else if state t = SCHEDULER_TASK_DISABLED \<or> state t = SCHEDULER_TASK_COMPLETED
        then do {
          s \<leftarrow> scheduler_free_kernel_stack i s;
          Some (cleared + 1, upd_task i (\<lambda>_. scheduler_clear_task) s)
        }
        else Some (cleared, s))"

fun foldM :: "('b \<Rightarrow> 'a \<Rightarrow> 'a option) \<Rightarrow> 'b list \<Rightarrow> 'a \<Rightarrow> 'a option" where
  "foldM f [] a = Some a"
| "foldM f (x # xs) a = do { a \<leftarrow> f x a; foldM f xs a }"

definition scheduler_clear_inactive_tasks_unlocked :: "sched \<Rightarrow> (u32 \<times> sched) option" where
  "scheduler_clear_inactive_tasks_unlocked s = do {
     (cleared, s) \<leftarrow> foldM clear_inactive_slot [0..<SCHEDULER_MAX_TASKS] (0, s);
     let s = (if current_task_index (stats s) \<ge> of_nat SCHEDULER_MAX_TASKS then upd_stats (\<lambda>st. st\<lparr>current_task_index := 0\<rparr>) s else s);
     let s = scheduler_reset_ready_queue_snapshot s;
     Some (cleared, scheduler_recalculate_task_counts s)
   }"

definition scheduler_clear_inactive_tasks :: "sched \<Rightarrow> (u32 \<times> sched) option" where
  "scheduler_clear_inactive_tasks = with_lock scheduler_clear_inactive_tasks_unlocked"

definition scheduler_run_pending_unlocked :: "(u32 \<Rightarrow> sched \<Rightarrow> sched option) \<Rightarrow> sched \<Rightarrow> sched option" where
  "scheduler_run_pending_unlocked run_entry s =
     (if \<not> initialized (stats s) then Some s
      else do {
        let now = ticks s;
        let s = scheduler_wake_sleeping_tasks now s;
        let s = incr scheduler_runs_update s;
        (selected, s) \<leftarrow> scheduler_select_next_ready_task now s;
        case selected of
          None \<Rightarrow> Some s
        | Some i \<Rightarrow> do {
            let s = upd_task i (\<lambda>t. t\<lparr>last_run_tick := now\<rparr>) s;
            let s = incr task_dispatches_update s;
            scheduler_task_trampoline run_entry i s
          }
      })"

definition scheduler_run_pending :: "(u32 \<Rightarrow> sched \<Rightarrow> sched option) \<Rightarrow> sched \<Rightarrow> sched option" where
  "scheduler_run_pending run_entry s = do {
     s \<leftarrow> scheduler_run_pending_unlocked run_entry (scheduler_lock s);
     scheduler_unlock s
   }"

definition upd_preempt :: "(preempt_test_info \<Rightarrow> preempt_test_info) \<Rightarrow> sched \<Rightarrow> sched" where
  "upd_preempt f s = s\<lparr>preempt := f (preempt s)\<rparr>"

definition scheduler_on_timer_tick :: "(u32 \<Rightarrow> sched \<Rightarrow> sched option) \<Rightarrow> u32 \<Rightarrow> sched \<Rightarrow> sched option" where
  "scheduler_on_timer_tick run_entry current_tick s =
     (if \<not> initialized (stats s) then Some s
      else do {
        let s = upd_preempt (\<lambda>p. p\<lparr>timer_ticks_seen := timer_ticks_seen p + 1\<rparr>) s;
        let s = scheduler_lock s;
        let s = scheduler_wake_sleeping_tasks current_tick s;
        if \<not> preempt_enabled (preempt s) then scheduler_unlock s
        else if in_timer_dispatch (preempt s)
        then scheduler_unlock (upd_preempt (\<lambda>p. p\<lparr>skipped_reentrant_dispatches := skipped_reentrant_dispatches p + 1\<rparr>) s)
        else if current_tick - last_dispatch_tick (preempt s) < tick_interval (preempt s) then scheduler_unlock s
        else do {
          let s = upd_preempt (\<lambda>p. p\<lparr>in_timer_dispatch := True, last_dispatch_tick := current_tick,
                     timer_dispatches := timer_dispatches p + 1\<rparr>) s;
          s \<leftarrow> scheduler_run_pending_unlocked run_entry s;
          scheduler_unlock (upd_preempt (\<lambda>p. p\<lparr>in_timer_dispatch := False\<rparr>) s)
        }
      })"

definition scheduler_enable_preempt_test :: "u32 \<Rightarrow> sched \<Rightarrow> sched option" where
  "scheduler_enable_preempt_test interval s =
     (let interval = (if interval = 0 then 10 else interval);
          s = scheduler_lock s
      in scheduler_unlock (upd_preempt (\<lambda>p. p\<lparr>preempt_enabled := True, tick_interval := interval, last_dispatch_tick := ticks s\<rparr>) s))"

definition scheduler_disable_preempt_test :: "sched \<Rightarrow> sched option" where
  "scheduler_disable_preempt_test s =
     scheduler_unlock (upd_preempt (\<lambda>p. p\<lparr>preempt_enabled := False, in_timer_dispatch := False\<rparr>) (scheduler_lock s))"

definition scheduler_reset_preempt_test :: "sched \<Rightarrow> sched option" where
  "scheduler_reset_preempt_test s =
     (let s = scheduler_lock s;
          was_enabled = preempt_enabled (preempt s);
          interval = tick_interval (preempt s);
          s = upd_preempt (\<lambda>_. scheduler_clear_preempt_test_info) s
      in scheduler_unlock
           (if was_enabled
            then upd_preempt (\<lambda>p. p\<lparr>preempt_enabled := True, tick_interval := (if interval = 0 then 10 else interval),
                   last_dispatch_tick := ticks s\<rparr>) s
            else s))"

section \<open>Audit and repair\<close>

definition scheduler_pointer_points_to_task_table :: "nat option \<Rightarrow> bool" where
  "scheduler_pointer_points_to_task_table p =
     (case p of None \<Rightarrow> True | Some i \<Rightarrow> i \<in> set [0..<SCHEDULER_MAX_TASKS])"

definition scheduler_audit_record_issue ::
  "((u32 \<Rightarrow> u32) \<Rightarrow> scheduler_audit_info \<Rightarrow> scheduler_audit_info) \<Rightarrow> sched \<Rightarrow> sched" where
  "scheduler_audit_record_issue counter_update s =
     s\<lparr>audit_info := counter_update (\<lambda>n. n + 1) ((audit_info s)\<lparr>issues_found := issues_found (audit_info s) + 1\<rparr>)\<rparr>"

definition audit_queue_entry :: "nat \<Rightarrow> sched \<Rightarrow> sched" where
  "audit_queue_entry i s =
     (let slot = unat (queue_slots s ! i)
      in if slot \<ge> SCHEDULER_MAX_TASKS then scheduler_audit_record_issue ready_queue_invalid_slot_update s
         else if \<not> used (tasks s ! slot) \<or> queue_task_ids (queue s) ! i \<noteq> task_id (tasks s ! slot)
         then scheduler_audit_record_issue ready_queue_task_id_mismatch_update s
         else s)"

definition scheduler_audit_ready_queue :: "sched \<Rightarrow> sched" where
  "scheduler_audit_ready_queue s =
     (let s = (if queue_count (queue s) > of_nat SCHEDULER_MAX_TASKS
               then scheduler_audit_record_issue ready_queue_over_capacity_update s else s)
      in fold audit_queue_entry [0..<unat (queue_count (queue s))] s)"

definition audit_slot :: "nat \<Rightarrow> sched \<Rightarrow> sched" where
  "audit_slot i s =
     (let t = tasks s ! i
      in if \<not> used t
         then if kernel_stack_base t \<noteq> 0 \<or> kernel_stack_top t \<noteq> 0
              then scheduler_audit_record_issue unused_task_with_stack_update s else s
         else if \<not> scheduler_task_state_is_valid (state t) then scheduler_audit_record_issue invalid_used_state_update s
         else
           let s = (if state t = SCHEDULER_TASK_ACTIVE \<or> state t = SCHEDULER_TASK_RUNNING \<or> state t = SCHEDULER_TASK_SLEEPING
                    then let s = (if kernel_stack_base t = 0 \<or> kernel_stack_top t = 0
                                  then scheduler_audit_record_issue active_task_without_stack_update s else s)
                         in if task_entry t = 0 then scheduler_audit_record_issue active_task_without_entry_update s else s
                    else s);
               s = (if state t = SCHEDULER_TASK_SLEEPING \<and> wake_tick t = 0
                    then scheduler_audit_record_issue sleeping_task_without_wake_tick_update s else s)
           in if (state t = SCHEDULER_TASK_DISABLED \<or> state t = SCHEDULER_TASK_COMPLETED) \<and>
                 (kernel_stack_base t \<noteq> 0 \<or> kernel_stack_top t \<noteq> 0)
              then scheduler_audit_record_issue inactive_task_with_stack_update s else s)"

definition scheduler_audit_unlocked :: "sched \<Rightarrow> u32 \<times> sched" where
  "scheduler_audit_unlocked s =
     (let s = s\<lparr>audit_info := scheduler_clear_audit_info\<lparr>audits_run := 1\<rparr>\<rparr>;
          s = fold audit_slot [0..<SCHEDULER_MAX_TASKS] s;
          s = scheduler_audit_ready_queue s;
          s = (if \<not> scheduler_pointer_points_to_task_table (current_running_task s)
               then scheduler_audit_record_issue current_task_invalid_update s else s);
          s = (if \<not> scheduler_pointer_points_to_task_table (current_switched_task s)
               then scheduler_audit_record_issue switched_task_invalid_update s else s)
      in (issues_found (audit_info s), s))"

definition scheduler_audit :: "sched \<Rightarrow> (u32 \<times> sched) option" where
  "scheduler_audit = with_lock (\<lambda>s. Some (scheduler_audit_unlocked s))"

definition repair_slot :: "nat \<Rightarrow> u32 \<times> sched \<Rightarrow> (u32 \<times> sched) option" where
  "repair_slot i = (\<lambda>(repaired, s).
     let t = tasks s ! i
     in if \<not> used t
        then do {
          (repaired, s) \<leftarrow> (if kernel_stack_base t \<noteq> 0
                            then do { s \<leftarrow> scheduler_free_kernel_stack i s; Some (repaired + 1, s) }
                            else Some (repaired, s));
          Some (repaired, upd_task i (\<lambda>t. t\<lparr>kernel_stack_top := 0, kernel_stack_size := 0\<rparr>) s)
        }
        else if \<not> scheduler_task_state_is_valid (state t) \<or>
                (state t = SCHEDULER_TASK_ACTIVE \<or> state t = SCHEDULER_TASK_RUNNING \<or> state t = SCHEDULER_TASK_SLEEPING) \<and>
                (task_entry t = 0 \<or> kernel_stack_base t = 0 \<or> kernel_stack_top t = 0)
        then do {
          s \<leftarrow> scheduler_free_kernel_stack i (scheduler_assign_task_state i SCHEDULER_TASK_DISABLED s);
          Some (repaired + 1, s)
        }
        else
          let (repaired, s) = (if state t = SCHEDULER_TASK_SLEEPING \<and> wake_tick t = 0
                               then (repaired + 1, scheduler_assign_task_state i SCHEDULER_TASK_ACTIVE s) else (repaired, s))
          in if (state (tasks s ! i) = SCHEDULER_TASK_DISABLED \<or> state (tasks s ! i) = SCHEDULER_TASK_COMPLETED) \<and>
                kernel_stack_base (tasks s ! i) \<noteq> 0
             then do { s \<leftarrow> scheduler_free_kernel_stack i s; Some (repaired + 1, s) }
             else Some (repaired, s))"

definition scheduler_repair_unlocked :: "sched \<Rightarrow> (u32 \<times> sched) option" where
  "scheduler_repair_unlocked s = do {
     let s = s\<lparr>audit_info := (audit_info s)\<lparr>repairs_run := repairs_run (audit_info s) + 1\<rparr>\<rparr>;
     (repaired, s) \<leftarrow> foldM repair_slot [0..<SCHEDULER_MAX_TASKS] (0, s);
     let (repaired, s) = (if \<not> scheduler_pointer_points_to_task_table (current_running_task s)
                          then (repaired + 1, s\<lparr>current_running_task := None\<rparr>) else (repaired, s));
     let (repaired, s) = (if \<not> scheduler_pointer_points_to_task_table (current_switched_task s)
                          then (repaired + 1, s\<lparr>current_switched_task := None\<rparr>) else (repaired, s));
     let s = scheduler_reset_ready_queue_snapshot s;
     let s = scheduler_recalculate_task_counts s;
     let s = s\<lparr>audit_info := (audit_info s)\<lparr>issues_repaired := issues_repaired (audit_info s) + repaired\<rparr>\<rparr>;
     let (issues, s) = scheduler_audit_unlocked s;
     Some (repaired, s)
   }"

definition scheduler_repair :: "sched \<Rightarrow> (u32 \<times> sched) option" where
  "scheduler_repair = with_lock scheduler_repair_unlocked"

section \<open>Tests and the sample workload\<close>

definition scheduler_ensure_switch_test_stack :: "sched \<Rightarrow> (bool \<times> sched) option" where
  "scheduler_ensure_switch_test_stack s =
     (if test_stack_base (switch_info s) \<noteq> 0
      then Some (True, s\<lparr>switch_info := (switch_info s)\<lparr>stack_allocated := True\<rparr>\<rparr>)
      else do {
        (stack, h) \<leftarrow> kmalloc SCHEDULER_KERNEL_STACK_SIZE (heap s);
        let s = s\<lparr>heap := h\<rparr>;
        if stack = 0 then Some (False, incr switch_test_failures_update s)
        else Some (True, s\<lparr>switch_info := (switch_info s)\<lparr>test_stack_base := stack,
               test_stack_top := (stack + SCHEDULER_KERNEL_STACK_SIZE) AND 0xFFFFFFF0, stack_allocated := True\<rparr>\<rparr>)
      })"

definition scheduler_run_context_self_test :: "sched \<Rightarrow> bool \<times> sched" where
  "scheduler_run_context_self_test s =
     (if \<not> initialized (stats s) then (False, s) else (True, incr context_self_tests_update s))"

text \<open>
  \<^verbatim>\<open>scheduler_switch_test_entry\<close>, at address \<open>test_eip\<close>, marks itself entered and switches back at once.
\<close>

definition scheduler_switch_test_entry :: "u32 \<Rightarrow> sched \<Rightarrow> sched" where
  "scheduler_switch_test_entry resume_eip s =
     (let s = s\<lparr>switch_info := (switch_info s)\<lparr>entered := True, test_run_count := test_run_count (switch_info s) + 1\<rparr>\<rparr>;
          (saved, s) = context_switch resume_eip (switch_test_return_context s) s
      in s\<lparr>switch_test_context := saved\<rparr>)"

definition scheduler_run_switch_test :: "u32 \<Rightarrow> u32 \<Rightarrow> sched \<Rightarrow> (bool \<times> sched) option" where
  "scheduler_run_switch_test test_eip resume_eip s =
     (if \<not> initialized (stats s) then Some (False, s)
      else do {
        (ok, s) \<leftarrow> scheduler_ensure_switch_test_stack s;
        if \<not> ok then Some (False, s)
        else do {
          let s = s\<lparr>switch_test_return_context := scheduler_clear_context\<rparr>;
          let s = s\<lparr>switch_info := (switch_info s)\<lparr>started := True, entered := False, completed := False,
                      returned_unexpectedly := False, test_entry_address := test_eip\<rparr>\<rparr>;
          let s = s\<lparr>switch_test_context := \<lparr>eip = test_eip, esp = test_stack_top (switch_info s), ebp = test_stack_top (switch_info s),
                      eflags = 0x202, eax = 0x11111111, ebx = 0x22222222, ecx = 0x33333333, edx = 0x44444444,
                      esi = 0x55555555, edi = 0x66666666\<rparr>\<rparr>;
          let s = incr switch_tests_update s;
          let (saved, s) = context_switch resume_eip (switch_test_context s) s;
          let s = s\<lparr>switch_test_return_context := saved\<rparr>;
          let s = scheduler_switch_test_entry resume_eip s;
          let s = s\<lparr>switch_info := (switch_info s)\<lparr>return_eip := eip (switch_test_return_context s),
                      test_saved_eip := eip (switch_test_context s)\<rparr>\<rparr>;
          if \<not> entered (switch_info s) then Some (False, incr switch_test_failures_update s)
          else Some (True, s\<lparr>switch_info := (switch_info s)\<lparr>completed := True\<rparr>\<rparr>)
        }
      })"

definition scheduler_reset_switch_test :: "sched \<Rightarrow> sched option" where
  "scheduler_reset_switch_test s = do {
     h \<leftarrow> (if test_stack_base (switch_info s) \<noteq> 0 then kfree (test_stack_base (switch_info s)) (heap s) else Some (heap s));
     Some (s\<lparr>heap := h, switch_test_return_context := scheduler_clear_context,
            switch_test_context := scheduler_clear_context, switch_info := scheduler_clear_switch_test_info\<rparr>)
   }"

definition scheduler_get_task :: "u32 \<Rightarrow> sched \<Rightarrow> nat option" where
  "scheduler_get_task tid s = scheduler_find_task_by_id_mutable tid s"

definition scheduler_test_workload_task :: "sched \<Rightarrow> sched" where
  "scheduler_test_workload_task s = s\<lparr>test_workload_counter := test_workload_counter s + 1\<rparr>"

definition scheduler_create_test_workload :: "u32 \<Rightarrow> sched \<Rightarrow> sched option" where
  "scheduler_create_test_workload workload_entry s =
     (let existing = scheduler_find_task_by_id_mutable (test_workload_task_id s) s
      in if test_workload_task_id s \<noteq> 0 \<and>
            (case existing of None \<Rightarrow> False | Some i \<Rightarrow> state (tasks s ! i) = SCHEDULER_TASK_ACTIVE)
         then Some s
         else do {
           (tid, s) \<leftarrow> scheduler_create_kernel_task (''sched-workload'' @ [NUL]) 100 workload_entry s;
           Some (if tid > 0 then s\<lparr>test_workload_task_id := word_of_int tid\<rparr> else s)
         })"

definition scheduler_disable_test_workload :: "sched \<Rightarrow> sched option" where
  "scheduler_disable_test_workload s =
     (if test_workload_task_id s = 0 then Some s
      else do {
        (r, s) \<leftarrow> scheduler_disable_task (test_workload_task_id s) s;
        Some (s\<lparr>test_workload_task_id := 0\<rparr>)
      })"

definition scheduler_reset_test_workload_counter :: "sched \<Rightarrow> sched" where
  "scheduler_reset_test_workload_counter s = s\<lparr>test_workload_counter := 0\<rparr>"

definition scheduler_is_test_workload_active :: "sched \<Rightarrow> bool" where
  "scheduler_is_test_workload_active s =
     (if test_workload_task_id s = 0 then False
      else case scheduler_find_task_by_id_mutable (test_workload_task_id s) s of
        None \<Rightarrow> False | Some i \<Rightarrow> state (tasks s ! i) = SCHEDULER_TASK_ACTIVE)"

definition timer_irq_handler :: "(u32 \<Rightarrow> sched \<Rightarrow> sched option) \<Rightarrow> sched \<Rightarrow> sched option" where
  "timer_irq_handler run_entry s =
     (let s = s\<lparr>ticks := ticks s + 1\<rparr> in scheduler_on_timer_tick run_entry (ticks s) s)"

end
