(* ===== verification/Scheduler_Proofs.thy ===== *)
theory Scheduler_Proofs
  imports Scheduler
begin

text \<open>
  The lemmas on \<^verbatim>\<open>core/scheduler.c\<close>: frames of the helpers, the ready queue and the round-robin
  selection, the ownership of kernel stacks over the heap contract, and the invariant \<open>sched_inv\<close> that
  every operation keeps, collected in the step relation \<open>sched_step\<close>.
\<close>

section \<open>Frames\<close>

lemma upd_stats_sel [simp]:
  "tasks (upd_stats f s) = tasks s" "stats (upd_stats f s) = f (stats s)" "heap (upd_stats f s) = heap s"
  "queue (upd_stats f s) = queue s" "queue_slots (upd_stats f s) = queue_slots s" "ticks (upd_stats f s) = ticks s"
  "current_running_task (upd_stats f s) = current_running_task s" "current_switched_task (upd_stats f s) = current_switched_task s"
  "switch_info (upd_stats f s) = switch_info s" "running_on_task_stack (upd_stats f s) = running_on_task_stack s"
  "lock (upd_stats f s) = lock s" "flags (upd_stats f s) = flags s" "preempt (upd_stats f s) = preempt s"
  "audit_info (upd_stats f s) = audit_info s" "cpu (upd_stats f s) = cpu s"
  by (simp_all add: upd_stats_def)

lemma upd_task_sel [simp]:
  "tasks (upd_task i g s) = (tasks s)[i := g (tasks s ! i)]" "stats (upd_task i g s) = stats s" "heap (upd_task i g s) = heap s"
  "queue (upd_task i g s) = queue s" "queue_slots (upd_task i g s) = queue_slots s" "ticks (upd_task i g s) = ticks s"
  "current_running_task (upd_task i g s) = current_running_task s" "current_switched_task (upd_task i g s) = current_switched_task s"
  "switch_info (upd_task i g s) = switch_info s" "running_on_task_stack (upd_task i g s) = running_on_task_stack s"
  "lock (upd_task i g s) = lock s" "flags (upd_task i g s) = flags s" "preempt (upd_task i g s) = preempt s"
  "audit_info (upd_task i g s) = audit_info s" "cpu (upd_task i g s) = cpu s"
  by (simp_all add: upd_task_def)

lemma assign_sel [simp]:
  "tasks (scheduler_assign_task_state i st s) = (tasks s)[i := (tasks s ! i)\<lparr>state := st\<rparr>]"
  "stats (scheduler_assign_task_state i st s) = stats s" "heap (scheduler_assign_task_state i st s) = heap s"
  "queue (scheduler_assign_task_state i st s) = queue s" "queue_slots (scheduler_assign_task_state i st s) = queue_slots s"
  "ticks (scheduler_assign_task_state i st s) = ticks s"
  "current_running_task (scheduler_assign_task_state i st s) = current_running_task s"
  "current_switched_task (scheduler_assign_task_state i st s) = current_switched_task s"
  "switch_info (scheduler_assign_task_state i st s) = switch_info s"
  "running_on_task_stack (scheduler_assign_task_state i st s) = running_on_task_stack s"
  "lock (scheduler_assign_task_state i st s) = lock s" "flags (scheduler_assign_task_state i st s) = flags s"
  "preempt (scheduler_assign_task_state i st s) = preempt s" "audit_info (scheduler_assign_task_state i st s) = audit_info s"
  by (simp_all add: scheduler_assign_task_state_def)

text \<open>The counters of the statistics are the numbers of tasks in each state.\<close>

definition in_state :: "sched \<Rightarrow> u32 \<Rightarrow> nat" where
  "in_state s st = card {i. i < 16 \<and> used (tasks s ! i) \<and> state (tasks s ! i) = st}"

definition counts_ok :: "sched \<Rightarrow> bool" where
  "counts_ok s \<longleftrightarrow> active_tasks (stats s) = of_nat (in_state s 1) \<and> running_tasks (stats s) = of_nat (in_state s 2) \<and>
     completed_tasks (stats s) = of_nat (in_state s 4) \<and> disabled_tasks (stats s) = of_nat (in_state s 3) \<and>
     sleeping_tasks (stats s) = of_nat (in_state s 5)"

definition counted :: "sched \<Rightarrow> u32 \<Rightarrow> nat \<Rightarrow> u32" where
  "counted s st n = of_nat (card {i. i < n \<and> used (tasks s ! i) \<and> state (tasks s ! i) = st})"

lemma counted_Suc: "counted s st (Suc n) = counted s st n + (if used (tasks s ! n) \<and> state (tasks s ! n) = st then 1 else 0)"
proof -
  let ?P = "\<lambda>i. used (tasks s ! i) \<and> state (tasks s ! i) = st"
  have "{i. i < Suc n \<and> ?P i} = (if ?P n then insert n {i. i < n \<and> ?P i} else {i. i < n \<and> ?P i})"
    by (auto simp: less_Suc_eq)
  then show ?thesis by (simp add: counted_def)
qed

lemma recalculate_counts:
  "scheduler_recalculate_task_counts s = upd_stats (\<lambda>st. st\<lparr>active_tasks := of_nat (in_state s 1), running_tasks := of_nat (in_state s 2),
     completed_tasks := of_nat (in_state s 4), disabled_tasks := of_nat (in_state s 3), sleeping_tasks := of_nat (in_state s 5)\<rparr>) s"
proof -
  let ?f = "\<lambda>i (active, running, completed, disabled, sleeping).
            let t = tasks s ! i
            in if \<not> used t then (active, running, completed, disabled, sleeping)
               else if state t = 1 then (active + 1, running, completed, disabled, sleeping)
               else if state t = 2 then (active, running + 1, completed, disabled, sleeping)
               else if state t = 4 then (active, running, completed + 1, disabled, sleeping)
               else if state t = 3 then (active, running, completed, disabled + 1, sleeping)
               else if state t = 5 then (active, running, completed, disabled, sleeping + 1)
               else (active, running, completed, disabled, sleeping)"
  have "fold ?f [0..<n] (0, 0, 0, 0, 0) = (counted s 1 n, counted s 2 n, counted s 4 n, counted s 3 n, counted s 5 n)" for n
  proof (induction n)
    case 0
    then show ?case by (simp add: counted_def)
  next
    case (Suc n)
    then show ?case by (simp add: counted_Suc Let_def)
  qed
  then show ?thesis by (simp add: scheduler_recalculate_task_counts_def in_state_def counted_def)
qed

lemma recalculate_sel [simp]:
  "tasks (scheduler_recalculate_task_counts s) = tasks s" "heap (scheduler_recalculate_task_counts s) = heap s"
  "queue (scheduler_recalculate_task_counts s) = queue s" "queue_slots (scheduler_recalculate_task_counts s) = queue_slots s"
  "ticks (scheduler_recalculate_task_counts s) = ticks s"
  "current_running_task (scheduler_recalculate_task_counts s) = current_running_task s"
  "current_switched_task (scheduler_recalculate_task_counts s) = current_switched_task s"
  "switch_info (scheduler_recalculate_task_counts s) = switch_info s"
  "running_on_task_stack (scheduler_recalculate_task_counts s) = running_on_task_stack s"
  "lock (scheduler_recalculate_task_counts s) = lock s" "flags (scheduler_recalculate_task_counts s) = flags s"
  "audit_info (scheduler_recalculate_task_counts s) = audit_info s"
  "preempt (scheduler_recalculate_task_counts s) = preempt s"
  "current_task_index (stats (scheduler_recalculate_task_counts s)) = current_task_index (stats s)"
  "initialized (stats (scheduler_recalculate_task_counts s)) = initialized (stats s)"
  "next_task_id (stats (scheduler_recalculate_task_counts s)) = next_task_id (stats s)"
  by (simp_all add: recalculate_counts)

lemma recalculate_counts_ok [simp]: "counts_ok (scheduler_recalculate_task_counts s)"
  by (simp add: recalculate_counts counts_ok_def in_state_def)

lemma counts_ok_upd_stats:
  assumes "(active_tasks (f (stats s)), running_tasks (f (stats s)), completed_tasks (f (stats s)), disabled_tasks (f (stats s)),
      sleeping_tasks (f (stats s))) = (active_tasks (stats s), running_tasks (stats s), completed_tasks (stats s),
      disabled_tasks (stats s), sleeping_tasks (stats s))"
  shows "counts_ok (upd_stats f s) = counts_ok s"
  using assms by (simp add: counts_ok_def in_state_def)

lemma counts_ok_queue [simp]: "counts_ok (s\<lparr>queue := q\<rparr>) = counts_ok s" "counts_ok (s\<lparr>queue_slots := qs\<rparr>) = counts_ok s"
  by (simp_all add: counts_ok_def in_state_def)

lemma counts_ok_frame:
  assumes "counts_ok s" "tasks t = tasks s" "active_tasks (stats t) = active_tasks (stats s)"
    "running_tasks (stats t) = running_tasks (stats s)" "completed_tasks (stats t) = completed_tasks (stats s)"
    "disabled_tasks (stats t) = disabled_tasks (stats s)" "sleeping_tasks (stats t) = sleeping_tasks (stats s)"
  shows "counts_ok t"
  using assms by (simp add: counts_ok_def in_state_def)

section \<open>Round robin\<close>

definition ready_at :: "sched \<Rightarrow> u32 \<Rightarrow> nat \<Rightarrow> bool" where
  "ready_at s tick i \<longleftrightarrow> scheduler_task_is_ready_to_run (tasks s ! i) tick"

definition rotation :: "nat \<Rightarrow> nat \<Rightarrow> nat list" where
  "rotation start n = map (\<lambda>k. (start + k) mod 16) [0..<n]"

lemma rotation_Suc: "rotation start (Suc n) = rotation start n @ [(start + n) mod 16]"
  by (simp add: rotation_def)

lemma enqueue_frame [simp]:
  "tasks (enqueue_slot tick start k s) = tasks s" "heap (enqueue_slot tick start k s) = heap s"
  "current_running_task (enqueue_slot tick start k s) = current_running_task s"
  "current_switched_task (enqueue_slot tick start k s) = current_switched_task s"
  "switch_info (enqueue_slot tick start k s) = switch_info s"
  "running_on_task_stack (enqueue_slot tick start k s) = running_on_task_stack s"
  "lock (enqueue_slot tick start k s) = lock s" "flags (enqueue_slot tick start k s) = flags s" "ticks (enqueue_slot tick start k s) = ticks s"
  "preempt (enqueue_slot tick start k s) = preempt s"
  by (simp_all add: enqueue_slot_def Let_def)

text \<open>After the first \<open>n\<close> turns the queue holds the ready slots among the first \<open>n\<close> of the rotation.\<close>

definition queued :: "sched \<Rightarrow> nat list \<Rightarrow> bool" where
  "queued s L \<longleftrightarrow> length (queue_slots s) = 16 \<and> length (queue_task_ids (queue s)) = 16 \<and>
     queue_count (queue s) = of_nat (length L) \<and> take (length L) (queue_slots s) = map of_nat L \<and>
     take (length L) (queue_task_ids (queue s)) = map (\<lambda>i. task_id (tasks s ! i)) L"

lemma queued_add:
  assumes "queued s L" "length L < 16"
    and "t = s\<lparr>queue_slots := (queue_slots s)[unat (queue_count (queue s)) := of_nat i],
                queue := (queue s)\<lparr>queue_task_ids := (queue_task_ids (queue s))[unat (queue_count (queue s)) := task_id (tasks s ! i)],
                           queue_count := queue_count (queue s) + 1\<rparr>\<rparr>"
  shows "queued t (L @ [i])"
proof -
  have "unat (of_nat (length L) :: u32) = length L" using assms(2) by (simp add: unat_of_nat take_bit_nat_eq_self)
  then show ?thesis using assms(1,2) by (simp add: assms(3) queued_def take_Suc_conv_app_nth)
qed

lemma enqueue_queued:
  assumes "queued s L" "length L < 16"
  shows "queued (enqueue_slot tick start k s) (if ready_at s tick ((start + k) mod 16) then L @ [(start + k) mod 16] else L)"
proof -
  define i where "i = (start + k) mod 16"
  define u where "u = (if k > 0 \<and> i = 0 then incr round_robin_passes_update (incr tasks_considered_update s) else incr tasks_considered_update s)"
  have u: "queued u L" "tasks u = tasks s" "queue u = queue s" "queue_slots u = queue_slots s"
    using assms(1) by (simp_all add: u_def queued_def)
  have c: "\<not> of_nat 16 \<le> queue_count (queue s)"
    using assms by (simp add: queued_def word_le_nat_alt unat_of_nat take_bit_nat_eq_self)
  show ?thesis
  proof (cases "ready_at s tick i")
    case False
    then have "enqueue_slot tick start k s = u" by (simp add: enqueue_slot_def Let_def i_def u_def ready_at_def)
    then show ?thesis using u(1) False by (simp add: i_def)
  next
    case True
    then have "enqueue_slot tick start k s = u\<lparr>queue_slots := (queue_slots u)[unat (queue_count (queue u)) := of_nat i],
                queue := (queue u)\<lparr>queue_task_ids := (queue_task_ids (queue u))[unat (queue_count (queue u)) := task_id (tasks u ! i)],
                           queue_count := queue_count (queue u) + 1\<rparr>\<rparr>"
      using c by (simp add: enqueue_slot_def Let_def i_def u_def ready_at_def)
    from queued_add [OF u(1) assms(2) this] show ?thesis using True by (simp add: i_def)
  qed
qed

lemma rebuild_queued:
  assumes s': "s' = scheduler_rebuild_ready_queue tick s"
  shows "queued s' (filter (ready_at s tick) (rotation (unat (current_task_index (stats s)) mod 16) 16))"
    and "tasks s' = tasks s" "heap s' = heap s" "current_running_task s' = current_running_task s"
    "current_switched_task s' = current_switched_task s" "switch_info s' = switch_info s"
    "running_on_task_stack s' = running_on_task_stack s" "lock s' = lock s" "flags s' = flags s" "ticks s' = ticks s"
    "preempt s' = preempt s"
proof -
  define st where "st = unat (current_task_index (stats s)) mod 16"
  define u where "u = scheduler_reset_ready_queue_snapshot (s\<lparr>queue := (queue s)\<lparr>rebuilds := rebuilds (queue s) + 1\<rparr>\<rparr>)"
  have u: "queued u []" "tasks u = tasks s" "current_task_index (stats u) = current_task_index (stats s)"
    by (simp_all add: u_def scheduler_reset_ready_queue_snapshot_def queued_def)
  have q: "queued (fold (enqueue_slot tick st) [0..<n] u) (filter (ready_at s tick) (rotation st n)) \<and>
      tasks (fold (enqueue_slot tick st) [0..<n] u) = tasks s" if "n \<le> 16" for n
    using that
  proof (induction n)
    case 0
    then show ?case using u by (simp add: rotation_def)
  next
    case (Suc n)
    define v where "v = fold (enqueue_slot tick st) [0..<n] u"
    have v: "queued v (filter (ready_at s tick) (rotation st n))" "tasks v = tasks s" using Suc by (auto simp: v_def)
    have "length (filter (ready_at s tick) (rotation st n)) < 16"
      using Suc.prems le_less_trans [OF length_filter_le, of "rotation st n" 16] by (simp add: rotation_def)
    moreover have "ready_at v tick = ready_at s tick" using v(2) by (simp add: ready_at_def fun_eq_iff)
    ultimately show ?case using enqueue_queued [OF v(1), of tick st n] v(2)
      by (cases "ready_at s tick ((st + n) mod 16)") (simp_all add: v_def rotation_Suc)
  qed
  have fr: "heap (fold (enqueue_slot tick st) ks w) = heap w \<and> current_running_task (fold (enqueue_slot tick st) ks w) = current_running_task w \<and>
      current_switched_task (fold (enqueue_slot tick st) ks w) = current_switched_task w \<and>
      switch_info (fold (enqueue_slot tick st) ks w) = switch_info w \<and>
      running_on_task_stack (fold (enqueue_slot tick st) ks w) = running_on_task_stack w \<and>
      lock (fold (enqueue_slot tick st) ks w) = lock w \<and> flags (fold (enqueue_slot tick st) ks w) = flags w \<and>
      ticks (fold (enqueue_slot tick st) ks w) = ticks w \<and> preempt (fold (enqueue_slot tick st) ks w) = preempt w" for ks w
    by (induction ks arbitrary: w) simp_all
  have e: "s' = (let v = fold (enqueue_slot tick st) [0..<16] u in v\<lparr>queue := (queue v)\<lparr>queue_tail := queue_count (queue v)\<rparr>\<rparr>)"
    by (simp add: s' scheduler_rebuild_ready_queue_def Let_def u_def [symmetric] u(3) st_def)
  show "queued s' (filter (ready_at s tick) (rotation (unat (current_task_index (stats s)) mod 16) 16))" "tasks s' = tasks s"
    using q [of 16] by (auto simp: e Let_def queued_def st_def [symmetric])
  show "heap s' = heap s" "current_running_task s' = current_running_task s"
    "current_switched_task s' = current_switched_task s" "switch_info s' = switch_info s"
    "running_on_task_stack s' = running_on_task_stack s" "lock s' = lock s" "flags s' = flags s" "ticks s' = ticks s" "preempt s' = preempt s"
    using fr [of "[0..<16]" u] by (simp_all add: e Let_def u_def scheduler_reset_ready_queue_snapshot_def)
qed

text \<open>The frame of the operations that only touch the queue and the statistics.\<close>

definition same_world :: "sched \<Rightarrow> sched \<Rightarrow> bool" where
  "same_world s t \<longleftrightarrow> heap t = heap s \<and> current_running_task t = current_running_task s \<and>
     current_switched_task t = current_switched_task s \<and> switch_info t = switch_info s \<and>
     running_on_task_stack t = running_on_task_stack s \<and> lock t = lock s \<and> flags t = flags s \<and> ticks t = ticks s \<and> preempt t = preempt s"

lemma same_world_upd_stats [simp]: "same_world s (upd_stats f t) = same_world s t"
  by (simp add: same_world_def)

lemma same_world_queue [simp]: "same_world s (t\<lparr>queue := q\<rparr>) = same_world s t"
  by (simp add: same_world_def)

definition first_ready :: "sched \<Rightarrow> u32 \<Rightarrow> nat option" where
  "first_ready s tick = find (ready_at s tick) (rotation (unat (current_task_index (stats s)) mod 16) 16)"

lemma rebuild_stats:
  assumes "s' = scheduler_rebuild_ready_queue tick s"
  shows "initialized (stats s') = initialized (stats s) \<and> current_task_index (stats s') = current_task_index (stats s) \<and>
    next_task_id (stats s') = next_task_id (stats s) \<and> active_tasks (stats s') = active_tasks (stats s) \<and>
    running_tasks (stats s') = running_tasks (stats s) \<and> completed_tasks (stats s') = completed_tasks (stats s) \<and>
    disabled_tasks (stats s') = disabled_tasks (stats s) \<and> sleeping_tasks (stats s') = sleeping_tasks (stats s)"
proof -
  define core where "core = (\<lambda>s :: sched. (initialized (stats s), current_task_index (stats s), next_task_id (stats s), active_tasks (stats s),
    running_tasks (stats s), completed_tasks (stats s), disabled_tasks (stats s), sleeping_tasks (stats s)))"
  have "core (enqueue_slot tick st k w) = core w" for st k w by (simp add: core_def enqueue_slot_def Let_def)
  then have "core (fold (enqueue_slot tick st) ks w) = core w" for st ks w by (induction ks arbitrary: w) simp_all
  then have "core s' = core s"
    by (simp add: assms scheduler_rebuild_ready_queue_def Let_def) (simp add: core_def scheduler_reset_ready_queue_snapshot_def)
  then show ?thesis by (simp add: core_def)
qed

lemma find_filter: "find P xs = (case filter P xs of [] \<Rightarrow> None | x # _ \<Rightarrow> Some x)"
  by (induction xs) auto

text \<open>The place of a slot in the rotation from \<open>c\<close>, and the slot at a place.\<close>

lemma rotation_places:
  fixes c i k :: nat
  assumes "c < 16"
  shows "k < 16 \<Longrightarrow> ((c + k) mod 16 + 16 - c) mod 16 = k" and "i < 16 \<Longrightarrow> (c + (i + 16 - c) mod 16) mod 16 = i"
proof -
  show "((c + k) mod 16 + 16 - c) mod 16 = k" if "k < 16"
    using assms that by (cases "c + k < 16") (simp_all add: mod_if [of "c + k"])
  show "(c + (i + 16 - c) mod 16) mod 16 = i" if "i < 16"
  proof (cases "c \<le> i")
    case True
    then have e: "i + 16 - c = i - c + 16" by simp
    have "(i - c + 16) mod 16 = i - c" using that by simp
    then have "(i + 16 - c) mod 16 = i - c" by (simp only: e)
    then show ?thesis using True that by simp
  next
    case False
    then have "i + 16 - c < 16" by simp
    then show ?thesis using assms that by simp
  qed
qed

lemma rotation_nth: "k < n \<Longrightarrow> rotation c n ! k = (c + k) mod 16" "length (rotation c n) = n"
  by (simp_all add: rotation_def)

lemma in_rotation: "c < 16 \<Longrightarrow> i \<in> set (rotation c 16) \<longleftrightarrow> i < 16"
  using rotation_places(2) [of c i]
  by (auto simp: rotation_def image_iff intro!: bexI [of _ "(i + 16 - c) mod 16"])

lemma select_spec:
  "\<exists>s'. scheduler_select_next_ready_task tick s = Some (first_ready s tick, s') \<and> tasks s' = tasks s \<and> same_world s s' \<and>
     (counts_ok s \<longrightarrow> counts_ok s') \<and> initialized (stats s') = initialized (stats s) \<and> next_task_id (stats s') = next_task_id (stats s) \<and>
     current_task_index (stats s') = (case first_ready s tick of None \<Rightarrow> current_task_index (stats s) | Some i \<Rightarrow> of_nat ((i + 1) mod 16))"
proof -
  define u where "u = scheduler_rebuild_ready_queue tick s"
  define L where "L = filter (ready_at s tick) (rotation (unat (current_task_index (stats s)) mod 16) 16)"
  note rb = rebuild_queued [OF u_def, folded L_def] and rs = rebuild_stats [OF u_def]
  have w: "same_world s u" using rb by (simp add: same_world_def)
  have co: "counts_ok s \<Longrightarrow> counts_ok u" using counts_ok_frame [of s u] rb(2) rs by simp
  have ff: "first_ready s tick = (case L of [] \<Rightarrow> None | i # _ \<Rightarrow> Some i)" by (simp add: first_ready_def find_filter L_def)
  note unf = scheduler_select_next_ready_task_def [of tick s, unfolded Let_def, folded u_def]
  show ?thesis
  proof (cases L)
    case Nil
    then have "queue_count (queue u) = 0" using rb(1) by (simp add: queued_def)
    then have "scheduler_select_next_ready_task tick s = Some (None, upd_stats (\<lambda>st. st\<lparr>last_selected_task_id := SCHEDULER_NO_TASK_SELECTED,
                            no_task_selected := no_task_selected st + 1\<rparr>) u)" by (simp add: unf)
    then show ?thesis using ff Nil w co rs rb(2) by (simp add: counts_ok_upd_stats)
  next
    case (Cons i L')
    have "i \<in> set L" by (simp add: Cons)
    then have i: "i < 16" "ready_at s tick i" using in_rotation [of "unat (current_task_index (stats s)) mod 16" i] by (auto simp: L_def)
    have le: "length L \<le> 16" by (simp add: L_def rotation_def order_trans [OF length_filter_le])
    then have "unat (of_nat (length L) :: u32) = length L" by (simp add: unat_of_nat take_bit_nat_eq_self)
    then have "queue_count (queue u) \<noteq> 0" using rb(1) Cons by (auto simp: queued_def)
    moreover have "queue_slots u ! 0 = of_nat i"
      using rb(1) Cons by (cases "queue_slots u") (auto simp: queued_def)
    then have "unat (queue_slots u ! 0) = i" using i by (simp add: unat_of_nat take_bit_nat_eq_self)
    moreover have "used (tasks u ! i)" using i(2) rb(2) by (simp add: ready_at_def scheduler_task_is_ready_to_run_def split: if_splits)
    ultimately have "scheduler_select_next_ready_task tick s = Some (Some i,
        upd_stats (\<lambda>st. st\<lparr>current_task_index := of_nat ((i + 1) mod 16), last_selected_task_id := task_id (tasks u ! i),
          tasks_selected := tasks_selected st + 1\<rparr>) (u\<lparr>queue := (queue u)\<lparr>selected_slot := of_nat i, queue_head := 1\<rparr>\<rparr>))"
      using i(1) by (simp add: unf kernel_assert_def)
    then show ?thesis using ff Cons w co rs rb(2) by (simp add: counts_ok_upd_stats)
  qed
qed

text \<open>
  The distance of a slot from the rotation index. A selection that passes over a ready slot brings
  the index nearer to it.
\<close>

definition distance :: "sched \<Rightarrow> nat \<Rightarrow> nat" where
  "distance s i = (i + 16 - unat (current_task_index (stats s)) mod 16) mod 16"

lemma find_rotation:
  assumes "find P (rotation c 16) = Some j" "P i" "i < 16" "c < 16"
  shows "j < 16" "P j" "(j + 16 - c) mod 16 \<le> (i + 16 - c) mod 16"
proof -
  obtain k where k: "k < 16" "P (rotation c 16 ! k)" "j = rotation c 16 ! k" "\<forall>m < k. \<not> P (rotation c 16 ! m)"
    using assms(1) by (auto simp: find_Some_iff rotation_nth(2))
  then show "j < 16" "P j" by (simp_all add: rotation_nth)
  have "rotation c 16 ! ((i + 16 - c) mod 16) = i" using assms by (simp add: rotation_nth rotation_places(2))
  then have "k \<le> (i + 16 - c) mod 16" using k(4) assms(2) by (metis not_le)
  moreover have "(j + 16 - c) mod 16 = k" using k(1,3) assms(4) by (simp add: rotation_nth rotation_places(1))
  ultimately show "(j + 16 - c) mod 16 \<le> (i + 16 - c) mod 16" by simp
qed

section \<open>Stack ownership\<close>

text \<open>
  Every kernel stack in the table, and the stack of the switch test, is a heap block of at least
  4096 bytes that is out, and no two of them are the same block. A task that can still run has one.
\<close>

definition owns :: "(u32 \<times> u32) set \<Rightarrow> u32 \<Rightarrow> bool" where
  "owns A b \<longleftrightarrow> (\<exists>n. 4096 \<le> n \<and> (b, n) \<in> A)"

definition stacks_in :: "(u32 \<times> u32) set \<Rightarrow> scheduler_task list \<Rightarrow> u32 \<Rightarrow> bool" where
  "stacks_in A ts b \<longleftrightarrow> length ts = 16 \<and>
     (\<forall>i < 16. if kernel_stack_base (ts ! i) = 0 then kernel_stack_top (ts ! i) = 0
              else owns A (kernel_stack_base (ts ! i)) \<and> kernel_stack_top (ts ! i) = kernel_stack_base (ts ! i) + 4096) \<and>
     (\<forall>i < 16. \<forall>j < 16. i \<noteq> j \<longrightarrow> kernel_stack_base (ts ! i) = kernel_stack_base (ts ! j) \<longrightarrow> kernel_stack_base (ts ! i) = 0) \<and>
     (b \<noteq> 0 \<longrightarrow> owns A b \<and> (\<forall>i < 16. kernel_stack_base (ts ! i) \<noteq> b))"

definition stacks :: "scheduler_task list \<Rightarrow> heap_state \<Rightarrow> u32 \<Rightarrow> bool" where
  "stacks ts h b \<longleftrightarrow> (\<exists>A. heap_rep h A \<and> stacks_in A ts b)"

definition runnable :: "scheduler_task \<Rightarrow> bool" where
  "runnable t \<longleftrightarrow> used t \<and> (state t = SCHEDULER_TASK_ACTIVE \<or> state t = SCHEDULER_TASK_RUNNING \<or> state t = SCHEDULER_TASK_SLEEPING)"

definition task_ok :: "scheduler_task \<Rightarrow> bool" where
  "task_ok t \<longleftrightarrow> (used t \<longrightarrow> scheduler_task_state_is_valid (state t)) \<and>
     (runnable t \<longrightarrow> kernel_stack_base t \<noteq> 0 \<and> task_entry t \<noteq> 0)"

definition tasks_ok :: "sched \<Rightarrow> bool" where
  "tasks_ok s \<longleftrightarrow> stacks (tasks s) (heap s) (test_stack_base (switch_info s)) \<and> (\<forall>i < 16. task_ok (tasks s ! i))"

definition sched_inv :: "sched \<Rightarrow> bool" where
  "sched_inv s \<longleftrightarrow> tasks_ok s \<and> counts_ok s"

lemma stacks_length: "stacks ts h b \<Longrightarrow> length ts = 16"
  by (auto simp: stacks_def stacks_in_def)

lemma stacks_in_update:
  assumes "stacks_in A ts b" "i < 16"
    and "kernel_stack_base t = kernel_stack_base (ts ! i) \<and> kernel_stack_top t = kernel_stack_top (ts ! i) \<or>
      kernel_stack_base t = 0 \<and> kernel_stack_top t = 0"
  shows "stacks_in A (ts[i := t]) b"
proof -
  have l: "length ts = 16" using assms(1) by (simp add: stacks_in_def)
  show ?thesis using assms by (auto simp: stacks_in_def nth_list_update l)
qed

lemma stacks_in_place:
  assumes "stacks_in A ts b" "owns A (kernel_stack_base t)" "kernel_stack_base t \<noteq> b" "kernel_stack_base t \<noteq> 0"
    "kernel_stack_top t = kernel_stack_base t + 4096" "\<And>j. j < 16 \<Longrightarrow> kernel_stack_base t \<noteq> kernel_stack_base (ts ! j)"
  shows "stacks_in A (ts[i := t]) b"
proof -
  have n: "ts[i := t] ! j = (if j = i then t else ts ! j)" if "j < 16" for j
    using assms(1) that by (simp add: stacks_in_def nth_list_update)
  have d: "kernel_stack_base (ts ! j) \<noteq> kernel_stack_base t" if "j < 16" for j using assms(6) [OF that] by simp
  show ?thesis unfolding stacks_in_def
  proof (intro conjI allI impI)
    fix j k :: nat
    assume "j < 16" "k < 16" "j \<noteq> k" "kernel_stack_base (ts[i := t] ! j) = kernel_stack_base (ts[i := t] ! k)"
    then show "kernel_stack_base (ts[i := t] ! j) = 0"
      using d [of j] d [of k] assms(1) unfolding stacks_in_def by (metis n)
  qed (use assms(1-5) in \<open>auto simp: stacks_in_def n\<close>)
qed

lemma stacks_update:
  assumes "stacks ts h b" "i < 16"
    and "kernel_stack_base t = kernel_stack_base (ts ! i) \<and> kernel_stack_top t = kernel_stack_top (ts ! i) \<or>
      kernel_stack_base t = 0 \<and> kernel_stack_top t = 0"
  shows "stacks (ts[i := t]) h b"
  using assms stacks_in_update [of _ ts b i t] by (auto simp: stacks_def)

lemma stacks_in_owns:
  assumes "stacks_in A ts b" "q = b \<or> q \<in> kernel_stack_base ` set ts" "q \<noteq> 0"
  shows "owns A q"
proof (cases "q = b")
  case False
  then have "q \<in> kernel_stack_base ` set ts" "length ts = 16" using assms(1,2) by (simp_all add: stacks_in_def)
  then obtain i where "i < 16" "q = kernel_stack_base (ts ! i)" by (metis imageE in_set_conv_nth)
  then show ?thesis using assms(1,3) unfolding stacks_in_def by metis
qed (use assms in \<open>simp add: stacks_in_def\<close>)

lemma stacks_in_mono:
  assumes "stacks_in A ts b" "\<And>q. owns A q \<Longrightarrow> q = b \<or> q \<in> kernel_stack_base ` set ts \<Longrightarrow> q \<noteq> 0 \<Longrightarrow> owns B q"
  shows "stacks_in B ts b"
proof -
  have o: "owns B q" if "q = b \<or> q \<in> kernel_stack_base ` set ts" "q \<noteq> 0" for q
    using that assms(2) stacks_in_owns [OF assms(1)] by blast
  have "owns B (kernel_stack_base (ts ! i))" if "i < 16" "kernel_stack_base (ts ! i) \<noteq> 0" for i
    using that o assms(1) by (simp add: stacks_in_def)
  then show ?thesis using assms(1) o [of b] by (simp add: stacks_in_def)
qed

lemma owns_release:
  assumes "heap_rep h A" "kfree p h = Some k"
  shows "\<exists>B. heap_rep k B \<and> (\<forall>q. owns A q \<and> q \<noteq> p \<longrightarrow> owns B q)"
proof -
  obtain B where B: "heap_rep k B" "B \<subseteq> A" "fst ` A - {p} \<subseteq> fst ` B"
    using kernel_heap.release_returns [OF assms(1), of p] assms(2) by auto
  have "owns B q" if q: "owns A q" "q \<noteq> p" for q
  proof -
    obtain n where n: "4096 \<le> n" "(q, n) \<in> A" using q(1) by (auto simp: owns_def)
    have "q \<in> fst ` A" using n(2) by force
    then have "q \<in> fst ` B" using B(3) q(2) by blast
    then obtain m where m: "(q, m) \<in> B" by auto
    then have "m = n" using kernel_heap.rep_separate [OF assms(1)] n(2) B(2) by (fastforce simp: separate_def)
    then show ?thesis using m n by (auto simp: owns_def)
  qed
  then show ?thesis using B(1) by blast
qed

definition freed :: "scheduler_task \<Rightarrow> scheduler_task" where
  "freed t = (if kernel_stack_base t = 0 then t else t\<lparr>kernel_stack_base := 0, kernel_stack_size := 0, kernel_stack_top := 0,
     task_context := (task_context t)\<lparr>esp := 0, ebp := 0\<rparr>\<rparr>)"

lemma freed_sel [simp]:
  "used (freed t) = used t" "state (freed t) = state t" "task_entry (freed t) = task_entry t" "kernel_stack_base (freed t) = 0"
  "task_id (freed t) = task_id t" "mode (freed t) = mode t"
  by (simp_all add: freed_def)

lemma free_stack_ok:
  assumes "scheduler_free_kernel_stack i s = Some t" "i < 16" "stacks (tasks s) (heap s) b"
  shows "stacks (tasks t) (heap t) b" "tasks t = (tasks s)[i := freed (tasks s ! i)]"
    "switch_info t = switch_info s" "current_running_task t = current_running_task s" "running_on_task_stack t = running_on_task_stack s"
proof -
  note l = stacks_length [OF assms(3)]
  let ?p = "kernel_stack_base (tasks s ! i)"
  consider (none) "?p = 0" "t = s"
    | (some) h where "?p \<noteq> 0" "kfree ?p (heap s) = Some h" "tasks t = (tasks s)[i := freed (tasks s ! i)]" "heap t = h"
        "switch_info t = switch_info s" "current_running_task t = current_running_task s" "running_on_task_stack t = running_on_task_stack s"
    using assms(1) by (auto simp: scheduler_free_kernel_stack_def kernel_assert_def freed_def Let_def split: if_splits Option.bind_splits)
  then have "stacks (tasks t) (heap t) b \<and> tasks t = (tasks s)[i := freed (tasks s ! i)] \<and>
    switch_info t = switch_info s \<and> current_running_task t = current_running_task s \<and> running_on_task_stack t = running_on_task_stack s"
  proof cases
    case none
    then show ?thesis using assms(3) by (simp add: freed_def)
  next
    case some
    obtain A where A: "heap_rep (heap s) A" "stacks_in A (tasks s) b" using assms(3) by (auto simp: stacks_def)
    obtain B where B: "heap_rep h B" "\<forall>q. owns A q \<and> q \<noteq> ?p \<longrightarrow> owns B q" using owns_release [OF A(1) some(2)] by blast
    have f: "kernel_stack_base (freed (tasks s ! i)) = 0 \<and> kernel_stack_top (freed (tasks s ! i)) = 0"
      using some(1) by (simp add: freed_def)
    have "stacks_in B (tasks t) b"
    proof (rule stacks_in_mono)
      show "stacks_in A (tasks t) b" unfolding some(3) using stacks_in_update [OF A(2) assms(2)] f by blast
      show "owns B q" if "owns A q" "q = b \<or> q \<in> kernel_stack_base ` set (tasks t)" "q \<noteq> 0" for q
      proof -
        have "q \<noteq> ?p"
        proof (cases "q = b")
          case True
          then show ?thesis using A(2) assms(2) that(3) by (auto simp: stacks_in_def)
        next
          case False
          then have "q \<in> kernel_stack_base ` set (tasks t)" using that(2) by simp
          then obtain j where j: "j < 16" "q = kernel_stack_base (tasks t ! j)" using l some(3) by (metis imageE in_set_conv_nth length_list_update)
          then have "j \<noteq> i" using that(3) f l some(3) by auto
          then show ?thesis using j A(2) assms(2) some(1) unfolding stacks_in_def some(3) by (metis nth_list_update_neq)
        qed
        then show ?thesis using B(2) that(1) by blast
      qed
    qed
    then show ?thesis using B(1) some by (auto simp: stacks_def)
  qed
  then show "stacks (tasks t) (heap t) b" "tasks t = (tasks s)[i := freed (tasks s ! i)]"
    "switch_info t = switch_info s" "current_running_task t = current_running_task s" "running_on_task_stack t = running_on_task_stack s"
    by blast+
qed

lemma kmalloc_stack:
  assumes "stacks ts h b" "kmalloc 4096 h = Some (p, k)"
  shows "stacks ts k b" "p \<noteq> 0 \<Longrightarrow> \<exists>A. heap_rep k A \<and> stacks_in A ts b \<and> owns A p \<and> p \<noteq> b \<and> p \<notin> kernel_stack_base ` set ts"
    "p \<noteq> 0 \<Longrightarrow> heap_validate_pointer p k"
proof -
  obtain A where A: "heap_rep h A" "stacks_in A ts b" using assms(1) by (auto simp: stacks_def)
  have "request_fits 4096" by (simp add: request_fits_def)
  then obtain B where B: "heap_rep k B" "granted 4096 A p B" "p \<noteq> 0 \<longrightarrow> heap_validate_pointer p k"
    using kernel_heap.alloc_returns [OF A(1)] assms(2) by fastforce
  have "owns B q" if "owns A q" for q using that B(2) by (auto simp: owns_def granted_def split: if_splits)
  then have s: "stacks_in B ts b" using stacks_in_mono [OF A(2)] by blast
  show "stacks ts k b" using s B(1) by (auto simp: stacks_def)
  show "heap_validate_pointer p k" if "p \<noteq> 0" using that B(3) by simp
  show "\<exists>A. heap_rep k A \<and> stacks_in A ts b \<and> owns A p \<and> p \<noteq> b \<and> p \<notin> kernel_stack_base ` set ts" if "p \<noteq> 0"
  proof (intro exI conjI)
    have n: "p \<notin> fst ` A" "owns B p" using B(2) that by (auto simp: granted_def owns_def)
    have "\<not> owns A p" using n(1) by (force simp: owns_def)
    then show "p \<noteq> b" "p \<notin> kernel_stack_base ` set ts" using stacks_in_owns [OF A(2), of p] that by blast+
    show "owns B p" "heap_rep k B" "stacks_in B ts b" using n(2) s B(1) by simp_all
  qed
qed

lemma allocate_stack_ok:
  assumes "scheduler_allocate_kernel_stack i s = Some (r, t)" "i < 16" "stacks (tasks s) (heap s) b" "kernel_stack_base (tasks s ! i) = 0"
  shows "stacks (tasks t) (heap t) b" "switch_info t = switch_info s"
    "\<not> r \<Longrightarrow> tasks t = tasks s"
    "r \<Longrightarrow> \<exists>u. tasks t = (tasks s)[i := u] \<and> kernel_stack_base u \<noteq> 0 \<and> used u = used (tasks s ! i) \<and> state u = state (tasks s ! i) \<and>
       task_entry u = task_entry (tasks s ! i) \<and> task_id u = task_id (tasks s ! i)"
proof -
  obtain p h where k: "kmalloc 4096 (heap s) = Some (p, h)"
    using assms(1) by (auto simp: scheduler_allocate_kernel_stack_def split: Option.bind_splits)
  note ks = kmalloc_stack [OF assms(3) k]
  note l = stacks_length [OF assms(3)]
  show "stacks (tasks t) (heap t) b"
  proof (cases "p = 0")
    case True
    then show ?thesis using assms(1) k ks(1) by (auto simp: scheduler_allocate_kernel_stack_def)
  next
    case False
    then obtain A where A: "heap_rep h A" "stacks_in A (tasks s) b" "owns A p" "p \<noteq> b" "p \<notin> kernel_stack_base ` set (tasks s)"
      using ks(2) by blast
    have "p \<noteq> kernel_stack_base (tasks s ! j)" if "j < 16" for j using A(5) that l by auto
    then have "stacks_in A ((tasks s)[i := u]) b" if "kernel_stack_base u = p" "kernel_stack_top u = p + 4096" for u
      using A(2-4) that False by (intro stacks_in_place) simp_all
    then show ?thesis using assms(1) k False A(1)
      by (auto simp: scheduler_allocate_kernel_stack_def kernel_assert_def stacks_def Let_def split: if_splits)
  qed
  show "switch_info t = switch_info s" "\<not> r \<Longrightarrow> tasks t = tasks s"
    using assms(1) k by (auto simp: scheduler_allocate_kernel_stack_def kernel_assert_def Let_def split: if_splits)
  show "\<exists>u. tasks t = (tasks s)[i := u] \<and> kernel_stack_base u \<noteq> 0 \<and> used u = used (tasks s ! i) \<and> state u = state (tasks s ! i) \<and>
       task_entry u = task_entry (tasks s ! i) \<and> task_id u = task_id (tasks s ! i)" if r
    using assms(1) k that by (auto simp: scheduler_allocate_kernel_stack_def kernel_assert_def Let_def split: if_splits)
qed

section \<open>The invariant\<close>

lemma tasks_ok_frame: "tasks t = tasks s \<Longrightarrow> heap t = heap s \<Longrightarrow> switch_info t = switch_info s \<Longrightarrow> tasks_ok t = tasks_ok s"
  by (simp add: tasks_ok_def)

lemma tasks_ok_upd_stats [simp]: "tasks_ok (upd_stats f s) = tasks_ok s"
  by (rule tasks_ok_frame) simp_all

lemma sched_inv_recalculate [simp]: "sched_inv (scheduler_recalculate_task_counts s) = tasks_ok s"
  by (simp add: sched_inv_def tasks_ok_def)

lemma sched_inv_frame:
  assumes "tasks t = tasks s" "heap t = heap s" "switch_info t = switch_info s" "stats t = stats s"
  shows "sched_inv t = sched_inv s"
  using assms by (simp add: sched_inv_def tasks_ok_def counts_ok_def in_state_def)

lemma sched_inv_tasks_ok: "sched_inv s \<Longrightarrow> tasks_ok s"
  by (simp add: sched_inv_def)

lemma tasks_ok_length: "tasks_ok s \<Longrightarrow> length (tasks s) = 16"
  using stacks_length by (auto simp: tasks_ok_def)

lemma tasks_ok_task: "tasks_ok s \<Longrightarrow> i < 16 \<Longrightarrow> task_ok (tasks s ! i)"
  by (simp add: tasks_ok_def)

lemma tasks_ok_update:
  assumes "tasks_ok s" "i < 16" "task_ok (g (tasks s ! i))"
    and "kernel_stack_base (g (tasks s ! i)) = kernel_stack_base (tasks s ! i) \<and> kernel_stack_top (g (tasks s ! i)) = kernel_stack_top (tasks s ! i) \<or>
      kernel_stack_base (g (tasks s ! i)) = 0 \<and> kernel_stack_top (g (tasks s ! i)) = 0"
  shows "tasks_ok (upd_task i g s)"
  using assms stacks_update [of "tasks s" "heap s" _ i "g (tasks s ! i)"] tasks_ok_length [OF assms(1)]
  by (auto simp: tasks_ok_def nth_list_update)

lemma tasks_ok_assign:
  "tasks_ok s \<Longrightarrow> i < 16 \<Longrightarrow> task_ok ((tasks s ! i)\<lparr>state := st\<rparr>) \<Longrightarrow> tasks_ok (scheduler_assign_task_state i st s)"
  unfolding scheduler_assign_task_state_def by (rule tasks_ok_update) simp_all

lemma task_ok_stopped [simp]:
  "task_ok (t\<lparr>state := SCHEDULER_TASK_DISABLED\<rparr>)" "task_ok (t\<lparr>state := SCHEDULER_TASK_COMPLETED\<rparr>)" "task_ok scheduler_clear_task"
  "\<not> runnable (t\<lparr>state := SCHEDULER_TASK_DISABLED\<rparr>)" "\<not> runnable (t\<lparr>state := SCHEDULER_TASK_COMPLETED\<rparr>)"
  by (simp_all add: task_ok_def runnable_def scheduler_task_state_is_valid_def scheduler_clear_task_def)

lemma task_ok_runnable:
  "task_ok t \<Longrightarrow> runnable t \<Longrightarrow> task_ok (t\<lparr>state := SCHEDULER_TASK_ACTIVE\<rparr>)"
  "task_ok t \<Longrightarrow> runnable t \<Longrightarrow> task_ok (t\<lparr>state := SCHEDULER_TASK_RUNNING\<rparr>)"
  "task_ok t \<Longrightarrow> runnable t \<Longrightarrow> task_ok (t\<lparr>state := SCHEDULER_TASK_SLEEPING\<rparr>)"
  by (simp_all add: task_ok_def runnable_def scheduler_task_state_is_valid_def)

lemma task_ok_fields [simp]:
  "task_ok (t\<lparr>wake_tick := w\<rparr>) = task_ok t" "task_ok (t\<lparr>wake_tick := w, sleep_count := n\<rparr>) = task_ok t"
  "task_ok (t\<lparr>last_run_tick := w\<rparr>) = task_ok t" "task_ok (t\<lparr>run_count := n\<rparr>) = task_ok t" "task_ok (t\<lparr>task_context := c\<rparr>) = task_ok t"
  "runnable (t\<lparr>wake_tick := w\<rparr>) = runnable t" "runnable (t\<lparr>last_run_tick := w\<rparr>) = runnable t"
  "runnable (t\<lparr>run_count := n\<rparr>) = runnable t" "runnable (t\<lparr>task_context := c\<rparr>) = runnable t"
  by (simp_all add: task_ok_def runnable_def)

lemma tasks_ok_free:
  assumes "scheduler_free_kernel_stack i s = Some t" "i < 16" "tasks_ok s" "\<not> runnable (tasks s ! i)"
  shows "tasks_ok t" "tasks t = (tasks s)[i := freed (tasks s ! i)]"
    "switch_info t = switch_info s" "current_running_task t = current_running_task s" "running_on_task_stack t = running_on_task_stack s"
proof -
  have s: "stacks (tasks s) (heap s) (test_stack_base (switch_info s))" using assms(3) by (simp add: tasks_ok_def)
  note f = free_stack_ok [OF assms(1,2) s]
  show "tasks t = (tasks s)[i := freed (tasks s ! i)]" "switch_info t = switch_info s"
    "current_running_task t = current_running_task s" "running_on_task_stack t = running_on_task_stack s" using f by blast+
  have "task_ok (freed (tasks s ! i))" using tasks_ok_task [OF assms(3,2)] assms(4) by (simp add: task_ok_def runnable_def)
  then have "\<forall>j < 16. task_ok (tasks t ! j)" using assms(2,3) tasks_ok_length [OF assms(3)]
    by (auto simp: f(2) nth_list_update tasks_ok_def)
  then show "tasks_ok t" using f(1,3) by (simp add: tasks_ok_def)
qed

lemma find_task_Some:
  assumes "scheduler_find_task_by_id_mutable tid s = Some i"
  shows "i < 16" "used (tasks s ! i)" "task_id (tasks s ! i) = tid"
  using assms by (auto simp: scheduler_find_task_by_id_mutable_def find_Some_iff)

lemma find_slot_Some:
  assumes "scheduler_find_available_slot s = Some i"
  shows "i < 16" "\<not> runnable (tasks s ! i)"
  using assms by (auto simp: scheduler_find_available_slot_def find_Some_iff runnable_def Let_def)

text \<open>What every operation does to the invariant.\<close>

definition keeps :: "(sched \<Rightarrow> ('a \<times> sched) option) \<Rightarrow> bool" where
  "keeps f \<longleftrightarrow> (\<forall>s r t. sched_inv s \<longrightarrow> f s = Some (r, t) \<longrightarrow> sched_inv t)"

definition keeps1 :: "(sched \<Rightarrow> sched option) \<Rightarrow> bool" where
  "keeps1 f \<longleftrightarrow> (\<forall>s t. sched_inv s \<longrightarrow> f s = Some t \<longrightarrow> sched_inv t)"

lemma keepsI: "(\<And>s r t. sched_inv s \<Longrightarrow> f s = Some (r, t) \<Longrightarrow> sched_inv t) \<Longrightarrow> keeps f"
  by (auto simp: keeps_def)

lemma keepsD: "keeps f \<Longrightarrow> f s = Some (r, t) \<Longrightarrow> sched_inv s \<Longrightarrow> sched_inv t"
  by (auto simp: keeps_def)

lemma sched_inv_upd_lock [simp]: "sched_inv (upd_lock f s) = sched_inv s"
  by (rule sched_inv_frame) (simp_all add: upd_lock_def)

lemma sched_inv_flags [simp]: "sched_inv (s\<lparr>flags := f\<rparr>) = sched_inv s"
  by (rule sched_inv_frame) simp_all

lemma sched_inv_lock [simp]: "sched_inv (scheduler_lock s) = sched_inv s"
  by (simp add: scheduler_lock_def irq_save_def Let_def)

lemma sched_inv_unlock: "scheduler_unlock s = Some t \<Longrightarrow> sched_inv t = sched_inv s"
  by (auto simp: scheduler_unlock_def irq_restore_def Let_def split: if_splits)

lemma keeps_with_lock: "keeps f \<Longrightarrow> keeps (with_lock f)"
  by (rule keepsI) (auto simp: with_lock_def sched_inv_unlock split: Option.bind_splits prod.splits dest: keepsD)

lemma sched_inv_upd_stats:
  assumes "(active_tasks (f (stats s)), running_tasks (f (stats s)), completed_tasks (f (stats s)), disabled_tasks (f (stats s)),
      sleeping_tasks (f (stats s))) = (active_tasks (stats s), running_tasks (stats s), completed_tasks (stats s),
      disabled_tasks (stats s), sleeping_tasks (stats s))"
  shows "sched_inv (upd_stats f s) = sched_inv s"
  using counts_ok_upd_stats [of f s] assms by (simp add: sched_inv_def)

text \<open>A change of a task that leaves its place in the table of states alone.\<close>

lemma sched_inv_upd_task:
  assumes "sched_inv s" "i < 16"
    and "let t = tasks s ! i; u = g t in used u = used t \<and> state u = state t \<and> task_entry u = task_entry t \<and>
       kernel_stack_base u = kernel_stack_base t \<and> kernel_stack_top u = kernel_stack_top t"
  shows "sched_inv (upd_task i g s)"
proof -
  have l: "length (tasks s) = 16" using assms(1) tasks_ok_length sched_inv_tasks_ok by blast
  have "tasks_ok (upd_task i g s)"
    using assms tasks_ok_task [of s i] by (intro tasks_ok_update) (auto simp: sched_inv_def Let_def task_ok_def runnable_def)
  moreover have "in_state (upd_task i g s) st = in_state s st" for st
    unfolding in_state_def using assms(2,3) l by (intro arg_cong [of _ _ card] Collect_cong) (auto simp: nth_list_update Let_def)
  ultimately show ?thesis using assms(1) by (simp add: sched_inv_def counts_ok_def)
qed

subsection \<open>Creating and controlling\<close>

definition new_task :: "char list \<Rightarrow> u32 \<Rightarrow> u32 \<Rightarrow> scheduler_task_mode \<Rightarrow> sched \<Rightarrow> scheduler_task" where
  "new_task copied interval entry md s = scheduler_clear_task\<lparr>used := True, task_id := next_task_id (stats s), state := SCHEDULER_TASK_ACTIVE,
     mode := md, interval_ticks := interval, last_run_tick := ticks s, run_count := 0, task_entry := entry, task_name := copied,
     task_context := scheduler_clear_context\<lparr>eip := entry\<rparr>\<rparr>"

lemma new_task_sel [simp]:
  "used (new_task copied interval entry md s)" "state (new_task copied interval entry md s) = SCHEDULER_TASK_ACTIVE"
  "task_id (new_task copied interval entry md s) = next_task_id (stats s)" "task_entry (new_task copied interval entry md s) = entry"
  "kernel_stack_base (new_task copied interval entry md s) = 0" "kernel_stack_top (new_task copied interval entry md s) = 0"
  by (simp_all add: new_task_def scheduler_clear_task_def)

lemma clear_task_sel [simp]:
  "kernel_stack_base scheduler_clear_task = 0" "kernel_stack_top scheduler_clear_task = 0" "\<not> used scheduler_clear_task"
  "task_name scheduler_clear_task = replicate 32 NUL" "task_context scheduler_clear_task = scheduler_clear_context"
  by (simp_all add: scheduler_clear_task_def)

lemma create_eq:
  assumes "scheduler_find_available_slot s = Some i" "initialized (stats s)" "entry \<noteq> 0" "md = SCHEDULER_TASK_RECURRING \<longrightarrow> interval \<noteq> 0"
    and "(if kernel_stack_base (tasks s ! i) \<noteq> 0 then scheduler_free_kernel_stack i s else Some s) = Some u"
    and "string_copy (replicate 32 NUL) name 32 = Some copied"
  shows "scheduler_create_task_internal_unlocked name interval entry md s =
    Option.bind (scheduler_allocate_kernel_stack i (upd_task i (\<lambda>_. new_task copied interval entry md u) u)) (\<lambda>(a, w).
      if \<not> a then Some (-1, scheduler_recalculate_task_counts (upd_task i (\<lambda>_. scheduler_clear_task) w))
      else let v = scheduler_recalculate_task_counts (incr total_created_tasks_update (incr next_task_id_update w))
           in Some (sint (task_id (tasks v ! i)), v))"
  using assms unfolding scheduler_create_task_internal_unlocked_def
  by (cases md) (simp_all add: new_task_def [symmetric] Let_def cong: if_cong)

lemma create_cases:
  assumes "scheduler_create_task_internal_unlocked name interval entry md s = Some (r, t)"
    "scheduler_find_available_slot s = Some i" "initialized (stats s)" "entry \<noteq> 0" "md = SCHEDULER_TASK_RECURRING \<longrightarrow> interval \<noteq> 0"
  obtains u copied a w where "(if kernel_stack_base (tasks s ! i) \<noteq> 0 then scheduler_free_kernel_stack i s else Some s) = Some u"
    "string_copy (replicate 32 NUL) name 32 = Some copied"
    "scheduler_allocate_kernel_stack i (upd_task i (\<lambda>_. new_task copied interval entry md u) u) = Some (a, w)"
    "t = (if a then scheduler_recalculate_task_counts (incr total_created_tasks_update (incr next_task_id_update w))
          else scheduler_recalculate_task_counts (upd_task i (\<lambda>_. scheduler_clear_task) w))"
    "r = (if a then sint (task_id (tasks w ! i)) else -1)"
proof -
  obtain u where u: "(if kernel_stack_base (tasks s ! i) \<noteq> 0 then scheduler_free_kernel_stack i s else Some s) = Some u"
    using assms by (auto simp: scheduler_create_task_internal_unlocked_def Option.bind_eq_Some_conv)
  obtain copied where c: "string_copy (replicate 32 NUL) name 32 = Some copied"
    using assms by (auto simp: scheduler_create_task_internal_unlocked_def Option.bind_eq_Some_conv)
  note assms(1) [unfolded create_eq [OF assms(2-5) u c]]
  then show ?thesis using that [OF u c] by (auto simp: Option.bind_eq_Some_conv Let_def split: if_splits)
qed

lemma create_keeps: "keeps (scheduler_create_task_internal_unlocked name interval entry md)"
proof (rule keepsI)
  fix s r t
  assume inv: "sched_inv s" and e: "scheduler_create_task_internal_unlocked name interval entry md s = Some (r, t)"
  note ok = sched_inv_tasks_ok [OF inv]
  show "sched_inv t"
  proof (cases "\<not> initialized (stats s) \<or> entry = 0 \<or> md = SCHEDULER_TASK_RECURRING \<and> interval = 0 \<or> scheduler_find_available_slot s = None")
    case True
    then show ?thesis using e inv by (auto simp: scheduler_create_task_internal_unlocked_def split: if_splits)
  next
    case False
    then obtain i where i: "scheduler_find_available_slot s = Some i" by auto
    note i16 = find_slot_Some(1) [OF i]
    have pre: "initialized (stats s)" "entry \<noteq> 0" "md = SCHEDULER_TASK_RECURRING \<longrightarrow> interval \<noteq> 0" using False by auto
    obtain u copied a w where e2: "(if kernel_stack_base (tasks s ! i) \<noteq> 0 then scheduler_free_kernel_stack i s else Some s) = Some u"
      and al2: "scheduler_allocate_kernel_stack i (upd_task i (\<lambda>_. new_task copied interval entry md u) u) = Some (a, w)"
      and t: "t = (if a then scheduler_recalculate_task_counts (incr total_created_tasks_update (incr next_task_id_update w))
          else scheduler_recalculate_task_counts (upd_task i (\<lambda>_. scheduler_clear_task) w))"
      by (rule create_cases [OF e i pre]) blast
    have u: "tasks_ok u" "kernel_stack_base (tasks u ! i) = 0"
      using e2 ok tasks_ok_free(1,2) [OF _ i16 ok find_slot_Some(2) [OF i], of u] i16 tasks_ok_length [OF ok] by (auto split: if_splits)
    define new where "new = new_task copied interval entry md u"
    define v where "v = upd_task i (\<lambda>_. new) u"
    have n: "kernel_stack_base new = 0" "kernel_stack_top new = 0" "used new" "state new = 1" "task_entry new = entry" by (simp_all add: new_def)
    have v: "scheduler_allocate_kernel_stack i v = Some (a, w)" using al2 by (simp add: v_def new_def)
    have u16: "length (tasks u) = 16" using tasks_ok_length [OF u(1)] .
    have sv: "stacks (tasks v) (heap v) (test_stack_base (switch_info v))"
      using u(1) i16 n(1,2) by (auto simp: v_def tasks_ok_def intro!: stacks_update)
    have vi: "tasks v ! i = new" using u16 i16 by (simp add: v_def)
    have others: "task_ok (tasks v ! j)" if "j < 16" "j \<noteq> i" for j using that u(1) by (simp add: v_def tasks_ok_def)
    note al = allocate_stack_ok [OF v i16 sv]
    have vb: "kernel_stack_base (tasks v ! i) = 0" using vi n(1) by simp
    show ?thesis
    proof (cases a)
      case True
      from al(4) [OF vb True] obtain x where x: "tasks w = (tasks v)[i := x]" "kernel_stack_base x \<noteq> 0" "used x" "state x = 1" "task_entry x = entry"
        using vi n by auto
      have "task_ok x" using x False by (simp add: task_ok_def scheduler_task_state_is_valid_def)
      then have "\<forall>j < 16. task_ok (tasks w ! j)" using others u16 i16 by (auto simp: x(1) v_def nth_list_update)
      then have "tasks_ok w" using al(1,2) [OF vb] by (simp add: tasks_ok_def)
      then show ?thesis using t True by simp
    next
      case nok: False
      have w: "tasks w = tasks v" using al(3) [OF vb nok] .
      have "tasks_ok (upd_task i (\<lambda>_. scheduler_clear_task) w)"
        using al(1,2) [OF vb] others u16 i16 stacks_update [of "tasks w" "heap w" _ i scheduler_clear_task]
        by (auto simp: tasks_ok_def w v_def nth_list_update)
      then show ?thesis using t nok by simp
    qed
  qed
qed

lemma disable_keeps: "keeps (scheduler_disable_task_unlocked tid)"
proof (rule keepsI)
  fix s r t
  assume inv: "sched_inv s" and e: "scheduler_disable_task_unlocked tid s = Some (r, t)"
  show "sched_inv t"
  proof (cases "t = s")
    case False
    then obtain i u where i: "scheduler_find_task_by_id_mutable tid s = Some i"
      and u: "scheduler_free_kernel_stack i (scheduler_assign_task_state i SCHEDULER_TASK_DISABLED s) = Some u"
        "t = scheduler_recalculate_task_counts u"
      using e by (auto simp: scheduler_disable_task_unlocked_def split: option.splits if_splits Option.bind_splits)
    note i16 = find_task_Some(1) [OF i]
    have a: "tasks_ok (scheduler_assign_task_state i SCHEDULER_TASK_DISABLED s)"
      using tasks_ok_assign [OF sched_inv_tasks_ok [OF inv] i16] by simp
    have "\<not> runnable (tasks (scheduler_assign_task_state i SCHEDULER_TASK_DISABLED s) ! i)"
      using i16 tasks_ok_length [OF sched_inv_tasks_ok [OF inv]] by simp
    then show ?thesis using tasks_ok_free(1) [OF u(1) i16 a] u(2) by simp
  qed (use inv in simp)
qed

lemma sleep_keeps: "keeps (scheduler_sleep_task_unlocked tid n)"
proof (rule keepsI)
  fix s r t
  assume inv: "sched_inv s" and e: "scheduler_sleep_task_unlocked tid n s = Some (r, t)"
  note ok = sched_inv_tasks_ok [OF inv]
  show "sched_inv t"
  proof (cases "t = s")
    case False
    then obtain i where i: "scheduler_find_task_by_id_mutable tid s = Some i" and a: "state (tasks s ! i) = SCHEDULER_TASK_ACTIVE"
      and t: "t = scheduler_recalculate_task_counts (incr task_sleeps_update
        (upd_task i (\<lambda>t. t\<lparr>wake_tick := ticks s + n, sleep_count := sleep_count t + 1\<rparr>) (scheduler_assign_task_state i SCHEDULER_TASK_SLEEPING s)))"
      using e by (auto simp: scheduler_sleep_task_unlocked_def Let_def split: option.splits if_splits)
    have "task_ok ((tasks s ! i)\<lparr>state := SCHEDULER_TASK_SLEEPING\<rparr>)"
      using task_ok_runnable(3) [OF tasks_ok_task [OF ok find_task_Some(1) [OF i]]] a find_task_Some(2) [OF i] by (simp add: runnable_def)
    then have "tasks_ok (upd_task i (\<lambda>t. t\<lparr>wake_tick := ticks s + n, sleep_count := sleep_count t + 1\<rparr>) (scheduler_assign_task_state i SCHEDULER_TASK_SLEEPING s))"
      using find_task_Some(1) [OF i] tasks_ok_length [OF ok] by (intro tasks_ok_update tasks_ok_assign ok) simp_all
    then show ?thesis using t by simp
  qed (use inv in simp)
qed

lemma activate_ok:
  assumes "tasks_ok s" "i < 16" "runnable (tasks s ! i)"
  shows "tasks_ok (upd_task i (\<lambda>t. t\<lparr>wake_tick := 0\<rparr>) (scheduler_assign_task_state i SCHEDULER_TASK_ACTIVE s))"
  using assms tasks_ok_length [OF assms(1)] task_ok_runnable(1) [OF tasks_ok_task [OF assms(1,2)] assms(3)]
  by (intro tasks_ok_update tasks_ok_assign) simp_all

lemma wake_keeps: "keeps (scheduler_wake_task_unlocked tid)"
proof (rule keepsI)
  fix s r t
  assume inv: "sched_inv s" and e: "scheduler_wake_task_unlocked tid s = Some (r, t)"
  show "sched_inv t"
  proof (cases "t = s")
    case False
    then obtain i where i: "scheduler_find_task_by_id_mutable tid s = Some i" and a: "state (tasks s ! i) = SCHEDULER_TASK_SLEEPING"
      and t: "t = scheduler_recalculate_task_counts (incr task_wakes_update
        (upd_task i (\<lambda>t. t\<lparr>wake_tick := 0\<rparr>) (scheduler_assign_task_state i SCHEDULER_TASK_ACTIVE s)))"
      using e by (auto simp: scheduler_wake_task_unlocked_def Let_def split: option.splits if_splits)
    have "runnable (tasks s ! i)" using a find_task_Some(2) [OF i] by (simp add: runnable_def)
    then show ?thesis using t activate_ok [OF sched_inv_tasks_ok [OF inv] find_task_Some(1) [OF i]] by simp
  qed (use inv in simp)
qed

lemma yield_keeps: "keeps (scheduler_yield_task_unlocked tid)"
proof (rule keepsI)
  fix s r t
  assume inv: "sched_inv s" and e: "scheduler_yield_task_unlocked tid s = Some (r, t)"
  then show "sched_inv t"
    using find_task_Some(1) [of tid s]
    by (auto simp: scheduler_yield_task_unlocked_def Let_def sched_inv_upd_stats split: option.splits if_splits intro!: sched_inv_upd_task)
qed

lemma yield_current_keeps: "keeps scheduler_yield_current_task"
  by (rule keepsI) (auto simp: scheduler_yield_current_task_def sched_inv_upd_stats split: option.splits dest: keepsD [OF yield_keeps])

lemma status_of_keeps: "keeps act \<Longrightarrow> keeps (status_of allowed act tid)"
  by (rule keepsI) (auto simp: status_of_def Let_def sched_inv_unlock split: if_splits option.splits Option.bind_splits prod.splits dest: keepsD)

subsection \<open>Dispatching\<close>

text \<open>
  The code of a task may call the scheduler, as long as it keeps the table well formed and leaves its own
  slot running.
\<close>

definition polite :: "(u32 \<Rightarrow> sched \<Rightarrow> sched option) \<Rightarrow> bool" where
  "polite run_entry \<longleftrightarrow> (\<forall>e s t i. sched_inv s \<longrightarrow> run_entry e s = Some t \<longrightarrow> current_running_task s = Some i \<longrightarrow> i < 16 \<longrightarrow>
     used (tasks s ! i) \<longrightarrow> state (tasks s ! i) = SCHEDULER_TASK_RUNNING \<longrightarrow>
     sched_inv t \<and> used (tasks t ! i) \<and> state (tasks t ! i) = SCHEDULER_TASK_RUNNING)"

lemma trampoline_ok:
  assumes "polite run_entry" "tasks_ok s" "i < 16" "runnable (tasks s ! i)" "scheduler_task_trampoline run_entry i s = Some t"
  shows "sched_inv t"
proof -
  have e: "task_entry (tasks s ! i) \<noteq> 0" using tasks_ok_task [OF assms(2,3)] assms(4) by (simp add: task_ok_def)
  define u where "u = scheduler_recalculate_task_counts (scheduler_assign_task_state i SCHEDULER_TASK_RUNNING
    (incr trampoline_entries_update s)\<lparr>current_running_task := Some i\<rparr>)"
  have "tasks_ok (scheduler_assign_task_state i SCHEDULER_TASK_RUNNING (incr trampoline_entries_update s))"
    using assms(2-4) tasks_ok_task [OF assms(2,3)] by (intro tasks_ok_assign) (simp_all add: task_ok_runnable(2))
  then have "sched_inv u" unfolding u_def sched_inv_recalculate by (subst tasks_ok_frame) simp_all
  moreover have "current_running_task u = Some i" "used (tasks u ! i)" "state (tasks u ! i) = SCHEDULER_TASK_RUNNING"
    using assms(3,4) tasks_ok_length [OF assms(2)] by (simp_all add: u_def runnable_def)
  moreover obtain v where v: "run_entry (task_entry (tasks u ! i)) u = Some v"
    using assms(5) e by (auto simp: scheduler_task_trampoline_def Let_def u_def Option.bind_eq_Some_conv)
  ultimately have p: "sched_inv v" "used (tasks v ! i)" "state (tasks v ! i) = SCHEDULER_TASK_RUNNING"
    using assms(1,3) unfolding polite_def by blast+
  define w where "w = upd_task i (\<lambda>t. t\<lparr>run_count := run_count t + 1\<rparr>) (v\<lparr>current_running_task := None\<rparr>)"
  have l: "length (tasks v) = 16" using tasks_ok_length [OF sched_inv_tasks_ok [OF p(1)]] .
  have "tasks_ok (v\<lparr>current_running_task := None\<rparr>)" using sched_inv_tasks_ok [OF p(1)] by (subst tasks_ok_frame) simp_all
  then have w: "tasks_ok w" "runnable (tasks w ! i)"
    using assms(3) l p(2,3) tasks_ok_task [OF sched_inv_tasks_ok [OF p(1)] assms(3)]
    by (auto simp: w_def runnable_def intro!: tasks_ok_update)
  have "(if mode (tasks w ! i) = SCHEDULER_TASK_ONESHOT
         then do { let x = scheduler_assign_task_state i SCHEDULER_TASK_COMPLETED w;
                   x \<leftarrow> (if \<not> running_on_task_stack x then scheduler_free_kernel_stack i x else Some x);
                   Some (incr task_completions_update x) }
         else Some (scheduler_assign_task_state i SCHEDULER_TASK_ACTIVE w)) \<bind> (\<lambda>x. Some (scheduler_recalculate_task_counts x)) = Some t"
    using assms(5) e v unfolding scheduler_task_trampoline_def Let_def u_def [symmetric] by (simp add: w_def split: if_splits)
  then obtain x where x: "t = scheduler_recalculate_task_counts x"
    and c: "x = scheduler_assign_task_state i SCHEDULER_TASK_ACTIVE w \<or>
      (\<exists>y. x = incr task_completions_update y \<and> (y = scheduler_assign_task_state i SCHEDULER_TASK_COMPLETED w \<or>
        scheduler_free_kernel_stack i (scheduler_assign_task_state i SCHEDULER_TASK_COMPLETED w) = Some y))"
    by (auto simp: Option.bind_eq_Some_conv Let_def split: if_splits)
  have d: "tasks_ok (scheduler_assign_task_state i SCHEDULER_TASK_COMPLETED w)" using w(1) assms(3) by (simp add: tasks_ok_assign)
  have d2: "\<not> runnable (tasks (scheduler_assign_task_state i SCHEDULER_TASK_COMPLETED w) ! i)"
    using tasks_ok_length [OF w(1)] assms(3) by simp
  have "tasks_ok x"
    using c
  proof (elim disjE exE conjE)
    assume "x = scheduler_assign_task_state i SCHEDULER_TASK_ACTIVE w"
    then show ?thesis using w assms(3) tasks_ok_task [OF w(1) assms(3)] by (simp add: tasks_ok_assign task_ok_runnable(1))
  qed (use d tasks_ok_free(1) [OF _ assms(3) d d2] in simp_all)
  then show ?thesis using x by simp
qed

lemma runnable_active: "used t \<Longrightarrow> state t = SCHEDULER_TASK_ACTIVE \<Longrightarrow> runnable t"
  by (simp add: runnable_def)

lemma run_now_keeps: "polite run_entry \<Longrightarrow> keeps (scheduler_run_task_now_unlocked run_entry tid)"
proof (rule keepsI)
  fix s r t
  assume p: "polite run_entry" and inv: "sched_inv s" and e: "scheduler_run_task_now_unlocked run_entry tid s = Some (r, t)"
  note ok = sched_inv_tasks_ok [OF inv]
  show "sched_inv t"
  proof (cases "t = s")
    case False
    define g :: "scheduler_task \<Rightarrow> scheduler_task" where "g = last_run_tick_update (\<lambda>_. ticks s)"
    from False obtain i where i: "scheduler_find_task_by_id_mutable tid s = Some i" and a: "state (tasks s ! i) = SCHEDULER_TASK_ACTIVE"
      and t: "scheduler_task_trampoline run_entry i (upd_task i g (incr task_dispatches_update (incr manual_dispatches_update s))) = Some t"
      using e by (auto simp: scheduler_run_task_now_unlocked_def Let_def g_def Option.bind_eq_Some_conv split: option.splits if_splits)
    show ?thesis
      using tasks_ok_length [OF ok] find_task_Some [OF i] a ok tasks_ok_task [OF ok]
      by (intro trampoline_ok [OF p _ _ _ t] tasks_ok_update) (simp_all add: g_def runnable_active)
  qed (use inv in simp)
qed

lemma wake_sleeping_ok:
  assumes "sched_inv s"
  shows "sched_inv (scheduler_wake_sleeping_tasks tick s)"
proof -
  have w: "tasks_ok (fst (wake_slot tick i (u, c))) \<and> (\<not> snd (wake_slot tick i (u, c)) \<longrightarrow> \<not> c \<and> fst (wake_slot tick i (u, c)) = u)"
    if "tasks_ok u" "i < 16" for i u c
    using that activate_ok [of u i] by (auto simp: wake_slot_def Let_def runnable_def)
  have "tasks_ok (fst (fold (wake_slot tick) ks (u, c))) \<and> (\<not> snd (fold (wake_slot tick) ks (u, c)) \<longrightarrow> \<not> c \<and> fst (fold (wake_slot tick) ks (u, c)) = u)"
    if "tasks_ok u" "set ks \<subseteq> {..<16}" for ks u c
    using that
  proof (induction ks arbitrary: u c)
    case (Cons k ks)
    obtain u' c' where k: "wake_slot tick k (u, c) = (u', c')" by fastforce
    have "tasks_ok u'" "\<not> c' \<Longrightarrow> \<not> c \<and> u' = u" using w [OF Cons.prems(1), of k c] Cons.prems(2) k by auto
    then show ?case using Cons.IH [of u' c'] Cons.prems(2) k by auto
  qed simp
  moreover have "set [0..<16] \<subseteq> {..<16 :: nat}" by auto
  ultimately have "tasks_ok (fst (fold (wake_slot tick) [0..<16] (s, False))) \<and>
      (\<not> snd (fold (wake_slot tick) [0..<16] (s, False)) \<longrightarrow> fst (fold (wake_slot tick) [0..<16] (s, False)) = s)"
    using sched_inv_tasks_ok [OF assms] by blast
  then show ?thesis
    using assms by (auto simp: scheduler_wake_sleeping_tasks_def Let_def split: prod.splits)
qed

lemma first_ready_runnable:
  assumes "first_ready s tick = Some i"
  shows "i < 16" "runnable (tasks s ! i)"
proof -
  let ?c = "unat (current_task_index (stats s)) mod 16"
  have i: "i \<in> set (rotation ?c 16)" "ready_at s tick i"
    using assms by (auto simp: first_ready_def find_Some_iff)
  show "i < 16" using i(1) in_rotation [of ?c i] by simp
  show "runnable (tasks s ! i)" using i(2) by (auto simp: ready_at_def scheduler_task_is_ready_to_run_def runnable_def split: if_splits)
qed

lemma run_pending_keeps: "polite run_entry \<Longrightarrow> sched_inv s \<Longrightarrow> scheduler_run_pending_unlocked run_entry s = Some t \<Longrightarrow> sched_inv t"
proof -
  assume p: "polite run_entry" and inv: "sched_inv s" and e: "scheduler_run_pending_unlocked run_entry s = Some t"
  define u where "u = incr scheduler_runs_update (scheduler_wake_sleeping_tasks (ticks s) s)"
  have u: "sched_inv u" using wake_sleeping_ok [OF inv] by (simp add: u_def sched_inv_upd_stats)
  obtain v where v: "scheduler_select_next_ready_task (ticks s) u = Some (first_ready u (ticks s), v)" "tasks v = tasks u"
    "same_world u v" "counts_ok u \<longrightarrow> counts_ok v" using select_spec [of "ticks s" u] by blast
  have iv: "sched_inv v" using u v(2-4) tasks_ok_frame [of v u] by (simp add: sched_inv_def same_world_def)
  define g :: "scheduler_task \<Rightarrow> scheduler_task" where "g = last_run_tick_update (\<lambda>_. ticks s)"
  show ?thesis
  proof (cases "initialized (stats s) \<and> first_ready u (ticks s) \<noteq> None")
    case True
    then obtain i where i: "first_ready u (ticks s) = Some i" by blast
    have t: "scheduler_task_trampoline run_entry i (incr task_dispatches_update (upd_task i g v)) = Some t"
      using e True i v(1) by (simp add: scheduler_run_pending_unlocked_def Let_def u_def [symmetric] g_def)
    show ?thesis
      using first_ready_runnable [OF i] tasks_ok_length [OF sched_inv_tasks_ok [OF iv]] v(2) sched_inv_tasks_ok [OF iv]
        tasks_ok_task [OF sched_inv_tasks_ok [OF iv], of i]
      by (intro trampoline_ok [OF p _ _ _ t]) (auto simp: g_def intro!: tasks_ok_update)
  next
    case False
    then show ?thesis using e inv iv v(1) by (auto simp: scheduler_run_pending_unlocked_def Let_def u_def [symmetric] split: if_splits)
  qed
qed

lemma run_switched_keeps: "polite run_entry \<Longrightarrow> keeps (scheduler_run_task_with_context_switch_unlocked run_entry entry_eip resume_eip tid)"
proof (rule keepsI)
  fix s r t
  assume p: "polite run_entry" and inv: "sched_inv s"
    and e: "scheduler_run_task_with_context_switch_unlocked run_entry entry_eip resume_eip tid s = Some (r, t)"
  note ok = sched_inv_tasks_ok [OF inv]
  show "sched_inv t"
  proof (cases "t = s")
    case False
    then obtain i where i: "scheduler_find_task_by_id_mutable tid s = Some i" and a: "state (tasks s ! i) = SCHEDULER_TASK_ACTIVE"
      and b: "kernel_stack_base (tasks s ! i) \<noteq> 0" "kernel_stack_top (tasks s ! i) \<noteq> 0"
      using e by (auto simp: scheduler_run_task_with_context_switch_unlocked_def split: option.splits if_splits)
    note i16 = find_task_Some(1) [OF i]
    define u where "u = scheduler_prepare_switched_context entry_eip i (s\<lparr>current_switched_task := Some i\<rparr>)"
    define v where "v = upd_task i (\<lambda>t. t\<lparr>last_run_tick := ticks s\<rparr>) (incr task_dispatches_update (incr switched_dispatches_update u))"
    define c where "c = context_switch resume_eip (task_context (tasks v ! i)) (v\<lparr>running_on_task_stack := True\<rparr>)"
    define w where "w = (snd c)\<lparr>main_context := fst c\<rparr>"
    have c: "tasks w = tasks v" "heap w = heap v" "switch_info w = switch_info v" "current_switched_task w = current_switched_task v"
      by (simp_all add: w_def c_def context_switch_def)
    have ok1: "tasks_ok (s\<lparr>current_switched_task := Some i\<rparr>)" using ok by (subst tasks_ok_frame) simp_all
    then have ok2: "tasks_ok u" using i16 tasks_ok_task [OF ok i16]
      unfolding u_def scheduler_prepare_switched_context_def Let_def by (intro tasks_ok_update) simp_all
    have ru: "runnable (tasks u ! i)" using find_task_Some [OF i] a tasks_ok_length [OF ok]
      by (simp add: u_def scheduler_prepare_switched_context_def Let_def runnable_def)
    have ok3: "tasks_ok v" using ok2 i16 tasks_ok_task [OF ok2 i16] unfolding v_def by (intro tasks_ok_update) simp_all
    then have ok4: "tasks_ok w" by (subst tasks_ok_frame [of w v]) (simp_all add: c)
    have rw: "runnable (tasks w ! i)" using ru tasks_ok_length [OF ok2] i16 by (simp add: c v_def)
    have cs: "current_switched_task w = Some i"
      by (simp add: c v_def u_def scheduler_prepare_switched_context_def Let_def)
    have run: "scheduler_switched_task_entry run_entry resume_eip w \<bind> (\<lambda>z.
        let y = (incr switched_returns_update (z\<lparr>running_on_task_stack := False\<rparr>))\<lparr>current_switched_task := None\<rparr>
        in (if state (tasks y ! i) = SCHEDULER_TASK_COMPLETED then scheduler_free_kernel_stack i y else Some y) \<bind>
             (\<lambda>z. Some (True, scheduler_recalculate_task_counts z))) = Some (r, t)"
      using e i a b
      by (simp add: scheduler_run_task_with_context_switch_unlocked_def Let_def w_def c_def v_def u_def scheduler_prepare_switched_context_def split_def)
    obtain x where x: "scheduler_task_trampoline run_entry i w = Some x"
      using run cs by (auto simp: scheduler_switched_task_entry_def Option.bind_eq_Some_conv)
    have ix: "sched_inv x" by (rule trampoline_ok [OF p ok4 i16 rw x])
    define d where "d = context_switch resume_eip (main_context x) x"
    define y where "y = (incr switched_returns_update ((upd_task i (\<lambda>t. t\<lparr>task_context := fst d\<rparr>) (snd d))\<lparr>running_on_task_stack := False\<rparr>))\<lparr>current_switched_task := None\<rparr>"
    have d: "tasks (snd d) = tasks x" "tasks_ok (snd d)"
      using sched_inv_tasks_ok [OF ix] tasks_ok_frame [of "snd d" x] by (simp_all add: d_def context_switch_def)
    have "tasks_ok (upd_task i (\<lambda>t. t\<lparr>task_context := fst d\<rparr>) (snd d))"
      using d i16 sched_inv_tasks_ok [OF ix] tasks_ok_task [OF sched_inv_tasks_ok [OF ix] i16] by (intro tasks_ok_update) simp_all
    then have oy: "tasks_ok y" by (subst tasks_ok_frame [of y]) (simp_all add: y_def)
    have "(if state (tasks y ! i) = SCHEDULER_TASK_COMPLETED then scheduler_free_kernel_stack i y else Some y) \<bind>
        (\<lambda>z. Some (True, scheduler_recalculate_task_counts z)) = Some (r, t)"
      using run cs x by (simp add: Let_def scheduler_switched_task_entry_def y_def d_def split_def split: if_splits)
    then obtain z where z: "t = scheduler_recalculate_task_counts z"
      "z = y \<or> state (tasks y ! i) = SCHEDULER_TASK_COMPLETED \<and> scheduler_free_kernel_stack i y = Some z"
      by (auto simp: Option.bind_eq_Some_conv split: if_splits)
    have "state (tasks y ! i) = SCHEDULER_TASK_COMPLETED \<Longrightarrow> \<not> runnable (tasks y ! i)" by (simp add: runnable_def)
    then have "tasks_ok z" using z(2) oy tasks_ok_free(1) [OF _ i16 oy] by auto
    then show ?thesis using z(1) by simp
  qed (use inv in simp)
qed

lemma timer_tick_keeps: "polite run_entry \<Longrightarrow> keeps1 (scheduler_on_timer_tick run_entry tick)"
proof -
  assume p: "polite run_entry"
  have pre: "sched_inv (upd_preempt f s) = sched_inv s" for f s by (rule sched_inv_frame) (simp_all add: upd_preempt_def)
  show ?thesis
    unfolding keeps1_def
  proof (intro allI impI)
    fix s t
    assume inv: "sched_inv s" and e: "scheduler_on_timer_tick run_entry tick s = Some t"
    define v where "v = scheduler_wake_sleeping_tasks tick (scheduler_lock (upd_preempt (\<lambda>p. p\<lparr>timer_ticks_seen := timer_ticks_seen p + 1\<rparr>) s))"
    have v: "sched_inv v" using wake_sleeping_ok inv by (simp add: v_def pre)
    define v1 v2 where "v1 = upd_preempt (\<lambda>p. p\<lparr>skipped_reentrant_dispatches := skipped_reentrant_dispatches p + 1\<rparr>) v"
      and "v2 = upd_preempt (\<lambda>p. p\<lparr>in_timer_dispatch := True, last_dispatch_tick := tick, timer_dispatches := timer_dispatches p + 1\<rparr>) v"
    have i: "sched_inv v1" "sched_inv v2" using v by (simp_all add: v1_def v2_def pre)
    have eq: "scheduler_on_timer_tick run_entry tick s = (if \<not> initialized (stats s) then Some s
        else if \<not> preempt_enabled (preempt v) then scheduler_unlock v else if in_timer_dispatch (preempt v) then scheduler_unlock v1
        else if tick - last_dispatch_tick (preempt v) < tick_interval (preempt v) then scheduler_unlock v
        else scheduler_run_pending_unlocked run_entry v2 \<bind> (\<lambda>u. scheduler_unlock (upd_preempt (\<lambda>p. p\<lparr>in_timer_dispatch := False\<rparr>) u)))"
      unfolding scheduler_on_timer_tick_def Let_def v_def v1_def v2_def by (rule refl)
    have d: "sched_inv t" if rn: "scheduler_run_pending_unlocked run_entry v2 \<bind> (\<lambda>u. scheduler_unlock (upd_preempt g u)) = Some t" for g
    proof -
      obtain u where u: "scheduler_run_pending_unlocked run_entry v2 = Some u" "scheduler_unlock (upd_preempt g u) = Some t"
        using rn by (auto simp: Option.bind_eq_Some_conv)
      show ?thesis using sched_inv_unlock [OF u(2)] run_pending_keeps [OF p i(2) u(1)] by (simp add: pre)
    qed
    define run where "run = scheduler_run_pending_unlocked run_entry v2 \<bind> (\<lambda>u. scheduler_unlock (upd_preempt (\<lambda>p. p\<lparr>in_timer_dispatch := False\<rparr>) u))"
    have "t = s \<or> scheduler_unlock v = Some t \<or> scheduler_unlock v1 = Some t \<or> run = Some t"
      using e unfolding eq run_def [symmetric] by (simp split: if_split_asm)
    then show "sched_inv t"
      using inv sched_inv_unlock [of v t] sched_inv_unlock [of v1 t] v i(1) d unfolding run_def by blast
  qed
qed

subsection \<open>Sweeps over the table\<close>

lemma foldM_inv:
  assumes "\<And>x a b. x \<in> set xs \<Longrightarrow> P a \<Longrightarrow> f x a = Some b \<Longrightarrow> P b" "foldM f xs a = Some b" "P a"
  shows "P b"
  using assms
proof (induction xs arbitrary: a)
  case (Cons x xs)
  then obtain c where c: "f x a = Some c" "foldM f xs c = Some b" by (auto simp: Option.bind_eq_Some_conv)
  then have "P c" using Cons.prems(1,3) by (meson list.set_intros(1))
  then show ?case using Cons.IH [OF _ c(2)] Cons.prems(1) by (meson list.set_intros(2))
qed simp

lemma tasks_ok_queue [simp]: "tasks_ok (scheduler_reset_ready_queue_snapshot s) = tasks_ok s"
  by (rule tasks_ok_frame) (simp_all add: scheduler_reset_ready_queue_snapshot_def)

lemma tasks_ok_clear:
  assumes "tasks_ok s" "i < 16" shows "tasks_ok (upd_task i (\<lambda>_. scheduler_clear_task) s)"
  using assms by (intro tasks_ok_update) simp_all

lemma clear_inactive_keeps: "keeps scheduler_clear_inactive_tasks_unlocked"
proof (rule keepsI)
  fix s r t
  assume inv: "sched_inv s" and e: "scheduler_clear_inactive_tasks_unlocked s = Some (r, t)"
  obtain n u where f: "foldM clear_inactive_slot [0..<16] (0, s) = Some (n, u)"
    and t: "t = scheduler_recalculate_task_counts (scheduler_reset_ready_queue_snapshot
      (if current_task_index (stats u) \<ge> of_nat 16 then upd_stats (\<lambda>st. st\<lparr>current_task_index := 0\<rparr>) u else u))"
    using e by (auto simp: scheduler_clear_inactive_tasks_unlocked_def Let_def Option.bind_eq_Some_conv)
  have "tasks_ok (snd (n, u))"
  proof (rule foldM_inv [OF _ f])
    fix i a b
    assume i: "i \<in> set [0..<16]" and a: "tasks_ok (snd a)" and b: "clear_inactive_slot i a = Some b"
    obtain m v where am: "a = (m, v)" by fastforce
    show "tasks_ok (snd b)"
    proof (cases "used (tasks v ! i) \<and> (state (tasks v ! i) = SCHEDULER_TASK_DISABLED \<or> state (tasks v ! i) = SCHEDULER_TASK_COMPLETED)")
      case True
      then obtain w where w: "scheduler_free_kernel_stack i v = Some w" "snd b = upd_task i (\<lambda>_. scheduler_clear_task) w"
        using b am by (auto simp: clear_inactive_slot_def Let_def Option.bind_eq_Some_conv)
      have "\<not> runnable (tasks v ! i)" using True by (auto simp: runnable_def)
      then have "tasks_ok w" using tasks_ok_free(1) [OF w(1)] i a am by simp
      then show ?thesis using w(2) i tasks_ok_clear by simp
    next
      case False
      then show ?thesis using a b am by (auto simp: clear_inactive_slot_def Let_def split: if_splits)
    qed
  qed (use sched_inv_tasks_ok [OF inv] in simp)
  then show "sched_inv t" using t by simp
qed

lemma repair_slot_ok:
  assumes "repair_slot i (n, s) = Some (m, t)" "i < 16" "tasks_ok s"
  shows "tasks_ok t"
proof -
  let ?t = "tasks s ! i"
  have fr: "tasks_ok u" if "scheduler_free_kernel_stack i s = Some u" "\<not> runnable ?t" for u
    using tasks_ok_free(1) [OF that(1) assms(2,3) that(2)] .
  have d: "tasks_ok u" if "scheduler_free_kernel_stack i (scheduler_assign_task_state i SCHEDULER_TASK_DISABLED s) = Some u" for u
    using tasks_ok_free(1) [OF that assms(2)] tasks_ok_assign [OF assms(3,2)] assms(2) tasks_ok_length [OF assms(3)] by simp
  consider (unused) "\<not> used ?t" | (bad) "used ?t" "scheduler_free_kernel_stack i (scheduler_assign_task_state i SCHEDULER_TASK_DISABLED s) = Some t"
    | (good) "used ?t" "t = s \<or> t = scheduler_assign_task_state i SCHEDULER_TASK_ACTIVE s \<and> state ?t = SCHEDULER_TASK_SLEEPING \<or>
        scheduler_free_kernel_stack i s = Some t \<and> \<not> runnable ?t"
    using assms(1,2) tasks_ok_length [OF assms(3)]
    by (auto simp: repair_slot_def Let_def Option.bind_eq_Some_conv runnable_def split: if_splits)
  then show ?thesis
  proof cases
    case unused
    then have nr: "\<not> runnable ?t" by (simp add: runnable_def)
    obtain u where u: "u = s \<and> kernel_stack_base ?t = 0 \<or> scheduler_free_kernel_stack i s = Some u"
      and t: "t = upd_task i (\<lambda>t. t\<lparr>kernel_stack_top := 0, kernel_stack_size := 0\<rparr>) u"
      using assms(1) unused by (auto simp: repair_slot_def Let_def Option.bind_eq_Some_conv split: if_splits)
    have ok: "tasks_ok u" using u fr nr assms(3) by blast
    have b: "kernel_stack_base (tasks u ! i) = 0 \<and> \<not> used (tasks u ! i)"
      using u tasks_ok_free(2) [OF _ assms(2,3) nr, of u] unused assms(2) tasks_ok_length [OF assms(3)] by auto
    then show ?thesis unfolding t using ok assms(2) by (intro tasks_ok_update) (simp_all add: task_ok_def runnable_def)
  next
    case bad
    then show ?thesis using d by blast
  next
    case good
    then show ?thesis
      using assms(3) fr tasks_ok_assign [OF assms(3,2)] task_ok_runnable(1) [OF tasks_ok_task [OF assms(3,2)]] by (auto simp: runnable_def)
  qed
qed

lemma audit_frame:
  assumes "scheduler_audit_unlocked s = (r, t)"
  shows "tasks t = tasks s" "heap t = heap s" "switch_info t = switch_info s" "stats t = stats s"
proof -
  define v where "v = (\<lambda>s :: sched. (tasks s, heap s, switch_info s, stats s))"
  have i: "v (scheduler_audit_record_issue c s) = v s" for c s by (simp add: v_def scheduler_audit_record_issue_def)
  have "v (audit_slot k s) = v s" for k s by (simp add: audit_slot_def Let_def i)
  then have 1: "v (fold audit_slot ks s) = v s" for ks s by (induction ks arbitrary: s) simp_all
  have "v (audit_queue_entry k s) = v s" for k s by (simp add: audit_queue_entry_def Let_def i)
  then have "v (fold audit_queue_entry ks s) = v s" for ks s by (induction ks arbitrary: s) simp_all
  then have 2: "v (scheduler_audit_ready_queue s) = v s" for s by (simp add: scheduler_audit_ready_queue_def Let_def i)
  have "v (s\<lparr>audit_info := a\<rparr>) = v s" for a by (simp add: v_def)
  then have "v t = v s" using assms by (auto simp: scheduler_audit_unlocked_def Let_def i 1 2)
  then show "tasks t = tasks s" "heap t = heap s" "switch_info t = switch_info s" "stats t = stats s" by (simp_all add: v_def)
qed

lemma audit_keeps: "keeps (\<lambda>s. Some (scheduler_audit_unlocked s))"
  by (rule keepsI) (metis audit_frame option.inject sched_inv_frame)

lemma repair_keeps: "keeps scheduler_repair_unlocked"
proof (rule keepsI)
  fix s r t
  assume inv: "sched_inv s" and e: "scheduler_repair_unlocked s = Some (r, t)"
  define s0 where "s0 = s\<lparr>audit_info := (audit_info s)\<lparr>repairs_run := repairs_run (audit_info s) + 1\<rparr>\<rparr>"
  obtain n u where f: "foldM repair_slot [0..<16] (0, s0) = Some (n, u)"
    using e by (auto simp: scheduler_repair_unlocked_def Let_def s0_def Option.bind_eq_Some_conv)
  have "tasks_ok (snd (n, u))"
  proof (rule foldM_inv [OF _ f])
    fix i a b
    assume "i \<in> set [0..<16]" "tasks_ok (snd a)" "repair_slot i a = Some b"
    then show "tasks_ok (snd b)" using repair_slot_ok [of i "fst a" "snd a" "fst b" "snd b"] by simp
  next
    show "tasks_ok (snd (0, s0))" using sched_inv_tasks_ok [OF inv] tasks_ok_frame [of s0 s] by (simp add: s0_def)
  qed
  then have u: "tasks_ok u" by simp
  define u1 where "u1 = (if scheduler_pointer_points_to_task_table (current_running_task u) then u else u\<lparr>current_running_task := None\<rparr>)"
  define u2 where "u2 = (if scheduler_pointer_points_to_task_table (current_switched_task u1) then u1 else u1\<lparr>current_switched_task := None\<rparr>)"
  define x where "x = scheduler_recalculate_task_counts (scheduler_reset_ready_queue_snapshot u2)"
  have u2: "tasks_ok u2" using u tasks_ok_frame [of u2 u] by (simp add: u2_def u1_def)
  obtain a k where t: "scheduler_audit_unlocked (x\<lparr>audit_info := a\<rparr>) = (k, t)"
    using e f by (auto simp: scheduler_repair_unlocked_def Let_def s0_def x_def u2_def u1_def split_def prod_eq_iff split: if_splits)
  have "sched_inv x" using u2 by (simp add: x_def)
  then show "sched_inv t"
    using audit_frame [OF t] sched_inv_frame [of t x] by simp
qed

subsection \<open>Tests\<close>

lemma switch_stack_ok:
  assumes "scheduler_ensure_switch_test_stack s = Some (r, t)" "sched_inv s"
  shows "sched_inv t"
proof (cases "test_stack_base (switch_info s) = 0")
  case False
  then show ?thesis using assms by (auto simp: scheduler_ensure_switch_test_stack_def sched_inv_def tasks_ok_def counts_ok_def in_state_def)
next
  case True
  obtain p h where k: "kmalloc 4096 (heap s) = Some (p, h)"
    using assms(1) True by (auto simp: scheduler_ensure_switch_test_stack_def Option.bind_eq_Some_conv)
  have st: "stacks (tasks s) (heap s) 0" using assms(2) True by (simp add: sched_inv_def tasks_ok_def)
  note ks = kmalloc_stack [OF st k]
  have sb: "stacks (tasks s) h p"
  proof (cases "p = 0")
    case False
    then obtain A where A: "heap_rep h A" "stacks_in A (tasks s) 0" "owns A p" "p \<notin> kernel_stack_base ` set (tasks s)" using ks(2) by blast
    have "stacks_in A (tasks s) p" using A(2-4) by (auto simp: stacks_in_def)
    then show ?thesis using A(1) by (auto simp: stacks_def)
  qed (use ks(1) in simp)
  have "tasks t = tasks s \<and> heap t = h \<and> test_stack_base (switch_info t) = p \<and> counts_ok t"
    using assms True k
    by (auto simp: scheduler_ensure_switch_test_stack_def sched_inv_def counts_ok_def in_state_def Let_def split: if_splits)
  then show ?thesis using sb assms(2) by (simp add: sched_inv_def tasks_ok_def)
qed

lemma sched_inv_switch:
  assumes "tasks t = tasks s" "heap t = heap s" "test_stack_base (switch_info t) = test_stack_base (switch_info s)" "counts_ok t = counts_ok s"
  shows "sched_inv t = sched_inv s"
  using assms by (simp add: sched_inv_def tasks_ok_def)

lemma switch_test_keeps: "keeps (scheduler_run_switch_test test_eip resume_eip)"
proof (rule keepsI)
  fix s r t
  assume inv: "sched_inv s" and e: "scheduler_run_switch_test test_eip resume_eip s = Some (r, t)"
  show "sched_inv t"
  proof (cases "initialized (stats s)")
    case True
    then obtain a u where u: "scheduler_ensure_switch_test_stack s = Some (a, u)"
      using e by (auto simp: scheduler_run_switch_test_def Option.bind_eq_Some_conv)
    have iu: "sched_inv u" using switch_stack_ok [OF u inv] .
    have "tasks t = tasks u" "heap t = heap u" "test_stack_base (switch_info t) = test_stack_base (switch_info u)"
      "stats t = stats u \<or> stats t = (stats u)\<lparr>switch_tests := switch_tests (stats u) + 1\<rparr>"
      using e u True
      by (auto simp: scheduler_run_switch_test_def scheduler_switch_test_entry_def context_switch_def Let_def split: if_splits)
    then show ?thesis using iu sched_inv_switch [of t u] by (auto simp: counts_ok_def in_state_def)
  qed (use e inv in \<open>simp add: scheduler_run_switch_test_def\<close>)
qed

lemma reset_switch_test_keeps: "keeps1 scheduler_reset_switch_test"
proof (unfold keeps1_def, intro allI impI)
  fix s t
  assume inv: "sched_inv s" and e: "scheduler_reset_switch_test s = Some t"
  let ?b = "test_stack_base (switch_info s)"
  obtain h where h: "(if ?b \<noteq> 0 then kfree ?b (heap s) else Some (heap s)) = Some h"
    and t: "tasks t = tasks s" "heap t = h" "test_stack_base (switch_info t) = 0" "stats t = stats s"
    using e by (auto simp: scheduler_reset_switch_test_def scheduler_clear_switch_test_info_def Option.bind_eq_Some_conv)
  obtain A where A: "heap_rep (heap s) A" "stacks_in A (tasks s) ?b" using inv by (auto simp: sched_inv_def tasks_ok_def stacks_def)
  have "stacks (tasks s) h 0"
  proof (cases "?b = 0")
    case True
    then show ?thesis using h A by (auto simp: stacks_def)
  next
    case False
    then have "kfree ?b (heap s) = Some h" using h by simp
    then obtain B where B: "heap_rep h B" "\<forall>q. owns A q \<and> q \<noteq> ?b \<longrightarrow> owns B q" using owns_release [OF A(1)] by blast
    have z: "stacks_in A (tasks s) 0" using A(2) by (simp add: stacks_in_def)
    have "\<forall>i < 16. kernel_stack_base (tasks s ! i) \<noteq> ?b" "length (tasks s) = 16" using A(2) False by (simp_all add: stacks_in_def)
    then have nb: "?b \<notin> kernel_stack_base ` set (tasks s)" by (metis imageE in_set_conv_nth)
    have "owns B q" if "owns A q" "q = 0 \<or> q \<in> kernel_stack_base ` set (tasks s)" "q \<noteq> 0" for q using that B(2) nb by metis
    then have "stacks_in B (tasks s) 0" using stacks_in_mono [OF z] by blast
    then show ?thesis using B(1) by (auto simp: stacks_def)
  qed
  then show "sched_inv t" using inv t by (simp add: sched_inv_def tasks_ok_def counts_ok_def in_state_def)
qed

lemma lock_test_keeps: "keeps scheduler_run_lock_test"
  by (rule keepsI) (auto simp: scheduler_run_lock_test_def Let_def sched_inv_unlock Option.bind_eq_Some_conv)

lemma preempt_test_keeps:
  "keeps1 (scheduler_enable_preempt_test n)" "keeps1 scheduler_disable_preempt_test" "keeps1 scheduler_reset_preempt_test"
proof -
  have pre: "sched_inv (upd_preempt f s) = sched_inv s" for f s by (rule sched_inv_frame) (simp_all add: upd_preempt_def)
  show "keeps1 (scheduler_enable_preempt_test n)" "keeps1 scheduler_disable_preempt_test" "keeps1 scheduler_reset_preempt_test"
    by (auto simp: keeps1_def scheduler_enable_preempt_test_def scheduler_disable_preempt_test_def scheduler_reset_preempt_test_def
        Let_def pre dest!: sched_inv_unlock)
qed

lemma workload_keeps: "keeps1 (scheduler_create_test_workload e)" "keeps1 scheduler_disable_test_workload"
proof -
  have w: "sched_inv (s\<lparr>test_workload_task_id := n\<rparr>) = sched_inv s" for s n by (rule sched_inv_frame) simp_all
  show "keeps1 (scheduler_create_test_workload e)"
    using keepsD [OF keeps_with_lock [OF create_keeps]]
    by (auto simp: keeps1_def scheduler_create_test_workload_def scheduler_create_kernel_task_def Let_def w Option.bind_eq_Some_conv
        split: if_splits option.splits)
  show "keeps1 scheduler_disable_test_workload"
    using keepsD [OF keeps_with_lock [OF disable_keeps]]
    by (auto simp: keeps1_def scheduler_disable_test_workload_def scheduler_disable_task_def w Option.bind_eq_Some_conv split: if_splits)
qed

section \<open>Reachable states\<close>

text \<open>One rule per operation of \<^verbatim>\<open>core/scheduler.h\<close> that changes the state, and the timer interrupt.\<close>

inductive sched_step :: "(u32 \<Rightarrow> sched \<Rightarrow> sched option) \<Rightarrow> sched \<Rightarrow> sched \<Rightarrow> bool" for run_entry where
  create: "scheduler_create_kernel_task name n e s = Some (r, t) \<Longrightarrow> sched_step run_entry s t"
| oneshot: "scheduler_create_oneshot_kernel_task name e s = Some (r, t) \<Longrightarrow> sched_step run_entry s t"
| create_status: "scheduler_create_kernel_task_status nm n e s = Some (q, t) \<Longrightarrow> sched_step run_entry s t"
| oneshot_status: "scheduler_create_oneshot_kernel_task_status nm e s = Some (q, t) \<Longrightarrow> sched_step run_entry s t"
| disable: "scheduler_disable_task tid s = Some (b, t) \<Longrightarrow> sched_step run_entry s t"
| disable_status: "scheduler_disable_task_status tid s = Some (k, t) \<Longrightarrow> sched_step run_entry s t"
| sleep: "scheduler_sleep_task tid n s = Some (b, t) \<Longrightarrow> sched_step run_entry s t"
| sleep_status: "scheduler_sleep_task_status tid n s = Some (k, t) \<Longrightarrow> sched_step run_entry s t"
| wake: "scheduler_wake_task tid s = Some (b, t) \<Longrightarrow> sched_step run_entry s t"
| wake_status: "scheduler_wake_task_status tid s = Some (k, t) \<Longrightarrow> sched_step run_entry s t"
| yield: "scheduler_yield_task tid s = Some (b, t) \<Longrightarrow> sched_step run_entry s t"
| yield_status: "scheduler_yield_task_status tid s = Some (k, t) \<Longrightarrow> sched_step run_entry s t"
| yield_current: "scheduler_yield_current_task s = Some (b, t) \<Longrightarrow> sched_step run_entry s t"
| run_now: "scheduler_run_task_now run_entry tid s = Some (b, t) \<Longrightarrow> sched_step run_entry s t"
| run_switched: "scheduler_run_task_with_context_switch run_entry entry_eip resume_eip tid s = Some (b, t) \<Longrightarrow> sched_step run_entry s t"
| run_pending: "scheduler_run_pending run_entry s = Some t \<Longrightarrow> sched_step run_entry s t"
| timer: "timer_irq_handler run_entry s = Some t \<Longrightarrow> sched_step run_entry s t"
| clear_inactive: "scheduler_clear_inactive_tasks s = Some (n, t) \<Longrightarrow> sched_step run_entry s t"
| audit: "scheduler_audit s = Some (n, t) \<Longrightarrow> sched_step run_entry s t"
| repair: "scheduler_repair s = Some (n, t) \<Longrightarrow> sched_step run_entry s t"
| enable_preempt: "scheduler_enable_preempt_test n s = Some t \<Longrightarrow> sched_step run_entry s t"
| disable_preempt: "scheduler_disable_preempt_test s = Some t \<Longrightarrow> sched_step run_entry s t"
| reset_preempt: "scheduler_reset_preempt_test s = Some t \<Longrightarrow> sched_step run_entry s t"
| lock_test: "scheduler_run_lock_test s = Some (b, t) \<Longrightarrow> sched_step run_entry s t"
| self_test: "scheduler_run_context_self_test s = (b, t) \<Longrightarrow> sched_step run_entry s t"
| switch_test: "scheduler_run_switch_test test_eip resume_eip s = Some (b, t) \<Longrightarrow> sched_step run_entry s t"
| reset_switch_test: "scheduler_reset_switch_test s = Some t \<Longrightarrow> sched_step run_entry s t"
| create_workload: "scheduler_create_test_workload e s = Some t \<Longrightarrow> sched_step run_entry s t"
| disable_workload: "scheduler_disable_test_workload s = Some t \<Longrightarrow> sched_step run_entry s t"
| reset_workload: "sched_step run_entry s (scheduler_reset_test_workload_counter s)"

lemma create_status_keeps: "keeps (scheduler_create_kernel_task_status nm n e)" "keeps (scheduler_create_oneshot_kernel_task_status nm e)"
  using keepsD [OF keeps_with_lock [OF create_keeps]]
  by (auto simp: keeps_def scheduler_create_kernel_task_status_def scheduler_create_oneshot_kernel_task_status_def Option.bind_eq_Some_conv
      split: if_splits option.splits)

lemma keeps_guard: "keeps f \<Longrightarrow> keeps (\<lambda>s. if c then Some (k, s) else f s)"
  by (simp add: keeps_def)

lemma control_status_keeps:
  "keeps (scheduler_disable_task_status tid)" "keeps (scheduler_sleep_task_status tid n)"
  "keeps (scheduler_wake_task_status tid)" "keeps (scheduler_yield_task_status tid)"
  unfolding scheduler_disable_task_status_def [abs_def] scheduler_sleep_task_status_def [abs_def]
    scheduler_wake_task_status_def [abs_def] scheduler_yield_task_status_def [abs_def]
  by (intro keeps_guard status_of_keeps disable_keeps sleep_keeps wake_keeps yield_keeps)+

lemma locked_keeps:
  "keeps (scheduler_create_kernel_task name n e)" "keeps (scheduler_create_oneshot_kernel_task name e)" "keeps (scheduler_disable_task tid)"
  "keeps (scheduler_sleep_task tid n)" "keeps (scheduler_wake_task tid)" "keeps (scheduler_yield_task tid)"
  "keeps scheduler_clear_inactive_tasks" "keeps scheduler_audit" "keeps scheduler_repair"
  unfolding scheduler_create_kernel_task_def scheduler_create_oneshot_kernel_task_def scheduler_disable_task_def scheduler_sleep_task_def
    scheduler_wake_task_def scheduler_yield_task_def scheduler_clear_inactive_tasks_def scheduler_audit_def scheduler_repair_def
  by (intro keeps_with_lock create_keeps disable_keeps sleep_keeps wake_keeps yield_keeps clear_inactive_keeps audit_keeps repair_keeps)+

lemmas step_keeps = locked_keeps [THEN keepsD] create_status_keeps [THEN keepsD] control_status_keeps [THEN keepsD]
  yield_current_keeps [THEN keepsD] lock_test_keeps [THEN keepsD] switch_test_keeps [THEN keepsD]
  preempt_test_keeps [unfolded keeps1_def, rule_format] reset_switch_test_keeps [unfolded keeps1_def, rule_format]
  workload_keeps [unfolded keeps1_def, rule_format]

lemma sched_step_inv:
  assumes "sched_step run_entry s t" "polite run_entry" "sched_inv s"
  shows "sched_inv t"
  using assms
proof cases
  case (run_now tid b)
  then show ?thesis
    using keepsD [OF keeps_with_lock [OF run_now_keeps [OF assms(2)]]] assms(3) by (simp add: scheduler_run_task_now_def)
next
  case (run_switched entry_eip resume_eip tid b)
  then show ?thesis
    using keepsD [OF keeps_with_lock [OF run_switched_keeps [OF assms(2)]]] assms(3) by (simp add: scheduler_run_task_with_context_switch_def)
next
  case run_pending
  then obtain u where u: "scheduler_run_pending_unlocked run_entry (scheduler_lock s) = Some u" "scheduler_unlock u = Some t"
    by (auto simp: scheduler_run_pending_def Option.bind_eq_Some_conv)
  then show ?thesis using run_pending_keeps [OF assms(2) _ u(1)] sched_inv_unlock [OF u(2)] assms(3) by simp
next
  case timer
  have "sched_inv (s\<lparr>ticks := ticks s + 1\<rparr>)" using assms(3) by (subst sched_inv_frame) simp_all
  then show ?thesis using timer timer_tick_keeps [OF assms(2)] by (auto simp: timer_irq_handler_def Let_def keeps1_def)
next
  case (self_test b)
  then show ?thesis using assms(3) by (auto simp: scheduler_run_context_self_test_def sched_inv_upd_stats split: if_splits)
next
  case reset_workload
  then show ?thesis using assms(3) by (simp add: scheduler_reset_test_workload_counter_def) (subst sched_inv_frame; simp)
qed (use assms(3) in \<open>blast intro: step_keeps\<close>)+

lemma initialize_inv:
  assumes "heap_rep (heap s) A"
  shows "sched_inv (scheduler_initialize s)"
proof -
  have t: "tasks (scheduler_initialize s) = replicate 16 scheduler_clear_task" "heap (scheduler_initialize s) = heap s"
    "test_stack_base (switch_info (scheduler_initialize s)) = 0"
    by (simp_all add: scheduler_initialize_def scheduler_clear_ready_queue_info_def scheduler_clear_lock_info_def
        scheduler_clear_switch_test_info_def Let_def)
  have "stacks_in A (replicate 16 scheduler_clear_task) 0" by (simp add: stacks_in_def)
  then have "tasks_ok (scheduler_initialize s)" using assms by (auto simp: tasks_ok_def t stacks_def)
  moreover have "in_state (scheduler_initialize s) st = 0" for st
    unfolding in_state_def t by (auto simp: card_eq_0_iff)
  moreover have "active_tasks (stats (scheduler_initialize s)) = 0 \<and> running_tasks (stats (scheduler_initialize s)) = 0 \<and>
      completed_tasks (stats (scheduler_initialize s)) = 0 \<and> disabled_tasks (stats (scheduler_initialize s)) = 0 \<and>
      sleeping_tasks (stats (scheduler_initialize s)) = 0"
    by (simp add: scheduler_initialize_def Let_def)
  ultimately show ?thesis by (simp add: sched_inv_def counts_ok_def)
qed

lemma workload_polite: "polite (\<lambda>_ s. Some (scheduler_test_workload_task s))"
proof -
  have "sched_inv (scheduler_test_workload_task s) = sched_inv s" for s
    by (rule sched_inv_frame) (simp_all add: scheduler_test_workload_task_def)
  then show ?thesis by (auto simp: polite_def scheduler_test_workload_task_def)
qed

end
