(* ===== verification/Scheduler_Properties.thy ===== *)
theory Scheduler_Properties
  imports Scheduler_Proofs
begin

text \<open>
  The properties of \<^verbatim>\<open>core/scheduler.c\<close>: the invariant of every reachable state, fairness of the
  round robin, sleeping and waking, creation of a task, the nesting lock, and the repair of a
  damaged table.
\<close>

section \<open>A concrete scheduler\<close>

text \<open>The memory of the scheduler before \<open>scheduler_initialize\<close>, over a given heap, with interrupts on.\<close>

definition zero_sched :: "heap_state \<Rightarrow> sched" where
  "zero_sched h =
     \<lparr>tasks = [], stats = \<lparr>initialized = False, next_task_id = 0, active_tasks = 0, running_tasks = 0, completed_tasks = 0,
        disabled_tasks = 0, sleeping_tasks = 0, total_created_tasks = 0, scheduler_runs = 0, task_dispatches = 0,
        manual_dispatches = 0, switched_dispatches = 0, switched_returns = 0, current_task_index = 0,
        last_selected_task_id = 0, round_robin_passes = 0, tasks_considered = 0, tasks_selected = 0,
        no_task_selected = 0, allocated_kernel_stacks = 0, freed_kernel_stacks = 0, failed_stack_allocations = 0,
        trampoline_entries = 0, task_completions = 0, task_sleeps = 0, task_wakes = 0, task_yields = 0,
        failed_task_yields = 0, last_yielded_task_id = 0, context_self_tests = 0, switch_tests = 0, switch_test_failures = 0\<rparr>,
      test_workload_counter = 0, test_workload_task_id = 0, switch_test_return_context = scheduler_clear_context,
      switch_test_context = scheduler_clear_context, switch_info = scheduler_clear_switch_test_info,
      main_context = scheduler_clear_context, current_switched_task = None, current_running_task = None,
      running_on_task_stack = False, preempt = scheduler_clear_preempt_test_info,
      queue = \<lparr>rebuilds = 0, queue_count = 0, queue_head = 0, queue_tail = 0, overflows = 0, selected_slot = 0, queue_task_ids = []\<rparr>,
      queue_slots = [], audit_info = scheduler_clear_audit_info,
      lock = \<lparr>locked = False, interrupts_enabled_now = False, depth = 0, saved_flags = 0, lock_count = 0, unlock_count = 0,
        max_depth = 0, failed_unlocks = 0, test_runs = 0\<rparr>,
      heap = h, ticks = 0, flags = 0x202, cpu = scheduler_clear_context\<rparr>"

definition new_sched :: sched where
  "new_sched = scheduler_initialize (zero_sched one_page_heap)"

lemma one_page_rep: "heap_rep (heap (zero_sched one_page_heap)) {}"
  using one_page_heap_ok by (auto simp: heap_rep_def zero_sched_def)

lemma new_sched_inv: "sched_inv new_sched"
  unfolding new_sched_def by (rule initialize_inv [OF one_page_rep])

lemma new_sched_sel:
  "tasks new_sched = replicate 16 scheduler_clear_task" "initialized (stats new_sched)" "next_task_id (stats new_sched) = 1"
  "current_task_index (stats new_sched) = 0" "ticks new_sched = 0" "flags new_sched = 0x202" "depth (lock new_sched) = 0"
  "heap new_sched = one_page_heap"
  by (simp_all add: new_sched_def scheduler_initialize_def scheduler_clear_ready_queue_info_def scheduler_clear_lock_info_def
      zero_sched_def Let_def)

text \<open>A heap of two pages with one block, in use as the stack of a task, and a scheduler with this task.\<close>

definition two_page_vmm :: vmm_state where
  "two_page_vmm = snd (vmm_map_page 0xC1001000 0x106000 VMM_PAGE_WRITABLE one_page_vmm)"

definition busy_heap :: heap_state where
  "busy_heap = one_page_heap\<lparr>next_virtual_page := 0xC1002000, total_pages := 2, total_bytes := 8192, used_bytes := 8176, free_bytes := 0,
     allocation_count := 1, free_block_count := 0, grow_count := 2,
     blocks := (\<lambda>_. \<lparr>hb_magic = HEAP_BLOCK_MAGIC, hb_size = 8176, hb_used = True, hb_next = 0\<rparr>), vmm := two_page_vmm\<rparr>"

lemma one_page_pmm_room: "card (pmm_allocated (pmm one_page_vmm)) \<noteq> pmm_capacity (pmm one_page_vmm)"
proof -
  obtain ok where r: "vmm_map_page 0xC1000000 0x105000 VMM_PAGE_WRITABLE small_vmm = (ok, one_page_vmm)"
    unfolding one_page_vmm_def by (metis surjective_pairing)
  have inv: "pmm_inv small_pmm" "pmm_allocated small_pmm = {}" using pmm_booted_inv [OF small_pmm_booted] by simp_all
  have a: "pmm_alloc_page small_pmm = (0x102000, snd (pmm_alloc_page small_pmm))"
    by (simp add: pmm_alloc_page_def small_pmm_eq pmm_zero_def)
  have "pmm_allocated (snd (pmm_alloc_page small_pmm)) = {0x102000}" using pmm_alloc_fresh [OF inv(1) a] inv(2) by simp
  moreover have "pmm_capacity (snd (pmm_alloc_page small_pmm)) = 5"
    by (simp add: pmm_alloc_page_def small_pmm_eq pmm_zero_def pmm_capacity_def)
  ultimately show ?thesis using map_page_pmm [OF r] small_vmm_facts(3) small_pmm_room by auto
qed

lemma two_page_vmm_facts:
  "vmm_inv two_page_vmm" "vmm_initialized two_page_vmm"
  "unat a div 4096 = 0xC1000 \<or> unat a div 4096 = 0xC1001 \<Longrightarrow> translation two_page_vmm a \<noteq> None"
proof -
  obtain ok where r: "vmm_map_page 0xC1001000 0x106000 VMM_PAGE_WRITABLE one_page_vmm = (ok, two_page_vmm)"
    unfolding two_page_vmm_def by (metis surjective_pairing)
  note sp = vmm_map_page_spec [OF one_page_vmm_facts(1,2) writable_valid r]
  show "vmm_inv two_page_vmm" "vmm_initialized two_page_vmm" using sp by auto
  have ok using sp one_page_pmm_room by (auto split: if_splits)
  then show "translation two_page_vmm a \<noteq> None" if "unat a div 4096 = 0xC1000 \<or> unat a div 4096 = 0xC1001"
    using sp that one_page_vmm_facts(3) [of a] by (auto simp: word_unat_eq_iff unat_page_align_down)
qed

lemma busy_heap_ok:
  "heap_ok [0xC1000000] busy_heap" "heap_initialized busy_heap" "allocations [0xC1000000] busy_heap = {(0xC1000010, 8176)}"
  "heap_validate_pointer 0xC1000010 busy_heap"
proof -
  have "translation two_page_vmm a \<noteq> None" if "0xC1000000 \<le> a" "a < 0xC1002000" for a
  proof -
    have "unat a div 4096 = 0xC1000 \<or> unat a div 4096 = 0xC1001"
      using that by (cases "unat a < 0xC1001000") (auto simp: word_le_nat_alt word_less_nat_alt intro!: div_nat_eqI)
    then show ?thesis by (rule two_page_vmm_facts(3))
  qed
  then show h: "heap_ok [0xC1000000] busy_heap"
    using two_page_vmm_facts(1,2) by (simp add: heap_ok_def busy_heap_def one_page_heap_def header_ok_def block_end_def head_or_def)
  show i: "heap_initialized busy_heap" by (simp add: busy_heap_def one_page_heap_def)
  show "allocations [0xC1000000] busy_heap = {(0xC1000010, 8176)}"
    by (simp add: busy_heap_def allocations_def heap_header_size_def)
  show "heap_validate_pointer 0xC1000010 busy_heap" using validate_ok [OF h i] by (simp add: busy_heap_def)
qed

definition worker :: scheduler_task where
  "worker = scheduler_clear_task\<lparr>used := True, task_id := 1, state := SCHEDULER_TASK_ACTIVE, interval_ticks := 100, task_entry := 0x101000,
     kernel_stack_base := 0xC1000010, kernel_stack_size := 4096, kernel_stack_top := 0xC1001010\<rparr>"

definition busy_sched :: sched where
  "busy_sched = scheduler_recalculate_task_counts (new_sched\<lparr>heap := busy_heap, tasks := worker # replicate 15 scheduler_clear_task\<rparr>)"

lemma worker_sel:
  "used worker" "task_id worker = 1" "state worker = SCHEDULER_TASK_ACTIVE" "mode worker = SCHEDULER_TASK_RECURRING" "task_entry worker = 0x101000"
  "kernel_stack_base worker = 0xC1000010" "kernel_stack_top worker = 0xC1001010" "interval_ticks worker = 100" "last_run_tick worker = 0"
  by (simp_all add: worker_def scheduler_clear_task_def)

lemma busy_sched_sel:
  "tasks busy_sched = worker # replicate 15 scheduler_clear_task" "heap busy_sched = busy_heap" "switch_info busy_sched = switch_info new_sched"
  "scheduler_find_task_by_id_mutable 1 busy_sched = Some 0"
  by (simp_all add: busy_sched_def scheduler_find_task_by_id_mutable_def worker_sel upt_rec)

lemma busy_sched_inv: "sched_inv busy_sched"
proof -
  have t: "test_stack_base (switch_info new_sched) = 0"
    by (simp add: new_sched_def scheduler_initialize_def scheduler_clear_ready_queue_info_def scheduler_clear_lock_info_def
        scheduler_clear_switch_test_info_def Let_def)
  have n: "(worker # replicate 15 scheduler_clear_task) ! j = (if j = 0 then worker else scheduler_clear_task)" if "j < 16" for j
    using that by (simp add: nth_Cons')
  have "stacks_in {(0xC1000010, 8176)} (worker # replicate 15 scheduler_clear_task) 0"
    unfolding stacks_in_def by (auto simp: n worker_sel owns_def split: if_splits)
  moreover have "heap_rep busy_heap {(0xC1000010, 8176)}" using busy_heap_ok by (auto simp: heap_rep_def)
  moreover have "task_ok worker" by (simp add: task_ok_def worker_sel scheduler_task_state_is_valid_def)
  ultimately show ?thesis unfolding busy_sched_def by (auto simp: tasks_ok_def t stacks_def n)
qed

section \<open>The invariant\<close>

text \<open>
  C3: In every state that is reachable from \<open>scheduler_initialize\<close> by the operations of the scheduler
  and timer interrupts, the counters are the numbers of tasks in each state, every task that can still
  run has an entry and a kernel stack, and the kernel stacks are distinct blocks of the heap of at
  least 4096 bytes, provided the tasks leave their own slot running.
\<close>

theorem scheduler_reachable_inv:
  assumes "polite run_entry" "heap_rep (heap s) A" "(sched_step run_entry)\<^sup>*\<^sup>* (scheduler_initialize s) t"
  shows "sched_inv t"
  using assms(3)
proof (induction rule: rtranclp_induct)
  case base
  then show ?case by (rule initialize_inv [OF assms(2)])
next
  case (step u v)
  then show ?case using sched_step_inv assms(1) by blast
qed

theorem scheduler_reachable_inv_witness:
  "sched_inv (incr failed_task_yields_update (incr context_self_tests_update new_sched))"
proof -
  let ?run = "\<lambda>_ s. Some (scheduler_test_workload_task s)" and ?u = "incr context_self_tests_update new_sched"
  have c: "current_running_task new_sched = None"
    by (simp add: new_sched_def scheduler_initialize_def scheduler_clear_ready_queue_info_def scheduler_clear_lock_info_def Let_def)
  have "sched_step ?run new_sched ?u"
    by (rule sched_step.self_test [of _ True]) (simp add: scheduler_run_context_self_test_def new_sched_sel)
  moreover have "sched_step ?run ?u (incr failed_task_yields_update ?u)"
    by (rule sched_step.yield_current [of _ False]) (simp add: scheduler_yield_current_task_def c)
  ultimately have "(sched_step ?run)\<^sup>*\<^sup>* new_sched (incr failed_task_yields_update ?u)" by simp
  then show ?thesis
    unfolding new_sched_def by (rule scheduler_reachable_inv [OF workload_polite one_page_rep])
qed

section \<open>Fairness\<close>

lemma rotation_next:
  fixes c i j :: nat
  assumes "c < 16" "i < 16" "j < 16" "j \<noteq> i" "(j + 16 - c) mod 16 \<le> (i + 16 - c) mod 16"
  shows "(i + 16 - (j + 1) mod 16) mod 16 < (i + 16 - c) mod 16"
proof -
  define a b where "a = (j + 16 - c) mod 16" and "b = (i + 16 - c) mod 16"
  have p: "(c + a) mod 16 = j" "(c + b) mod 16 = i" using rotation_places(2) [OF assms(1)] assms(2,3) by (simp_all add: a_def b_def)
  have "a \<noteq> b" using p assms(4) by metis
  then have ab: "a < b" "b < 16" using assms(5) by (simp_all add: a_def b_def)
  define d where "d = (j + 1) mod 16"
  have "d = (c + a + 1) mod 16" unfolding d_def p(1) [symmetric] by (rule mod_add_left_eq)
  then have "(d + (b - a - 1)) mod 16 = (c + a + 1 + (b - a - 1)) mod 16" by (simp only: mod_add_left_eq)
  then have "(d + (b - a - 1)) mod 16 = i" using p(2) ab(1) by simp
  then have "(i + 16 - d) mod 16 = b - a - 1" using rotation_places(1) [of d "b - a - 1"] ab by (simp add: d_def)
  then show ?thesis using ab by (simp add: d_def b_def)
qed

lemma distance_decreases:
  assumes "scheduler_select_next_ready_task tick s = Some (r, u)" "ready_at s tick i" "i < 16" "r \<noteq> Some i"
    "current_task_index (stats v) = current_task_index (stats u)"
  shows "distance v i < distance s i"
proof -
  define c where "c = unat (current_task_index (stats s)) mod 16"
  have c16: "c < 16" by (simp add: c_def)
  have r: "r = first_ready s tick" and ix: "current_task_index (stats u) = (case r of None \<Rightarrow> current_task_index (stats s) | Some j \<Rightarrow> of_nat ((j + 1) mod 16))"
    using select_spec [of tick s] assms(1) by auto
  have "i \<in> set (rotation c 16)" using in_rotation [OF c16] assms(3) by simp
  then have "r \<noteq> None" using assms(2) unfolding r first_ready_def c_def [symmetric] by (auto simp: find_None_iff)
  then obtain j where j: "r = Some j" by blast
  have f: "j < 16" "(j + 16 - c) mod 16 \<le> (i + 16 - c) mod 16"
    using find_rotation [of "ready_at s tick" c j i] assms(2,3) c16 j r by (auto simp: first_ready_def c_def)
  have "unat (current_task_index (stats v)) mod 16 = (j + 1) mod 16"
    using assms(5) ix j by (simp add: unat_of_nat take_bit_nat_eq_self)
  then have "distance v i = (i + 16 - (j + 1) mod 16) mod 16" by (simp add: distance_def)
  moreover have "j \<noteq> i" using assms(4) j by simp
  ultimately show ?thesis
    using rotation_next [OF c16 assms(3) f(1) _ f(2)] by (simp add: distance_def c_def)
qed

text \<open>
  C4: The round robin is fair. When a slot is ready at each of sixteen selections in a row, one of
  them selects it, whatever happens to the table in between, as long as only the selection moves the
  rotation index.
\<close>

theorem ready_task_selected:
  assumes "\<forall>k < 16. scheduler_select_next_ready_task (T k) (S k) = Some (R k, U k)"
    and "\<forall>k < 16. current_task_index (stats (S (Suc k))) = current_task_index (stats (U k))"
    and "\<forall>k < 16. ready_at (S k) (T k) i" and "i < 16"
  shows "\<exists>k < 16. R k = Some i"
proof (rule ccontr)
  assume "\<not> ?thesis"
  then have n: "R k \<noteq> Some i" if "k < 16" for k using that by blast
  have "distance (S k) i + k \<le> 15" if "k \<le> 16" for k
    using that
  proof (induction k)
    case 0
    then show ?case by (simp add: distance_def less_Suc_eq_le [symmetric])
  next
    case (Suc k)
    then have "distance (S (Suc k)) i < distance (S k) i"
      using assms n [of k] by (intro distance_decreases [of "T k" "S k" "R k" "U k"]) auto
    then show ?case using Suc by simp
  qed
  from this [of 16] show False by simp
qed

definition after_selection :: "sched \<Rightarrow> sched" where
  "after_selection s = snd (the (scheduler_select_next_ready_task 100 s))"

theorem ready_task_selected_witness:
  "\<exists>k < 16. fst (the (scheduler_select_next_ready_task 100 ((after_selection ^^ k) busy_sched))) = Some 0"
proof -
  let ?S = "\<lambda>k. (after_selection ^^ k) busy_sched"
  have sel: "scheduler_select_next_ready_task 100 s = Some (fst (the (scheduler_select_next_ready_task 100 s)), after_selection s) \<and>
      tasks (after_selection s) = tasks s" for s
    using select_spec [of 100 s] by (auto simp: after_selection_def)
  have t: "tasks (?S k) = tasks busy_sched" for k by (induction k) (simp_all add: sel)
  have r: "ready_at (?S k) 100 0" for k
    by (simp add: ready_at_def t busy_sched_sel worker_sel scheduler_task_is_ready_to_run_def)
  show ?thesis
    by (rule ready_task_selected [where T = "\<lambda>_. 100" and S = ?S and U = "\<lambda>k. ?S (Suc k)"]) (use sel r in auto)
qed

section \<open>Sleeping and waking\<close>

definition woken :: "u32 \<Rightarrow> scheduler_task \<Rightarrow> scheduler_task" where
  "woken tick t = (if used t \<and> state t = SCHEDULER_TASK_SLEEPING \<and> tick - wake_tick t < 0x80000000
                   then t\<lparr>state := SCHEDULER_TASK_ACTIVE, wake_tick := 0\<rparr> else t)"

lemma wake_sleeping_tasks:
  assumes "length (tasks s) = 16"
  shows "tasks (scheduler_wake_sleeping_tasks tick s) = map (woken tick) (tasks s)"
proof -
  have w: "tasks (fst (wake_slot tick i (u, c))) = (tasks u)[i := woken tick (tasks u ! i)]" for i u c
    by (cases "i < length (tasks u)") (auto simp: wake_slot_def woken_def Let_def list_update_beyond)
  have "tasks (fst (fold (wake_slot tick) [0..<n] (s, False))) = map (woken tick) (take n (tasks s)) @ drop n (tasks s)" if "n \<le> 16" for n
    using that
  proof (induction n)
    case (Suc n)
    obtain u c where u: "fold (wake_slot tick) [0..<n] (s, False) = (u, c)" by fastforce
    have "tasks u = map (woken tick) (take n (tasks s)) @ drop n (tasks s)" using Suc u by simp
    then show ?case using u Suc.prems assms w [of n u c]
      by (simp add: list_update_append nth_append take_Suc_conv_app_nth Cons_nth_drop_Suc [symmetric])
  qed simp
  from this [of 16] show ?thesis
    using assms by (auto simp: scheduler_wake_sleeping_tasks_def Let_def split: prod.splits)
qed

lemma sleep_effect:
  assumes "length (tasks s) = 16" "scheduler_find_task_by_id_mutable tid s = Some i" "state (tasks s ! i) = SCHEDULER_TASK_ACTIVE" "n \<noteq> 0"
  shows "\<exists>t. scheduler_sleep_task_unlocked tid n s = Some (True, t) \<and> length (tasks t) = 16 \<and> used (tasks t ! i) \<and>
    state (tasks t ! i) = SCHEDULER_TASK_SLEEPING \<and> wake_tick (tasks t ! i) = ticks s + n"
  using assms find_task_Some [OF assms(2)] by (simp add: scheduler_sleep_task_unlocked_def Let_def)

text \<open>
  C15: A task put to sleep for at most \<open>2\<^sup>3\<^sup>1\<close> ticks wakes at its wake-up tick and not before it, also when
  the tick counter wraps around in between; the scheduler has to look within \<open>2\<^sup>3\<^sup>1\<close> ticks after it is due.
\<close>

theorem sleeping_task_wakes:
  assumes "sched_inv s" "scheduler_find_task_by_id_mutable tid s = Some i" "state (tasks s ! i) = SCHEDULER_TASK_ACTIVE"
    and "n \<noteq> 0" "n \<le> 0x80000000" "unat k < unat n + 2 ^ 31"
  shows "\<exists>t. scheduler_sleep_task_unlocked tid n s = Some (True, t) \<and>
    state (tasks t ! i) = SCHEDULER_TASK_SLEEPING \<and>
    state (tasks (scheduler_wake_sleeping_tasks (ticks s + k) t) ! i) =
      (if k < n then SCHEDULER_TASK_SLEEPING else SCHEDULER_TASK_ACTIVE)"
proof -
  have l: "length (tasks s) = 16" using assms(1) tasks_ok_length sched_inv_tasks_ok by blast
  obtain t where t: "scheduler_sleep_task_unlocked tid n s = Some (True, t)" "length (tasks t) = 16" "used (tasks t ! i)"
    "state (tasks t ! i) = SCHEDULER_TASK_SLEEPING" "wake_tick (tasks t ! i) = ticks s + n"
    using sleep_effect [OF l assms(2-4)] by blast
  have n: "unat n \<le> 2 ^ 31" using assms(5) by (simp add: word_le_nat_alt)
  have "k - n < 0x80000000 \<longleftrightarrow> \<not> k < n"
    using n assms(6) unsigned_less [of n] unsigned_less [of k] by (auto simp: word_less_nat_alt unat_sub_if')
  then show ?thesis using t find_task_Some(1) [OF assms(2)] by (auto simp: wake_sleeping_tasks [OF t(2)] woken_def)
qed

theorem sleeping_task_wakes_witness:
  "\<exists>t. scheduler_sleep_task_unlocked 1 5 busy_sched = Some (True, t) \<and>
    state (tasks (scheduler_wake_sleeping_tasks (ticks busy_sched + 4) t) ! 0) = SCHEDULER_TASK_SLEEPING"
  using sleeping_task_wakes [OF busy_sched_inv busy_sched_sel(4), of 5 4] by (auto simp: busy_sched_sel worker_sel word_le_nat_alt)

text \<open>
  C38: A task put to sleep for more than \<open>2\<^sup>3\<^sup>1\<close> ticks is woken by the very next look at the sleeping tasks.
\<close>

theorem long_sleep_wakes_at_once:
  assumes "sched_inv s" "scheduler_find_task_by_id_mutable tid s = Some i" "state (tasks s ! i) = SCHEDULER_TASK_ACTIVE" "n > 0x80000000"
  shows "\<exists>t. scheduler_sleep_task_unlocked tid n s = Some (True, t) \<and>
    state (tasks (scheduler_wake_sleeping_tasks (ticks s) t) ! i) = SCHEDULER_TASK_ACTIVE"
proof -
  have l: "length (tasks s) = 16" using assms(1) tasks_ok_length sched_inv_tasks_ok by blast
  have n: "n \<noteq> 0" using assms(4) by auto
  obtain t where t: "scheduler_sleep_task_unlocked tid n s = Some (True, t)" "length (tasks t) = 16" "used (tasks t ! i)"
    "state (tasks t ! i) = SCHEDULER_TASK_SLEEPING" "wake_tick (tasks t ! i) = ticks s + n"
    using sleep_effect [OF l assms(2,3) n] by blast
  have "ticks s - (ticks s + n) < 0x80000000" using assms(4) unat_u32_bound [of n] unat_sub_if' [of 0 n] by (simp add: word_less_nat_alt word_le_nat_alt)
  then show ?thesis using t find_task_Some(1) [OF assms(2)] by (auto simp: wake_sleeping_tasks [OF t(2)] woken_def)
qed

theorem long_sleep_wakes_at_once_witness:
  "\<exists>t. scheduler_sleep_task_unlocked 1 0x80000001 busy_sched = Some (True, t) \<and>
    state (tasks (scheduler_wake_sleeping_tasks (ticks busy_sched) t) ! 0) = SCHEDULER_TASK_ACTIVE"
  using long_sleep_wakes_at_once [OF busy_sched_inv busy_sched_sel(4), of "0x80000001"] by (simp add: busy_sched_sel worker_sel)

section \<open>The lock\<close>

lemma lock_effect:
  assumes "depth (lock s) \<noteq> 0xFFFFFFFF"
  shows "depth (lock (scheduler_lock s)) = depth (lock s) + 1" "flags (scheduler_lock s) = flags s AND NOT 0x200"
    "saved_flags (lock (scheduler_lock s)) = (if depth (lock s) = 0 then flags s else saved_flags (lock s))"
  by (simp_all add: scheduler_lock_def upd_lock_def irq_save_def Let_def)

lemma unlock_effect:
  assumes "depth (lock s) \<noteq> 0"
  shows "\<exists>t. scheduler_unlock s = Some t \<and> depth (lock t) = depth (lock s) - 1 \<and>
    (if depth (lock s) = 1 then flags t = saved_flags (lock s) \<and> \<not> locked (lock t)
     else flags t = flags s \<and> saved_flags (lock t) = saved_flags (lock s))"
  using assms by (auto simp: scheduler_unlock_def upd_lock_def irq_restore_def Let_def)

fun unlocks :: "nat \<Rightarrow> sched \<Rightarrow> sched option" where
  "unlocks 0 s = Some s"
| "unlocks (Suc n) s = scheduler_unlock s \<bind> unlocks n"

lemma locks_effect:
  assumes "depth (lock s) = 0" "n < 2 ^ 32"
  shows "depth (lock ((scheduler_lock ^^ n) s)) = of_nat n \<and>
    (0 < n \<longrightarrow> saved_flags (lock ((scheduler_lock ^^ n) s)) = flags s \<and> flags ((scheduler_lock ^^ n) s) AND 0x200 = 0)"
  using assms(2)
proof (induction n)
  case (Suc n)
  let ?t = "(scheduler_lock ^^ n) s"
  have d: "depth (lock ?t) = of_nat n" using Suc by simp
  then have "depth (lock ?t) \<noteq> 0xFFFFFFFF" using Suc.prems by (auto dest!: arg_cong [of _ _ unat] simp: unat_of_nat take_bit_nat_eq_self)
  note e = lock_effect [OF this]
  have "n \<noteq> 0 \<Longrightarrow> of_nat n \<noteq> (0 :: u32)" using Suc.prems by (auto dest!: arg_cong [of _ _ unat] simp: unat_of_nat take_bit_nat_eq_self)
  then show ?case using e Suc d by (cases "n = 0") (auto simp: and.assoc)
qed (use assms(1) in simp)

lemma unlocks_effect:
  assumes "depth (lock t) = of_nat n" "n < 2 ^ 32" "0 < n"
  shows "\<exists>u. unlocks n t = Some u \<and> depth (lock u) = 0 \<and> flags u = saved_flags (lock t) \<and> \<not> locked (lock u)"
  using assms
proof (induction n arbitrary: t)
  case (Suc n)
  have u: "unat (depth (lock t)) = Suc n" using Suc.prems(1,2) by (simp add: unat_of_nat take_bit_nat_eq_self del: of_nat_Suc)
  have d: "depth (lock t) \<noteq> 0" "depth (lock t) = 1 \<longleftrightarrow> n = 0" using u Suc.prems(1) by (cases "n = 0"; auto)+
  obtain v where v: "scheduler_unlock t = Some v" "depth (lock v) = depth (lock t) - 1"
    "if depth (lock t) = 1 then flags v = saved_flags (lock t) \<and> \<not> locked (lock v) else flags v = flags t \<and> saved_flags (lock v) = saved_flags (lock t)"
    using unlock_effect [OF d(1)] by blast
  have dv: "depth (lock v) = of_nat n" using v(2) Suc.prems(1) by simp
  show ?case
  proof (cases "n = 0")
    case True
    then show ?thesis using v dv d(2) by simp
  next
    case False
    then show ?thesis using v(1,3) d(2) Suc.IH [OF dv] Suc.prems(2) by simp
  qed
qed simp

text \<open>
  The interrupt lock nests. After \<open>n\<close> calls of \<open>scheduler_lock\<close> interrupts are off, exactly \<open>n\<close> calls
  of \<open>scheduler_unlock\<close> give the flags back that were there before, and one more call panics.
\<close>

theorem scheduler_lock_nests:
  assumes "depth (lock s) = 0" "0 < n" "n < 2 ^ 32"
  shows "\<not> irq_are_enabled ((scheduler_lock ^^ n) s) \<and>
    (\<exists>u. unlocks n ((scheduler_lock ^^ n) s) = Some u \<and> flags u = flags s \<and> \<not> locked (lock u) \<and> scheduler_unlock u = None)"
proof -
  let ?t = "(scheduler_lock ^^ n) s"
  have t: "depth (lock ?t) = of_nat n" "saved_flags (lock ?t) = flags s" "flags ?t AND 0x200 = 0" using locks_effect [OF assms(1,3)] assms(2) by auto
  obtain u where "unlocks n ?t = Some u" "depth (lock u) = 0" "flags u = saved_flags (lock ?t)" "\<not> locked (lock u)"
    using unlocks_effect [OF t(1) assms(3,2)] by blast
  then show ?thesis using t by (auto simp: irq_are_enabled_def scheduler_unlock_def)
qed

theorem scheduler_lock_nests_witness:
  "\<not> irq_are_enabled ((scheduler_lock ^^ 3) new_sched) \<and>
    (\<exists>u. unlocks 3 ((scheduler_lock ^^ 3) new_sched) = Some u \<and> flags u = 0x202 \<and> scheduler_unlock u = None)"
  using scheduler_lock_nests [of new_sched 3] by (auto simp: new_sched_sel)

section \<open>Creating a task\<close>

lemma free_stack_returns:
  assumes "stacks (tasks s) (heap s) b" "kernel_stack_base (tasks s ! i) = 0 \<or> heap_validate_pointer (kernel_stack_base (tasks s ! i)) (heap s)"
  shows "\<exists>t. scheduler_free_kernel_stack i s = Some t \<and> next_task_id (stats t) = next_task_id (stats s)"
proof (cases "kernel_stack_base (tasks s ! i) = 0")
  case True
  then show ?thesis by (simp add: scheduler_free_kernel_stack_def)
next
  case False
  obtain A where A: "heap_rep (heap s) A" using assms(1) by (auto simp: stacks_def)
  obtain h where "kfree (kernel_stack_base (tasks s ! i)) (heap s) = Some h" using kernel_heap.release_returns [OF A] by blast
  then show ?thesis using False assms(2) by (simp add: scheduler_free_kernel_stack_def kernel_assert_def Let_def)
qed

lemma allocate_stack_returns:
  assumes "stacks (tasks s) (heap s) b"
  shows "\<exists>a t. scheduler_allocate_kernel_stack i s = Some (a, t) \<and>
    next_task_id (stats t) = next_task_id (stats s)"
proof -
  obtain A where A: "heap_rep (heap s) A" using assms(1) by (auto simp: stacks_def)
  have "request_fits 4096" by (simp add: request_fits_def)
  then obtain p h where k: "kmalloc 4096 (heap s) = Some (p, h)" using kernel_heap.alloc_returns [OF A] by blast
  show ?thesis using kmalloc_stack(3) [OF assms k]
    by (intro exI [of _ "p \<noteq> 0"]) (simp add: scheduler_allocate_kernel_stack_def kernel_assert_def k Let_def)
qed

text \<open>
  C14: Creating a task returns whenever a slot is free and the heap still validates a stack that is left
  in it. It answers -1 when the heap has no room for a stack and then empties the slot; otherwise it
  answers the task number, and the slot holds an active task with this number, its entry and a stack of
  its own. No other slot changes, and the invariant holds again.
\<close>

theorem scheduler_create_task_correct:
  assumes "sched_inv s" "initialized (stats s)" "entry \<noteq> 0" "md = SCHEDULER_TASK_RECURRING \<longrightarrow> interval \<noteq> 0"
    and "is_cstring name" "scheduler_find_available_slot s = Some i"
    and "kernel_stack_base (tasks s ! i) = 0 \<or> heap_validate_pointer (kernel_stack_base (tasks s ! i)) (heap s)"
  shows "\<exists>r t. scheduler_create_task_internal_unlocked name interval entry md s = Some (r, t) \<and> sched_inv t \<and>
    (\<forall>j < 16. j \<noteq> i \<longrightarrow> tasks t ! j = tasks s ! j) \<and>
    (if r = -1 \<and> \<not> used (tasks t ! i) then tasks t ! i = scheduler_clear_task \<and> next_task_id (stats t) = next_task_id (stats s)
     else r = sint (next_task_id (stats s)) \<and> task_id (tasks t ! i) = next_task_id (stats s) \<and> used (tasks t ! i) \<and>
       state (tasks t ! i) = SCHEDULER_TASK_ACTIVE \<and> task_entry (tasks t ! i) = entry \<and> kernel_stack_base (tasks t ! i) \<noteq> 0 \<and>
       next_task_id (stats t) = next_task_id (stats s) + 1)"
proof -
  note ok = sched_inv_tasks_ok [OF assms(1)]
  note i16 = find_slot_Some [OF assms(6)]
  have l: "length (tasks s) = 16" using tasks_ok_length [OF ok] .
  obtain u where u: "(if kernel_stack_base (tasks s ! i) \<noteq> 0 then scheduler_free_kernel_stack i s else Some s) = Some u"
    and nu: "next_task_id (stats u) = next_task_id (stats s)"
  proof (cases "kernel_stack_base (tasks s ! i) = 0")
    case False
    have "stacks (tasks s) (heap s) (test_stack_base (switch_info s))" using ok by (simp add: tasks_ok_def)
    from free_stack_returns [OF this assms(7)] False show ?thesis using that by auto
  qed (use that [of s] in simp)
  have tu: "tasks u = (tasks s)[i := freed (tasks s ! i)]" "tasks_ok u"
    using u ok tasks_ok_free(1,2) [OF _ i16(1) ok i16(2), of u] by (auto simp: freed_def split: if_splits)
  obtain copied where c: "string_copy (replicate 32 NUL) name 32 = Some copied"
    using string_copy_cstr [OF assms(5), of 32 "replicate 32 NUL"] by auto
  define v where "v = upd_task i (\<lambda>_. new_task copied interval entry md u) u"
  have sv: "stacks (tasks v) (heap v) (test_stack_base (switch_info v))"
    using tu(2) i16(1) by (auto simp: v_def tasks_ok_def intro!: stacks_update)
  obtain a w where w: "scheduler_allocate_kernel_stack i v = Some (a, w)" "next_task_id (stats w) = next_task_id (stats s)"
    using allocate_stack_returns [OF sv, of i] nu by (auto simp: v_def)
  have vi: "tasks v ! i = new_task copied interval entry md u" using i16(1) l by (simp add: v_def tu)
  have vb: "kernel_stack_base (tasks v ! i) = 0" by (simp add: vi)
  note al = allocate_stack_ok [OF w(1) i16(1) sv vb]
  have vj: "tasks v ! j = tasks s ! j" if "j < 16" "j \<noteq> i" for j using that by (simp add: v_def tu)
  note eq = create_eq [OF assms(6,2-4) u c, folded v_def, unfolded w(1), simplified]
  show ?thesis
  proof (cases a)
    case True
    then obtain x where x: "tasks w = (tasks v)[i := x]" "kernel_stack_base x \<noteq> 0" "used x" "state x = SCHEDULER_TASK_ACTIVE" "task_entry x = entry"
      "task_id x = next_task_id (stats s)" using al(4) vi nu by auto
    have wi: "tasks w ! i = x" using x(1) i16(1) l by (simp add: v_def tu)
    define t where "t = scheduler_recalculate_task_counts (incr total_created_tasks_update (incr next_task_id_update w))"
    have e: "scheduler_create_task_internal_unlocked name interval entry md s = Some (sint (next_task_id (stats s)), t)"
      using eq True wi x(6) by (simp add: t_def Let_def)
    show ?thesis using e keepsD [OF create_keeps e assms(1)] x wi vj w(2)
      by (intro exI [of _ "sint (next_task_id (stats s))"] exI [of _ t]) (auto simp: t_def)
  next
    case False
    define t where "t = scheduler_recalculate_task_counts (upd_task i (\<lambda>_. scheduler_clear_task) w)"
    have e: "scheduler_create_task_internal_unlocked name interval entry md s = Some (-1, t)" using eq False by (simp add: t_def)
    have "length (tasks w) = 16" using al(3) False l by (simp add: v_def tu)
    then show ?thesis using e keepsD [OF create_keeps e assms(1)] al(3) False vj w(2) i16(1)
      by (intro exI [of _ "-1"] exI [of _ t]) (auto simp: t_def)
  qed
qed

theorem scheduler_create_task_correct_witness:
  "\<exists>r t. scheduler_create_task_internal_unlocked (''worker'' @ [NUL]) 100 0x101000 SCHEDULER_TASK_RECURRING new_sched = Some (r, t) \<and>
    sched_inv t \<and> (r = -1 \<or> r = 1)"
proof -
  have "scheduler_find_available_slot new_sched = Some 0"
    by (simp add: scheduler_find_available_slot_def new_sched_sel Let_def upt_rec)
  moreover have "is_cstring (''worker'' @ [NUL])" "kernel_stack_base (tasks new_sched ! 0) = 0" by (simp_all add: new_sched_sel)
  ultimately show ?thesis
    using scheduler_create_task_correct [OF new_sched_inv new_sched_sel(2), of "0x101000" SCHEDULER_TASK_RECURRING 100 "''worker'' @ [NUL]" 0]
    by (auto simp: new_sched_sel split: if_splits)
qed

section \<open>Repair\<close>

lemma free_frame:
  assumes "scheduler_free_kernel_stack i s = Some t"
  shows "tasks t = (tasks s)[i := freed (tasks s ! i)]" "current_running_task t = current_running_task s"
    "current_switched_task t = current_switched_task s"
  using assms by (auto simp: scheduler_free_kernel_stack_def kernel_assert_def freed_def Let_def Option.bind_eq_Some_conv split: if_splits)

definition clean :: "scheduler_task \<Rightarrow> bool" where
  "clean t \<longleftrightarrow> (if \<not> used t then kernel_stack_base t = 0 \<and> kernel_stack_top t = 0
     else scheduler_task_state_is_valid (state t) \<and>
       (runnable t \<longrightarrow> kernel_stack_base t \<noteq> 0 \<and> kernel_stack_top t \<noteq> 0 \<and> task_entry t \<noteq> 0) \<and>
       (state t = SCHEDULER_TASK_SLEEPING \<longrightarrow> wake_tick t \<noteq> 0) \<and>
       (state t = SCHEDULER_TASK_DISABLED \<or> state t = SCHEDULER_TASK_COMPLETED \<longrightarrow> kernel_stack_base t = 0 \<and> kernel_stack_top t = 0))"

lemma audit_slot_clean:
  assumes "clean (tasks s ! i)" shows "audit_slot i s = s"
proof -
  let ?t = "tasks s ! i"
  consider "\<not> used ?t" | "used ?t" "runnable ?t" | "used ?t" "\<not> runnable ?t" by blast
  then show ?thesis
  proof cases
    case 2
    then have "kernel_stack_base ?t \<noteq> 0" "kernel_stack_top ?t \<noteq> 0" "task_entry ?t \<noteq> 0" "scheduler_task_state_is_valid (state ?t)"
      "state ?t = SCHEDULER_TASK_SLEEPING \<longrightarrow> wake_tick ?t \<noteq> 0" "state ?t \<noteq> SCHEDULER_TASK_DISABLED" "state ?t \<noteq> SCHEDULER_TASK_COMPLETED"
      using assms by (auto simp: clean_def)
    then show ?thesis using 2(1) by (simp add: audit_slot_def Let_def)
  next
    case 3
    then have "\<not> (state ?t = SCHEDULER_TASK_ACTIVE \<or> state ?t = SCHEDULER_TASK_RUNNING \<or> state ?t = SCHEDULER_TASK_SLEEPING)"
      "state ?t \<noteq> SCHEDULER_TASK_SLEEPING" "scheduler_task_state_is_valid (state ?t)"
      "\<not> ((state ?t = SCHEDULER_TASK_DISABLED \<or> state ?t = SCHEDULER_TASK_COMPLETED) \<and> (kernel_stack_base ?t \<noteq> 0 \<or> kernel_stack_top ?t \<noteq> 0))"
      using assms by (auto simp: clean_def runnable_def)
    then show ?thesis using 3(1) unfolding audit_slot_def Let_def by (simp only: simp_thms if_True if_False)
  qed (use assms in \<open>simp add: audit_slot_def clean_def Let_def\<close>)
qed

lemma audit_clean:
  assumes "\<forall>i < 16. clean (tasks s ! i)" "queue_count (queue s) = 0"
    "scheduler_pointer_points_to_task_table (current_running_task s)" "scheduler_pointer_points_to_task_table (current_switched_task s)"
  shows "scheduler_audit_unlocked s = (0, s\<lparr>audit_info := scheduler_clear_audit_info\<lparr>audits_run := 1\<rparr>\<rparr>)"
proof -
  let ?u = "s\<lparr>audit_info := scheduler_clear_audit_info\<lparr>audits_run := 1\<rparr>\<rparr>"
  have "fold audit_slot ks ?u = ?u" if "set ks \<subseteq> {..<16}" for ks
    using that assms(1) by (induction ks) (simp_all add: audit_slot_clean)
  moreover have "set [0..<16] \<subseteq> {..<16 :: nat}" by auto
  ultimately have "fold audit_slot [0..<16] ?u = ?u" by blast
  then show ?thesis using assms(2-4)
    by (simp add: scheduler_audit_unlocked_def scheduler_audit_ready_queue_def Let_def scheduler_clear_audit_info_def)
qed

lemma freed_top: "kernel_stack_base t = 0 \<longrightarrow> kernel_stack_top t = 0 \<Longrightarrow> kernel_stack_top (freed t) = 0"
  by (simp add: freed_def)

lemma repair_slot_used:
  assumes "used (tasks s ! i)" "i < length (tasks s)"
  shows "repair_slot i (n, s) =
    (let t = tasks s ! i
     in if \<not> scheduler_task_state_is_valid (state t) \<or> runnable t \<and> (task_entry t = 0 \<or> kernel_stack_base t = 0 \<or> kernel_stack_top t = 0)
        then map_option (Pair (n + 1)) (scheduler_free_kernel_stack i (scheduler_assign_task_state i SCHEDULER_TASK_DISABLED s))
        else if state t = SCHEDULER_TASK_SLEEPING \<and> wake_tick t = 0 then Some (n + 1, scheduler_assign_task_state i SCHEDULER_TASK_ACTIVE s)
        else if (state t = SCHEDULER_TASK_DISABLED \<or> state t = SCHEDULER_TASK_COMPLETED) \<and> kernel_stack_base t \<noteq> 0
        then map_option (Pair (n + 1)) (scheduler_free_kernel_stack i s) else Some (n, s))"
  using assms by (simp add: repair_slot_def runnable_def Let_def map_option_case Option.bind_def split: option.split)

lemma repair_slot_clean:
  assumes "repair_slot i (n, s) = Some (m, t)" "i < 16" "length (tasks s) = 16"
    and "used (tasks s ! i) \<and> kernel_stack_base (tasks s ! i) = 0 \<longrightarrow> kernel_stack_top (tasks s ! i) = 0"
  shows "\<exists>x. tasks t = (tasks s)[i := x] \<and> clean x"
proof -
  let ?t = "tasks s ! i"
  consider (unused) u where "\<not> used ?t" "tasks u = (tasks s)[i := freed ?t]" "t = upd_task i (\<lambda>t. t\<lparr>kernel_stack_top := 0, kernel_stack_size := 0\<rparr>) u"
    | (bad) "used ?t" "tasks t = (tasks s)[i := freed (?t\<lparr>state := SCHEDULER_TASK_DISABLED\<rparr>)]"
    | (good) "used ?t" "scheduler_task_state_is_valid (state ?t)" "runnable ?t \<longrightarrow> kernel_stack_base ?t \<noteq> 0 \<and> kernel_stack_top ?t \<noteq> 0 \<and> task_entry ?t \<noteq> 0"
        "tasks t = (if state ?t = SCHEDULER_TASK_SLEEPING \<and> wake_tick ?t = 0 then (tasks s)[i := ?t\<lparr>state := SCHEDULER_TASK_ACTIVE\<rparr>]
           else if state ?t = SCHEDULER_TASK_DISABLED \<or> state ?t = SCHEDULER_TASK_COMPLETED then (tasks s)[i := freed ?t] else tasks s)"
  proof (cases "used ?t")
    case False
    obtain u where u: "u = s \<and> kernel_stack_base ?t = 0 \<or> scheduler_free_kernel_stack i s = Some u"
      and t: "t = upd_task i (\<lambda>t. t\<lparr>kernel_stack_top := 0, kernel_stack_size := 0\<rparr>) u"
      using assms(1) False by (auto simp: repair_slot_def Let_def Option.bind_eq_Some_conv split: if_splits)
    have "tasks u = (tasks s)[i := freed ?t]" using u free_frame(1) [of i s u] by (auto simp: freed_def)
    then show ?thesis using unused False t by blast
  next
    case True
    note eq = repair_slot_used [OF True, of n, unfolded assms(1) Let_def, simplified assms(3), OF assms(2)]
    have mp: "x = Some t" if "Some (m, t) = map_option (Pair k) x" for k x using that by (cases x) auto
    show ?thesis
    proof (cases "\<not> scheduler_task_state_is_valid (state ?t) \<or> runnable ?t \<and> (task_entry ?t = 0 \<or> kernel_stack_base ?t = 0 \<or> kernel_stack_top ?t = 0)")
      case d: True
      then have "scheduler_free_kernel_stack i (scheduler_assign_task_state i SCHEDULER_TASK_DISABLED s) = Some t"
        using eq by (auto dest!: mp)
      from free_frame(1) [OF this] show ?thesis using bad True assms(2,3) by simp
    next
      case nd: False
      then have g: "scheduler_task_state_is_valid (state ?t)" "runnable ?t \<longrightarrow> kernel_stack_base ?t \<noteq> 0 \<and> kernel_stack_top ?t \<noteq> 0 \<and> task_entry ?t \<noteq> 0"
        by auto
      have "freed ?t = ?t" if "kernel_stack_base ?t = 0" using that by (simp add: freed_def)
      then have "tasks t = (if state ?t = SCHEDULER_TASK_SLEEPING \<and> wake_tick ?t = 0 then (tasks s)[i := ?t\<lparr>state := SCHEDULER_TASK_ACTIVE\<rparr>]
           else if state ?t = SCHEDULER_TASK_DISABLED \<or> state ?t = SCHEDULER_TASK_COMPLETED then (tasks s)[i := freed ?t] else tasks s)"
        using eq nd free_frame(1) [of i s t] by (auto split: if_splits dest!: mp)
      then show ?thesis using good True g by blast
    qed
  qed
  then show ?thesis
  proof cases
    case unused
    then show ?thesis using assms(2,3) by (intro exI [of _ "(freed ?t)\<lparr>kernel_stack_top := 0, kernel_stack_size := 0\<rparr>"]) (simp add: clean_def)
  next
    case bad
    then show ?thesis using freed_top [of "?t\<lparr>state := SCHEDULER_TASK_DISABLED\<rparr>"] assms(4)
      by (intro exI [of _ "freed (?t\<lparr>state := SCHEDULER_TASK_DISABLED\<rparr>)"]) (simp add: clean_def scheduler_task_state_is_valid_def runnable_def)
  next
    case good
    consider (s) "state ?t = SCHEDULER_TASK_SLEEPING" "wake_tick ?t = 0" | (d) "state ?t = SCHEDULER_TASK_DISABLED \<or> state ?t = SCHEDULER_TASK_COMPLETED"
      | (o) "\<not> (state ?t = SCHEDULER_TASK_SLEEPING \<and> wake_tick ?t = 0)" "state ?t \<noteq> SCHEDULER_TASK_DISABLED" "state ?t \<noteq> SCHEDULER_TASK_COMPLETED"
      by blast
    then show ?thesis
    proof cases
      case s
      then show ?thesis using good
        by (intro exI [of _ "?t\<lparr>state := SCHEDULER_TASK_ACTIVE\<rparr>"]) (simp add: clean_def scheduler_task_state_is_valid_def runnable_def)
    next
      case d
      then show ?thesis using good freed_top [of ?t] assms(4)
        by (intro exI [of _ "freed ?t"]) (auto simp: clean_def runnable_def)
    next
      case o
      then show ?thesis using good by (intro exI [of _ ?t]) (auto simp: clean_def)
    qed
  qed
qed

definition repairable :: "sched \<Rightarrow> bool" where
  "repairable s \<longleftrightarrow> length (tasks s) = 16 \<and>
     (\<forall>i < 16. used (tasks s ! i) \<and> kernel_stack_base (tasks s ! i) = 0 \<longrightarrow> kernel_stack_top (tasks s ! i) = 0)"

lemma foldM_append: "foldM f (xs @ ys) a = foldM f xs a \<bind> foldM f ys"
proof (induction xs arbitrary: a)
  case (Cons x xs)
  then show ?case by (cases "f x a") simp_all
qed simp

lemma repair_slots_clean:
  assumes "repairable s" "n \<le> 16" "foldM repair_slot [0..<n] (k, s) = Some (m, t)"
  shows "length (tasks t) = 16 \<and> (\<forall>i < n. clean (tasks t ! i)) \<and> (\<forall>i < 16. n \<le> i \<longrightarrow> tasks t ! i = tasks s ! i)"
  using assms(2,3)
proof (induction n arbitrary: m t)
  case 0
  then show ?case using assms(1) by (simp add: repairable_def)
next
  case (Suc n)
  then obtain l u where u: "foldM repair_slot [0..<n] (k, s) = Some (l, u)" "repair_slot n (l, u) = Some (m, t)"
    by (auto simp: foldM_append Option.bind_eq_Some_conv)
  have ih: "length (tasks u) = 16" "\<forall>i < n. clean (tasks u ! i)" "\<forall>i < 16. n \<le> i \<longrightarrow> tasks u ! i = tasks s ! i"
    using Suc.IH [OF _ u(1)] Suc.prems(1) by simp_all
  have "used (tasks u ! n) \<and> kernel_stack_base (tasks u ! n) = 0 \<longrightarrow> kernel_stack_top (tasks u ! n) = 0"
    using ih(3) Suc.prems(1) assms(1) by (simp add: repairable_def)
  then obtain x where "tasks t = (tasks u)[n := x]" "clean x" using repair_slot_clean [OF u(2)] ih(1) Suc.prems(1) by auto
  then show ?case using ih Suc.prems(1) by (auto simp: nth_list_update less_Suc_eq)
qed


text \<open>A table without stacks, whose first slot has a state that does not exist.\<close>

definition damaged_sched :: sched where
  "damaged_sched = new_sched\<lparr>tasks := scheduler_clear_task\<lparr>used := True, state := 9\<rparr> # replicate 15 scheduler_clear_task\<rparr>"

lemma foldM_total:
  assumes "\<And>x a. x \<in> set xs \<Longrightarrow> P a \<Longrightarrow> \<exists>b. f x a = Some b \<and> P b" "P a"
  shows "\<exists>b. foldM f xs a = Some b \<and> P b"
  using assms
proof (induction xs arbitrary: a)
  case (Cons x xs)
  then obtain c where "f x a = Some c" "P c" by (meson list.set_intros(1))
  then show ?case using Cons.IH [of c] Cons.prems(1) by simp
qed simp

lemma repair_returns:
  assumes "\<forall>t \<in> set (tasks s). kernel_stack_base t = 0" "length (tasks s) = 16"
  shows "\<exists>r t. scheduler_repair_unlocked s = Some (r, t)"
proof -
  let ?P = "\<lambda>(n :: u32, s). length (tasks s) = 16 \<and> (\<forall>i < 16. kernel_stack_base (tasks s ! i) = 0)"
  let ?s = "s\<lparr>audit_info := (audit_info s)\<lparr>repairs_run := repairs_run (audit_info s) + 1\<rparr>\<rparr>"
  have "\<exists>b. repair_slot i a = Some b \<and> ?P b" if i: "i \<in> set [0..<16]" and a: "?P a" for i a
  proof -
    obtain n s where s: "a = (n, s)" by fastforce
    have "kernel_stack_base (tasks s ! i) = 0" using a s i by simp
    then show ?thesis using a i
      by (auto simp: s repair_slot_def scheduler_free_kernel_stack_def Let_def nth_list_update)
  qed
  moreover have "?P (0, ?s)" using assms by simp
  ultimately obtain b where "foldM repair_slot [0..<16] (0, ?s) = Some b"
    using foldM_total [of "[0..<16]" ?P repair_slot "(0, ?s)"] by blast
  then show ?thesis by (auto simp: scheduler_repair_unlocked_def Let_def split: prod.splits)
qed


section \<open>A task that disables itself\<close>

lemma find_task_cong:
  assumes "\<And>i. i < 16 \<Longrightarrow> used (tasks t ! i) = used (tasks s ! i) \<and> task_id (tasks t ! i) = task_id (tasks s ! i)"
  shows "scheduler_find_task_by_id_mutable tid t = scheduler_find_task_by_id_mutable tid s"
  unfolding scheduler_find_task_by_id_mutable_def using assms by (intro find_cong) auto

text \<open>
  C37: When the code of a recurring task disables its own task while it runs, the disabled task
  comes back: its stack is freed, but when the code returns the dispatcher marks the slot active again,
  and the table holds an active task without a stack.
\<close>

theorem self_disabled_task_comes_back:
  assumes "sched_inv s" "scheduler_find_task_by_id_mutable tid s = Some i"
    and "state (tasks s ! i) = SCHEDULER_TASK_ACTIVE" "mode (tasks s ! i) = SCHEDULER_TASK_RECURRING"
    and "heap_validate_pointer (kernel_stack_base (tasks s ! i)) (heap s)"
  shows "\<exists>t. scheduler_run_task_now_unlocked (\<lambda>_ s. map_option snd (scheduler_disable_task_unlocked tid s)) tid s = Some (True, t) \<and>
    used (tasks t ! i) \<and> state (tasks t ! i) = SCHEDULER_TASK_ACTIVE \<and> kernel_stack_base (tasks t ! i) = 0 \<and> \<not> sched_inv t"
proof -
  let ?run = "\<lambda>(_ :: u32) s. map_option snd (scheduler_disable_task_unlocked tid s)"
  note f = find_task_Some [OF assms(2)] and ok = sched_inv_tasks_ok [OF assms(1)]
  have l: "length (tasks s) = 16" using tasks_ok_length [OF ok] .
  have e: "task_entry (tasks s ! i) \<noteq> 0" "kernel_stack_base (tasks s ! i) \<noteq> 0"
    using tasks_ok_task [OF ok f(1)] f(2) assms(3) by (auto simp: task_ok_def runnable_def)
  define v where "v = upd_task i (\<lambda>t. t\<lparr>last_run_tick := ticks s\<rparr>) (incr task_dispatches_update (incr manual_dispatches_update s))"
  define u where "u = scheduler_recalculate_task_counts (scheduler_assign_task_state i SCHEDULER_TASK_RUNNING
    (incr trampoline_entries_update v)\<lparr>current_running_task := Some i\<rparr>)"
  define x where "x = (tasks s ! i)\<lparr>last_run_tick := ticks s, state := SCHEDULER_TASK_RUNNING\<rparr>"
  have u: "tasks u = (tasks s)[i := x]" "heap u = heap s" using f(1) l by (simp_all add: u_def v_def x_def)
  have ui: "tasks u ! i = x" using u(1) f(1) l by simp
  have fu: "scheduler_find_task_by_id_mutable tid u = Some i"
    using f(1) l assms(2) by (subst find_task_cong [of u s]) (auto simp: u(1) x_def nth_list_update)
  define w where "w = scheduler_assign_task_state i SCHEDULER_TASK_DISABLED u"
  have w: "tasks w = (tasks s)[i := x\<lparr>state := SCHEDULER_TASK_DISABLED\<rparr>]" "heap w = heap s" using u ui by (simp_all add: w_def)
  have wi: "kernel_stack_base (tasks w ! i) = kernel_stack_base (tasks s ! i)" using w(1) f(1) l by (simp add: x_def)
  obtain A where A: "heap_rep (heap s) A" using ok by (auto simp: tasks_ok_def stacks_def)
  then obtain h where h: "kfree (kernel_stack_base (tasks s ! i)) (heap s) = Some h" using kernel_heap.release_returns by blast
  obtain y where y: "scheduler_free_kernel_stack i w = Some y"
    using e(2) assms(5) wi w(2) h by (simp add: scheduler_free_kernel_stack_def kernel_assert_def Let_def)
  have ty: "tasks y = (tasks s)[i := freed (x\<lparr>state := SCHEDULER_TASK_DISABLED\<rparr>)]" using free_frame(1) [OF y] w(1) f(1) l by simp
  have run: "scheduler_disable_task_unlocked tid u = Some (True, scheduler_recalculate_task_counts y)"
    using fu ui y by (simp add: scheduler_disable_task_unlocked_def x_def w_def)
  define t where "t = scheduler_recalculate_task_counts (scheduler_assign_task_state i SCHEDULER_TASK_ACTIVE
    (upd_task i (\<lambda>t. t\<lparr>run_count := run_count t + 1\<rparr>) ((scheduler_recalculate_task_counts y)\<lparr>current_running_task := None\<rparr>)))"
  have "scheduler_task_trampoline ?run i v = Some t"
    using e(1) f(1) l run assms(4) ty unfolding scheduler_task_trampoline_def Let_def u_def [symmetric]
    by (simp add: t_def v_def x_def)
  then have r: "scheduler_run_task_now_unlocked ?run tid s = Some (True, t)"
    using assms(2,3) by (simp add: scheduler_run_task_now_unlocked_def Let_def v_def)
  have ti: "used (tasks t ! i)" "state (tasks t ! i) = SCHEDULER_TASK_ACTIVE" "kernel_stack_base (tasks t ! i) = 0"
    using ty f(1,2) l by (simp_all add: t_def x_def)
  then have "\<not> task_ok (tasks t ! i)" by (simp add: task_ok_def runnable_def)
  then have "\<not> sched_inv t" using f(1) by (auto simp: sched_inv_def tasks_ok_def)
  then show ?thesis using r ti by blast
qed

theorem self_disabled_task_comes_back_witness:
  "\<exists>t. scheduler_run_task_now_unlocked (\<lambda>_ s. map_option snd (scheduler_disable_task_unlocked 1 s)) 1 busy_sched = Some (True, t) \<and>
    state (tasks t ! 0) = SCHEDULER_TASK_ACTIVE \<and> kernel_stack_base (tasks t ! 0) = 0"
  using self_disabled_task_comes_back [OF busy_sched_inv busy_sched_sel(4)] busy_heap_ok(4) by (auto simp: busy_sched_sel worker_sel)

end
