(* ===== verification/X64_Boot.thy ===== *)
theory X64_Boot
  imports Kernel_Prelude "HOL-Library.Sublist"
begin

text \<open>
  \<^verbatim>\<open>arch/x86_64/boot_info.c\<close>, \<^verbatim>\<open>memory_layout.c\<close>: the Multiboot2 information the
  boot loader leaves in physical memory, parsed into \<^verbatim>\<open>struct x86_64_boot_summary\<close>.

  Physical memory is an argument, a function from addresses to bytes; the structures of the
  Multiboot2 tags are read from it at their offsets, little endian. Offsets inside the
  information block are 32-bit and wrap as they do in the code; pointers are 64-bit. The two
  loops follow sizes found in memory, so both are \<open>partial_function (option)\<close>: \<open>None\<close> is a
  parse that never returns. The three request flags exported by the file are the record
  \<open>boot_requests\<close>. Character buffers are the string up to the terminator.
\<close>

section \<open>Data\<close>

type_synonym memory = "u64 \<Rightarrow> u8"

abbreviation (input) X86_64_BOOTLOADER_NAME_MAX :: nat where "X86_64_BOOTLOADER_NAME_MAX \<equiv> 64"
abbreviation (input) X86_64_BOOT_COMMAND_LINE_MAX :: nat where "X86_64_BOOT_COMMAND_LINE_MAX \<equiv> 128"
abbreviation (input) X86_64_MEMORY_REGION_MAX :: u32 where "X86_64_MEMORY_REGION_MAX \<equiv> 32"
abbreviation (input) X86_64_MEMORY_REGION_AVAILABLE :: u32 where "X86_64_MEMORY_REGION_AVAILABLE \<equiv> 1"
abbreviation (input) X86_64_FRAMEBUFFER_TYPE_RGB :: u8 where "X86_64_FRAMEBUFFER_TYPE_RGB \<equiv> 1"
abbreviation (input) MULTIBOOT2_BOOTLOADER_MAGIC :: u32 where "MULTIBOOT2_BOOTLOADER_MAGIC \<equiv> 0x36D76289"

definition X86_64_EXCEPTION_TEST_FLAG :: string where
  "X86_64_EXCEPTION_TEST_FLAG = ''liam.x86_64.exception_test=ud2''"
definition X86_64_IRQ_TEST_FLAG :: string where
  "X86_64_IRQ_TEST_FLAG = ''liam.x86_64.irq_test=32''"
definition X86_64_INTERACTIVE_SHELL_FLAG :: string where
  "X86_64_INTERACTIVE_SHELL_FLAG = ''liam.x86_64.shell=interactive''"

record x86_64_memory_region =
  region_base :: u64
  region_length :: u64
  region_type :: u32

record x86_64_boot_summary =
  magic :: u32
  boot_info_addr :: u32
  multiboot2_valid :: bool
  total_size :: u32
  command_line_found :: bool
  command_line :: string
  exception_test_requested :: bool
  irq_test_requested :: bool
  shell_interactive_requested :: bool
  bootloader_name_found :: bool
  bootloader_name :: string
  basic_meminfo_found :: bool
  mem_lower_kib :: u32
  mem_upper_kib :: u32
  mmap_found :: bool
  mmap_entry_count :: u32
  memory_region_count :: u32
  usable_bytes :: u64
  framebuffer_found :: bool
  framebuffer_rgb_format_ok :: bool
  framebuffer_addr :: u64
  framebuffer_pitch :: u32
  framebuffer_width :: u32
  framebuffer_height :: u32
  framebuffer_bpp :: u8
  framebuffer_type :: u8
  framebuffer_red_field_position :: u8
  framebuffer_red_mask_size :: u8
  framebuffer_green_field_position :: u8
  framebuffer_green_mask_size :: u8
  framebuffer_blue_field_position :: u8
  framebuffer_blue_mask_size :: u8
  memory_regions :: "x86_64_memory_region list"

record boot_requests =
  exception_self_test :: bool
  irq_self_test :: bool
  shell_interactive :: bool

record x86_64_memory_layout =
  kernel_load_base :: u64
  kernel_start :: u64
  kernel_end :: u64
  kernel_size_bytes :: u64
  bootstrap_identity_map_bytes :: u64
  boot_stack_bytes :: u64
  layout_page_size :: u64
  huge_page_size :: u64

section \<open>Operations\<close>

definition rd32 :: "memory \<Rightarrow> u64 \<Rightarrow> u32" where
  "rd32 mem a = ucast (mem a) OR push_bit 8 (ucast (mem (a + 1))) OR
     push_bit 16 (ucast (mem (a + 2))) OR push_bit 24 (ucast (mem (a + 3)))"

definition rd64 :: "memory \<Rightarrow> u64 \<Rightarrow> u64" where
  "rd64 mem a = ucast (rd32 mem a) OR push_bit 32 (ucast (rd32 mem (a + 4)))"

definition rd_chars :: "memory \<Rightarrow> u64 \<Rightarrow> nat \<Rightarrow> string" where
  "rd_chars mem a n = map (\<lambda>i. char_of (unat (mem (a + of_nat i)))) [0..<n]"

definition align8 :: "u32 \<Rightarrow> u32" where
  "align8 value = (value + 7) AND NOT 7"

definition zero_region :: x86_64_memory_region where
  "zero_region = \<lparr>region_base = 0, region_length = 0, region_type = 0\<rparr>"

definition zero_summary :: x86_64_boot_summary where
  "zero_summary = \<lparr>magic = 0, boot_info_addr = 0, multiboot2_valid = False, total_size = 0,
     command_line_found = False, command_line = [], exception_test_requested = False,
     irq_test_requested = False, shell_interactive_requested = False,
     bootloader_name_found = False, bootloader_name = [], basic_meminfo_found = False,
     mem_lower_kib = 0, mem_upper_kib = 0, mmap_found = False, mmap_entry_count = 0,
     memory_region_count = 0, usable_bytes = 0, framebuffer_found = False,
     framebuffer_rgb_format_ok = False, framebuffer_addr = 0, framebuffer_pitch = 0,
     framebuffer_width = 0, framebuffer_height = 0, framebuffer_bpp = 0, framebuffer_type = 0,
     framebuffer_red_field_position = 0, framebuffer_red_mask_size = 0,
     framebuffer_green_field_position = 0, framebuffer_green_mask_size = 0,
     framebuffer_blue_field_position = 0, framebuffer_blue_mask_size = 0,
     memory_regions = replicate 32 zero_region\<rparr>"

fun copy_bounded_string :: "nat \<Rightarrow> string \<Rightarrow> string" where
  "copy_bounded_string destination_size [] = []"
| "copy_bounded_string destination_size (c # source) =
     (if 1 < destination_size \<and> c \<noteq> CHR 0x00
      then c # copy_bounded_string (destination_size - 1) source else [])"

fun needle_matches :: "string \<Rightarrow> string \<Rightarrow> bool" where
  "needle_matches [] haystack = True"
| "needle_matches (n # needle) [] = False"
| "needle_matches (n # needle) (h # haystack) = (h = n \<and> needle_matches needle haystack)"

fun bounded_string_contains :: "string \<Rightarrow> string \<Rightarrow> bool" where
  "bounded_string_contains [] needle = False"
| "bounded_string_contains (h # haystack) needle =
     (if needle_matches needle (h # haystack) then True else bounded_string_contains haystack needle)"

definition read_mmap_entry :: "memory \<Rightarrow> u64 \<Rightarrow> x86_64_memory_region" where
  "read_mmap_entry mem a =
     \<lparr>region_base = rd64 mem a, region_length = rd64 mem (a + 8), region_type = rd32 mem (a + 16)\<rparr>"

definition retain_memory_region :: "x86_64_memory_region \<Rightarrow> x86_64_boot_summary \<Rightarrow> x86_64_boot_summary" where
  "retain_memory_region e s =
     (if memory_region_count s \<ge> X86_64_MEMORY_REGION_MAX then s
      else s\<lparr>memory_regions := (memory_regions s)[unat (memory_region_count s) := e],
             memory_region_count := memory_region_count s + 1\<rparr>)"

definition add_mmap_entry :: "x86_64_memory_region \<Rightarrow> x86_64_boot_summary \<Rightarrow> x86_64_boot_summary" where
  "add_mmap_entry e s =
     (let s = retain_memory_region e (s\<lparr>mmap_entry_count := mmap_entry_count s + 1\<rparr>)
      in if region_type e = X86_64_MEMORY_REGION_AVAILABLE
         then s\<lparr>usable_bytes := usable_bytes s + region_length e\<rparr> else s)"

partial_function (option) mmap_loop ::
  "memory \<Rightarrow> u64 \<Rightarrow> u64 \<Rightarrow> u64 \<Rightarrow> x86_64_boot_summary \<Rightarrow> x86_64_boot_summary option" where
  "mmap_loop mem entry_size entry end_address s =
     (if entry + entry_size \<le> end_address
      then mmap_loop mem entry_size (entry + entry_size) end_address
             (add_mmap_entry (read_mmap_entry mem entry) s)
      else Some s)"

definition parse_mmap_tag :: "memory \<Rightarrow> u64 \<Rightarrow> x86_64_boot_summary \<Rightarrow> x86_64_boot_summary option" where
  "parse_mmap_tag mem tag s =
     (let entry_size = rd32 mem (tag + 8); size = rd32 mem (tag + 4)
      in if entry_size < 24 \<or> size < 16 then Some s
         else mmap_loop mem (ucast entry_size) (tag + 16) (tag + ucast size) (s\<lparr>mmap_found := True\<rparr>))"

definition parse_framebuffer_tag :: "memory \<Rightarrow> u64 \<Rightarrow> x86_64_boot_summary \<Rightarrow> x86_64_boot_summary" where
  "parse_framebuffer_tag mem tag s =
     (let size = rd32 mem (tag + 4)
      in if size < 32 then s
         else
           let s = s\<lparr>framebuffer_found := True, framebuffer_addr := rd64 mem (tag + 8),
                     framebuffer_pitch := rd32 mem (tag + 16), framebuffer_width := rd32 mem (tag + 20),
                     framebuffer_height := rd32 mem (tag + 24), framebuffer_bpp := mem (tag + 28),
                     framebuffer_type := mem (tag + 29), framebuffer_rgb_format_ok := False\<rparr>
           in if framebuffer_type s = X86_64_FRAMEBUFFER_TYPE_RGB \<and> size \<ge> 38
              then
                let s = s\<lparr>framebuffer_red_field_position := mem (tag + 32),
                          framebuffer_red_mask_size := mem (tag + 33),
                          framebuffer_green_field_position := mem (tag + 34),
                          framebuffer_green_mask_size := mem (tag + 35),
                          framebuffer_blue_field_position := mem (tag + 36),
                          framebuffer_blue_mask_size := mem (tag + 37)\<rparr>
                in s\<lparr>framebuffer_rgb_format_ok :=
                       framebuffer_addr s \<noteq> 0 \<and> framebuffer_width s \<noteq> 0 \<and> framebuffer_height s \<noteq> 0 \<and>
                       framebuffer_pitch s \<noteq> 0 \<and> framebuffer_bpp s \<ge> 24 \<and>
                       framebuffer_red_mask_size s \<noteq> 0 \<and> framebuffer_green_mask_size s \<noteq> 0 \<and>
                       framebuffer_blue_mask_size s \<noteq> 0\<rparr>
              else s)"

definition parse_command_line ::
  "string \<Rightarrow> x86_64_boot_summary \<times> boot_requests \<Rightarrow> x86_64_boot_summary \<times> boot_requests" where
  "parse_command_line source sg =
     (let (s, g) = sg;
          line = copy_bounded_string X86_64_BOOT_COMMAND_LINE_MAX source;
          s = s\<lparr>command_line_found := True, command_line := line,
                exception_test_requested := bounded_string_contains line X86_64_EXCEPTION_TEST_FLAG,
                irq_test_requested := bounded_string_contains line X86_64_IRQ_TEST_FLAG,
                shell_interactive_requested := bounded_string_contains line X86_64_INTERACTIVE_SHELL_FLAG\<rparr>
      in (s, \<lparr>exception_self_test = exception_test_requested s, irq_self_test = irq_test_requested s,
              shell_interactive = shell_interactive_requested s\<rparr>))"

definition parse_tag ::
  "memory \<Rightarrow> u64 \<Rightarrow> x86_64_boot_summary \<times> boot_requests \<Rightarrow> (x86_64_boot_summary \<times> boot_requests) option" where
  "parse_tag mem tag sg =
     (let (s, g) = sg; tag_type = rd32 mem tag; size = rd32 mem (tag + 4)
      in if tag_type = 1 then Some (parse_command_line (rd_chars mem (tag + 8) (unat (size - 8))) (s, g))
         else if tag_type = 2
         then Some (s\<lparr>bootloader_name_found := True,
                      bootloader_name := copy_bounded_string X86_64_BOOTLOADER_NAME_MAX
                                           (rd_chars mem (tag + 8) (unat (size - 8)))\<rparr>, g)
         else if tag_type = 4
         then Some (if size \<ge> 16
                    then s\<lparr>basic_meminfo_found := True, mem_lower_kib := rd32 mem (tag + 8),
                           mem_upper_kib := rd32 mem (tag + 12)\<rparr> else s, g)
         else if tag_type = 6 then map_option (\<lambda>s. (s, g)) (parse_mmap_tag mem tag s)
         else if tag_type = 8 then Some (parse_framebuffer_tag mem tag s, g)
         else Some (s, g))"

partial_function (option) tag_loop ::
  "memory \<Rightarrow> u32 \<Rightarrow> u32 \<Rightarrow> u32 \<Rightarrow> x86_64_boot_summary \<times> boot_requests \<Rightarrow>
     (x86_64_boot_summary \<times> boot_requests) option" where
  "tag_loop mem addr total_bytes offset sg =
     (if (ucast offset :: u64) + 8 \<le> ucast total_bytes
      then let tag = ucast (addr + offset) :: u64; size = rd32 mem (tag + 4)
           in if rd32 mem tag = 0 then Some sg
              else if size < 8 then Some ((fst sg)\<lparr>multiboot2_valid := False\<rparr>, snd sg)
              else if offset + size > total_bytes then Some ((fst sg)\<lparr>multiboot2_valid := False\<rparr>, snd sg)
              else Option.bind (parse_tag mem tag sg) (tag_loop mem addr total_bytes (offset + align8 size))
      else Some sg)"

definition no_requests :: boot_requests where
  "no_requests = \<lparr>exception_self_test = False, irq_self_test = False, shell_interactive = False\<rparr>"

definition x86_64_boot_info_parse ::
  "memory \<Rightarrow> u32 \<Rightarrow> u32 \<Rightarrow> (x86_64_boot_summary \<times> boot_requests) option" where
  "x86_64_boot_info_parse mem m addr =
     (let s = zero_summary\<lparr>magic := m, boot_info_addr := addr\<rparr>
      in if m \<noteq> MULTIBOOT2_BOOTLOADER_MAGIC \<or> addr = 0 then Some (s, no_requests)
         else
           let total_bytes = rd32 mem (ucast addr);
               s = s\<lparr>multiboot2_valid := True, total_size := total_bytes\<rparr>
           in if total_bytes < 8 then Some (s\<lparr>multiboot2_valid := False\<rparr>, no_requests)
              else map_option
                     (\<lambda>(s, g).
                        if \<not> multiboot2_valid s
                        then (s\<lparr>exception_test_requested := False, irq_test_requested := False,
                                shell_interactive_requested := False\<rparr>, no_requests)
                        else (s, g))
                     (tag_loop mem addr total_bytes 8 (s, no_requests)))"

definition x86_64_memory_layout_init :: "u64 \<Rightarrow> u64 \<Rightarrow> x86_64_memory_layout" where
  "x86_64_memory_layout_init start_symbol end_symbol =
     \<lparr>kernel_load_base = 0x00100000, kernel_start = start_symbol, kernel_end = end_symbol,
      kernel_size_bytes = end_symbol - start_symbol, bootstrap_identity_map_bytes = 0x40000000,
      boot_stack_bytes = 16384, layout_page_size = 4096, huge_page_size = 0x200000\<rparr>"

section \<open>Strings\<close>

lemma copy_bounded_string_eq:
  "copy_bounded_string d cs = takeWhile (\<lambda>c. c \<noteq> CHR 0x00) (take (d - 1) cs)"
proof (induction d cs rule: copy_bounded_string.induct)
  case (2 d c cs)
  then show ?case by (auto simp: take_Cons' diff_diff_eq)
qed simp

lemma needle_matches_prefix: "needle_matches n h \<longleftrightarrow> prefix n h"
  by (induction n h rule: needle_matches.induct) auto

lemma bounded_string_contains_sublist:
  "n \<noteq> [] \<Longrightarrow> bounded_string_contains h n \<longleftrightarrow> sublist n h"
  by (induction h) (auto simp: needle_matches_prefix sublist_Cons_right)

section \<open>The memory map\<close>

definition summary_wf :: "x86_64_boot_summary \<Rightarrow> bool" where
  "summary_wf s \<longleftrightarrow> length (memory_regions s) = 32 \<and> memory_region_count s \<le> 32"

definition retained :: "x86_64_boot_summary \<Rightarrow> x86_64_memory_region list" where
  "retained s = take (unat (memory_region_count s)) (memory_regions s)"

definition usable_length :: "x86_64_memory_region \<Rightarrow> u64" where
  "usable_length e = (if region_type e = X86_64_MEMORY_REGION_AVAILABLE then region_length e else 0)"

lemma zero_summary_sel [simp]:
  "command_line zero_summary = []" "bootloader_name zero_summary = []"
  "\<not> multiboot2_valid zero_summary" "\<not> exception_test_requested zero_summary"
  "\<not> irq_test_requested zero_summary" "\<not> shell_interactive_requested zero_summary"
  "memory_region_count zero_summary = 0" "memory_regions zero_summary = replicate 32 zero_region"
  by (simp_all add: zero_summary_def)

lemma retain_memory_region_retained:
  assumes "summary_wf s"
  shows "summary_wf (retain_memory_region e s)"
    "retained (retain_memory_region e s) = take 32 (retained s @ [e])"
proof -
  let ?n = "unat (memory_region_count s)"
  have l: "length (memory_regions s) = 32" "?n \<le> 32"
    using assms by (auto simp: summary_wf_def word_le_nat_alt)
  have n: "unat (memory_region_count s + 1) = Suc ?n" using l(2) by (simp add: unat_plus_if')
  show "summary_wf (retain_memory_region e s)"
    using assms n by (auto simp: retain_memory_region_def summary_wf_def word_le_nat_alt)
  show "retained (retain_memory_region e s) = take 32 (retained s @ [e])"
    using l n by (auto simp: retain_memory_region_def retained_def word_le_nat_alt
        take_Suc_conv_app_nth)
qed

lemma add_mmap_entry_retained:
  assumes "summary_wf s"
  shows "summary_wf (add_mmap_entry e s)"
    "retained (add_mmap_entry e s) = take 32 (retained s @ [e])"
    "usable_bytes (add_mmap_entry e s) = usable_bytes s + usable_length e"
    "mmap_entry_count (add_mmap_entry e s) = mmap_entry_count s + 1"
proof -
  let ?s = "s\<lparr>mmap_entry_count := mmap_entry_count s + 1\<rparr>"
  have wf: "summary_wf ?s" and r: "retained ?s = retained s"
    using assms by (auto simp: summary_wf_def retained_def)
  note t = retain_memory_region_retained [OF wf, of e, unfolded r]
  show "summary_wf (add_mmap_entry e s)" "retained (add_mmap_entry e s) = take 32 (retained s @ [e])"
    using t by (auto simp: add_mmap_entry_def Let_def summary_wf_def retained_def)
  show "usable_bytes (add_mmap_entry e s) = usable_bytes s + usable_length e"
    "mmap_entry_count (add_mmap_entry e s) = mmap_entry_count s + 1"
    by (auto simp: add_mmap_entry_def Let_def usable_length_def retain_memory_region_def)
qed

lemma add_mmap_entries:
  assumes "summary_wf s"
  shows "summary_wf (fold add_mmap_entry es s) \<and>
    retained (fold add_mmap_entry es s) = take 32 (retained s @ es) \<and>
    usable_bytes (fold add_mmap_entry es s) = usable_bytes s + sum_list (map usable_length es) \<and>
    mmap_entry_count (fold add_mmap_entry es s) = mmap_entry_count s + of_nat (length es)"
  using assms
proof (induction es arbitrary: s)
  case Nil
  then show ?case by (auto simp: retained_def summary_wf_def word_le_nat_alt)
next
  case (Cons e es)
  note a = add_mmap_entry_retained [OF Cons.prems, of e]
  have "take 32 (take 32 (retained s @ [e]) @ es) = take 32 (retained s @ e # es)"
    by (simp add: take_append min_def) (auto simp: take_Cons' not_le)
  with Cons.IH [OF a(1)] a show ?case by (simp add: algebra_simps)
qed

definition mmap_entries :: "memory \<Rightarrow> u64 \<Rightarrow> u64 \<Rightarrow> u64 \<Rightarrow> x86_64_memory_region list" where
  "mmap_entries mem entry_size entry end_address =
     map (\<lambda>i. read_mmap_entry mem (entry + of_nat i * entry_size))
       [0..<(unat end_address - unat entry) div unat entry_size]"

text \<open>
  The loop over the entries returns and folds \<open>add_mmap_entry\<close> over the whole entries of the
  tag, whatever the size of an entry, since the pointers stay far below the top of memory.
\<close>

lemma mmap_loop_eq:
  assumes "entry_size > 0" "unat end_address + unat entry_size < 2 ^ 64" "entry \<le> end_address"
  shows "mmap_loop mem entry_size entry end_address s =
    Some (fold add_mmap_entry (mmap_entries mem entry_size entry end_address) s)"
  using assms(3)
proof (induction "unat end_address - unat entry" arbitrary: entry s rule: less_induct)
  case less
  have pos: "unat entry_size > 0" using assms(1) by (simp add: word_less_nat_alt)
  show ?case
  proof (cases "unat entry + unat entry_size \<le> unat end_address")
    case True
    then have u: "unat (entry + entry_size) = unat entry + unat entry_size"
      using assms(2) by (simp add: unat_plus_if')
    have d: "(unat end_address - unat entry) div unat entry_size =
        Suc ((unat end_address - unat (entry + entry_size)) div unat entry_size)"
      using True pos u by (simp add: le_div_geq)
    have "mmap_entries mem entry_size entry end_address =
        read_mmap_entry mem entry # mmap_entries mem entry_size (entry + entry_size) end_address"
      unfolding mmap_entries_def d
      by (simp add: upt_conv_Cons map_Suc_upt [symmetric] algebra_simps del: upt_Suc)
    then show ?thesis
      using less(1) [of "entry + entry_size"] True u pos
      by (subst mmap_loop.simps) (simp add: word_le_nat_alt)
  next
    case False
    then have "unat end_address - unat entry < unat entry_size" using pos by linarith
    then have "mmap_entries mem entry_size entry end_address = []" by (simp add: mmap_entries_def)
    moreover have "\<not> entry + entry_size \<le> end_address"
      using False assms(2) less.prems by (auto simp: word_le_nat_alt unat_plus_if')
    ultimately show ?thesis by (subst mmap_loop.simps) simp
  qed
qed

lemma parse_mmap_tag_eq:
  assumes "unat tag < 2 ^ 32"
  shows "parse_mmap_tag mem tag s =
    (if rd32 mem (tag + 8) < 24 \<or> rd32 mem (tag + 4) < 16 then Some s
     else Some (fold add_mmap_entry
       (mmap_entries mem (ucast (rd32 mem (tag + 8))) (tag + 16) (tag + ucast (rd32 mem (tag + 4))))
       (s\<lparr>mmap_found := True\<rparr>)))"
proof -
  let ?e = "ucast (rd32 mem (tag + 8)) :: u64" and ?z = "ucast (rd32 mem (tag + 4)) :: u64"
  have e: "unat ?e = unat (rd32 mem (tag + 8))" and z: "unat ?z = unat (rd32 mem (tag + 4))"
    by simp_all
  have b: "unat ?e < 2 ^ 32" "unat ?z < 2 ^ 32"
    using unat_u32_bound [of "rd32 mem (tag + 8)"] unat_u32_bound [of "rd32 mem (tag + 4)"]
    by (simp_all add: e z)
  have u: "unat (tag + ?z) = unat tag + unat ?z" "unat (tag + 16) = unat tag + 16"
    using assms b(2) by (simp_all add: unat_plus_if')
  have "mmap_loop mem ?e (tag + 16) (tag + ?z) t =
      Some (fold add_mmap_entry (mmap_entries mem ?e (tag + 16) (tag + ?z)) t)"
    if "\<not> rd32 mem (tag + 8) < 24" "\<not> rd32 mem (tag + 4) < 16" for t
    using that b u assms
    by (intro mmap_loop_eq) (auto simp: word_less_nat_alt word_le_nat_alt e z)
  then show ?thesis by (simp add: parse_mmap_tag_def Let_def)
qed

section \<open>The tag loop\<close>

text \<open>What every tag keeps: a well-formed summary whose request flags agree with the exported ones.\<close>

definition requests_agree :: "x86_64_boot_summary \<times> boot_requests \<Rightarrow> bool" where
  "requests_agree sg \<longleftrightarrow>
     (let (s, g) = sg in
        exception_self_test g = exception_test_requested s \<and> irq_self_test g = irq_test_requested s \<and>
        shell_interactive g = shell_interactive_requested s)"

definition parse_ok :: "x86_64_boot_summary \<times> boot_requests \<Rightarrow> bool" where
  "parse_ok sg \<longleftrightarrow> summary_wf (fst sg) \<and> requests_agree sg \<and>
     length (command_line (fst sg)) < 128 \<and> length (bootloader_name (fst sg)) < 64 \<and>
     (exception_test_requested (fst sg) \<longleftrightarrow> sublist X86_64_EXCEPTION_TEST_FLAG (command_line (fst sg))) \<and>
     (irq_test_requested (fst sg) \<longleftrightarrow> sublist X86_64_IRQ_TEST_FLAG (command_line (fst sg))) \<and>
     (shell_interactive_requested (fst sg) \<longleftrightarrow>
        sublist X86_64_INTERACTIVE_SHELL_FLAG (command_line (fst sg)))"

lemma copy_bounded_string_length: "0 < d \<Longrightarrow> length (copy_bounded_string d cs) < d"
  by (auto simp: copy_bounded_string_eq intro!: le_less_trans [OF length_takeWhile_le])

lemma flags_not_empty [simp]:
  "X86_64_EXCEPTION_TEST_FLAG \<noteq> []" "X86_64_IRQ_TEST_FLAG \<noteq> []" "X86_64_INTERACTIVE_SHELL_FLAG \<noteq> []"
  by (simp_all add: X86_64_EXCEPTION_TEST_FLAG_def X86_64_IRQ_TEST_FLAG_def
      X86_64_INTERACTIVE_SHELL_FLAG_def)

lemma parse_command_line_ok:
  "parse_ok (s, g) \<Longrightarrow> parse_ok (parse_command_line cs (s, g))"
  using copy_bounded_string_length [of 128 cs]
  by (simp add: parse_ok_def parse_command_line_def Let_def requests_agree_def summary_wf_def
      bounded_string_contains_sublist)

lemma parse_framebuffer_tag_ok:
  "parse_ok (s, g) \<Longrightarrow> parse_ok (parse_framebuffer_tag mem tag s, g)"
  by (simp add: parse_ok_def parse_framebuffer_tag_def Let_def requests_agree_def summary_wf_def)

lemma add_mmap_entry_ok: "parse_ok (s, g) \<Longrightarrow> parse_ok (add_mmap_entry e s, g)"
  using add_mmap_entry_retained(1) [of s e]
  by (simp add: parse_ok_def requests_agree_def)
    (simp add: add_mmap_entry_def retain_memory_region_def Let_def)

lemma fold_add_mmap_entry_ok: "parse_ok (s, g) \<Longrightarrow> parse_ok (fold add_mmap_entry es s, g)"
  by (induction es arbitrary: s) (simp_all add: add_mmap_entry_ok)

lemma parse_tag_ok:
  assumes "parse_ok sg" "unat tag < 2 ^ 32"
  shows "\<exists>sg'. parse_tag mem tag sg = Some sg' \<and> parse_ok sg'"
proof -
  obtain s g where sg: "sg = (s, g)" by fastforce
  note ok = assms(1) [unfolded sg]
  have "parse_ok (fold add_mmap_entry es (s\<lparr>mmap_found := True\<rparr>), g)" for es
    using assms(1) sg by (intro fold_add_mmap_entry_ok) (simp add: parse_ok_def requests_agree_def summary_wf_def)
  then obtain s' where "parse_mmap_tag mem tag s = Some s'" "parse_ok (s', g)"
    using assms sg by (cases "rd32 mem (tag + 8) < 24 \<or> rd32 mem (tag + 4) < 16") (auto simp: parse_mmap_tag_eq)
  moreover have "parse_ok (s\<lparr>bootloader_name_found := True,
      bootloader_name := copy_bounded_string 64 cs\<rparr>, g)" for cs
    using assms(1) sg copy_bounded_string_length [of 64 cs]
    by (simp add: parse_ok_def requests_agree_def summary_wf_def)
  moreover have "parse_ok (s\<lparr>basic_meminfo_found := True, mem_lower_kib := l, mem_upper_kib := u\<rparr>, g)" for l u
    using assms(1) sg by (simp add: parse_ok_def requests_agree_def summary_wf_def)
  moreover note parse_command_line_ok [OF ok] parse_framebuffer_tag_ok [OF ok, of mem tag] ok
  ultimately show ?thesis
    unfolding sg parse_tag_def by (simp add: Let_def del: split_paired_Ex)
qed

lemma align8_ge:
  assumes "unat x + 7 < 2 ^ 32"
  shows "unat x \<le> unat (align8 x) \<and> unat (align8 x) \<le> unat x + 7"
proof -
  have "unat (x + 7) = unat x + 7" using assms by (simp add: unat_plus_if')
  then have "unat (align8 x) = (unat x + 7) div 8 * 8"
    using unat_and_not_low [of 3 "x + 7"] by (simp add: align8_def)
  moreover have "unat x \<le> (unat x + 7) div 8 * 8" by linarith
  ultimately show ?thesis by simp
qed

text \<open>The sizes of the tags do not carry an offset past 4 GiB.\<close>

definition tags_fit :: "memory \<Rightarrow> u32 \<Rightarrow> bool" where
  "tags_fit mem addr \<longleftrightarrow>
     (\<forall>offset. unat offset + 8 \<le> unat (rd32 mem (ucast addr)) \<longrightarrow>
        unat offset + unat (rd32 mem (ucast (addr + offset) + 4)) + 7 < 2 ^ 32)"

lemma tag_loop_returns:
  assumes "tags_fit mem addr" "parse_ok sg"
  shows "\<exists>sg'. tag_loop mem addr (rd32 mem (ucast addr)) offset sg = Some sg' \<and> parse_ok sg'"
  using assms(2)
proof (induction "2 ^ 32 - unat offset" arbitrary: offset sg rule: less_induct)
  case less
  let ?t = "rd32 mem (ucast addr)" and ?tag = "ucast (addr + offset) :: u64"
  let ?z = "rd32 mem (?tag + 4)"
  show ?case
  proof (cases "(ucast offset :: u64) + 8 \<le> ucast ?t \<and> rd32 mem ?tag \<noteq> 0 \<and> \<not> ?z < 8 \<and> \<not> offset + ?z > ?t")
    case True
    have "unat ((ucast offset :: u64) + 8) = unat offset + 8"
      using unat_u32_bound [of offset] by (simp add: unat_plus_if')
    then have "unat offset + 8 \<le> unat ?t" using True by (simp add: word_le_nat_alt)
    then have z: "unat offset + unat ?z + 7 < 2 ^ 32" using assms(1) by (simp add: tags_fit_def)
    then have "unat offset < unat (offset + align8 ?z)"
      using align8_ge [of ?z] True by (simp add: unat_plus_if' word_less_nat_alt)
    then have d: "2 ^ 32 - unat (offset + align8 ?z) < 2 ^ 32 - unat offset"
      using unat_u32_bound [of "offset + align8 ?z"] by simp
    have "unat ?tag < 2 ^ 32" using unat_u32_bound [of "addr + offset"] by simp
    from parse_tag_ok [OF less.prems this, of mem]
    obtain sg1 where "parse_tag mem ?tag sg = Some sg1" "parse_ok sg1" by blast
    with less.hyps [OF d, of sg1] True show ?thesis
      by (subst tag_loop.simps) (simp add: Let_def del: split_paired_Ex)
  next
    case False
    have "parse_ok ((fst sg)\<lparr>multiboot2_valid := False\<rparr>, snd sg)"
      using less.prems by (cases sg) (simp add: parse_ok_def requests_agree_def summary_wf_def)
    with less.prems False show ?thesis
      by (subst tag_loop.simps) (auto simp: Let_def simp del: split_paired_Ex)
  qed
qed

text \<open>
  A tag whose size is within seven of 4 GiB wraps both the bounds check and the step to the
  next tag: the loop stays where it is.
\<close>

lemma tag_loop_stuck:
  assumes "total_bytes \<ge> 16" "rd32 mem (ucast (addr + 8)) = 3"
    "rd32 mem (ucast (addr + 8) + 4) \<ge> 0xFFFFFFF9"
  shows "tag_loop mem addr total_bytes 8 sg = None"
proof -
  let ?z = "rd32 mem (ucast (addr + 8) + 4)"
  have z: "unat ?z \<ge> 0xFFFFFFF9" using assms(3) by (simp add: word_le_nat_alt)
  have "unat (7 + ?z) < 8" using z unat_u32_bound [of ?z] by (simp add: unat_plus_if')
  then have "unat (align8 ?z) = 0"
    using unat_and_not_low [of 3 "7 + ?z"] by (simp add: align8_def add.commute)
  then have a: "align8 ?z = 0" by (simp add: unat_eq_zero)
  have o: "8 + ?z \<le> total_bytes"
    using z unat_u32_bound [of ?z] assms(1) by (simp add: word_le_nat_alt unat_plus_if')
  have le: "16 \<le> (ucast total_bytes :: u64)" using assms(1) by (simp add: word_le_nat_alt)
  have False if "tag_loop mem addr total_bytes 8 sg = Some r" for r
  proof -
    have "\<not> (mem = mem \<and> addr = addr \<and> total_bytes = total_bytes \<and> (8 :: u32) = 8)"
    proof (rule tag_loop.raw_induct [where P = "\<lambda>m a t off sg r.
        \<not> (m = mem \<and> a = addr \<and> t = total_bytes \<and> off = 8)", OF _ that])
      fix loop :: "memory \<Rightarrow> u32 \<Rightarrow> u32 \<Rightarrow> u32 \<Rightarrow> x86_64_boot_summary \<times> boot_requests \<Rightarrow>
          (x86_64_boot_summary \<times> boot_requests) option" and m a t off sg y
      assume IH: "\<And>m a t off sg y. loop m a t off sg = Some y \<Longrightarrow> \<not> (m = mem \<and> a = addr \<and> t = total_bytes \<and> off = 8)"
      assume step: "(if (ucast off :: u64) + 8 \<le> ucast t
      then let tag = ucast (a + off) :: u64; size = rd32 m (tag + 4)
           in if rd32 m tag = 0 then Some sg
              else if size < 8 then Some ((fst sg)\<lparr>multiboot2_valid := False\<rparr>, snd sg)
              else if off + size > t then Some ((fst sg)\<lparr>multiboot2_valid := False\<rparr>, snd sg)
              else Option.bind (parse_tag m tag sg) (loop m a t (off + align8 size))
      else Some sg) = Some y"
      show "\<not> (m = mem \<and> a = addr \<and> t = total_bytes \<and> off = 8)"
      proof
        assume e: "m = mem \<and> a = addr \<and> t = total_bytes \<and> off = 8"
        have "\<not> ?z < 8" using z by (simp add: word_less_nat_alt)
        with step e a leD [OF o] le assms(2) have "loop mem addr total_bytes 8 sg = Some y"
          by (cases sg) (simp add: Let_def parse_tag_def)
        from IH [OF this] show False by simp
      qed
    qed
    then show False by simp
  qed
  then show ?thesis by (cases "tag_loop mem addr total_bytes 8 sg") auto
qed

section \<open>Properties\<close>

text \<open>Small memories for the witnesses.\<close>

definition mem_of :: "u64 \<Rightarrow> u8 list \<Rightarrow> memory" where
  "mem_of start bytes a = (if unat (a - start) < length bytes then bytes ! unat (a - start) else 0)"

definition hang_block :: "u8 list" where
  "hang_block = [16, 0, 0, 0, 0, 0, 0, 0, 3, 0, 0, 0, 0xFF, 0xFF, 0xFF, 0xFF]"

definition mmap_block :: "u8 list" where
  "mmap_block = [6, 0, 0, 0, 40, 0, 0, 0, 24, 0, 0, 0, 0, 0, 0, 0,
     0, 0, 0x10, 0, 0, 0, 0, 0, 0, 0x80, 0, 0, 0, 0, 0, 0, 1, 0, 0, 0, 0, 0, 0, 0]"

lemma mmap_block_reads:
  "rd32 (mem_of 0x2000 mmap_block) 0x2008 = 24" "rd32 (mem_of 0x2000 mmap_block) 0x2004 = 40"
  "read_mmap_entry (mem_of 0x2000 mmap_block) 0x2010 =
     \<lparr>region_base = 0x100000, region_length = 0x8000, region_type = 1\<rparr>"
  by (simp_all add: rd32_def mem_of_def mmap_block_def read_mmap_entry_def rd64_def)

definition header_only :: memory where
  "header_only a = (if a = 0x1000 then 64 else 0)"

lemma header_only_reads: "unat (rd32 header_only a) \<le> 0x40000000"
  by (auto simp: rd32_def header_only_def)



text \<open>
  A memory map tag with whole entries is folded into the summary entry by entry: the first
  32 entries are retained in order, \<open>usable_bytes\<close> grows by the lengths of all the
  available ones, retained or not, and \<open>mmap_entry_count\<close> by the number of entries.
\<close>

theorem parse_mmap_tag_correct:
  assumes "summary_wf s" and "unat tag < 2 ^ 32"
    and "rd32 mem (tag + 8) \<ge> 24" and "rd32 mem (tag + 4) \<ge> 16"
    and "es = mmap_entries mem (ucast (rd32 mem (tag + 8))) (tag + 16) (tag + ucast (rd32 mem (tag + 4)))"
  shows "\<exists>s'. parse_mmap_tag mem tag s = Some s' \<and> mmap_found s' \<and> summary_wf s' \<and>
    retained s' = take 32 (retained s @ es) \<and>
    usable_bytes s' = usable_bytes s + sum_list (map usable_length es) \<and>
    mmap_entry_count s' = mmap_entry_count s + of_nat (length es)"
proof -
  let ?s = "s\<lparr>mmap_found := True\<rparr>"
  have "mmap_found (fold add_mmap_entry es t)" if "mmap_found t" for t
    using that by (induction es arbitrary: t)
      (simp_all add: add_mmap_entry_def retain_memory_region_def Let_def)
  moreover have "summary_wf ?s" "retained ?s = retained s"
    using assms(1) by (simp_all add: summary_wf_def retained_def)
  moreover have "parse_mmap_tag mem tag s = Some (fold add_mmap_entry es ?s)"
    using assms(2-5) by (auto simp: parse_mmap_tag_eq)
  ultimately show ?thesis using add_mmap_entries [of ?s es] by simp
qed

theorem parse_mmap_tag_correct_witness:
  "\<exists>s'. parse_mmap_tag (mem_of 0x2000 mmap_block) 0x2000 zero_summary = Some s' \<and>
     retained s' = [\<lparr>region_base = 0x100000, region_length = 0x8000, region_type = 1\<rparr>] \<and>
     usable_bytes s' = usable_bytes zero_summary + 0x8000"
proof -
  have "mmap_entries (mem_of 0x2000 mmap_block) 24 0x2010 0x2028 =
      [\<lparr>region_base = 0x100000, region_length = 0x8000, region_type = 1\<rparr>]"
    by (simp add: mmap_entries_def mmap_block_reads)
  moreover have "summary_wf zero_summary" "retained zero_summary = []"
    by (simp_all add: summary_wf_def retained_def)
  ultimately show ?thesis
    using parse_mmap_tag_correct [of zero_summary "0x2000" "mem_of 0x2000 mmap_block", OF _ _ _ _ refl]
    by (simp add: mmap_block_reads usable_length_def) blast
qed

text \<open>
  C31: a boot information block whose first tag (of a type the kernel skips) has a size of
  at least \<open>0xFFFFFFF9\<close> hangs the parser: \<^verbatim>\<open>offset + tag->size\<close> wraps below
  \<^verbatim>\<open>total_size\<close>, so the bounds check passes, and the aligned size is 0.
\<close>

theorem x86_64_boot_info_parse_hangs:
  assumes "addr \<noteq> 0" and "rd32 mem (ucast addr) \<ge> 16"
    and "rd32 mem (ucast (addr + 8)) = 3" and "rd32 mem (ucast (addr + 8) + 4) \<ge> 0xFFFFFFF9"
  shows "x86_64_boot_info_parse mem MULTIBOOT2_BOOTLOADER_MAGIC addr = None"
proof -
  have "\<not> rd32 mem (ucast addr) < 8" using assms(2) by (simp add: word_le_nat_alt word_less_nat_alt)
  then show ?thesis
    using assms(1) tag_loop_stuck [OF assms(2-4)] by (simp add: x86_64_boot_info_parse_def Let_def)
qed

theorem x86_64_boot_info_parse_hangs_witness:
  "x86_64_boot_info_parse (mem_of 0x1000 hang_block) MULTIBOOT2_BOOTLOADER_MAGIC 0x1000 = None"
  by (rule x86_64_boot_info_parse_hangs) (simp_all add: rd32_def mem_of_def hang_block_def)

end
