(* ===== verification/X64_Pmm.thy ===== *)
theory X64_Pmm
  imports Page_Allocator X64_Boot
begin

text \<open>
  \<^verbatim>\<open>arch/x86_64/pmm.c\<close> and \<^verbatim>\<open>pmm_plan.c\<close>: the page stack of the x86_64 kernel and the
  boot-time plan that sizes it. Every page of every usable region above the kernel image is
  pushed once at boot; allocation pops, release pushes.

  State: \<open>x64_pmm\<close> is \<^verbatim>\<open>struct x86_64_pmm_state\<close> with the array \<^verbatim>\<open>page_stack\<close>. The set of
  pages pushed at boot is not kept by the code; the invariant carries it as a ghost argument
  \<open>M\<close>. The loop over a range counts upwards in 64 bits and is a \<open>partial_function (option)\<close>.
\<close>

section \<open>State and operations\<close>

abbreviation (input) X86_64_PAGE_SIZE :: u64 where "X86_64_PAGE_SIZE \<equiv> 4096"
abbreviation (input) X86_64_PMM_MAX_TRACKED_PAGES :: u32 where "X86_64_PMM_MAX_TRACKED_PAGES \<equiv> 65536"
abbreviation (input) X86_64_PMM_INVALID_PAGE :: u64 where "X86_64_PMM_INVALID_PAGE \<equiv> 0"

record x64_pmm =
  initialized :: bool
  tracked_pages :: u32
  free_pages :: u32
  dropped_pages :: u32
  duplicate_free_rejects :: u32
  lowest_page :: u64
  highest_page :: u64
  page_stack :: "u64 list"

definition align_down :: "u64 \<Rightarrow> u64 \<Rightarrow> u64" where
  "align_down value alignment = value AND NOT (alignment - 1)"

definition zero_state :: "x64_pmm \<Rightarrow> x64_pmm" where
  "zero_state s = s\<lparr>initialized := False, tracked_pages := 0, free_pages := 0, dropped_pages := 0,
     duplicate_free_rejects := 0, lowest_page := 0, highest_page := 0\<rparr>"

definition track_page :: "u64 \<Rightarrow> x64_pmm \<Rightarrow> x64_pmm" where
  "track_page page s =
     (if tracked_pages s \<ge> X86_64_PMM_MAX_TRACKED_PAGES
      then s\<lparr>dropped_pages := dropped_pages s + 1\<rparr>
      else
        let s = s\<lparr>page_stack := (page_stack s)[unat (free_pages s) := page],
                  free_pages := free_pages s + 1, tracked_pages := tracked_pages s + 1\<rparr>;
            s = (if lowest_page s = 0 \<or> page < lowest_page s then s\<lparr>lowest_page := page\<rparr> else s)
        in if page > highest_page s then s\<lparr>highest_page := page\<rparr> else s)"

partial_function (option) track_loop :: "u64 \<Rightarrow> u64 \<Rightarrow> x64_pmm \<Rightarrow> x64_pmm option" where
  "track_loop page last_page s =
     (if page \<le> last_page
      then track_loop (page + X86_64_PAGE_SIZE) last_page (track_page page s) else Some s)"

definition track_range :: "u64 \<Rightarrow> u64 \<Rightarrow> x64_pmm \<Rightarrow> x64_pmm option" where
  "track_range start end_page s =
     (if end_page \<le> start \<or> end_page - start < X86_64_PAGE_SIZE then Some s
      else track_loop start (end_page - X86_64_PAGE_SIZE) s)"

definition page_is_already_free :: "u64 \<Rightarrow> x64_pmm \<Rightarrow> bool" where
  "page_is_already_free page s \<longleftrightarrow>
     (\<exists>i \<in> set [0..<unat (free_pages s)]. page_stack s ! i = page)"

definition track_region :: "u64 \<Rightarrow> x86_64_memory_region \<Rightarrow> x64_pmm \<Rightarrow> x64_pmm option" where
  "track_region reserved_below region s =
     (if region_type region \<noteq> X86_64_MEMORY_REGION_AVAILABLE then Some s
      else
        let region_end = region_base region + region_length region
        in if region_end < region_base region \<or> region_end \<le> reserved_below then Some s
           else
             let start = region_base region;
                 start = (if start < reserved_below then reserved_below else start)
             in track_range (align_up start X86_64_PAGE_SIZE) (align_down region_end X86_64_PAGE_SIZE) s)"

fun track_regions :: "u64 \<Rightarrow> x86_64_memory_region list \<Rightarrow> x64_pmm \<Rightarrow> x64_pmm option" where
  "track_regions reserved_below [] s = Some s"
| "track_regions reserved_below (r # rs) s =
     Option.bind (track_region reserved_below r s) (track_regions reserved_below rs)"

definition x86_64_pmm_init ::
  "x86_64_boot_summary \<Rightarrow> x86_64_memory_layout \<Rightarrow> x64_pmm \<Rightarrow> x64_pmm option" where
  "x86_64_pmm_init info layout s =
     (let reserved_below = align_up (kernel_end layout) X86_64_PAGE_SIZE
      in map_option (\<lambda>s. s\<lparr>initialized := True\<rparr>)
           (track_regions reserved_below
              (map (\<lambda>i. memory_regions info ! i) [0..<unat (memory_region_count info)]) (zero_state s)))"

definition x86_64_pmm_alloc_page :: "x64_pmm \<Rightarrow> u64 \<times> x64_pmm" where
  "x86_64_pmm_alloc_page s =
     (if \<not> initialized s \<or> free_pages s = 0 then (X86_64_PMM_INVALID_PAGE, s)
      else let s = s\<lparr>free_pages := free_pages s - 1\<rparr>
           in (page_stack s ! unat (free_pages s), s))"

definition x86_64_pmm_free_page :: "u64 \<Rightarrow> x64_pmm \<Rightarrow> bool \<times> x64_pmm" where
  "x86_64_pmm_free_page page s =
     (if \<not> initialized s \<or> page = X86_64_PMM_INVALID_PAGE then (False, s)
      else if page AND (X86_64_PAGE_SIZE - 1) \<noteq> 0 then (False, s)
      else if page < lowest_page s \<or> page > highest_page s then (False, s)
      else if page_is_already_free page s
      then (False, s\<lparr>duplicate_free_rejects := duplicate_free_rejects s + 1\<rparr>)
      else if free_pages s \<ge> tracked_pages s then (False, s)
      else (True, s\<lparr>page_stack := (page_stack s)[unat (free_pages s) := page],
                    free_pages := free_pages s + 1\<rparr>))"

section \<open>The boot-time plan\<close>

record x86_64_pmm_plan =
  usable_region_count :: u32
  first_free_page :: u64
  managed_pages :: u64
  managed_bytes :: u64
  plan_reserved_below :: u64

definition add_managed_range :: "u64 \<Rightarrow> u64 \<Rightarrow> x86_64_pmm_plan \<Rightarrow> x86_64_pmm_plan" where
  "add_managed_range start end_page plan =
     (if end_page \<le> start then plan
      else
        let pages = (end_page - start) div X86_64_PAGE_SIZE
        in if pages = 0 then plan
           else
             let plan = (if first_free_page plan = 0 \<or> start < first_free_page plan
                         then plan\<lparr>first_free_page := start\<rparr> else plan)
             in plan\<lparr>usable_region_count := usable_region_count plan + 1,
                     managed_pages := managed_pages plan + pages,
                     managed_bytes := managed_bytes plan + pages * X86_64_PAGE_SIZE\<rparr>)"

definition plan_region :: "u64 \<Rightarrow> x86_64_memory_region \<Rightarrow> x86_64_pmm_plan \<Rightarrow> x86_64_pmm_plan" where
  "plan_region reserved_below region plan =
     (if region_type region \<noteq> X86_64_MEMORY_REGION_AVAILABLE then plan
      else
        let region_end = region_base region + region_length region
        in if region_end < region_base region \<or> region_end \<le> reserved_below then plan
           else
             let start = region_base region;
                 start = (if start < reserved_below then reserved_below else start)
             in add_managed_range (align_up start X86_64_PAGE_SIZE)
                  (align_down region_end X86_64_PAGE_SIZE) plan)"

definition x86_64_pmm_plan_init :: "x86_64_boot_summary \<Rightarrow> x86_64_memory_layout \<Rightarrow> x86_64_pmm_plan" where
  "x86_64_pmm_plan_init info layout =
     (let reserved_below = align_up (kernel_end layout) X86_64_PAGE_SIZE
      in fold (\<lambda>i. plan_region reserved_below (memory_regions info ! i))
           [0..<unat (memory_region_count info)]
           \<lparr>usable_region_count = 0, first_free_page = 0, managed_pages = 0, managed_bytes = 0,
            plan_reserved_below = reserved_below\<rparr>)"

section \<open>Abstract state and invariant\<close>

definition x64_live :: "x64_pmm \<Rightarrow> u64 list" where
  "x64_live s = take (unat (free_pages s)) (page_stack s)"

definition x64_allocated :: "u64 set \<Rightarrow> x64_pmm \<Rightarrow> u64 set" where
  "x64_allocated M s = M - set (x64_live s)"

definition x64_pmm_inv :: "u64 set \<Rightarrow> x64_pmm \<Rightarrow> bool" where
  "x64_pmm_inv M s \<longleftrightarrow>
     initialized s \<and> length (page_stack s) = 65536 \<and> unat (tracked_pages s) \<le> 65536 \<and>
     unat (free_pages s) \<le> unat (tracked_pages s) \<and> card M = unat (tracked_pages s) \<and>
     distinct (x64_live s) \<and> set (x64_live s) \<subseteq> M \<and>
     (\<forall>p \<in> M. p \<noteq> 0 \<and> page_aligned p \<and> lowest_page s \<le> p \<and> p \<le> highest_page s)"

lemma x64_live_update [simp]:
  "x64_live (s\<lparr>dropped_pages := d\<rparr>) = x64_live s" "x64_live (s\<lparr>initialized := b\<rparr>) = x64_live s"
  by (simp_all add: x64_live_def)

lemma page_aligned_and_mask: "page_aligned (p :: u64) \<longleftrightarrow> p AND (X86_64_PAGE_SIZE - 1) = 0"
proof -
  have "page_aligned p \<longleftrightarrow> unat (p AND 4095) = 0"
    using unat_and_low [of 12 p] by (simp only: page_aligned_def) simp
  also have "\<dots> \<longleftrightarrow> p AND 4095 = 0" by (rule unat_eq_zero)
  finally show ?thesis by simp
qed

lemma page_is_already_free_iff:
  "unat (free_pages s) \<le> length (page_stack s) \<Longrightarrow>
     page_is_already_free p s \<longleftrightarrow> p \<in> set (x64_live s)"
  by (force simp: page_is_already_free_def x64_live_def in_set_conv_nth)

lemma x64_live_pop:
  assumes "free_pages s \<noteq> 0" "unat (free_pages s) \<le> length (page_stack s)"
  shows "x64_live s = take (unat (free_pages s - 1)) (page_stack s) @ [page_stack s ! unat (free_pages s - 1)]"
proof -
  have "unat (free_pages s) = Suc (unat (free_pages s - 1))" using assms(1) by (rule unat_pred)
  then show ?thesis using assms(2) by (simp add: x64_live_def take_Suc_conv_app_nth)
qed

lemma x64_live_push:
  assumes "unat (free_pages s) < length (page_stack s)" "unat (free_pages s) < 65536"
  shows "take (unat (free_pages s + 1)) ((page_stack s)[unat (free_pages s) := p]) = x64_live s @ [p]"
proof -
  have "unat (free_pages s + 1) = Suc (unat (free_pages s))"
    using assms(2) by (simp add: unat_plus_if')
  then show ?thesis using assms by (simp add: x64_live_def take_Suc_conv_app_nth)
qed

section \<open>Allocation and release\<close>

lemma x64_alloc_cases:
  assumes "x64_pmm_inv M s" "x86_64_pmm_alloc_page s = (p, s')"
  shows "if free_pages s = 0 then p = 0 \<and> s' = s
    else p \<in> M \<and> x64_live s = x64_live s' @ [p] \<and> x64_pmm_inv M s'"
proof (cases "free_pages s = 0")
  case True
  with assms(2) show ?thesis by (simp add: x86_64_pmm_alloc_page_def)
next
  case False
  have l: "unat (free_pages s) \<le> length (page_stack s)"
    using assms(1) by (simp add: x64_pmm_inv_def)
  have s': "s' = s\<lparr>free_pages := free_pages s - 1\<rparr>" "p = page_stack s ! unat (free_pages s - 1)"
    using False assms by (auto simp: x86_64_pmm_alloc_page_def x64_pmm_inv_def Let_def)
  then have e: "x64_live s = x64_live s' @ [p]" using x64_live_pop [OF False l] by (simp add: x64_live_def)
  moreover have "p \<in> M" using e assms(1) by (auto simp: x64_pmm_inv_def)
  moreover have "x64_pmm_inv M s'"
    using assms(1) e unat_pred [OF False] by (simp add: x64_pmm_inv_def s'(1))
  ultimately show ?thesis using False by simp
qed

lemma x64_alloc_zero_iff:
  assumes "x64_pmm_inv M s" "x86_64_pmm_alloc_page s = (p, s')"
  shows "p = 0 \<longleftrightarrow> free_pages s = 0"
  using x64_alloc_cases [OF assms] assms(1) by (auto simp: x64_pmm_inv_def split: if_splits)

lemma x64_alloc_inv:
  assumes "x64_pmm_inv M s" "x86_64_pmm_alloc_page s = (p, s')"
  shows "x64_pmm_inv M s'"
  using x64_alloc_cases [OF assms] assms(1) by (simp split: if_splits)

lemma x64_alloc_fresh:
  assumes "x64_pmm_inv M s" "x86_64_pmm_alloc_page s = (p, s')" "p \<noteq> 0"
  shows "p \<in> M \<and> p \<notin> x64_allocated M s \<and> x64_allocated M s' = insert p (x64_allocated M s)"
proof -
  have "free_pages s \<noteq> 0" using x64_alloc_zero_iff [OF assms(1,2)] assms(3) by simp
  with x64_alloc_cases [OF assms(1,2)] have "p \<in> M" "x64_live s = x64_live s' @ [p]" by simp_all
  moreover have "distinct (x64_live s)" using assms(1) by (simp add: x64_pmm_inv_def)
  ultimately show ?thesis by (auto simp: x64_allocated_def)
qed

lemma card_x64_allocated:
  assumes "x64_pmm_inv M s"
  shows "card (x64_allocated M s) = unat (tracked_pages s) - unat (free_pages s)"
  using assms
  by (simp add: x64_allocated_def card_Diff_subset distinct_card x64_pmm_inv_def)
    (simp add: x64_live_def)

lemma x64_free_accepted:
  assumes "x64_pmm_inv M s" "p \<in> x64_allocated M s"
  shows "fst (x86_64_pmm_free_page p s)" "x64_pmm_inv M (snd (x86_64_pmm_free_page p s))"
    "x64_live (snd (x86_64_pmm_free_page p s)) = x64_live s @ [p]"
proof -
  have p: "p \<in> M" "p \<notin> set (x64_live s)" "page_aligned p" "p \<noteq> 0"
      "lowest_page s \<le> p" "p \<le> highest_page s"
    using assms by (auto simp: x64_allocated_def x64_pmm_inv_def)
  have l: "unat (free_pages s) \<le> length (page_stack s)" and i: "initialized s"
    using assms(1) by (simp_all add: x64_pmm_inv_def)
  have "card (x64_allocated M s) > 0" using assms(2) by (metis card_gt_0_iff empty_iff finite)
  then have lt: "unat (free_pages s) < unat (tracked_pages s)"
    using card_x64_allocated [OF assms(1)] by simp
  have f: "x86_64_pmm_free_page p s = (True, s\<lparr>page_stack := (page_stack s)[unat (free_pages s) := p],
      free_pages := free_pages s + 1\<rparr>)"
    using p lt i page_is_already_free_iff [OF l, of p]
    unfolding x86_64_pmm_free_page_def page_aligned_and_mask [symmetric]
    by (simp add: word_le_nat_alt word_less_nat_alt)
  then show "fst (x86_64_pmm_free_page p s)" by simp
  have n: "unat (free_pages s) < 65536" using lt assms(1) by (simp add: x64_pmm_inv_def)
  show e: "x64_live (snd (x86_64_pmm_free_page p s)) = x64_live s @ [p]"
    using x64_live_push [OF _ n] assms(1) n by (simp add: f x64_live_def x64_pmm_inv_def)
  have "unat (free_pages s + 1) = unat (free_pages s) + 1" using n by (simp add: unat_plus_if')
  with e show "x64_pmm_inv M (snd (x86_64_pmm_free_page p s))"
    using assms(1) p lt by (simp add: x64_pmm_inv_def f)
qed

lemma x64_free_allocated:
  "x64_pmm_inv M s \<Longrightarrow> p \<in> x64_allocated M s \<Longrightarrow>
     x64_allocated M (snd (x86_64_pmm_free_page p s)) = x64_allocated M s - {p}"
  using x64_free_accepted(3) [of M s p] by (auto simp: x64_allocated_def)

lemma x64_free_rejected:
  assumes "x64_pmm_inv M s" "p \<notin> x64_allocated M s" "p \<in> M \<or> \<not> page_aligned p \<or> p < lowest_page s \<or> p > highest_page s"
  shows "x86_64_pmm_free_page p s \<in>
    {(False, s), (False, s\<lparr>duplicate_free_rejects := duplicate_free_rejects s + 1\<rparr>)}"
proof -
  have l: "unat (free_pages s) \<le> length (page_stack s)"
    using assms(1) by (simp add: x64_pmm_inv_def)
  show ?thesis
    using assms page_is_already_free_iff [OF l, of p]
    unfolding x86_64_pmm_free_page_def page_aligned_and_mask [symmetric] x64_allocated_def
    by auto
qed

text \<open>The page stack provides the contract of the page allocators, for every set of tracked pages.\<close>

interpretation x64_pmm: page_allocator x86_64_pmm_alloc_page "\<lambda>p s. snd (x86_64_pmm_free_page p s)"
  "x64_allocated M" "x64_pmm_inv M" for M
proof unfold_locales
  show "p \<noteq> 0 \<and> page_aligned p" if "x64_pmm_inv M s" "p \<in> x64_allocated M s" for s p
    using that by (auto simp: x64_pmm_inv_def x64_allocated_def)
  show "x64_allocated M s' = x64_allocated M s"
    if "x64_pmm_inv M s" "x86_64_pmm_alloc_page s = (0, s')" for s s'
    using x64_alloc_cases [OF that] x64_alloc_zero_iff [OF that] by simp
qed (auto simp: x64_alloc_inv x64_alloc_fresh x64_free_accepted x64_free_allocated)

section \<open>Initialisation\<close>

definition range_pages :: "u64 \<Rightarrow> u64 \<Rightarrow> u64 list" where
  "range_pages start end_page =
     map (\<lambda>i. start + of_nat i * 4096) [0..<(unat end_page - unat start) div 4096]"

lemma unat_range_page:
  fixes start end_page :: u64
  assumes "i < (unat end_page - unat start) div 4096"
  shows "unat (start + of_nat i * 4096 :: u64) = unat start + 4096 * i"
    "unat start + 4096 * i + 4096 \<le> unat end_page"
proof -
  have "4096 * (i + 1) \<le> 4096 * ((unat end_page - unat start) div 4096)" using assms by simp
  also have "\<dots> \<le> unat end_page - unat start" by simp
  finally show le: "unat start + 4096 * i + 4096 \<le> unat end_page" using assms by simp
  then have b: "unat start + 4096 * i < 2 ^ 64" using unat_u64_bound [of end_page] by simp
  have "unat (of_nat (i * 4096) :: u64) = i * 4096"
    using b by (subst unat_of_nat) (simp add: take_bit_nat_eq_self)
  with b show "unat (start + of_nat i * 4096) = unat start + 4096 * i"
    by (simp add: unat_plus_if' mult.commute)
qed

lemma range_pages_Cons:
  assumes "unat start + 4096 \<le> unat end_page"
  shows "range_pages start end_page = start # range_pages (start + 4096) end_page"
proof -
  have u: "unat (start + 4096) = unat start + 4096"
    using assms unat_u64_bound [of end_page] by (simp add: unat_plus_if')
  have "(unat end_page - unat start) div 4096 = Suc ((unat end_page - unat (start + 4096)) div 4096)"
    using assms u by (simp add: le_div_geq)
  then show ?thesis
    unfolding range_pages_def
    by (simp add: upt_conv_Cons map_Suc_upt [symmetric] algebra_simps del: upt_Suc)
qed

lemma track_loop_eq:
  assumes "4096 \<le> unat end_page"
  shows "track_loop page (end_page - 4096) s = Some (fold track_page (range_pages page end_page) s)"
proof (induction "unat end_page - unat page" arbitrary: page s rule: less_induct)
  case less
  have l: "unat (end_page - 4096) = unat end_page - 4096"
    using assms by (simp add: unat_sub word_le_nat_alt)
  show ?case
  proof (cases "unat page + 4096 \<le> unat end_page")
    case True
    then have "unat (page + 4096) = unat page + 4096"
      using unat_u64_bound [of end_page] by (simp add: unat_plus_if')
    then have "track_loop (page + 4096) (end_page - 4096) t =
        Some (fold track_page (range_pages (page + 4096) end_page) t)" for t
      using True by (intro less) simp
    with True l show ?thesis
      by (subst track_loop.simps) (simp add: range_pages_Cons [OF True] word_le_nat_alt)
  next
    case False
    then have "range_pages page end_page = []" by (simp add: range_pages_def)
    moreover have "\<not> unat page \<le> unat end_page - 4096" using False assms by linarith
    ultimately show ?thesis using l by (subst track_loop.simps) (simp add: word_le_nat_alt)
  qed
qed

text \<open>The loop over a range always returns and pushes the whole pages of the range.\<close>

lemma track_range_eq: "track_range start end_page s = Some (fold track_page (range_pages start end_page) s)"
proof (cases "end_page \<le> start \<or> end_page - start < 4096")
  case True
  then have "unat end_page - unat start < 4096"
    by (auto simp: word_le_nat_alt word_less_nat_alt unat_sub_if' split: if_splits)
  then have "range_pages start end_page = []" by (simp add: range_pages_def)
  with True show ?thesis by (simp add: track_range_def)
next
  case False
  then have "4096 \<le> unat end_page"
    by (auto simp: word_le_nat_alt word_less_nat_alt unat_sub_if')
  with False show ?thesis by (simp only: track_range_def track_loop_eq if_False)
qed

definition region_pages :: "u64 \<Rightarrow> x86_64_memory_region \<Rightarrow> u64 list" where
  "region_pages reserved_below r =
     (let region_end = region_base r + region_length r
      in if region_type r \<noteq> X86_64_MEMORY_REGION_AVAILABLE \<or> region_end < region_base r \<or>
            region_end \<le> reserved_below then []
         else range_pages (align_up (max (region_base r) reserved_below) 4096) (align_down region_end 4096))"

lemma track_region_eq: "track_region rb r s = Some (fold track_page (region_pages rb r) s)"
  by (auto simp: track_region_def region_pages_def Let_def track_range_eq max_def)

lemma track_regions_eq:
  "track_regions rb rs s = Some (fold track_page (concat (map (region_pages rb) rs)) s)"
  by (induction rs arbitrary: s) (simp_all add: track_region_eq)

definition boot_regions :: "x86_64_boot_summary \<Rightarrow> x86_64_memory_region list" where
  "boot_regions info = map (\<lambda>i. memory_regions info ! i) [0..<unat (memory_region_count info)]"

definition boot_pages :: "x86_64_boot_summary \<Rightarrow> x86_64_memory_layout \<Rightarrow> u64 list" where
  "boot_pages info layout = concat (map (region_pages (align_up (kernel_end layout) 4096)) (boot_regions info))"

lemma x86_64_pmm_init_eq:
  "x86_64_pmm_init info layout s =
     Some ((fold track_page (boot_pages info layout) (zero_state s))\<lparr>initialized := True\<rparr>)"
  by (simp add: x86_64_pmm_init_def Let_def track_regions_eq boot_pages_def boot_regions_def)

text \<open>Pushing a list of pages onto the empty stack keeps the first 65536 and counts the rest.\<close>

definition boot_stack :: "u64 list \<Rightarrow> x64_pmm \<Rightarrow> bool" where
  "boot_stack ps s \<longleftrightarrow>
     length (page_stack s) = 65536 \<and> free_pages s = tracked_pages s \<and>
     unat (tracked_pages s) = min 65536 (length ps) \<and> x64_live s = take 65536 ps \<and>
     dropped_pages s = of_nat (length ps - 65536) \<and>
     (\<forall>p \<in> set (x64_live s). lowest_page s \<le> p \<and> p \<le> highest_page s \<and> lowest_page s \<noteq> 0)"

lemma boot_stack_zero: "length (page_stack s) = 65536 \<Longrightarrow> boot_stack [] (zero_state s)"
  by (simp add: boot_stack_def zero_state_def x64_live_def)

lemma boot_stack_track:
  assumes b: "boot_stack ps s" and p: "p \<noteq> 0"
  shows "boot_stack (ps @ [p]) (track_page p s)"
proof (cases "length ps \<ge> 65536")
  case True
  then have "tracked_pages s \<ge> 65536" using b by (simp add: boot_stack_def word_le_nat_alt)
  moreover have "(of_nat (Suc (length ps) - 65536) :: u32) = of_nat (length ps - 65536) + 1"
    using True by (simp add: Suc_diff_le)
  ultimately show ?thesis
    using b True by (simp add: boot_stack_def track_page_def min_def)
next
  case False
  then have n: "unat (tracked_pages s) = length ps" "free_pages s = tracked_pages s"
    using b by (simp_all add: boot_stack_def)
  then have c: "\<not> tracked_pages s \<ge> 65536" using False by (simp add: word_le_nat_alt)
  let ?t = "track_page p s"
  have t: "page_stack ?t = (page_stack s)[unat (free_pages s) := p]"
    "free_pages ?t = free_pages s + 1" "tracked_pages ?t = tracked_pages s + 1"
    "dropped_pages ?t = dropped_pages s"
    "lowest_page ?t = (if lowest_page s = 0 \<or> p < lowest_page s then p else lowest_page s)"
    "highest_page ?t = (if p > highest_page s then p else highest_page s)"
    using c by (auto simp: track_page_def Let_def)
  have l: "x64_live ?t = x64_live s @ [p]"
    using x64_live_push [of s p] b n False by (simp add: t x64_live_def boot_stack_def)
  have "\<forall>q \<in> set (x64_live ?t). lowest_page ?t \<le> q \<and> q \<le> highest_page ?t \<and> lowest_page ?t \<noteq> 0"
  proof
    fix q assume "q \<in> set (x64_live ?t)"
    then consider "q = p" | "lowest_page s \<le> q" "q \<le> highest_page s" "lowest_page s \<noteq> 0"
      using b by (auto simp: l boot_stack_def)
    then show "lowest_page ?t \<le> q \<and> q \<le> highest_page ?t \<and> lowest_page ?t \<noteq> 0"
      using p unfolding t(5,6) by cases (auto simp: word_le_nat_alt word_less_nat_alt)
  qed
  moreover have "unat (tracked_pages s + 1) = Suc (length ps)"
    using n(1) False by (simp add: unat_plus_if')
  ultimately show ?thesis
    using b False l n by (simp add: boot_stack_def t)
qed

lemma boot_stack_fold:
  "0 \<notin> set ps \<Longrightarrow> length (page_stack s) = 65536 \<Longrightarrow> boot_stack ps (fold track_page ps (zero_state s))"
  by (induction ps rule: rev_induct) (auto simp: boot_stack_zero boot_stack_track)

lemma boot_stack_inv:
  assumes "boot_stack ps s" "distinct ps" "\<forall>p \<in> set ps. p \<noteq> 0 \<and> page_aligned p"
  shows "x64_pmm_inv (set (take 65536 ps)) (s\<lparr>initialized := True\<rparr>)"
    "x64_allocated (set (take 65536 ps)) (s\<lparr>initialized := True\<rparr>) = {}"
proof -
  have l: "x64_live (s\<lparr>initialized := True\<rparr>) = take 65536 ps"
    using assms(1) by (simp add: boot_stack_def)
  have "card (set (take 65536 ps)) = min 65536 (length ps)"
    using assms(2) by (simp add: distinct_card)
  with l show "x64_pmm_inv (set (take 65536 ps)) (s\<lparr>initialized := True\<rparr>)"
    using assms by (auto simp: x64_pmm_inv_def boot_stack_def dest: in_set_takeD)
  show "x64_allocated (set (take 65536 ps)) (s\<lparr>initialized := True\<rparr>) = {}"
    using l by (simp add: x64_allocated_def)
qed

text \<open>The pages of a region, and the ones of all regions.\<close>

definition region_sane :: "x86_64_memory_region \<Rightarrow> bool" where
  "region_sane r \<longleftrightarrow> unat (region_base r) + unat (region_length r) + 4096 \<le> 2 ^ 64"

definition regions_disjoint :: "x86_64_memory_region \<Rightarrow> x86_64_memory_region \<Rightarrow> bool" where
  "regions_disjoint r r' \<longleftrightarrow>
     unat (region_base r) + unat (region_length r) \<le> unat (region_base r') \<or>
     unat (region_base r') + unat (region_length r') \<le> unat (region_base r)"

lemma unat_align_down: "unat (align_down x 4096) = unat x div 4096 * 4096"
  using unat_and_not_low [of 12 x] by (simp add: align_down_def)

lemma range_pages_distinct: "distinct (range_pages start end_page)"
proof -
  have "inj_on (\<lambda>i. start + of_nat i * 4096) {0..<(unat end_page - unat start) div 4096}"
  proof (rule inj_onI)
    fix i j
    assume i: "i \<in> {0..<(unat end_page - unat start) div 4096}" and j: "j \<in> {0..<(unat end_page - unat start) div 4096}"
      and e: "start + of_nat i * 4096 = start + of_nat j * 4096"
    have "unat start + 4096 * i = unat start + 4096 * j"
      using i j unat_range_page(1) [of i end_page start] unat_range_page(1) [of j end_page start]
      by (simp only: e atLeastLessThan_iff)
    then show "i = j" by simp
  qed
  then show ?thesis by (simp add: range_pages_def distinct_map)
qed

lemma in_range_pages:
  assumes "p \<in> set (range_pages start end_page)"
  shows "unat start \<le> unat p" "unat p + 4096 \<le> unat end_page"
    "unat start mod 4096 = 0 \<Longrightarrow> page_aligned p"
proof -
  obtain i where i: "i < (unat end_page - unat start) div 4096" "p = start + of_nat i * 4096"
    using assms by (auto simp: range_pages_def)
  note u = unat_range_page [OF i(1)]
  show "unat start \<le> unat p" "unat p + 4096 \<le> unat end_page" using u by (simp_all add: i(2))
  show "page_aligned p" if "unat start mod 4096 = 0"
    unfolding page_aligned_def i(2) u(1) using that by simp
qed

lemma in_region_pages:
  assumes "p \<in> set (region_pages rb r)" "region_sane r" "unat rb + 4096 \<le> 2 ^ 64"
  shows "region_type r = 1" "page_aligned p" "rb \<le> p" "region_base r \<le> p"
    "unat p + 4096 \<le> unat (region_base r) + unat (region_length r)"
proof -
  let ?e = "region_base r + region_length r" and ?m = "max (region_base r) rb"
  have p: "p \<in> set (range_pages (align_up ?m 4096) (align_down ?e 4096))" and t: "region_type r = 1"
    using assms(1) by (auto simp: region_pages_def Let_def split: if_splits)
  have e: "unat ?e = unat (region_base r) + unat (region_length r)"
    using assms(2) by (simp add: region_sane_def unat_plus_if')
  have "unat ?m + 4096 \<le> 2 ^ 64" using assms(2,3) by (simp add: region_sane_def max_def)
  then have m: "unat (align_up ?m 4096) = (unat ?m + 4095) div 4096 * 4096"
    using unat_align_up [of 12 ?m] by simp
  have ge: "unat ?m \<le> unat (align_up ?m 4096)" unfolding m by linarith
  note q = in_range_pages [OF p]
  show "region_type r = 1" by (rule t)
  show "page_aligned p" by (rule q(3)) (simp add: m)
  show "rb \<le> p" "region_base r \<le> p"
    using ge q(1) by (auto simp: word_le_nat_alt max_def split: if_splits)
  have "unat (align_down ?e 4096) \<le> unat ?e" by (simp add: unat_align_down)
  then show "unat p + 4096 \<le> unat (region_base r) + unat (region_length r)" using q(2) e by simp
qed

lemma distinct_region_pages:
  assumes "\<forall>r \<in> set rs. region_sane r" "sorted_wrt regions_disjoint rs" "unat rb + 4096 \<le> 2 ^ 64"
  shows "distinct (concat (map (region_pages rb) rs))"
  using assms(1,2)
proof (induction rs)
  case (Cons r rs)
  have "distinct (region_pages rb r)" by (simp add: region_pages_def Let_def range_pages_distinct)
  moreover have False
    if "p \<in> set (region_pages rb r)" "r' \<in> set rs" "p \<in> set (region_pages rb r')" for p r'
    using in_region_pages(4,5) [OF that(1)] in_region_pages(4,5) [OF that(3)] Cons.prems that(2) assms(3)
    by (force simp: regions_disjoint_def word_le_nat_alt)
  ultimately show ?case using Cons by auto
qed simp

lemma add_managed_range_pages:
  "managed_pages (add_managed_range start end_page plan) =
     managed_pages plan + of_nat (length (range_pages start end_page))"
  "managed_bytes (add_managed_range start end_page plan) =
     managed_bytes plan + 4096 * of_nat (length (range_pages start end_page))"
proof -
  have "(end_page - start) div 4096 = of_nat ((unat end_page - unat start) div 4096)" if "\<not> end_page \<le> start"
  proof -
    have "unat ((end_page - start) div 4096) = (unat end_page - unat start) div 4096"
      using that by (simp add: unat_div_distrib unat_sub word_le_nat_alt)
    then show ?thesis by (metis of_nat_unat ucast_id)
  qed
  then show "managed_pages (add_managed_range start end_page plan) =
      managed_pages plan + of_nat (length (range_pages start end_page))"
    "managed_bytes (add_managed_range start end_page plan) =
      managed_bytes plan + 4096 * of_nat (length (range_pages start end_page))"
    by (auto simp: add_managed_range_def range_pages_def Let_def word_le_nat_alt)
qed

lemma plan_region_pages:
  "managed_pages (plan_region rb r plan) = managed_pages plan + of_nat (length (region_pages rb r))"
  "managed_bytes (plan_region rb r plan) = managed_bytes plan + 4096 * of_nat (length (region_pages rb r))"
  by (auto simp: plan_region_def region_pages_def Let_def max_def add_managed_range_pages)

lemma plan_regions_pages:
  "managed_pages (fold (\<lambda>i. plan_region rb (f i)) is plan) =
     managed_pages plan + of_nat (length (concat (map (\<lambda>i. region_pages rb (f i)) is)))"
  "managed_bytes (fold (\<lambda>i. plan_region rb (f i)) is plan) =
     managed_bytes plan + 4096 * of_nat (length (concat (map (\<lambda>i. region_pages rb (f i)) is)))"
  by (induction "is" arbitrary: plan) (simp_all add: plan_region_pages algebra_simps)

lemma plan_counts_boot_pages:
  "managed_pages (x86_64_pmm_plan_init info layout) = of_nat (length (boot_pages info layout))"
  "managed_bytes (x86_64_pmm_plan_init info layout) = 4096 * of_nat (length (boot_pages info layout))"
  unfolding x86_64_pmm_plan_init_def Let_def plan_regions_pages
  by (simp_all add: boot_pages_def boot_regions_def comp_def)

section \<open>Properties\<close>

text \<open>A machine with two usable regions of two pages and a hole of one page, kernel below 1 MiB and a half.\<close>

definition two_regions :: x86_64_boot_summary where
  "two_regions = zero_summary\<lparr>memory_region_count := 2,
     memory_regions := (memory_regions zero_summary)
       [0 := \<lparr>region_base = 0x200000, region_length = 0x2000, region_type = 1\<rparr>,
        1 := \<lparr>region_base = 0x203000, region_length = 0x2000, region_type = 1\<rparr>]\<rparr>"

abbreviation (input) low_kernel :: x86_64_memory_layout where
  "low_kernel \<equiv> x86_64_memory_layout_init 0x100000 0x180000"

definition two_pmm :: x64_pmm where
  "two_pmm = \<lparr>initialized = True, tracked_pages = 4, free_pages = 4, dropped_pages = 0,
     duplicate_free_rejects = 0, lowest_page = 0x200000, highest_page = 0x204000,
     page_stack = [0x200000, 0x201000, 0x203000, 0x204000] @ replicate 65532 0\<rparr>"

lemma two_pmm_inv: "x64_pmm_inv {0x200000, 0x201000, 0x203000, 0x204000} two_pmm"
  by (simp add: x64_pmm_inv_def two_pmm_def x64_live_def page_aligned_def)

lemma boot_regions_two:
  "boot_regions two_regions = [\<lparr>region_base = 0x200000, region_length = 0x2000, region_type = 1\<rparr>,
     \<lparr>region_base = 0x203000, region_length = 0x2000, region_type = 1\<rparr>]"
  by (simp add: boot_regions_def two_regions_def upt_conv_Cons)

text \<open>
  C9: initialisation always returns. On a memory map of disjoint regions that stay below the
  top of the address space it leaves a well-formed stack with no page out that tracks the first
  65536 whole pages of the usable regions above the kernel image and counts the others as
  dropped; every tracked page lies inside a usable region, above the kernel. The boot plan
  (\<^verbatim>\<open>pmm_plan.c\<close>), computed from the same map on its own, announces exactly these pages.
\<close>

theorem x86_64_pmm_init_correct:
  assumes "\<forall>r \<in> set (boot_regions info). region_sane r" and "sorted_wrt regions_disjoint (boot_regions info)"
    and "0 < kernel_end layout" and "unat (kernel_end layout) + 8192 \<le> 2 ^ 64"
    and "length (page_stack s) = 65536" and "ps = boot_pages info layout"
  shows "\<exists>s'. x86_64_pmm_init info layout s = Some s' \<and> x64_pmm_inv (set (take 65536 ps)) s' \<and>
    x64_allocated (set (take 65536 ps)) s' = {} \<and>
    unat (tracked_pages s') = min 65536 (length ps) \<and> dropped_pages s' = of_nat (length ps - 65536) \<and>
    managed_pages (x86_64_pmm_plan_init info layout) = of_nat (length ps) \<and>
    (\<forall>p \<in> set ps. kernel_end layout \<le> p \<and> (\<exists>r \<in> set (boot_regions info). region_type r = 1 \<and>
       region_base r \<le> p \<and> unat p + 4096 \<le> unat (region_base r) + unat (region_length r)))"
proof -
  let ?rb = "align_up (kernel_end layout) 4096"
  have rb: "unat ?rb = (unat (kernel_end layout) + 4095) div 4096 * 4096"
    using unat_align_up [of 12 "kernel_end layout"] assms(4) by simp
  then have b: "unat ?rb + 4096 \<le> 2 ^ 64" using assms(4) by simp
  have k: "kernel_end layout \<le> ?rb" unfolding word_le_nat_alt rb by linarith
  have pages: "page_aligned p \<and> ?rb \<le> p \<and> (\<exists>r \<in> set (boot_regions info). region_type r = 1 \<and>
       region_base r \<le> p \<and> unat p + 4096 \<le> unat (region_base r) + unat (region_length r))"
    if "p \<in> set ps" for p
    using that assms(1,6) in_region_pages [OF _ _ b, of p] by (fastforce simp: boot_pages_def)
  have nz: "p \<noteq> 0" if "p \<in> set ps" for p
    using pages [OF that] k assms(3) by auto
  have d: "distinct ps" using distinct_region_pages [OF assms(1,2) b] assms(6) by (simp add: boot_pages_def)
  have "0 \<notin> set ps" using nz by blast
  note st = boot_stack_fold [OF this assms(5)]
  have al: "\<forall>p \<in> set ps. p \<noteq> 0 \<and> page_aligned p" using pages nz by blast
  note iv = boot_stack_inv [OF st d al]
  have "\<forall>p \<in> set ps. kernel_end layout \<le> p" using pages k by (meson order_trans)
  then show ?thesis
    using iv st pages by (simp add: x86_64_pmm_init_eq assms(6) plan_counts_boot_pages boot_stack_def)
qed

theorem x86_64_pmm_init_correct_witness:
  "\<exists>s'. x86_64_pmm_init two_regions low_kernel (two_pmm\<lparr>initialized := False\<rparr>) = Some s' \<and>
     x64_pmm_inv (set (take 65536 (boot_pages two_regions low_kernel))) s'"
proof -
  let ?s = "two_pmm\<lparr>initialized := False\<rparr>"
  have "\<forall>r \<in> set (boot_regions two_regions). region_sane r"
    and "sorted_wrt regions_disjoint (boot_regions two_regions)"
    by (simp_all add: boot_regions_two region_sane_def regions_disjoint_def)
  moreover have "0 < kernel_end low_kernel" "unat (kernel_end low_kernel) + 8192 \<le> 2 ^ 64"
    by (simp_all add: x86_64_memory_layout_init_def)
  moreover have "length (page_stack ?s) = 65536" by (simp add: two_pmm_def)
  ultimately show ?thesis
    using x86_64_pmm_init_correct [of two_regions low_kernel ?s, OF _ _ _ _ _ refl] by blast
qed

text \<open>
  \<open>x86_64_pmm_alloc_page\<close> hands out a tracked page that is not out and marks it so, or
  returns 0 and changes nothing; it returns 0 exactly when all tracked pages are out. A page
  given back with \<open>x86_64_pmm_free_page\<close> is accepted if it is out and is the next one handed
  out; a page on the stack, an unaligned one or one outside the tracked range is refused and
  only the counter of duplicate releases can change. Both keep the invariant.
\<close>

theorem x64_alloc_free_correct:
  assumes "x64_pmm_inv M s" and "x86_64_pmm_alloc_page s = (p, s')" and "x86_64_pmm_free_page q s = (ok, t)"
  shows "x64_pmm_inv M s' \<and> (p = 0 \<longleftrightarrow> x64_allocated M s = M) \<and>
    (if p = 0 then s' = s
     else p \<in> M \<and> p \<notin> x64_allocated M s \<and> x64_allocated M s' = insert p (x64_allocated M s)) \<and>
    (if q \<in> x64_allocated M s
     then ok \<and> x64_pmm_inv M t \<and> x64_allocated M t = x64_allocated M s - {q} \<and>
          fst (x86_64_pmm_alloc_page t) = q
     else q \<in> M \<or> \<not> page_aligned q \<or> q < lowest_page s \<or> q > highest_page s \<longrightarrow>
          \<not> ok \<and> t \<in> {s, s\<lparr>duplicate_free_rejects := duplicate_free_rejects s + 1\<rparr>})"
proof -
  have z: "p = 0 \<longleftrightarrow> x64_allocated M s = M"
    using x64_alloc_zero_iff [OF assms(1,2)] x64_alloc_fresh [OF assms(1,2)]
    by (cases "p = 0") (auto simp: x64_allocated_def x64_live_def)
  have s: "p = 0 \<Longrightarrow> s' = s"
    using x64_alloc_cases [OF assms(1,2)] x64_alloc_zero_iff [OF assms(1,2)] by simp
  have f: "fst (x86_64_pmm_alloc_page t) = q" if "q \<in> x64_allocated M s"
  proof -
    have i: "x64_pmm_inv M t" and l: "x64_live t = x64_live s @ [q]"
      using x64_free_accepted [OF assms(1) that] assms(3) by simp_all
    have "free_pages t \<noteq> 0" using l by (auto simp: x64_live_def)
    moreover obtain r u where "x86_64_pmm_alloc_page t = (r, u)" by fastforce
    ultimately show ?thesis using x64_alloc_cases [OF i, of r u] l by simp
  qed
  show ?thesis
    using z s f x64_alloc_inv [OF assms(1,2)] x64_alloc_fresh [OF assms(1,2)]
      x64_free_accepted [OF assms(1), of q] x64_free_allocated [OF assms(1), of q]
      x64_free_rejected [OF assms(1), of q] assms(3)
    by auto
qed

theorem x64_alloc_free_correct_witness:
  "x64_pmm_inv {0x200000, 0x201000, 0x203000, 0x204000} (two_pmm\<lparr>free_pages := 3\<rparr>) \<and>
   fst (x86_64_pmm_alloc_page two_pmm) = 0x204000 \<and> \<not> fst (x86_64_pmm_free_page 0x201000 two_pmm)"
proof -
  have a: "x86_64_pmm_alloc_page two_pmm = (0x204000, two_pmm\<lparr>free_pages := 3\<rparr>)"
    by (simp add: x86_64_pmm_alloc_page_def two_pmm_def)
  have "x64_allocated {0x200000, 0x201000, 0x203000, 0x204000} two_pmm = {}"
    by (simp add: x64_allocated_def x64_live_def two_pmm_def)
  then show ?thesis
    using x64_alloc_free_correct [OF two_pmm_inv a, of "0x201000" "fst (x86_64_pmm_free_page 0x201000 two_pmm)"
        "snd (x86_64_pmm_free_page 0x201000 two_pmm)"] a
    by simp
qed

text \<open>
  C32: the range check of \<open>x86_64_pmm_free_page\<close> does not know the holes between regions: while a
  tracked page is out, any aligned page between the lowest and the highest tracked page that
  was never tracked is accepted, and the next allocation hands it out.
\<close>

theorem x64_free_page_accepts_hole:
  assumes "x64_pmm_inv M s" and "x64_allocated M s \<noteq> {}"
    and "q \<notin> M" and "q \<noteq> 0" and "page_aligned q" and "lowest_page s \<le> q" and "q \<le> highest_page s"
  shows "fst (x86_64_pmm_free_page q s) \<and>
    fst (x86_64_pmm_alloc_page (snd (x86_64_pmm_free_page q s))) = q"
proof -
  have l: "unat (free_pages s) \<le> length (page_stack s)" and i: "initialized s"
    and live: "q \<notin> set (x64_live s)" and le: "unat (tracked_pages s) \<le> 65536" "length (page_stack s) = 65536"
    using assms(1,3) by (auto simp: x64_pmm_inv_def)
  have "card (x64_allocated M s) > 0" using assms(2) by (simp add: card_gt_0_iff)
  then have lt: "unat (free_pages s) < unat (tracked_pages s)" using card_x64_allocated [OF assms(1)] by simp
  have f: "x86_64_pmm_free_page q s = (True, s\<lparr>page_stack := (page_stack s)[unat (free_pages s) := q],
      free_pages := free_pages s + 1\<rparr>)"
    using assms(4-7) lt i live page_is_already_free_iff [OF l, of q]
    unfolding x86_64_pmm_free_page_def page_aligned_and_mask [symmetric]
    by (simp add: word_le_nat_alt word_less_nat_alt)
  have "unat (free_pages s + 1) = unat (free_pages s) + 1" using lt le by (simp add: unat_plus_if')
  then have "free_pages s + 1 \<noteq> 0" by (metis add_is_0 one_neq_zero unat_0)
  with f i lt le show ?thesis by (simp add: x86_64_pmm_alloc_page_def Let_def)
qed

theorem x64_free_page_accepts_hole_witness:
  "let s = snd (x86_64_pmm_alloc_page two_pmm) in
     fst (x86_64_pmm_alloc_page (snd (x86_64_pmm_free_page 0x202000 s))) = 0x202000"
proof -
  let ?M = "{0x200000, 0x201000, 0x203000, 0x204000} :: u64 set"
  have a: "x86_64_pmm_alloc_page two_pmm = (0x204000, two_pmm\<lparr>free_pages := 3\<rparr>)"
    by (simp add: x86_64_pmm_alloc_page_def two_pmm_def)
  note i = x64_alloc_inv [OF two_pmm_inv a]
  have "x64_allocated ?M (two_pmm\<lparr>free_pages := 3\<rparr>) \<noteq> {}" using x64_alloc_fresh [OF two_pmm_inv a] by simp
  moreover have "lowest_page (two_pmm\<lparr>free_pages := 3\<rparr>) \<le> 0x202000"
    "0x202000 \<le> highest_page (two_pmm\<lparr>free_pages := 3\<rparr>)" "page_aligned (0x202000 :: u64)"
    by (simp_all add: two_pmm_def page_aligned_def)
  ultimately show ?thesis
    using x64_free_page_accepts_hole [OF i, of "0x202000"] a by simp
qed

end
