(* ===== verification/X64_Vfs.thy ===== *)
theory X64_Vfs
  imports Kernel_String
begin

text \<open>
  \<^verbatim>\<open>arch/x86_64/vfs.c\<close>: the read-only file tree of the x86_64 kernel, its one writable RAM file
  \<^verbatim>\<open>/tmp/session.txt\<close>, and the descriptor table of a process.

  State: \<open>x86_64_vfs_state\<close> is the descriptor table (four slots), \<open>vfs_storage\<close> the two
  static variables of the RAM file. The node table is a constant; the program images it points
  to are linked in from the user programs and are a parameter, \<open>img\<close>. A path is the list of its
  characters in front of the terminator (\<open>None\<close> is the null pointer); the state, the buffers and
  the result pointers are never null. Writes to the 64-byte buffer of the normalised path are
  checked: \<open>None\<close> is a write outside of it.
\<close>

section \<open>Nodes\<close>

abbreviation (input) X86_64_VFS_RET_OK :: u64 where "X86_64_VFS_RET_OK \<equiv> 0"
abbreviation (input) X86_64_VFS_RET_EINVAL :: u64 where "X86_64_VFS_RET_EINVAL \<equiv> 0xFFFFFFFFFFFFFFEA"
abbreviation (input) X86_64_VFS_RET_ENOENT :: u64 where "X86_64_VFS_RET_ENOENT \<equiv> 0xFFFFFFFFFFFFFFFE"
abbreviation (input) X86_64_VFS_RET_EBADF :: u64 where "X86_64_VFS_RET_EBADF \<equiv> 0xFFFFFFFFFFFFFFF7"
abbreviation (input) X86_64_VFS_FD_BASE :: u64 where "X86_64_VFS_FD_BASE \<equiv> 3"
abbreviation (input) X86_64_VFS_MAX_OPEN_FILES :: u32 where "X86_64_VFS_MAX_OPEN_FILES \<equiv> 4"
abbreviation (input) X86_64_VFS_PATH_MAX_BYTES :: nat where "X86_64_VFS_PATH_MAX_BYTES \<equiv> 64"
abbreviation (input) X86_64_VFS_NO_NODE :: u32 where "X86_64_VFS_NO_NODE \<equiv> 0xFFFFFFFF"
abbreviation (input) X86_64_VFS_NODE_FILE :: u32 where "X86_64_VFS_NODE_FILE \<equiv> 1"
abbreviation (input) X86_64_VFS_NODE_DIRECTORY :: u32 where "X86_64_VFS_NODE_DIRECTORY \<equiv> 2"
abbreviation (input) X86_64_VFS_NODE_EXECUTABLE :: u32 where "X86_64_VFS_NODE_EXECUTABLE \<equiv> 3"
abbreviation (input) X86_64_VFS_OPEN_READ :: u64 where "X86_64_VFS_OPEN_READ \<equiv> 0"
abbreviation (input) X86_64_VFS_OPEN_WRITE :: u64 where "X86_64_VFS_OPEN_WRITE \<equiv> 1"
abbreviation (input) X86_64_VFS_OPEN_CREATE :: u64 where "X86_64_VFS_OPEN_CREATE \<equiv> 2"
abbreviation (input) X86_64_VFS_OPEN_TRUNCATE :: u64 where "X86_64_VFS_OPEN_TRUNCATE \<equiv> 4"
abbreviation (input) X86_64_VFS_RAM_FILE_BYTES :: u64 where "X86_64_VFS_RAM_FILE_BYTES \<equiv> 256"

abbreviation LF :: char where "LF \<equiv> CHR 0x0A"
abbreviation slash :: char where "slash \<equiv> CHR ''/''"

datatype user_image = Datatest | Eventd | Hello | Inputd | Storaged | Sysinfo | Timed | Windowd | Windowd_service

datatype node_pointer = Text string | Image user_image | Null

record x86_64_vfs_node =
  node_path :: string
  node_pointer :: node_pointer
  node_size :: u64
  node_type :: u32

definition x86_64_vfs_dir_root :: string where
  "x86_64_vfs_dir_root = ''bin'' @ [LF] @ ''etc'' @ [LF] @ ''proc'' @ [LF] @ ''sbin'' @ [LF] @ ''tmp'' @ [LF] @ ''usr'' @ [LF]"

definition x86_64_vfs_dir_bin :: string where
  "x86_64_vfs_dir_bin = ''datatest'' @ [LF] @ ''eventd'' @ [LF] @ ''hello'' @ [LF] @ ''inputd'' @ [LF] @
     ''storaged'' @ [LF] @ ''sysinfo'' @ [LF] @ ''timed'' @ [LF] @ ''windowd'' @ [LF] @ ''windowd-service'' @ [LF]"

definition x86_64_vfs_dir_sbin :: string where "x86_64_vfs_dir_sbin = ''''"

definition x86_64_vfs_dir_tmp :: string where "x86_64_vfs_dir_tmp = ''session.txt'' @ [LF]"

definition x86_64_vfs_dir_etc :: string where "x86_64_vfs_dir_etc = ''motd'' @ [LF] @ ''os-release'' @ [LF]"

definition x86_64_vfs_dir_proc :: string where "x86_64_vfs_dir_proc = ''version'' @ [LF]"

definition x86_64_vfs_dir_usr :: string where "x86_64_vfs_dir_usr = ''share'' @ [LF]"

definition x86_64_vfs_dir_usr_share :: string where
  "x86_64_vfs_dir_usr_share = ''files.txt'' @ [LF] @ ''help.txt'' @ [LF]"

definition x86_64_vfs_file_os_release :: string where
  "x86_64_vfs_file_os_release = ''NAME=Liam_OS'' @ [LF] @ ''ARCH=x86_64'' @ [LF] @ ''BUILD=dev'' @ [LF]"

definition x86_64_vfs_file_motd :: string where
  "x86_64_vfs_file_motd = ''Liam_OS x86_64 read-only VFS mounted.'' @ [LF]"

definition x86_64_vfs_file_version :: string where
  "x86_64_vfs_file_version = ''Liam_OS Core x86_64 0.8.69-dev'' @ [LF]"

definition x86_64_vfs_file_help :: string where
  "x86_64_vfs_file_help = ''Available commands:'' @ [LF] @
     ''help, about, version, pid, ps, deskcheck, wait, echo, ls, cat, stat, exec, clear, exit'' @ [LF] @
     ''Executable files:'' @ [LF] @ ''/bin/datatest'' @ [LF] @ ''/bin/eventd'' @ [LF] @ ''/bin/hello'' @ [LF] @
     ''/bin/inputd'' @ [LF] @ ''/bin/storaged'' @ [LF] @ ''/bin/sysinfo'' @ [LF] @ ''/bin/timed'' @ [LF] @
     ''/bin/windowd'' @ [LF] @ ''/bin/windowd-service'' @ [LF]"

definition x86_64_vfs_file_files :: string where
  "x86_64_vfs_file_files = ''/'' @ [LF] @ ''/bin'' @ [LF] @ ''/bin/datatest'' @ [LF] @ ''/bin/eventd'' @ [LF] @
     ''/bin/hello'' @ [LF] @ ''/bin/inputd'' @ [LF] @ ''/bin/storaged'' @ [LF] @ ''/bin/sysinfo'' @ [LF] @
     ''/bin/timed'' @ [LF] @ ''/bin/windowd'' @ [LF] @ ''/bin/windowd-service'' @ [LF] @ ''/etc'' @ [LF] @
     ''/etc/motd'' @ [LF] @ ''/etc/os-release'' @ [LF] @ ''/proc'' @ [LF] @ ''/proc/version'' @ [LF] @ ''/sbin'' @ [LF] @
     ''/tmp'' @ [LF] @ ''/tmp/session.txt'' @ [LF] @ ''/usr'' @ [LF] @ ''/usr/share'' @ [LF] @
     ''/usr/share/files.txt'' @ [LF] @ ''/usr/share/help.txt'' @ [LF]"

definition text_node :: "string \<Rightarrow> string \<Rightarrow> u32 \<Rightarrow> x86_64_vfs_node" where
  "text_node path text type =
     \<lparr>node_path = path, node_pointer = Text text, node_size = of_nat (length text), node_type = type\<rparr>"

definition image_node :: "string \<Rightarrow> user_image \<Rightarrow> x86_64_vfs_node" where
  "image_node path i =
     \<lparr>node_path = path, node_pointer = Image i, node_size = 0, node_type = X86_64_VFS_NODE_EXECUTABLE\<rparr>"

definition x86_64_vfs_nodes :: "x86_64_vfs_node list" where
  "x86_64_vfs_nodes =
    [text_node ''/'' x86_64_vfs_dir_root X86_64_VFS_NODE_DIRECTORY,
     text_node ''/bin'' x86_64_vfs_dir_bin X86_64_VFS_NODE_DIRECTORY,
     text_node ''/etc'' x86_64_vfs_dir_etc X86_64_VFS_NODE_DIRECTORY,
     text_node ''/proc'' x86_64_vfs_dir_proc X86_64_VFS_NODE_DIRECTORY,
     text_node ''/sbin'' x86_64_vfs_dir_sbin X86_64_VFS_NODE_DIRECTORY,
     text_node ''/tmp'' x86_64_vfs_dir_tmp X86_64_VFS_NODE_DIRECTORY,
     text_node ''/usr'' x86_64_vfs_dir_usr X86_64_VFS_NODE_DIRECTORY,
     text_node ''/usr/share'' x86_64_vfs_dir_usr_share X86_64_VFS_NODE_DIRECTORY,
     image_node ''/bin/datatest'' Datatest,
     image_node ''/bin/eventd'' Eventd,
     image_node ''/bin/hello'' Hello,
     image_node ''/bin/inputd'' Inputd,
     image_node ''/bin/storaged'' Storaged,
     image_node ''/bin/sysinfo'' Sysinfo,
     image_node ''/bin/timed'' Timed,
     image_node ''/bin/windowd'' Windowd,
     image_node ''/bin/windowd-service'' Windowd_service,
     text_node ''/etc/motd'' x86_64_vfs_file_motd X86_64_VFS_NODE_FILE,
     text_node ''/etc/os-release'' x86_64_vfs_file_os_release X86_64_VFS_NODE_FILE,
     text_node ''/proc/version'' x86_64_vfs_file_version X86_64_VFS_NODE_FILE,
     \<lparr>node_path = ''/tmp/session.txt'', node_pointer = Null, node_size = 0, node_type = X86_64_VFS_NODE_FILE\<rparr>,
     text_node ''/usr/share/files.txt'' x86_64_vfs_file_files X86_64_VFS_NODE_FILE,
     text_node ''/usr/share/help.txt'' x86_64_vfs_file_help X86_64_VFS_NODE_FILE]"

abbreviation (input) X86_64_VFS_NODE_COUNT :: u32 where "X86_64_VFS_NODE_COUNT \<equiv> 23"

record vfs_storage =
  session_storage :: "char list"
  session_storage_size :: u64

definition x86_64_vfs_is_session_storage_node :: "x86_64_vfs_node \<Rightarrow> bool" where
  "x86_64_vfs_is_session_storage_node node \<longleftrightarrow> node_pointer node = Null \<and> node_type node = X86_64_VFS_NODE_FILE"

definition x86_64_vfs_node_size :: "(user_image \<Rightarrow> string) \<Rightarrow> vfs_storage \<Rightarrow> x86_64_vfs_node \<Rightarrow> u64" where
  "x86_64_vfs_node_size img g node =
     (case node_pointer node of
        Image i \<Rightarrow> of_nat (length (img i))
      | _ \<Rightarrow> if x86_64_vfs_is_session_storage_node node then session_storage_size g else node_size node)"

definition x86_64_vfs_node_data :: "(user_image \<Rightarrow> string) \<Rightarrow> vfs_storage \<Rightarrow> x86_64_vfs_node \<Rightarrow> char list" where
  "x86_64_vfs_node_data img g node =
     (if x86_64_vfs_is_session_storage_node node then session_storage g
      else case node_pointer node of Text t \<Rightarrow> t @ [NUL] | Image i \<Rightarrow> img i | Null \<Rightarrow> [])"

section \<open>Paths\<close>

definition path_char :: "string \<Rightarrow> nat \<Rightarrow> char" where
  "path_char path i = (if i < length path then path ! i else NUL)"

definition put :: "char list \<Rightarrow> nat \<Rightarrow> char \<Rightarrow> char list option" where
  "put buffer i c = (if i < length buffer then Some (buffer[i := c]) else None)"

function skip_slashes :: "string \<Rightarrow> nat \<Rightarrow> nat" where
  "skip_slashes path i =
     (if i < X86_64_VFS_PATH_MAX_BYTES \<and> path_char path i = slash then skip_slashes path (i + 1) else i)"
  by auto
termination by (relation "measure (\<lambda>(path, i). X86_64_VFS_PATH_MAX_BYTES - i)") auto

function segment_end :: "string \<Rightarrow> nat \<Rightarrow> nat" where
  "segment_end path i =
     (if i < X86_64_VFS_PATH_MAX_BYTES \<and> path_char path i \<noteq> NUL \<and> path_char path i \<noteq> slash
      then segment_end path (i + 1) else i)"
  by auto
termination by (relation "measure (\<lambda>(path, i). X86_64_VFS_PATH_MAX_BYTES - i)") auto

declare skip_slashes.simps [simp del] segment_end.simps [simp del]

fun back_to_slash :: "char list \<Rightarrow> nat \<Rightarrow> nat" where
  "back_to_slash normalized (Suc (Suc n)) =
     (if normalized ! Suc n \<noteq> slash then back_to_slash normalized (Suc n) else Suc (Suc n))"
| "back_to_slash normalized n = n"

fun append_segment :: "string \<Rightarrow> char list \<Rightarrow> nat \<Rightarrow> (char list \<times> nat) option" where
  "append_segment [] normalized out = Some (normalized, out)"
| "append_segment (c # cs) normalized out =
     Option.bind (put normalized out c) (\<lambda>normalized. append_segment cs normalized (out + 1))"

definition segment :: "string \<Rightarrow> nat \<Rightarrow> nat \<Rightarrow> string" where
  "segment path start len = map (\<lambda>i. path_char path (start + i)) [0..<len]"

text \<open>
  One segment: \<open>Some None\<close> is the return of 0 when the path gets too long, the outer \<open>None\<close> a
  write outside the buffer.
\<close>

definition add_segment :: "string \<Rightarrow> char list \<Rightarrow> nat \<Rightarrow> (char list \<times> nat) option option" where
  "add_segment seg normalized out =
     (if seg = ''.'' then Some (Some (normalized, out))
      else if seg = ''..'' then
        if out > 1 then
          let out = back_to_slash normalized (out - 1)
          in map_option (\<lambda>b. Some (b, out)) (put normalized out NUL)
        else Some (Some (normalized, out))
      else if out > 1 \<and> out + 1 \<ge> X86_64_VFS_PATH_MAX_BYTES then Some None
      else
        Option.bind (if out > 1 then map_option (\<lambda>b. (b, out + 1)) (put normalized out slash) else Some (normalized, out))
          (\<lambda>(normalized, out).
             if out + length seg \<ge> X86_64_VFS_PATH_MAX_BYTES then Some None
             else Option.bind (append_segment seg normalized out)
                    (\<lambda>(normalized, out). map_option (\<lambda>b. Some (b, out)) (put normalized out NUL))))"

lemma skip_slashes_ge: "i \<le> skip_slashes path i"
  by (induction path i rule: skip_slashes.induct) (subst skip_slashes.simps, auto)

lemma segment_end_ge: "i \<le> segment_end path i"
  by (induction path i rule: segment_end.induct) (subst segment_end.simps, auto)

lemma skip_slashes_stop: "skip_slashes path i < 64 \<Longrightarrow> path_char path (skip_slashes path i) \<noteq> slash"
  by (induction path i rule: skip_slashes.induct) (subst (asm) skip_slashes.simps, subst skip_slashes.simps, auto split: if_splits)

lemma segment_end_gt:
  "i < 64 \<Longrightarrow> path_char path i \<noteq> NUL \<Longrightarrow> path_char path i \<noteq> slash \<Longrightarrow> i < segment_end path i"
  using segment_end_ge [of "i + 1" path] by (subst segment_end.simps) auto

function normalize_loop :: "string \<Rightarrow> nat \<Rightarrow> char list \<Rightarrow> nat \<Rightarrow> (nat \<times> char list \<times> nat) option option" where
  "normalize_loop path i normalized out =
     (if \<not> (i < X86_64_VFS_PATH_MAX_BYTES \<and> path_char path i \<noteq> NUL) then Some (Some (i, normalized, out))
      else
        let start = skip_slashes path i
        in if start \<ge> X86_64_VFS_PATH_MAX_BYTES \<or> path_char path start = NUL then Some (Some (start, normalized, out))
           else
             let stop = segment_end path start
             in if stop \<ge> X86_64_VFS_PATH_MAX_BYTES then Some None
                else
                  case add_segment (segment path start (stop - start)) normalized out of
                    Some (Some (normalized, out)) \<Rightarrow> normalize_loop path stop normalized out
                  | Some None \<Rightarrow> Some None
                  | None \<Rightarrow> None)"
  by auto
termination
proof (relation "measure (\<lambda>(path, i, normalized, out). X86_64_VFS_PATH_MAX_BYTES - i)", goal_cases)
  case (2 path i normalized out start stop)
  then have "start < stop" using segment_end_gt [of start path] skip_slashes_stop [of path i] by simp
  then show ?case using 2 skip_slashes_ge [of i path] by auto
qed auto

declare normalize_loop.simps [simp del]

definition x86_64_vfs_normalize_path :: "string option \<Rightarrow> char list \<Rightarrow> char list option option" where
  "x86_64_vfs_normalize_path path normalized =
     (case path of
        None \<Rightarrow> Some None
      | Some path \<Rightarrow>
          if path_char path 0 \<noteq> slash then Some None
          else
            Option.bind (put normalized 0 slash)
              (\<lambda>normalized.
                 case normalize_loop path 0 normalized 1 of
                   None \<Rightarrow> None
                 | Some None \<Rightarrow> Some None
                 | Some (Some (i, normalized, out)) \<Rightarrow>
                     if i \<ge> X86_64_VFS_PATH_MAX_BYTES then Some None else map_option Some (put normalized out NUL)))"

fun path_equals_loop :: "nat \<Rightarrow> char list \<Rightarrow> string \<Rightarrow> nat \<Rightarrow> bool" where
  "path_equals_loop 0 path kernel_path i = False"
| "path_equals_loop (Suc n) path kernel_path i =
     (if path_char path i \<noteq> path_char kernel_path i then False
      else if path_char path i = NUL then True
      else path_equals_loop n path kernel_path (i + 1))"

definition x86_64_vfs_path_equals :: "char list \<Rightarrow> string \<Rightarrow> bool" where
  "x86_64_vfs_path_equals path kernel_path = path_equals_loop X86_64_VFS_PATH_MAX_BYTES path kernel_path 0"

text \<open>
  The normalised path is a local array: \<open>blank_path\<close> stands for its contents on entry, which no
  result depends on. A write outside of it would have no defined result; the lookup answers with
  no node there, and the lemmas below show that the case does not arise.
\<close>

definition blank_path :: "char list" where
  "blank_path = replicate X86_64_VFS_PATH_MAX_BYTES NUL"

definition x86_64_vfs_find_node :: "string option \<Rightarrow> u32" where
  "x86_64_vfs_find_node path =
     (case x86_64_vfs_normalize_path path blank_path of
        Some (Some normalized) \<Rightarrow>
          (case find (\<lambda>i. x86_64_vfs_path_equals normalized (node_path (x86_64_vfs_nodes ! i))) [0..<unat X86_64_VFS_NODE_COUNT] of
             Some i \<Rightarrow> of_nat i
           | None \<Rightarrow> X86_64_VFS_NO_NODE)
      | _ \<Rightarrow> X86_64_VFS_NO_NODE)"

section \<open>Descriptors\<close>

record x86_64_vfs_state =
  vfs_initialized :: bool
  fd_used :: "bool list"
  fd_flags :: "u64 list"
  fd_node_index :: "u32 list"
  fd_offset :: "u64 list"

definition x86_64_vfs_fd_slot :: "u64 \<Rightarrow> u32" where
  "x86_64_vfs_fd_slot fd =
     (if fd < X86_64_VFS_FD_BASE then X86_64_VFS_MAX_OPEN_FILES
      else let slot = fd - X86_64_VFS_FD_BASE
           in if slot \<ge> ucast X86_64_VFS_MAX_OPEN_FILES then X86_64_VFS_MAX_OPEN_FILES else ucast slot)"

definition x86_64_vfs_init :: x86_64_vfs_state where
  "x86_64_vfs_init =
     \<lparr>vfs_initialized = True, fd_used = replicate 4 False, fd_flags = replicate 4 X86_64_VFS_OPEN_READ,
      fd_node_index = replicate 4 X86_64_VFS_NO_NODE, fd_offset = replicate 4 0\<rparr>"

definition x86_64_vfs_open_count :: "x86_64_vfs_state \<Rightarrow> u32" where
  "x86_64_vfs_open_count state =
     fold (\<lambda>i count. if fd_used state ! i then count + 1 else count) [0..<unat X86_64_VFS_MAX_OPEN_FILES] 0"

definition set_slot :: "nat \<Rightarrow> bool \<Rightarrow> u64 \<Rightarrow> u32 \<Rightarrow> u64 \<Rightarrow> x86_64_vfs_state \<Rightarrow> x86_64_vfs_state" where
  "set_slot slot used flags node_index offset state =
     state\<lparr>fd_used := (fd_used state)[slot := used], fd_flags := (fd_flags state)[slot := flags],
       fd_node_index := (fd_node_index state)[slot := node_index], fd_offset := (fd_offset state)[slot := offset]\<rparr>"

definition x86_64_vfs_open ::
  "x86_64_vfs_state \<Rightarrow> vfs_storage \<Rightarrow> string option \<Rightarrow> u64 \<Rightarrow> u64 \<times> x86_64_vfs_state \<times> vfs_storage" where
  "x86_64_vfs_open state g path flags =
     (if path = None then (X86_64_VFS_RET_EINVAL, state, g)
      else
        let node_index = x86_64_vfs_find_node path
        in if node_index = X86_64_VFS_NO_NODE then (X86_64_VFS_RET_ENOENT, state, g)
           else
             let node = x86_64_vfs_nodes ! unat node_index;
                 supported_flags = X86_64_VFS_OPEN_WRITE OR X86_64_VFS_OPEN_CREATE OR X86_64_VFS_OPEN_TRUNCATE
             in if flags AND NOT supported_flags \<noteq> 0 then (X86_64_VFS_RET_EINVAL, state, g)
                else if flags \<noteq> X86_64_VFS_OPEN_READ \<and> \<not> x86_64_vfs_is_session_storage_node node
                then (X86_64_VFS_RET_EINVAL, state, g)
                else
                  let g = (if flags AND X86_64_VFS_OPEN_TRUNCATE \<noteq> 0 then g\<lparr>session_storage_size := 0\<rparr> else g)
                  in case find (\<lambda>slot. \<not> fd_used state ! slot) [0..<unat X86_64_VFS_MAX_OPEN_FILES] of
                       Some slot \<Rightarrow> (X86_64_VFS_FD_BASE + of_nat slot, set_slot slot True flags node_index 0 state, g)
                     | None \<Rightarrow> (X86_64_VFS_RET_EINVAL, state, g))"

text \<open>The second result of \<open>x86_64_vfs_read\<close> is what it wrote to the front of the buffer.\<close>

definition x86_64_vfs_read ::
  "(user_image \<Rightarrow> string) \<Rightarrow> x86_64_vfs_state \<Rightarrow> vfs_storage \<Rightarrow> u64 \<Rightarrow> u64 \<Rightarrow> u64 \<times> char list \<times> x86_64_vfs_state" where
  "x86_64_vfs_read img state g fd count =
     (let slot = x86_64_vfs_fd_slot fd
      in if slot \<ge> X86_64_VFS_MAX_OPEN_FILES \<or> \<not> fd_used state ! unat slot then (X86_64_VFS_RET_EBADF, [], state)
         else
           let node_index = fd_node_index state ! unat slot
           in if node_index \<ge> X86_64_VFS_NODE_COUNT then (X86_64_VFS_RET_EBADF, [], state)
              else
                let node = x86_64_vfs_nodes ! unat node_index;
                    node_data = x86_64_vfs_node_data img g node;
                    node_size = x86_64_vfs_node_size img g node;
                    offset = fd_offset state ! unat slot
                in if offset \<ge> node_size \<or> count = 0 then (0, [], state)
                   else
                     let remaining = node_size - offset;
                         bytes = (if count < remaining then count else remaining)
                     in (bytes, take (unat bytes) (drop (unat offset) node_data),
                         state\<lparr>fd_offset := (fd_offset state)[unat slot := offset + bytes]\<rparr>))"

definition x86_64_vfs_write ::
  "x86_64_vfs_state \<Rightarrow> vfs_storage \<Rightarrow> u64 \<Rightarrow> char list \<Rightarrow> u64 \<Rightarrow> u64 \<times> x86_64_vfs_state \<times> vfs_storage" where
  "x86_64_vfs_write state g fd buffer count =
     (let slot = x86_64_vfs_fd_slot fd
      in if slot \<ge> X86_64_VFS_MAX_OPEN_FILES \<or> \<not> fd_used state ! unat slot then (X86_64_VFS_RET_EBADF, state, g)
         else if fd_flags state ! unat slot AND X86_64_VFS_OPEN_WRITE = 0 then (X86_64_VFS_RET_EBADF, state, g)
         else
           let node_index = fd_node_index state ! unat slot
           in if node_index \<ge> X86_64_VFS_NODE_COUNT \<or>
                 \<not> x86_64_vfs_is_session_storage_node (x86_64_vfs_nodes ! unat node_index)
              then (X86_64_VFS_RET_EBADF, state, g)
              else
                let offset = fd_offset state ! unat slot
                in if offset \<ge> X86_64_VFS_RAM_FILE_BYTES \<or> count = 0 then (0, state, g)
                   else
                     let remaining = X86_64_VFS_RAM_FILE_BYTES - offset;
                         bytes = (if count < remaining then count else remaining);
                         g = g\<lparr>session_storage := fold (\<lambda>i st. st[unat offset + i := buffer ! i])
                                [0..<unat bytes] (session_storage g)\<rparr>;
                         state = state\<lparr>fd_offset := (fd_offset state)[unat slot := offset + bytes]\<rparr>
                     in (bytes, state,
                         if session_storage_size g < fd_offset state ! unat slot
                         then g\<lparr>session_storage_size := fd_offset state ! unat slot\<rparr> else g))"

definition x86_64_vfs_close :: "x86_64_vfs_state \<Rightarrow> u64 \<Rightarrow> u64 \<times> x86_64_vfs_state" where
  "x86_64_vfs_close state fd =
     (let slot = x86_64_vfs_fd_slot fd
      in if slot \<ge> X86_64_VFS_MAX_OPEN_FILES \<or> \<not> fd_used state ! unat slot then (X86_64_VFS_RET_EBADF, state)
         else (X86_64_VFS_RET_OK, set_slot (unat slot) False X86_64_VFS_OPEN_READ X86_64_VFS_NO_NODE 0 state))"

text \<open>The queries return the code and, on success, what they store through their result pointers.\<close>

definition x86_64_vfs_stat :: "(user_image \<Rightarrow> string) \<Rightarrow> vfs_storage \<Rightarrow> string option \<Rightarrow> u64 \<times> u64 option" where
  "x86_64_vfs_stat img g path =
     (if path = None then (X86_64_VFS_RET_EINVAL, None)
      else
        let node_index = x86_64_vfs_find_node path
        in if node_index = X86_64_VFS_NO_NODE then (X86_64_VFS_RET_ENOENT, None)
           else (X86_64_VFS_RET_OK, Some (x86_64_vfs_node_size img g (x86_64_vfs_nodes ! unat node_index))))"

definition x86_64_vfs_type :: "string option \<Rightarrow> u64 \<times> u64 option" where
  "x86_64_vfs_type path =
     (if path = None then (X86_64_VFS_RET_EINVAL, None)
      else
        let node_index = x86_64_vfs_find_node path
        in if node_index = X86_64_VFS_NO_NODE then (X86_64_VFS_RET_ENOENT, None)
           else (X86_64_VFS_RET_OK, Some (ucast (node_type (x86_64_vfs_nodes ! unat node_index)))))"

definition x86_64_vfs_resolve ::
  "(user_image \<Rightarrow> string) \<Rightarrow> x86_64_vfs_state \<Rightarrow> vfs_storage \<Rightarrow> string option \<Rightarrow> u64 \<times> (char list \<times> u64 \<times> u64) option" where
  "x86_64_vfs_resolve img state g path =
     (if \<not> vfs_initialized state \<or> path = None then (X86_64_VFS_RET_EINVAL, None)
      else
        let node_index = x86_64_vfs_find_node path
        in if node_index = X86_64_VFS_NO_NODE then (X86_64_VFS_RET_ENOENT, None)
           else
             let node = x86_64_vfs_nodes ! unat node_index
             in (X86_64_VFS_RET_OK,
                 Some (x86_64_vfs_node_data img g node, x86_64_vfs_node_size img g node, ucast (node_type node))))"

section \<open>The two self checks\<close>

text \<open>
  The checks run in order, each on the probe table the one before left; a failing one returns 0.
\<close>

definition type_is :: "string \<Rightarrow> u32 \<Rightarrow> bool" where
  "type_is path t \<longleftrightarrow> x86_64_vfs_type (Some path) = (X86_64_VFS_RET_OK, Some (ucast t))"

definition stat_is :: "(user_image \<Rightarrow> string) \<Rightarrow> vfs_storage \<Rightarrow> string \<Rightarrow> (u64 \<Rightarrow> bool) \<Rightarrow> bool" where
  "stat_is img g path good \<longleftrightarrow>
     (case x86_64_vfs_stat img g (Some path) of
        (ret, Some n) \<Rightarrow> ret = X86_64_VFS_RET_OK \<and> good n | (ret, None) \<Rightarrow> False)"

definition x86_64_vfs_ready :: "(user_image \<Rightarrow> string) \<Rightarrow> x86_64_vfs_state \<Rightarrow> vfs_storage \<Rightarrow> bool" where
  "x86_64_vfs_ready img state g =
     (if \<not> vfs_initialized state \<or> X86_64_VFS_NODE_COUNT = 0 then False
      else
        let (root_fd, probe, g) = x86_64_vfs_open x86_64_vfs_init g (Some ''/'') 0
        in if root_fd \<noteq> X86_64_VFS_FD_BASE then False
           else
             let (root_bytes, buffer, probe) = x86_64_vfs_read img probe g root_fd 4
             in if root_bytes \<noteq> 4 \<or> buffer \<noteq> ''bin'' @ [LF] then False
                else
                  let (closed, probe) = x86_64_vfs_close probe root_fd
                  in if closed \<noteq> X86_64_VFS_RET_OK then False
                     else
                       let (bin_fd, probe, g) = x86_64_vfs_open probe g (Some ''///usr/../bin/./'') 0
                       in if bin_fd \<noteq> X86_64_VFS_FD_BASE then False
                          else
                            let (bin_bytes, buffer, probe) = x86_64_vfs_read img probe g bin_fd 6
                            in if bin_bytes \<noteq> 6 \<or> buffer \<noteq> ''hello'' @ [LF] then False
                               else
                                 let (closed, probe) = x86_64_vfs_close probe bin_fd
                                 in if closed \<noteq> X86_64_VFS_RET_OK then False
                                    else
                                      let (fd, probe, g) = x86_64_vfs_open probe g (Some ''/etc/./os-release'') 0
                                      in if fd \<noteq> X86_64_VFS_FD_BASE then False
                                         else
                                           let (bytes, buffer, probe) = x86_64_vfs_read img probe g fd 5
                                           in if bytes \<noteq> 5 \<or> buffer \<noteq> ''NAME='' then False
                                              else if \<not> stat_is img g ''/etc/../etc/os-release''
                                                (\<lambda>n. n = of_nat (length x86_64_vfs_file_os_release)) then False
                                              else if \<not> type_is ''/etc/os-release'' X86_64_VFS_NODE_FILE then False
                                              else if \<not> type_is ''/usr/share'' X86_64_VFS_NODE_DIRECTORY then False
                                              else if \<not> type_is ''/etc/../bin//hello'' X86_64_VFS_NODE_EXECUTABLE then False
                                              else if \<not> type_is ''/bin/eventd'' X86_64_VFS_NODE_EXECUTABLE then False
                                              else if \<not> stat_is img g ''/bin/./hello'' (\<lambda>n. n > 64) then False
                                              else if \<not> type_is ''/bin/inputd'' X86_64_VFS_NODE_EXECUTABLE then False
                                              else if \<not> type_is ''/bin/storaged'' X86_64_VFS_NODE_EXECUTABLE then False
                                              else if \<not> type_is ''/bin/sysinfo'' X86_64_VFS_NODE_EXECUTABLE then False
                                              else if \<not> stat_is img g ''/bin/../bin/sysinfo'' (\<lambda>n. n > 64) then False
                                              else if \<not> type_is ''/bin/timed'' X86_64_VFS_NODE_EXECUTABLE then False
                                              else if \<not> type_is ''/bin/windowd'' X86_64_VFS_NODE_EXECUTABLE then False
                                              else if \<not> stat_is img g ''/bin/../bin/windowd'' (\<lambda>n. n > 64) then False
                                              else if \<not> type_is ''/bin/windowd-service'' X86_64_VFS_NODE_EXECUTABLE then False
                                              else if \<not> stat_is img g ''/bin/windowd-service'' (\<lambda>n. n > 64) then False
                                              else if \<not> stat_is img g ''/tmp/session.txt''
                                                (\<lambda>n. n \<le> X86_64_VFS_RAM_FILE_BYTES) then False
                                              else if \<not> type_is ''/tmp/session.txt'' X86_64_VFS_NODE_FILE then False
                                              else if fst (x86_64_vfs_stat img g (Some ''/missing'')) \<noteq> X86_64_VFS_RET_ENOENT then False
                                              else
                                                let (closed, probe) = x86_64_vfs_close probe fd
                                                in closed = X86_64_VFS_RET_OK \<and> x86_64_vfs_open_count probe = 0)"

definition x86_64_vfs_session_storage_ready :: "(user_image \<Rightarrow> string) \<Rightarrow> vfs_storage \<Rightarrow> bool \<times> vfs_storage" where
  "x86_64_vfs_session_storage_ready img g =
     (let saved = map (\<lambda>i. session_storage g ! i) [0..<unat X86_64_VFS_RAM_FILE_BYTES];
          saved_size = session_storage_size g;
          restore = (\<lambda>ok g. (ok, g\<lparr>session_storage := fold (\<lambda>i st. st[i := saved ! i]) [0..<unat X86_64_VFS_RAM_FILE_BYTES]
                                   (session_storage g), session_storage_size := saved_size\<rparr>));
          (fd, probe, g) = x86_64_vfs_open x86_64_vfs_init g (Some ''/tmp/session.txt'')
             (X86_64_VFS_OPEN_WRITE OR X86_64_VFS_OPEN_CREATE OR X86_64_VFS_OPEN_TRUNCATE)
      in if fd < X86_64_VFS_FD_BASE then restore False g
         else
           let (written, probe, g) = x86_64_vfs_write probe g fd (''ram'' @ [NUL]) 3
           in if written \<noteq> 3 then restore False g
              else
                let (closed, probe) = x86_64_vfs_close probe fd
                in if closed \<noteq> X86_64_VFS_RET_OK then restore False g
                   else
                     let (fd, probe, g) = x86_64_vfs_open probe g (Some ''/tmp/session.txt'') X86_64_VFS_OPEN_READ
                     in if fd < X86_64_VFS_FD_BASE then restore False g
                        else
                          let (bytes, buffer, probe) = x86_64_vfs_read img probe g fd 3
                          in if bytes \<noteq> 3 \<or> buffer \<noteq> ''ram'' then restore False g
                             else
                               let (closed, probe) = x86_64_vfs_close probe fd
                               in restore (closed = X86_64_VFS_RET_OK) g)"

section \<open>Normalised paths\<close>

text \<open>
  The reference: the components of a path, taken one by one on a stack. \<open>step\<close> is what the code
  does for a component: after a \<open>..\<close> at depth two or more its buffer keeps the slash behind the
  parent, which acts as an empty last component. \<open>plain_step\<close> is the usual meaning.
\<close>

function tokens :: "string \<Rightarrow> string list" where
  "tokens p = (let q = dropWhile (\<lambda>c. c = slash) p
     in if q = [] then [] else takeWhile (\<lambda>c. c \<noteq> slash) q # tokens (dropWhile (\<lambda>c. c \<noteq> slash) q))"
  by auto
termination
proof (relation "measure length", goal_cases)
  case (2 p q)
  then have "hd q \<noteq> slash" "q \<noteq> []" using hd_dropWhile [of "\<lambda>c. c = slash" p] by simp_all
  then have "length (dropWhile (\<lambda>c. c \<noteq> slash) q) < length q"
    unfolding neq_Nil_conv by (auto simp: le_imp_less_Suc length_dropWhile_le)
  then show ?case using 2 length_dropWhile_le [of "\<lambda>c. c = slash" p] by simp
qed simp

declare tokens.simps [simp del]

definition pop :: "string list \<Rightarrow> string list" where
  "pop cs = (if length cs \<le> 1 then []
     else let ds = (if last cs = [] then butlast cs else cs) in if length ds \<le> 1 then [] else butlast ds @ [[]])"

definition step :: "string \<Rightarrow> string list \<Rightarrow> string list" where
  "step seg cs = (if seg = ''.'' then cs else if seg = ''..'' then pop cs else cs @ [seg])"

definition plain_step :: "string \<Rightarrow> string list \<Rightarrow> string list" where
  "plain_step seg cs = (if seg = ''.'' then cs else if seg = ''..'' then butlast cs else cs @ [seg])"

definition spell :: "string list \<Rightarrow> string" where
  "spell cs = concat (map (\<lambda>c. slash # c) cs)"

definition render :: "string list \<Rightarrow> string" where
  "render cs = (if cs = [] then [slash] else spell cs)"

definition stack_ok :: "string list \<Rightarrow> bool" where
  "stack_ok cs \<longleftrightarrow> (\<forall>c \<in> set cs. slash \<notin> set c \<and> NUL \<notin> set c) \<and> (cs \<noteq> [] \<longrightarrow> hd cs \<noteq> [])"

lemma spell_simps [simp]: "spell [] = []" "spell (c # cs) = slash # c @ spell cs" "spell (cs @ ds) = spell cs @ spell ds"
  by (simp_all add: spell_def)

lemma length_render: "1 \<le> length (render cs)" "stack_ok cs \<Longrightarrow> (length (render cs) > 1) = (cs \<noteq> [])"
  by (cases cs; auto simp: render_def stack_ok_def)+

lemma back_to_slash_eq:
  assumes "take n b = xs @ slash # ys" "slash \<notin> set ys" "n \<le> length b"
  shows "back_to_slash b n = length xs + 1"
  using assms
proof (induction ys arbitrary: n rule: rev_induct)
  case Nil
  have n: "n = length xs + 1" using arg_cong [OF Nil.prems(1), of length] Nil.prems(3) by simp
  show ?case
  proof (cases xs)
    case (Cons x xs')
    have "b ! length xs = slash" using arg_cong [OF Nil.prems(1), of "\<lambda>l. l ! length xs"] n by (simp add: nth_append)
    then show ?thesis by (simp add: n Cons)
  qed (simp add: n)
next
  case (snoc y ys)
  have n: "n = length xs + 2 + length ys" using arg_cong [OF snoc.prems(1), of length] snoc.prems(3) by simp
  define m where "m = length xs + length ys"
  have nm: "n = Suc (Suc m)" by (simp add: n m_def)
  have y: "b ! Suc m = y" using arg_cong [OF snoc.prems(1), of "\<lambda>l. l ! Suc m"] by (simp add: nm m_def nth_append)
  have "take (Suc m) (take n b) = take (Suc m) (xs @ slash # ys @ [y])" using snoc.prems(1) by simp
  then have "take (Suc m) b = xs @ slash # ys" by (simp add: nm m_def)
  with snoc.IH [of "Suc m"] snoc.prems(2,3) y show ?case by (auto simp: nm)
qed

lemma last_block_of_stack:
  assumes "stack_ok cs" "cs \<noteq> []"
  shows "\<exists>xs ys. butlast (render cs) = xs @ slash # ys \<and> slash \<notin> set ys \<and> xs @ [slash] = render (pop cs) \<and> stack_ok (pop cs)"
proof -
  obtain ds c where cs: "cs = ds @ [c]" using assms(2) by (metis rev_exhaust)
  have c: "slash \<notin> set c" "ds = [] \<Longrightarrow> c \<noteq> []" "stack_ok ds" using assms(1) by (auto simp: cs stack_ok_def)
  show ?thesis
  proof (cases "c = []")
    case False
    have "butlast (render cs) = spell ds @ slash # butlast c" using False by (simp add: cs render_def butlast_append)
    moreover have "pop cs = (if ds = [] then [] else ds @ [[]])" using False by (auto simp: pop_def cs)
    moreover have "slash \<notin> set (butlast c)" using c(1) by (meson in_set_butlastD)
    ultimately show ?thesis
      using c(3) by (intro exI [of _ "spell ds"] exI [of _ "butlast c"]) (auto simp: render_def stack_ok_def)
  next
    case True
    then obtain es d where ds: "ds = es @ [d]" using c(2) by (metis rev_exhaust)
    have "butlast (render cs) = spell es @ slash # d" by (simp add: cs ds True render_def butlast_append)
    moreover have "pop cs = (if es = [] then [] else es @ [[]])" by (auto simp: pop_def cs ds True butlast_append)
    moreover have "slash \<notin> set d" "stack_ok es" using c(3) by (auto simp: ds stack_ok_def)
    ultimately show ?thesis
      by (intro exI [of _ "spell es"] exI [of _ d]) (auto simp: render_def stack_ok_def)
  qed
qed

text \<open>\<open>holds b n r\<close>: the first \<open>n\<close> characters of the 64-byte buffer are \<open>r\<close>.\<close>

definition holds :: "char list \<Rightarrow> nat \<Rightarrow> string \<Rightarrow> bool" where
  "holds b n r \<longleftrightarrow> length b = 64 \<and> n = length r \<and> n < 64 \<and> take n b = r"

lemma holds_put: "holds b n r \<Longrightarrow> put b n c = Some (b[n := c]) \<and> take (Suc n) (b[n := c]) = r @ [c] \<and> holds (b[n := c]) n r"
  by (auto simp: holds_def put_def take_Suc_conv_app_nth)

lemma append_segment_holds:
  "holds b n r \<Longrightarrow> n + length seg < 64 \<Longrightarrow> \<exists>b'. append_segment seg b n = Some (b', n + length seg) \<and> holds b' (n + length seg) (r @ seg)"
proof (induction seg arbitrary: b n r)
  case (Cons c seg)
  have "holds (b[n := c]) (Suc n) (r @ [c])"
    using Cons.prems holds_put [OF Cons.prems(1), of c] by (simp add: holds_def)
  from Cons.IH [OF this] Cons.prems holds_put [OF Cons.prems(1), of c] show ?case by auto
qed simp

lemma add_segment_step:
  assumes h: "holds b out (render cs)" and ok: "stack_ok cs" and seg: "seg \<noteq> []" "slash \<notin> set seg" "NUL \<notin> set seg"
    and room: "(if out > 1 then out + 1 else 1) + length seg < 64"
  shows "\<exists>b'. add_segment seg b out = Some (Some (b', length (render (step seg cs)))) \<and>
    holds b' (length (render (step seg cs))) (render (step seg cs)) \<and> stack_ok (step seg cs) \<and>
    length (render (step seg cs)) \<le> (if out > 1 then out + 1 else 1) + length seg"
proof -
  have o1: "(out > 1) = (cs \<noteq> [])" using length_render(2) [OF ok] h by (simp add: holds_def)
  have o2: "out = length (render cs)" "1 \<le> out" using h length_render(1) by (auto simp: holds_def)
  consider "seg = ''.''" | "seg = ''..''" "cs = []" | "seg = ''..''" "cs \<noteq> []" | "seg \<noteq> ''.''" "seg \<noteq> ''..''" by blast
  then show ?thesis
  proof cases
    case 1
    then show ?thesis using h ok o2 by (auto simp: add_segment_def step_def)
  next
    case 2
    then show ?thesis using h ok o1 o2 by (auto simp: add_segment_def step_def pop_def)
  next
    case 3
    from last_block_of_stack [OF ok 3(2)] obtain xs ys where
      l: "butlast (render cs) = xs @ slash # ys" "slash \<notin> set ys" "xs @ [slash] = render (pop cs)" "stack_ok (pop cs)" by blast
    have t: "take (out - 1) b = xs @ slash # ys"
    proof -
      have "butlast (take out b) = xs @ slash # ys" using h l(1) by (auto simp: holds_def)
      moreover have "out \<le> length b" using h by (simp add: holds_def)
      ultimately show ?thesis by (simp add: butlast_take)
    qed
    have b: "back_to_slash b (out - 1) = length xs + 1"
      using h by (intro back_to_slash_eq [OF t l(2)]) (auto simp: holds_def)
    have len: "length xs + 1 \<le> out - 1" using arg_cong [OF t, of length] h by (simp add: holds_def)
    have "take (length xs + 1) (take (out - 1) b) = xs @ [slash]" unfolding t by simp
    then have "take (length xs + 1) b = xs @ [slash]" using len by (simp add: min_def)
    then have n: "holds b (length (render (pop cs))) (render (pop cs))"
      using h len unfolding l(3) [symmetric] holds_def by auto
    have lr: "length (render (pop cs)) = length xs + 1" by (simp add: l(3) [symmetric])
    show ?thesis
      using 3 o1 b holds_put [OF n, of NUL] l(4) len lr by (auto simp: add_segment_def step_def Let_def)
  next
    case 4
    have new: "render (cs @ [seg]) = (if cs = [] then [slash] @ seg else render cs @ slash # seg)"
      by (simp add: render_def)
    show ?thesis
    proof (cases "cs = []")
      case True
      have "holds b 1 [slash]" "out = 1" using h True by (auto simp: holds_def render_def)
      from append_segment_holds [OF this(1), of seg] room obtain b' where
        a: "append_segment seg b 1 = Some (b', 1 + length seg)" "holds b' (1 + length seg) ([slash] @ seg)"
        using \<open>out = 1\<close> by auto
      then show ?thesis
        using 4 True room \<open>out = 1\<close> holds_put [OF a(2), of NUL] seg
        by (auto simp: add_segment_def step_def new [unfolded True, simplified] stack_ok_def)
    next
      case False
      have p: "holds (b[out := slash]) (out + 1) (render cs @ [slash])"
        using h room o1 False holds_put [OF h, of slash] by (simp add: holds_def)
      from append_segment_holds [OF this, of seg] room o1 False obtain b' where
        a: "append_segment seg (b[out := slash]) (out + 1) = Some (b', out + 1 + length seg)"
          "holds b' (out + 1 + length seg) ((render cs @ [slash]) @ seg)" by auto
      then show ?thesis
        using 4 False o1 room holds_put [OF a(2), of NUL] holds_put [OF h, of slash] seg ok o2
        by (auto simp: add_segment_def step_def new stack_ok_def hd_append)
    qed
  qed
qed

lemma path_char_NUL: "NUL \<notin> set p \<Longrightarrow> path_char p i = NUL \<longleftrightarrow> length p \<le> i"
  using nth_mem [of i p] by (cases "i < length p") (auto simp: path_char_def dest: nth_mem)

lemma skip_slashes_eq:
  "NUL \<notin> set p \<Longrightarrow> i \<le> 64 \<Longrightarrow> skip_slashes p i = min 64 (i + length (takeWhile (\<lambda>c. c = slash) (drop i p)))"
proof (induction p i rule: skip_slashes.induct)
  case (1 p i)
  show ?case
  proof (cases "i < length p \<and> p ! i = slash")
    case True
    then have "drop i p = slash # drop (Suc i) p" by (metis Cons_nth_drop_Suc)
    then show ?thesis using 1 True by (subst skip_slashes.simps) (auto simp: path_char_def)
  next
    case False
    then have "takeWhile (\<lambda>c. c = slash) (drop i p) = []" by (cases "i < length p") (auto simp: Cons_nth_drop_Suc [symmetric])
    then show ?thesis using False 1(3) by (subst skip_slashes.simps) (auto simp: path_char_def)
  qed
qed

lemma segment_end_eq:
  "NUL \<notin> set p \<Longrightarrow> i \<le> 64 \<Longrightarrow> segment_end p i = min 64 (i + length (takeWhile (\<lambda>c. c \<noteq> slash) (drop i p)))"
proof (induction p i rule: segment_end.induct)
  case (1 p i)
  show ?case
  proof (cases "i < length p \<and> p ! i \<noteq> slash")
    case True
    then have "drop i p = p ! i # drop (Suc i) p" by (metis Cons_nth_drop_Suc)
    moreover have "p ! i \<noteq> NUL" using 1(2) True by (metis nth_mem)
    ultimately show ?thesis using 1 True by (subst segment_end.simps) (auto simp: path_char_def)
  next
    case False
    then have "takeWhile (\<lambda>c. c \<noteq> slash) (drop i p) = []" by (cases "i < length p") (auto simp: Cons_nth_drop_Suc [symmetric])
    then show ?thesis using False 1(3) by (subst segment_end.simps) (auto simp: path_char_def)
  qed
qed

lemma segment_eq: "start + n \<le> length p \<Longrightarrow> segment p start n = take n (drop start p)"
  by (rule nth_equalityI) (auto simp: segment_def path_char_def)

lemma takeWhile_dropWhile_drop:
  "dropWhile P (drop i p) = drop (i + length (takeWhile P (drop i p))) p"
  "takeWhile P (drop i p) = take (length (takeWhile P (drop i p))) (drop i p)"
  "i \<le> length p \<Longrightarrow> i + length (takeWhile P (drop i p)) \<le> length p"
proof -
  show "dropWhile P (drop i p) = drop (i + length (takeWhile P (drop i p))) p"
    by (simp add: dropWhile_eq_drop add.commute)
  show "takeWhile P (drop i p) = take (length (takeWhile P (drop i p))) (drop i p)" by (rule takeWhile_eq_take)
  show "i + length (takeWhile P (drop i p)) \<le> length p" if "i \<le> length p"
    using length_takeWhile_le [of P "drop i p"] that by simp
qed

text \<open>One turn of the loop takes one token off the rest of the path.\<close>

lemma tokens_drop:
  assumes "start = i + length (takeWhile (\<lambda>c. c = slash) (drop i p))"
  shows "tokens (drop i p) = (if length p \<le> start then []
     else takeWhile (\<lambda>c. c \<noteq> slash) (drop start p) #
       tokens (drop (start + length (takeWhile (\<lambda>c. c \<noteq> slash) (drop start p))) p))"
  using assms by (subst tokens.simps) (simp add: takeWhile_dropWhile_drop(1) Let_def)

definition looks_past :: "(nat \<times> char list \<times> nat) option option \<Rightarrow> bool" where
  "looks_past r \<longleftrightarrow> r = Some None \<or> (\<exists>i b n. r = Some (Some (i, b, n)) \<and> 64 \<le> i)"

lemma normalize_loop_ok:
  assumes "NUL \<notin> set p" "holds b out (render cs)" "stack_ok cs" "i \<le> length p" "i \<le> 64" "out \<le> max 1 i"
    "i < length p \<Longrightarrow> p ! i = slash"
  shows "if length p < 64
    then let cs' = fold step (tokens (drop i p)) cs
         in \<exists>b'. normalize_loop p i b out = Some (Some (length p, b', length (render cs'))) \<and>
              holds b' (length (render cs')) (render cs') \<and> stack_ok cs'
    else looks_past (normalize_loop p i b out)"
  using assms
proof (induction "64 - i" arbitrary: i b out cs rule: less_induct)
  case less
  note nul = path_char_NUL [OF less.prems(1)]
  note unf = normalize_loop.simps [of p i b out, unfolded Let_def nul]
  have o2: "out = length (render cs)" using less.prems(2) by (simp add: holds_def)
  show ?case
  proof (cases "i < 64 \<and> i < length p")
    case False
    then have r: "normalize_loop p i b out = Some (Some (i, b, out))" using unf by auto
    show ?thesis
    proof (cases "length p < 64")
      case True
      then have "i = length p" using False less.prems(4) by auto
      then show ?thesis using r True less.prems(2,3) o2 by (simp add: tokens.simps)
    qed (use r False less.prems(4) in \<open>auto simp: looks_past_def\<close>)
  next
    case True
    define start where "start = i + length (takeWhile (\<lambda>c. c = slash) (drop i p))"
    have sk: "skip_slashes p i = min 64 start" using skip_slashes_eq [OF less.prems(1,5)] by (simp add: start_def)
    have sl: "start \<le> length p" using takeWhile_dropWhile_drop(3) [OF less.prems(4)] by (simp add: start_def)
    have "drop i p = slash # drop (Suc i) p" using True less.prems(7) by (metis Cons_nth_drop_Suc)
    then have si: "i < start" by (simp add: start_def)
    note tk = tokens_drop [OF start_def]
    show ?thesis
    proof (cases "64 \<le> start \<or> length p \<le> start")
      case e: True
      then have r: "normalize_loop p i b out = Some (Some (min 64 start, b, out))" using unf True sk sl by auto
      show ?thesis
      proof (cases "length p < 64")
        case lt: True
        then have "start = length p" using e sl by auto
        then show ?thesis using r lt tk less.prems(2,3) o2 by (simp add: min_def)
      qed (use r e sl in \<open>auto simp: looks_past_def min_def\<close>)
    next
      case s: False
      define seg where "seg = takeWhile (\<lambda>c. c \<noteq> slash) (drop start p)"
      define stop where "stop = start + length seg"
      have st: "segment_end p start = min 64 stop" using segment_end_eq [OF less.prems(1), of start] s by (simp add: seg_def stop_def)
      have stl: "stop \<le> length p" using takeWhile_dropWhile_drop(3) [OF sl] by (simp add: seg_def stop_def)
      have s1: "start < 64" "start < length p" using s by auto
      have p1: "p ! start \<noteq> slash"
        using skip_slashes_stop [of p i] sk s1 by (simp add: path_char_def min_def)
      then have seg1: "seg \<noteq> []" using s1 by (simp add: seg_def Cons_nth_drop_Suc [symmetric])
      show ?thesis
      proof (cases "64 \<le> stop")
        case e: True
        then show ?thesis using unf True sk s1 st stl by (auto simp: looks_past_def min_def)
      next
        case ok: False
        have sg: "segment p start (stop - start) = seg"
          using segment_eq [of start "stop - start" p] stl takeWhile_dropWhile_drop(2) [of "\<lambda>c. c \<noteq> slash" start p]
          by (simp add: stop_def seg_def)
        have sg2: "slash \<notin> set seg" "NUL \<notin> set seg"
          using less.prems(1) by (auto simp: seg_def dest: set_takeWhileD in_set_dropD)
        have room: "(if out > 1 then out + 1 else 1) + length seg < 64" "(if out > 1 then out + 1 else 1) + length seg \<le> stop"
          using ok si less.prems(6) by (auto simp: stop_def)
        from add_segment_step [OF less.prems(2,3) seg1 sg2 room(1)] obtain b' where
          a: "add_segment seg b out = Some (Some (b', length (render (step seg cs))))"
            "holds b' (length (render (step seg cs))) (render (step seg cs))" "stack_ok (step seg cs)"
            "length (render (step seg cs)) \<le> stop" using room(2) by fastforce
        have r: "normalize_loop p i b out = normalize_loop p stop b' (length (render (step seg cs)))"
          using unf True sk s1 st ok sg a(1) by (auto simp: min_def)
        have "64 - stop < 64 - i" using ok si s1 stop_def by simp
        moreover have "stop < length p \<Longrightarrow> p ! stop = slash"
          using nth_length_takeWhile [of "\<lambda>c. c \<noteq> slash" "drop start p"] s1 by (simp add: stop_def seg_def)
        ultimately have IH: "if length p < 64
            then let cs' = fold step (tokens (drop stop p)) (step seg cs)
              in \<exists>b''. normalize_loop p stop b' (length (render (step seg cs))) = Some (Some (length p, b'', length (render cs'))) \<and>
                holds b'' (length (render cs')) (render cs') \<and> stack_ok cs'
            else looks_past (normalize_loop p stop b' (length (render (step seg cs))))"
          using ok a(4) by (intro less.hyps [OF _ less.prems(1) a(2,3) stl]) auto
        moreover have "tokens (drop i p) = seg # tokens (drop stop p)" using tk s1 by (simp add: seg_def stop_def)
        ultimately show ?thesis unfolding r by simp
      qed
    qed
  qed
qed

definition canonical :: "string \<Rightarrow> string list" where
  "canonical p = fold step (tokens p) []"

definition absolute :: "string \<Rightarrow> bool" where
  "absolute p \<longleftrightarrow> p \<noteq> [] \<and> hd p = slash \<and> NUL \<notin> set p"

lemma normalize_path_ok:
  assumes n: "NUL \<notin> set p" and b: "length b = 64"
  shows "if absolute p \<and> length p < 64
    then \<exists>b'. x86_64_vfs_normalize_path (Some p) b = Some (Some b') \<and> length b' = 64 \<and> length (render (canonical p)) < 64 \<and>
           take (Suc (length (render (canonical p)))) b' = render (canonical p) @ [NUL] \<and> stack_ok (canonical p)
    else x86_64_vfs_normalize_path (Some p) b = Some None"
proof (cases "absolute p")
  case False
  then have "path_char p 0 \<noteq> slash" using n by (cases p) (auto simp: absolute_def path_char_def)
  then show ?thesis using False by (simp add: x86_64_vfs_normalize_path_def)
next
  case True
  then have p0: "path_char p 0 = slash" "p ! 0 = slash" by (auto simp: absolute_def path_char_def hd_conv_nth)
  define b1 where "b1 = b[0 := slash]"
  have put: "put b 0 slash = Some b1" using b by (simp add: put_def b1_def)
  have "take 1 b1 = [slash]" using b by (cases b) (auto simp: b1_def)
  then have h: "holds b1 1 (render [])" using b by (simp add: holds_def render_def b1_def)
  have "stack_ok []" by (simp add: stack_ok_def)
  note loop = normalize_loop_ok [OF n h this, of 0, simplified, OF p0(2)]
  show ?thesis
  proof (cases "length p < 64")
    case lt: True
    with loop obtain b2 where l: "normalize_loop p 0 b1 1 = Some (Some (length p, b2, length (render (canonical p))))"
      "holds b2 (length (render (canonical p))) (render (canonical p))" "stack_ok (canonical p)"
      by (auto simp: canonical_def Let_def)
    with holds_put [OF l(2), of NUL] p0(1) put lt True show ?thesis
      by (auto simp: x86_64_vfs_normalize_path_def holds_def)
  next
    case False
    with loop have "looks_past (normalize_loop p 0 b1 1)" by simp
    then show ?thesis using False p0(1) put by (auto simp: x86_64_vfs_normalize_path_def looks_past_def)
  qed
qed

lemma path_equals_loop_eq:
  assumes "NUL \<notin> set r" "NUL \<notin> set k" "\<And>j. j \<le> length r \<Longrightarrow> path_char b j = path_char r j"
    "length r < i + n" "take i r = take i k" "i \<le> length r"
  shows "path_equals_loop n b k i \<longleftrightarrow> r = k"
  using assms(4-6)
proof (induction n arbitrary: i)
  case (Suc n)
  have pc: "path_char b i = path_char r i" using assms(3) Suc.prems(3) by simp
  show ?case
  proof (cases "path_char r i = path_char k i")
    case False
    then show ?thesis using pc by auto
  next
    case eq: True
    show ?thesis
    proof (cases "i < length r")
      case True
      then have "path_char r i \<noteq> NUL" using path_char_NUL [OF assms(1)] by simp
      moreover have ik: "i < length k" using path_char_NUL [OF assms(2)] eq calculation by (metis not_le)
      moreover have "take (Suc i) r = take (Suc i) k"
        using Suc.prems(2) True ik eq by (simp add: take_Suc_conv_app_nth path_char_def)
      ultimately show ?thesis using Suc.IH [of "Suc i"] Suc.prems(1) True pc eq by simp
    next
      case False
      then have i: "i = length r" using Suc.prems(3) by simp
      then have "path_char k i = NUL" using eq path_char_NUL [OF assms(1), of i] by simp
      then have "length k \<le> i" using path_char_NUL [OF assms(2)] by blast
      then show ?thesis using Suc.prems(2) pc eq \<open>path_char k i = NUL\<close> i by simp
    qed
  qed
qed simp

lemma path_equals_eq:
  assumes "length b = 64" "length r < 64" "take (Suc (length r)) b = r @ [NUL]" "NUL \<notin> set r" "NUL \<notin> set k"
  shows "x86_64_vfs_path_equals b k \<longleftrightarrow> r = k"
proof -
  have "path_char b j = path_char r j" if "j \<le> length r" for j
    using arg_cong [OF assms(3), of "\<lambda>l. l ! j"] that assms(1,2) by (auto simp: path_char_def nth_append)
  then show ?thesis unfolding x86_64_vfs_path_equals_def using assms(2,4,5) by (intro path_equals_loop_eq) auto
qed

lemma NUL_render: "stack_ok cs \<Longrightarrow> NUL \<notin> set (render cs)"
  by (auto simp: render_def spell_def stack_ok_def)

lemma NUL_node_path: "n \<in> set x86_64_vfs_nodes \<Longrightarrow> NUL \<notin> set (node_path n)"
  by (auto simp: x86_64_vfs_nodes_def text_node_def image_node_def)

lemma length_nodes [simp]: "length x86_64_vfs_nodes = 23"
  by (simp add: x86_64_vfs_nodes_def)

definition node_named :: "string \<Rightarrow> u32" where
  "node_named r = (case find (\<lambda>i. node_path (x86_64_vfs_nodes ! i) = r) [0..<23] of Some i \<Rightarrow> of_nat i | None \<Rightarrow> X86_64_VFS_NO_NODE)"

lemma node_paths:
  "map node_path x86_64_vfs_nodes = [''/'', ''/bin'', ''/etc'', ''/proc'', ''/sbin'', ''/tmp'', ''/usr'', ''/usr/share'',
     ''/bin/datatest'', ''/bin/eventd'', ''/bin/hello'', ''/bin/inputd'', ''/bin/storaged'', ''/bin/sysinfo'', ''/bin/timed'',
     ''/bin/windowd'', ''/bin/windowd-service'', ''/etc/motd'', ''/etc/os-release'', ''/proc/version'', ''/tmp/session.txt'',
     ''/usr/share/files.txt'', ''/usr/share/help.txt'']"
  by (simp add: x86_64_vfs_nodes_def text_node_def image_node_def)

lemma node_named_self:
  assumes "i < 23"
  shows "node_named (node_path (x86_64_vfs_nodes ! i)) = of_nat i"
proof -
  have "distinct (map node_path x86_64_vfs_nodes)" unfolding node_paths by simp
  then have "\<forall>j < 23. node_path (x86_64_vfs_nodes ! j) = node_path (x86_64_vfs_nodes ! i) \<longrightarrow> j = i"
    using assms by (auto simp: distinct_map nth_eq_iff_index_eq dest!: inj_onD)
  then have "\<forall>j < i. node_path (x86_64_vfs_nodes ! j) \<noteq> node_path (x86_64_vfs_nodes ! i)" using assms by (metis less_trans less_irrefl)
  then have "find (\<lambda>j. node_path (x86_64_vfs_nodes ! j) = node_path (x86_64_vfs_nodes ! i)) [0..<23] = Some i"
    using assms by (auto simp: find_Some_iff intro!: exI [of _ i])
  then show ?thesis by (simp add: node_named_def)
qed

lemma node_named_trailing:
  assumes "a \<noteq> []"
  shows "node_named (slash # a @ [slash]) = X86_64_VFS_NO_NODE"
proof -
  have "list_all (\<lambda>q. q \<noteq> slash # a @ [slash]) (map node_path x86_64_vfs_nodes)"
    unfolding node_paths using assms by (auto simp: Cons_eq_append_conv append_eq_Cons_conv)
  then have "find (\<lambda>i. node_path (x86_64_vfs_nodes ! i) = slash # a @ [slash]) [0..<23] = None"
    by (auto simp: find_None_iff list_all_length)
  then show ?thesis by (simp add: node_named_def)
qed

lemma find_node_eq:
  assumes "NUL \<notin> set p"
  shows "x86_64_vfs_find_node (Some p) =
    (if absolute p \<and> length p < 64 then node_named (render (canonical p)) else X86_64_VFS_NO_NODE)"
proof (cases "absolute p \<and> length p < 64")
  case True
  have "length blank_path = 64" by (simp add: blank_path_def)
  from normalize_path_ok [OF assms this] True obtain b where
    b: "x86_64_vfs_normalize_path (Some p) blank_path = Some (Some b)" "length b = 64" "length (render (canonical p)) < 64"
      "take (Suc (length (render (canonical p)))) b = render (canonical p) @ [NUL]" "stack_ok (canonical p)" by auto
  have "x86_64_vfs_path_equals b (node_path (x86_64_vfs_nodes ! i)) = (node_path (x86_64_vfs_nodes ! i) = render (canonical p))"
    if "i \<in> set [0..<23]" for i
    using path_equals_eq [OF b(2-4) NUL_render [OF b(5)] NUL_node_path [of "x86_64_vfs_nodes ! i"]] that by auto
  then have "find (\<lambda>i. x86_64_vfs_path_equals b (node_path (x86_64_vfs_nodes ! i))) [0..<23] =
      find (\<lambda>i. node_path (x86_64_vfs_nodes ! i) = render (canonical p)) [0..<23]"
    by (intro find_cong) auto
  then show ?thesis using b(1) True by (simp add: x86_64_vfs_find_node_def node_named_def)
next
  case False
  then show ?thesis using normalize_path_ok [OF assms, of blank_path]
    by (auto simp: x86_64_vfs_find_node_def blank_path_def)
qed

text \<open>The usual meaning agrees with the code where no \<open>..\<close> is met at depth two or more.\<close>

fun shallow :: "string list \<Rightarrow> string list \<Rightarrow> bool" where
  "shallow [] cs \<longleftrightarrow> True"
| "shallow (t # ts) cs \<longleftrightarrow> (t = ''..'' \<longrightarrow> length cs \<le> 1) \<and> shallow ts (plain_step t cs)"

lemma shallow_step: "shallow ts cs \<Longrightarrow> fold step ts cs = fold plain_step ts cs"
proof (induction ts arbitrary: cs)
  case (Cons t ts)
  have "step t cs = plain_step t cs" using Cons.prems by (cases cs) (auto simp: step_def plain_step_def pop_def)
  with Cons show ?case by simp
qed simp

lemma tokens_Nil [simp]: "tokens [] = []"
  by (simp add: tokens.simps)

lemma tokens_slash [simp]: "tokens (slash # p) = tokens p"
  by (subst (1 2) tokens.simps) simp

lemma tokens_name:
  assumes "n \<noteq> []" "slash \<notin> set n"
  shows "tokens (n @ slash # p) = n # tokens p" "tokens n = [n]"
proof -
  have d1: "dropWhile (\<lambda>c. c = slash) (n @ q) = n @ q" for q using assms by (cases n) auto
  have n: "\<And>x. x \<in> set n \<Longrightarrow> x \<noteq> slash" using assms(2) by auto
  have d: "takeWhile (\<lambda>c. c \<noteq> slash) (n @ slash # p) = n" "dropWhile (\<lambda>c. c \<noteq> slash) (n @ slash # p) = slash # p"
    by (subst takeWhile_append2 dropWhile_append2, erule n, simp)+
  show "tokens (n @ slash # p) = n # tokens p" using assms(1) by (subst tokens.simps) (simp add: d1 d Let_def)
  have e: "takeWhile (\<lambda>c. c \<noteq> slash) n = n" "dropWhile (\<lambda>c. c \<noteq> slash) n = []" using n by (auto simp: takeWhile_eq_all_conv)
  show "tokens n = [n]" using assms(1) d1 [of "[]"] by (subst tokens.simps) (simp add: Let_def e del: dropWhile_eq_Nil_conv)
qed

definition name_ok :: "string \<Rightarrow> bool" where
  "name_ok n \<longleftrightarrow> n \<noteq> [] \<and> slash \<notin> set n \<and> NUL \<notin> set n \<and> n \<noteq> ''.'' \<and> n \<noteq> ''..''"

section \<open>Files\<close>

definition contents :: "(user_image \<Rightarrow> string) \<Rightarrow> vfs_storage \<Rightarrow> u32 \<Rightarrow> string" where
  "contents img g i = (case node_pointer (x86_64_vfs_nodes ! unat i) of
     Text t \<Rightarrow> t | Image m \<Rightarrow> img m | Null \<Rightarrow> take (unat (session_storage_size g)) (session_storage g))"

definition storage_ok :: "vfs_storage \<Rightarrow> bool" where
  "storage_ok g \<longleftrightarrow> length (session_storage g) = 256 \<and> session_storage_size g \<le> 256"

definition images_fit :: "(user_image \<Rightarrow> string) \<Rightarrow> bool" where
  "images_fit img \<longleftrightarrow> (\<forall>m. length (img m) < 2 ^ 64)"

definition vfs_ok :: "x86_64_vfs_state \<Rightarrow> bool" where
  "vfs_ok st \<longleftrightarrow> length (fd_used st) = 4 \<and> length (fd_flags st) = 4 \<and> length (fd_node_index st) = 4 \<and> length (fd_offset st) = 4 \<and>
     (\<forall>i < 4. fd_used st ! i \<longrightarrow> unat (fd_node_index st ! i) < 23)"

lemma text_lengths [simp]:
  "length x86_64_vfs_dir_root = 26"
  "length x86_64_vfs_dir_bin = 76"
  "length x86_64_vfs_dir_sbin = 0"
  "length x86_64_vfs_dir_tmp = 12"
  "length x86_64_vfs_dir_etc = 16"
  "length x86_64_vfs_dir_proc = 8"
  "length x86_64_vfs_dir_usr = 6"
  "length x86_64_vfs_dir_usr_share = 19"
  "length x86_64_vfs_file_os_release = 35"
  "length x86_64_vfs_file_motd = 38"
  "length x86_64_vfs_file_version = 31"
  "length x86_64_vfs_file_help = 246"
  "length x86_64_vfs_file_files = 264"
  by (simp_all add: x86_64_vfs_dir_root_def
    x86_64_vfs_dir_bin_def
    x86_64_vfs_dir_sbin_def
    x86_64_vfs_dir_tmp_def
    x86_64_vfs_dir_etc_def
    x86_64_vfs_dir_proc_def
    x86_64_vfs_dir_usr_def
    x86_64_vfs_dir_usr_share_def
    x86_64_vfs_file_os_release_def
    x86_64_vfs_file_motd_def
    x86_64_vfs_file_version_def
    x86_64_vfs_file_help_def
    x86_64_vfs_file_files_def)

lemma node_cases:
  assumes "n \<in> set x86_64_vfs_nodes"
  shows "(\<exists>t. node_pointer n = Text t \<and> node_size n = of_nat (length t) \<and> length t < 1000) \<or>
    (\<exists>m. node_pointer n = Image m) \<or> (node_pointer n = Null \<and> node_type n = 1)"
proof -
  have "list_all (\<lambda>n. (\<exists>t. node_pointer n = Text t \<and> node_size n = of_nat (length t) \<and> length t < 1000) \<or>
    (\<exists>m. node_pointer n = Image m) \<or> (node_pointer n = Null \<and> node_type n = 1)) x86_64_vfs_nodes"
    by (simp add: x86_64_vfs_nodes_def text_node_def image_node_def)
  then show ?thesis using assms by (simp add: list_all_iff)
qed

lemma node_contents:
  assumes "unat i < 23" "storage_ok g" "images_fit img"
  shows "unat (x86_64_vfs_node_size img g (x86_64_vfs_nodes ! unat i)) = length (contents img g i)"
    and "take (length (contents img g i)) (x86_64_vfs_node_data img g (x86_64_vfs_nodes ! unat i)) = contents img g i"
proof -
  define n where "n = x86_64_vfs_nodes ! unat i"
  have "n \<in> set x86_64_vfs_nodes" using assms(1) by (simp add: n_def)
  from node_cases [OF this] have
    "unat (x86_64_vfs_node_size img g n) = length (contents img g i) \<and>
      take (length (contents img g i)) (x86_64_vfs_node_data img g n) = contents img g i"
  proof (elim disjE exE conjE)
    fix t assume "node_pointer n = Text t" "node_size n = of_nat (length t)" "length t < 1000"
    then show ?thesis by (simp add: x86_64_vfs_node_size_def x86_64_vfs_node_data_def contents_def
        x86_64_vfs_is_session_storage_node_def n_def [symmetric] unat_of_nat take_bit_nat_eq_self)
  next
    fix m assume "node_pointer n = Image m"
    then show ?thesis using assms(3) by (simp add: x86_64_vfs_node_size_def x86_64_vfs_node_data_def contents_def
        x86_64_vfs_is_session_storage_node_def n_def [symmetric] unat_of_nat take_bit_nat_eq_self images_fit_def)
  next
    assume "node_pointer n = Null" "node_type n = 1"
    then show ?thesis using assms(2) by (simp add: x86_64_vfs_node_size_def x86_64_vfs_node_data_def contents_def
        x86_64_vfs_is_session_storage_node_def n_def [symmetric] storage_ok_def word_le_nat_alt)
  qed
  then show "unat (x86_64_vfs_node_size img g (x86_64_vfs_nodes ! unat i)) = length (contents img g i)"
    and "take (length (contents img g i)) (x86_64_vfs_node_data img g (x86_64_vfs_nodes ! unat i)) = contents img g i"
    by (simp_all add: n_def)
qed

lemma fd_slot_eq:
  "unat fd - 3 < 4 \<and> 3 \<le> unat fd \<Longrightarrow> unat (x86_64_vfs_fd_slot fd) = unat fd - 3 \<and> x86_64_vfs_fd_slot fd < 4"
  "\<not> (unat fd - 3 < 4 \<and> 3 \<le> unat fd) \<Longrightarrow> x86_64_vfs_fd_slot fd = 4"
proof -
  show "unat (x86_64_vfs_fd_slot fd) = unat fd - 3 \<and> x86_64_vfs_fd_slot fd < 4" if h: "unat fd - 3 < 4 \<and> 3 \<le> unat fd"
  proof -
    have d: "unat (fd - 3) = unat fd - 3" using h by (simp add: unat_sub_if')
    then have "unat (ucast (fd - 3) :: u32) = unat fd - 3" using h by (simp add: unsigned_ucast_eq take_bit_nat_eq_self)
    then show ?thesis using h d by (auto simp: x86_64_vfs_fd_slot_def Let_def word_less_nat_alt word_le_nat_alt)
  qed
  show "x86_64_vfs_fd_slot fd = 4" if "\<not> (unat fd - 3 < 4 \<and> 3 \<le> unat fd)"
    using that by (auto simp: x86_64_vfs_fd_slot_def Let_def word_less_nat_alt word_le_nat_alt unat_sub_if')
qed

text \<open>An open descriptor, and what it refers to.\<close>

definition fd_open :: "x86_64_vfs_state \<Rightarrow> u64 \<Rightarrow> bool" where
  "fd_open st fd \<longleftrightarrow> 3 \<le> unat fd \<and> unat fd - 3 < 4 \<and> fd_used st ! (unat fd - 3)"

abbreviation fd_node :: "x86_64_vfs_state \<Rightarrow> u64 \<Rightarrow> u32" where
  "fd_node st fd \<equiv> fd_node_index st ! (unat fd - 3)"

abbreviation fd_pos :: "x86_64_vfs_state \<Rightarrow> u64 \<Rightarrow> u64" where
  "fd_pos st fd \<equiv> fd_offset st ! (unat fd - 3)"

definition set_pos :: "u64 \<Rightarrow> u64 \<Rightarrow> x86_64_vfs_state \<Rightarrow> x86_64_vfs_state" where
  "set_pos fd n st = st\<lparr>fd_offset := (fd_offset st)[unat fd - 3 := n]\<rparr>"

lemma fd_slot_open: "fd_open st fd \<Longrightarrow> unat (x86_64_vfs_fd_slot fd) = unat fd - 3 \<and> \<not> 4 \<le> x86_64_vfs_fd_slot fd"
  using fd_slot_eq(1) [of fd] by (simp add: fd_open_def not_le)

lemma fd_slot_closed: "\<not> fd_open st fd \<Longrightarrow> 4 \<le> x86_64_vfs_fd_slot fd \<or> \<not> fd_used st ! unat (x86_64_vfs_fd_slot fd)"
  using fd_slot_eq [of fd] by (cases "unat fd - 3 < 4 \<and> 3 \<le> unat fd") (auto simp: fd_open_def)

lemma vfs_ok_node: "vfs_ok st \<Longrightarrow> fd_open st fd \<Longrightarrow> unat (fd_node st fd) < 23"
  by (auto simp: vfs_ok_def fd_open_def)

lemma vfs_ok_set_pos: "vfs_ok st \<Longrightarrow> vfs_ok (set_pos fd n st)"
  by (simp add: vfs_ok_def set_pos_def)

lemma set_pos_sel: "vfs_ok st \<Longrightarrow> fd_open st fd \<Longrightarrow> fd_pos (set_pos fd n st) fd = n"
  "fd_open (set_pos fd n st) fd' = fd_open st fd'" "fd_node (set_pos fd n st) fd' = fd_node st fd'"
  by (auto simp: set_pos_def vfs_ok_def fd_open_def)

lemma read_eq:
  assumes ok: "vfs_ok st" "storage_ok g" "images_fit img" and fd: "fd_open st fd"
  defines "c \<equiv> contents img g (fd_node st fd)"
  shows "x86_64_vfs_read img st g fd n =
    (of_nat (min (unat n) (length c - unat (fd_pos st fd))), take (unat n) (drop (unat (fd_pos st fd)) c),
     if unat n = 0 \<or> length c \<le> unat (fd_pos st fd) then st
     else set_pos fd (fd_pos st fd + of_nat (min (unat n) (length c - unat (fd_pos st fd)))) st)"
proof -
  define node where "node = x86_64_vfs_nodes ! unat (fd_node st fd)"
  have i: "unat (fd_node st fd) < 23" using vfs_ok_node [OF ok(1) fd] .
  note sz = node_contents(1) [OF i ok(2,3), folded node_def c_def] and da = node_contents(2) [OF i ok(2,3), folded node_def c_def]
  have nc: "\<not> 23 \<le> fd_node st fd" using i by (simp add: not_le word_less_nat_alt)
  note sl = fd_slot_open [OF fd]
  have u: "fd_used st ! (unat fd - 3)" using fd by (simp add: fd_open_def)
  define o' where "o' = fd_pos st fd"
  note unf = x86_64_vfs_read_def [of img st g fd n, unfolded Let_def, folded node_def]
  show ?thesis
  proof (cases "unat n = 0 \<or> length c \<le> unat o'")
    case True
    then have "o' \<ge> x86_64_vfs_node_size img g node \<or> n = 0"
      by (auto simp: word_le_nat_alt sz word_unat_eq_iff)
    then show ?thesis using True sl u nc by (auto simp: x86_64_vfs_read_def Let_def node_def o'_def)
  next
    case False
    define k where "k = (if n < x86_64_vfs_node_size img g node - o' then n else x86_64_vfs_node_size img g node - o')"
    have le: "\<not> o' \<ge> x86_64_vfs_node_size img g node" "n \<noteq> 0" using False by (auto simp: word_le_nat_alt sz word_unat_eq_iff)
    then have "unat (x86_64_vfs_node_size img g node - o') = length c - unat o'" by (simp add: unat_sub_if' sz word_le_nat_alt)
    then have k: "unat k = min (unat n) (length c - unat o')" by (auto simp: k_def word_less_nat_alt)
    then have k': "k = of_nat (min (unat n) (length c - unat o'))" by (simp flip: k)
    have "take (unat k) (drop (unat o') (x86_64_vfs_node_data img g node)) = take (unat n) (drop (unat o') c)"
    proof -
      have "take (length c - unat o') (drop (unat o') (x86_64_vfs_node_data img g node)) = drop (unat o') c"
        by (subst da [symmetric]) (simp add: drop_take)
      then have "take (unat n) (drop (unat o') c) = take (unat n) (take (length c - unat o') (drop (unat o') (x86_64_vfs_node_data img g node)))"
        by simp
      then show ?thesis by (simp add: k)
    qed
    then have "x86_64_vfs_read img st g fd n = (k, take (unat n) (drop (unat o') c), set_pos fd (o' + k) st)"
      using sl u nc le by (simp add: x86_64_vfs_read_def Let_def node_def [symmetric] o'_def [symmetric] k_def [symmetric] set_pos_def)
    then show ?thesis using False by (simp add: k' o'_def)
  qed
qed

lemma fold_write:
  "off + n \<le> length xs \<Longrightarrow> n \<le> length w \<Longrightarrow>
     fold (\<lambda>i st. st[off + i := w ! i]) [0..<n] xs = take off xs @ take n w @ drop (off + n) xs"
proof (induction n)
  case (Suc n)
  have "(take off xs @ take n w @ drop (off + n) xs)[off + n := w ! n] = take off xs @ take n w @ (drop (off + n) xs)[0 := w ! n]"
    using Suc.prems by (simp add: list_update_append min_def)
  also have "(drop (off + n) xs)[0 := w ! n] = w ! n # drop (off + Suc n) xs"
    using Suc.prems by (simp add: Cons_nth_drop_Suc [symmetric])
  finally show ?case using Suc by (simp add: take_Suc_conv_app_nth)
qed simp

definition writable :: "x86_64_vfs_state \<Rightarrow> u64 \<Rightarrow> bool" where
  "writable st fd \<longleftrightarrow> fd_open st fd \<and> fd_flags st ! (unat fd - 3) AND 1 \<noteq> 0 \<and>
     x86_64_vfs_is_session_storage_node (x86_64_vfs_nodes ! unat (fd_node st fd))"

lemma write_rejected: "vfs_ok st \<Longrightarrow> \<not> writable st fd \<Longrightarrow> x86_64_vfs_write st g fd w n = (X86_64_VFS_RET_EBADF, st, g)"
proof (cases "fd_open st fd")
  case True
  assume "vfs_ok st" "\<not> writable st fd"
  then show ?thesis using fd_slot_open [OF True] True by (auto simp: x86_64_vfs_write_def writable_def Let_def)
next
  case False
  then show ?thesis using fd_slot_closed [OF False] by (auto simp: x86_64_vfs_write_def Let_def)
qed

text \<open>The RAM file behind a write: zero or more bytes of the 256 are replaced at the position.\<close>

definition overwrite :: "nat \<Rightarrow> string \<Rightarrow> vfs_storage \<Rightarrow> vfs_storage" where
  "overwrite off w g = \<lparr>session_storage = take off (session_storage g) @ w @ drop (off + length w) (session_storage g),
     session_storage_size = max (session_storage_size g) (of_nat (off + length w))\<rparr>"

lemma write_eq:
  assumes ok: "vfs_ok st" "storage_ok g" and wr: "writable st fd" and len: "unat n \<le> length w"
  defines "k \<equiv> min (unat n) (256 - unat (fd_pos st fd))"
  shows "x86_64_vfs_write st g fd w n =
    (if k = 0 then (0, st, g)
     else (of_nat k, set_pos fd (fd_pos st fd + of_nat k) st, overwrite (unat (fd_pos st fd)) (take k w) g))"
proof -
  have fd: "fd_open st fd" "fd_flags st ! (unat fd - 3) AND 1 \<noteq> 0"
    "x86_64_vfs_is_session_storage_node (x86_64_vfs_nodes ! unat (fd_node st fd))"
    using wr by (auto simp: writable_def)
  note sl = fd_slot_open [OF fd(1)]
  have nc: "\<not> 23 \<le> fd_node st fd" using vfs_ok_node [OF ok(1) fd(1)] by (simp add: not_le word_less_nat_alt)
  have u: "fd_used st ! (unat fd - 3)" using fd(1) by (simp add: fd_open_def)
  define off where "off = fd_pos st fd"
  have z: "k = 0 \<longleftrightarrow> off \<ge> 256 \<or> n = 0" by (auto simp: k_def off_def word_le_nat_alt word_unat_eq_iff)
  show ?thesis
  proof (cases "k = 0")
    case True
    then show ?thesis using z sl u fd(2,3) nc by (auto simp: x86_64_vfs_write_def Let_def off_def)
  next
    case False
    then have o1: "\<not> off \<ge> 256" "n \<noteq> 0" "unat off < 256" using z by (auto simp: word_le_nat_alt)
    define b where "b = (if n < 256 - off then n else 256 - off)"
    have "unat (256 - off) = 256 - unat off" using o1 by (simp add: unat_sub_if' word_le_nat_alt)
    then have b: "unat b = k" by (auto simp: b_def k_def off_def word_less_nat_alt)
    then have b': "b = of_nat k" by (simp flip: b)
    have "k \<le> 256" by (simp add: k_def)
    then have ob: "unat (off + b) = unat off + k" using o1(3) b by (simp add: unat_plus_if')
    then have ob': "off + b = of_nat (unat off + k)" by (simp flip: ob)
    have kl: "k \<le> length w" "unat off + k \<le> 256" using len o1(3) by (auto simp: k_def off_def)
    have fw: "fold (\<lambda>i st. st[unat off + i := w ! i]) [0..<k] (session_storage g) =
        take (unat off) (session_storage g) @ take k w @ drop (unat off + k) (session_storage g)"
      using fold_write [of "unat off" k "session_storage g" w] ok(2) kl by (simp add: storage_ok_def)
    have l: "unat fd - 3 < length (fd_offset st)" using ok(1) fd(1) by (simp add: vfs_ok_def fd_open_def)
    have g: "(if session_storage_size g < off + b then g\<lparr>session_storage := x, session_storage_size := off + b\<rparr> else g\<lparr>session_storage := x\<rparr>)
        = \<lparr>session_storage = x, session_storage_size = max (session_storage_size g) (of_nat (unat off + k))\<rparr>" for x
      by (auto simp: ob' max_def)
    show ?thesis
      using False sl u fd(2,3) nc o1 l b kl g
      by (simp add: x86_64_vfs_write_def Let_def off_def [symmetric] b_def [symmetric] fw set_pos_def overwrite_def
          b' [symmetric] min_def cong: if_cong)
  qed
qed

lemma close_eq:
  "x86_64_vfs_close st fd = (if fd_open st fd then (X86_64_VFS_RET_OK, set_slot (unat fd - 3) False 0 X86_64_VFS_NO_NODE 0 st)
     else (X86_64_VFS_RET_EBADF, st))"
  using fd_slot_open [of st fd] fd_slot_closed [of st fd] by (auto simp: x86_64_vfs_close_def Let_def fd_open_def)

lemma node_named_less: "node_named r \<noteq> X86_64_VFS_NO_NODE \<Longrightarrow> unat (node_named r) < 23"
  by (auto simp: node_named_def find_Some_iff unat_of_nat take_bit_nat_eq_self split: option.splits)

lemma find_node_less: "x86_64_vfs_find_node p \<noteq> X86_64_VFS_NO_NODE \<Longrightarrow> unat (x86_64_vfs_find_node p) < 23"
  by (auto simp: x86_64_vfs_find_node_def find_Some_iff find_None_iff unat_of_nat take_bit_nat_eq_self split: option.splits)

text \<open>What an open does when it succeeds, and that it fails without touching the table.\<close>

definition first_free :: "x86_64_vfs_state \<Rightarrow> nat option" where
  "first_free st = find (\<lambda>slot. \<not> fd_used st ! slot) [0..<4]"

definition may_open :: "string option \<Rightarrow> u64 \<Rightarrow> bool" where
  "may_open path flags \<longleftrightarrow> path \<noteq> None \<and> x86_64_vfs_find_node path \<noteq> X86_64_VFS_NO_NODE \<and> flags AND NOT 7 = 0 \<and>
     (flags \<noteq> 0 \<longrightarrow> x86_64_vfs_is_session_storage_node (x86_64_vfs_nodes ! unat (x86_64_vfs_find_node path)))"

definition truncate :: "u64 \<Rightarrow> vfs_storage \<Rightarrow> vfs_storage" where
  "truncate flags g = (if flags AND 4 \<noteq> 0 then g\<lparr>session_storage_size := 0\<rparr> else g)"

lemma open_eq:
  "may_open path flags \<Longrightarrow> first_free st = Some slot \<Longrightarrow>
     x86_64_vfs_open st g path flags =
       (3 + of_nat slot, set_slot slot True flags (x86_64_vfs_find_node path) 0 st, truncate flags g)"
  "may_open path flags \<Longrightarrow> first_free st = None \<Longrightarrow>
     x86_64_vfs_open st g path flags = (X86_64_VFS_RET_EINVAL, st, truncate flags g)"
  "\<not> may_open path flags \<Longrightarrow> \<exists>e. x86_64_vfs_open st g path flags = (e, st, g) \<and> e \<in> {X86_64_VFS_RET_EINVAL, X86_64_VFS_RET_ENOENT}"
  by (auto simp: x86_64_vfs_open_def may_open_def Let_def first_free_def truncate_def)

lemma storage_ok_truncate: "storage_ok g \<Longrightarrow> storage_ok (truncate flags g)"
  by (simp add: truncate_def storage_ok_def)

lemma vfs_ok_set_slot:
  "vfs_ok st \<Longrightarrow> slot < 4 \<Longrightarrow> (used \<longrightarrow> unat n < 23) \<Longrightarrow> vfs_ok (set_slot slot used flags n off st)"
  by (auto simp: vfs_ok_def set_slot_def nth_list_update)

lemma first_free_less: "first_free st = Some slot \<Longrightarrow> slot < 4 \<and> \<not> fd_used st ! slot"
  by (auto simp: first_free_def find_Some_iff)

lemma storage_ok_overwrite:
  assumes "storage_ok g" "off + length w \<le> 256"
  shows "storage_ok (overwrite off w g)"
proof -
  have "of_nat (off + length w) \<le> (256 :: u64)" using assms(2) by (simp add: word_le_nat_alt unat_of_nat take_bit_nat_eq_self del: of_nat_add)
  then show ?thesis using assms by (simp add: storage_ok_def overwrite_def)
qed

text \<open>Any sequence of calls.\<close>

datatype vfs_call = Open "string option" u64 | Read u64 u64 | Write u64 string | Close u64

fun vfs_exec :: "(user_image \<Rightarrow> string) \<Rightarrow> vfs_call \<Rightarrow> x86_64_vfs_state \<times> vfs_storage \<Rightarrow> x86_64_vfs_state \<times> vfs_storage" where
  "vfs_exec img (Open path flags) (st, g) = snd (x86_64_vfs_open st g path flags)"
| "vfs_exec img (Read fd n) (st, g) = (snd (snd (x86_64_vfs_read img st g fd n)), g)"
| "vfs_exec img (Write fd w) (st, g) = snd (x86_64_vfs_write st g fd w (of_nat (length w)))"
| "vfs_exec img (Close fd) (st, g) = (snd (x86_64_vfs_close st fd), g)"

lemma read_rejected: "\<not> fd_open st fd \<Longrightarrow> x86_64_vfs_read img st g fd n = (X86_64_VFS_RET_EBADF, [], st)"
  using fd_slot_closed [of st fd] by (auto simp: x86_64_vfs_read_def Let_def)

lemma read_table:
  "fd_used (snd (snd (x86_64_vfs_read img st g fd n))) = fd_used st"
  "length (fd_node_index (snd (snd (x86_64_vfs_read img st g fd n)))) = length (fd_node_index st)"
  "length (fd_offset (snd (snd (x86_64_vfs_read img st g fd n)))) = length (fd_offset st)"
  by (simp_all add: x86_64_vfs_read_def Let_def)

lemma vfs_exec_ok:
  assumes "vfs_ok st" "storage_ok g" "images_fit img" "\<forall>fd w. call = Write fd w \<longrightarrow> length w < 2 ^ 64"
  shows "vfs_ok (fst (vfs_exec img call (st, g))) \<and> storage_ok (snd (vfs_exec img call (st, g)))"
proof (cases call)
  case (Open path flags)
  show ?thesis
  proof (cases "may_open path flags")
    case True
    then have "unat (x86_64_vfs_find_node path) < 23" using find_node_less by (simp add: may_open_def)
    then show ?thesis
      using Open True assms(1,2) open_eq(1,2) [OF True] first_free_less storage_ok_truncate
      by (cases "first_free st") (auto intro!: vfs_ok_set_slot)
  next
    case False
    then show ?thesis using Open assms(1,2) open_eq(3) [OF False, of st g] by auto
  qed
next
  case (Read fd n)
  then show ?thesis
    using assms(1,2) read_eq [OF assms(1-3), of fd n] read_rejected [of st fd img g n] vfs_ok_set_pos [OF assms(1)]
    by (cases "fd_open st fd") auto
next
  case (Write fd w)
  then have l: "unat (of_nat (length w) :: u64) \<le> length w" using assms(4) by (simp add: unat_of_nat take_bit_nat_eq_self)
  show ?thesis
  proof (cases "writable st fd")
    case True
    define k where "k = min (unat (of_nat (length w) :: u64)) (256 - unat (fd_pos st fd))"
    have "k \<noteq> 0 \<Longrightarrow> unat (fd_pos st fd) + length (take k w) \<le> 256" using l by (auto simp: k_def)
    then show ?thesis
      using write_eq [OF assms(1,2) True l, folded k_def] Write assms(1,2) vfs_ok_set_pos [OF assms(1)] storage_ok_overwrite [OF assms(2)]
      by simp
  next
    case False
    then show ?thesis using Write write_rejected [OF assms(1)] assms(1,2) by simp
  qed
next
  case (Close fd)
  then show ?thesis
    using assms(1,2) close_eq [of st fd] by (auto intro!: vfs_ok_set_slot simp: fd_open_def)
qed

lemma vfs_init_ok: "vfs_ok x86_64_vfs_init"
  by (simp add: vfs_ok_def x86_64_vfs_init_def nth_Cons split: nat.splits)

text \<open>Reading in pieces.\<close>

fun read_pieces :: "(user_image \<Rightarrow> string) \<Rightarrow> vfs_storage \<Rightarrow> u64 \<Rightarrow> u64 list \<Rightarrow> x86_64_vfs_state \<Rightarrow> string \<times> x86_64_vfs_state" where
  "read_pieces img g fd [] st = ([], st)"
| "read_pieces img g fd (n # ns) st =
     (case x86_64_vfs_read img st g fd n of (ret, bytes, st) \<Rightarrow>
        (case read_pieces img g fd ns st of (rest, st) \<Rightarrow> (bytes @ rest, st)))"

lemma read_pieces_eq:
  assumes "vfs_ok st" "storage_ok g" "images_fit img" "fd_open st fd" "unat (fd_pos st fd) \<le> length (contents img g (fd_node st fd))"
  shows "fst (read_pieces img g fd ns st) = take (sum_list (map unat ns)) (drop (unat (fd_pos st fd)) (contents img g (fd_node st fd)))"
  using assms
proof (induction ns arbitrary: st)
  case (Cons n ns)
  define c where "c = contents img g (fd_node st fd)"
  define off where "off = unat (fd_pos st fd)"
  have lc: "length c < 2 ^ 64"
    using node_contents(1) [OF vfs_ok_node [OF Cons.prems(1,4)] Cons.prems(2,3)]
      unat_u64_bound [of "x86_64_vfs_node_size img g (x86_64_vfs_nodes ! unat (fd_node st fd))"] by (simp add: c_def)
  note rd = read_eq [OF Cons.prems(1-4), of n, folded c_def off_def]
  have ol: "off \<le> length c" using Cons.prems(5) by (simp add: c_def off_def)
  show ?case
  proof (cases "unat n = 0 \<or> length c \<le> off")
    case True
    then show ?thesis using rd Cons.IH [OF Cons.prems] ol by (auto simp: c_def off_def split: prod.splits)
  next
    case False
    define m where "m = min (unat n) (length c - off)"
    define t where "t = set_pos fd (fd_pos st fd + of_nat m) st"
    have om: "off + m \<le> length c" using ol by (simp add: m_def)
    have "unat (of_nat m :: u64) = m" using lc om by (simp add: unat_of_nat take_bit_nat_eq_self)
    then have pos: "unat (fd_pos t fd) = off + m"
      using set_pos_sel(1) [OF Cons.prems(1,4)] lc om by (simp add: t_def unat_plus_if' off_def)
    have "vfs_ok t" "fd_open t fd" "contents img g (fd_node t fd) = c"
      using vfs_ok_set_pos [OF Cons.prems(1)] Cons.prems(4) set_pos_sel(2,3) by (auto simp: t_def c_def)
    with Cons.IH [of t] Cons.prems(2,3) pos om have IH: "fst (read_pieces img g fd ns t) = take (sum_list (map unat ns)) (drop (off + m) c)"
      by simp
    have "x86_64_vfs_read img st g fd n = (of_nat m, take (unat n) (drop off c), t)" using rd False by (simp add: m_def t_def)
    then have "fst (read_pieces img g fd (n # ns) st) = take (unat n) (drop off c) @ take (sum_list (map unat ns)) (drop (off + m) c)"
      using IH by (auto split: prod.splits)
    also have "\<dots> = take (unat n + sum_list (map unat ns)) (drop off c)"
    proof (cases "unat n \<le> length c - off")
      case True
      then show ?thesis by (simp add: m_def take_add add.commute)
    qed (use om in \<open>simp add: m_def\<close>)
    finally show ?thesis by (simp add: c_def off_def)
  qed
qed simp

section \<open>Correctness\<close>

text \<open>
  C6: the path buffer is never written outside its 64 bytes. A path is accepted exactly when it is
  absolute and shorter than 64 characters; the buffer then holds, with its terminator, the path
  spelled from its components, taken one by one.
\<close>

theorem normalize_path_safe:
  assumes "NUL \<notin> set p" and "length b = 64"
  shows "x86_64_vfs_normalize_path (Some p) b \<noteq> None \<and>
    (x86_64_vfs_normalize_path (Some p) b \<noteq> Some None \<longleftrightarrow> absolute p \<and> length p < 64) \<and>
    (\<forall>b'. x86_64_vfs_normalize_path (Some p) b = Some (Some b') \<longrightarrow>
       length b' = 64 \<and> cstr b' = render (fold step (tokens p) []))"
proof (cases "absolute p \<and> length p < 64")
  case True
  from normalize_path_ok [OF assms] True obtain b' where b': "x86_64_vfs_normalize_path (Some p) b = Some (Some b')" "length b' = 64"
    "take (Suc (length (render (canonical p)))) b' = render (canonical p) @ [NUL]" "stack_ok (canonical p)" by auto
  have "b' = (render (canonical p) @ [NUL]) @ drop (Suc (length (render (canonical p)))) b'"
    unfolding b'(3) [symmetric] by simp
  then have "cstr b' = takeWhile (\<lambda>c. c \<noteq> NUL) (render (canonical p) @ NUL # drop (Suc (length (render (canonical p)))) b')"
    unfolding cstr_def by (metis append.assoc append_Cons append_Nil)
  also have "\<dots> = render (canonical p)" using NUL_render [OF b'(4)] by (subst takeWhile_append2) auto
  finally show ?thesis using b' True by (simp add: canonical_def)
next
  case False
  then show ?thesis using normalize_path_ok [OF assms] by simp
qed

theorem normalize_path_safe_witness:
  "x86_64_vfs_normalize_path (Some ''/etc/./motd'') (replicate 64 NUL) \<notin> {None, Some None} \<and>
   render (fold step (tokens ''/etc/./motd'') []) = ''/etc/motd''"
proof
  have "absolute ''/etc/./motd''" by (simp add: absolute_def)
  then show "x86_64_vfs_normalize_path (Some ''/etc/./motd'') (replicate 64 NUL) \<notin> {None, Some None}"
    using normalize_path_safe [of "''/etc/./motd''" "replicate 64 NUL"] by simp
  show "render (fold step (tokens ''/etc/./motd'') []) = ''/etc/motd''" by code_simp
qed

text \<open>
  For an absolute path of less than 64 characters that meets no \<open>..\<close> below depth one, the
  lookup finds exactly the node whose name is the path with empty and \<open>.\<close> components dropped and
  each \<open>..\<close> removing the component before it, and no node if there is none of that name.
\<close>

theorem find_node_correct:
  assumes "absolute p" and "length p < 64" and "shallow (tokens p) []"
  shows "x86_64_vfs_find_node (Some p) = node_named (render (fold plain_step (tokens p) [])) \<and>
    (\<forall>i < 23. node_path (x86_64_vfs_nodes ! i) = render (fold plain_step (tokens p) []) \<longrightarrow>
       x86_64_vfs_find_node (Some p) = of_nat i)"
proof -
  have e: "x86_64_vfs_find_node (Some p) = node_named (render (fold plain_step (tokens p) []))"
    using find_node_eq [of p] shallow_step [OF assms(3)] assms(1,2) by (simp add: absolute_def canonical_def)
  moreover have "node_named (node_path (x86_64_vfs_nodes ! i)) = of_nat i" if "i < 23" for i
    using node_named_self [OF that] .
  ultimately show ?thesis by metis
qed

theorem find_node_correct_witness:
  "x86_64_vfs_find_node (Some ''///usr/../bin/./hello'') = 10"
proof -
  have "absolute ''///usr/../bin/./hello''" by (simp add: absolute_def)
  moreover have "shallow (tokens ''///usr/../bin/./hello'') []" by code_simp
  moreover have "node_path (x86_64_vfs_nodes ! 10) = render (fold plain_step (tokens ''///usr/../bin/./hello'') [])" by code_simp
  ultimately show ?thesis using conjunct2 [OF find_node_correct [of "''///usr/../bin/./hello''"], rule_format, of 10]
    by simp
qed



text \<open>
  Reading a descriptor in pieces of any sizes yields the contents of its file from its
  position on, piece after piece, and stops at the end of the file.
\<close>

theorem read_pieces_correct:
  assumes "vfs_ok st" and "storage_ok g" and "images_fit img" and "fd_open st fd"
    and "unat (fd_offset st ! (unat fd - 3)) \<le> length (contents img g (fd_node_index st ! (unat fd - 3)))"
  shows "fst (read_pieces img g fd ns st) = take (sum_list (map unat ns))
    (drop (unat (fd_offset st ! (unat fd - 3))) (contents img g (fd_node_index st ! (unat fd - 3))))"
  using read_pieces_eq [OF assms] .

text \<open>An empty RAM file, for the examples.\<close>

definition empty_storage :: vfs_storage where
  "empty_storage = \<lparr>session_storage = replicate 256 NUL, session_storage_size = 0\<rparr>"

lemma empty_storage_ok: "storage_ok empty_storage" "images_fit (\<lambda>_. [])"
  by (simp_all add: storage_ok_def empty_storage_def images_fit_def)

theorem read_pieces_correct_witness:
  "fst (read_pieces (\<lambda>_. []) empty_storage 3 [5, 4, 100] (set_slot 0 True 0 19 0 x86_64_vfs_init)) = x86_64_vfs_file_version"
proof -
  have "vfs_ok (set_slot 0 True 0 19 0 x86_64_vfs_init)" using vfs_init_ok by (intro vfs_ok_set_slot) auto
  moreover have "fd_open (set_slot 0 True 0 19 0 x86_64_vfs_init) 3" by (simp add: fd_open_def set_slot_def x86_64_vfs_init_def)
  ultimately show ?thesis
    using read_pieces_correct [of "set_slot 0 True 0 19 0 x86_64_vfs_init" empty_storage "\<lambda>_. []" 3 "[5, 4, 100]"]
      empty_storage_ok by (simp add: set_slot_def x86_64_vfs_init_def contents_def x86_64_vfs_nodes_def text_node_def)
qed

lemma session_node: "x86_64_vfs_find_node (Some ''/tmp/session.txt'') = 20"
  "x86_64_vfs_is_session_storage_node (x86_64_vfs_nodes ! 20)" "node_pointer (x86_64_vfs_nodes ! 20) = Null"
proof -
  show "x86_64_vfs_find_node (Some ''/tmp/session.txt'') = 20" by code_simp
  show "x86_64_vfs_is_session_storage_node (x86_64_vfs_nodes ! 20)" "node_pointer (x86_64_vfs_nodes ! 20) = Null"
    by (simp_all add: x86_64_vfs_is_session_storage_node_def x86_64_vfs_nodes_def)
qed

lemma session_may_open: "may_open (Some ''/tmp/session.txt'') 7" "may_open (Some ''/tmp/session.txt'') 0"
  using session_node(2) by (simp_all add: may_open_def session_node(1))

lemma first_free_init: "first_free x86_64_vfs_init = Some 0"
  by (simp add: first_free_def x86_64_vfs_init_def upt_rec)

lemma session_contents:
  assumes "storage_ok g" "length w \<le> 256"
  shows "contents img (overwrite 0 w (truncate 7 g)) 20 = w"
proof -
  have "unat (of_nat (length w) :: u64) = length w" using assms(2) by (simp add: unat_of_nat take_bit_nat_eq_self)
  then show ?thesis by (simp add: contents_def session_node(3) overwrite_def truncate_def max_def word_le_nat_alt)
qed

lemma session_roundtrip:
  assumes "storage_ok g" "images_fit img" "length w \<le> 256" "length w \<le> unat n"
  shows "\<exists>st1 g1 st2 g2 st3 st4 st5.
    x86_64_vfs_open x86_64_vfs_init g (Some ''/tmp/session.txt'') 7 = (3, st1, g1) \<and>
    x86_64_vfs_write st1 g1 3 (w @ z) (of_nat (length w)) = (of_nat (length w), st2, g2) \<and>
    x86_64_vfs_close st2 3 = (0, st3) \<and>
    x86_64_vfs_open st3 g2 (Some ''/tmp/session.txt'') 0 = (3, st4, g2) \<and>
    x86_64_vfs_read img st4 g2 3 n = (of_nat (length w), w, st5) \<and> storage_ok g2 \<and> fd_open st5 3"
proof -
  define st1 where "st1 = set_slot 0 True 7 20 0 x86_64_vfs_init"
  define g1 where "g1 = truncate 7 g"
  have o1: "x86_64_vfs_open x86_64_vfs_init g (Some ''/tmp/session.txt'') 7 = (3, st1, g1)"
    using open_eq(1) [OF session_may_open(1) first_free_init] by (simp add: st1_def g1_def session_node(1))
  have ok1: "vfs_ok st1" "storage_ok g1" using vfs_init_ok assms(1) storage_ok_truncate by (auto simp: st1_def g1_def intro: vfs_ok_set_slot)
  have w1: "writable st1 3" "unat (fd_pos st1 3) = 0" "fd_node st1 3 = 20" "fd_open st1 3"
    using session_node(2) by (simp_all add: writable_def fd_open_def st1_def set_slot_def x86_64_vfs_init_def)
  have u: "unat (of_nat (length w) :: u64) = length w" using assms(3) by (simp add: unat_of_nat take_bit_nat_eq_self)
  define st2 where "st2 = (if length w = 0 then st1 else set_pos 3 (fd_pos st1 3 + of_nat (length w)) st1)"
  define g2 where "g2 = (if length w = 0 then g1 else overwrite 0 w g1)"
  have o2: "x86_64_vfs_write st1 g1 3 (w @ z) (of_nat (length w)) = (of_nat (length w), st2, g2)"
    using write_eq [OF ok1 w1(1), of "of_nat (length w)" "w @ z"] u w1(2) assms(3) by (simp add: st2_def g2_def min_def)
  have ok2: "vfs_ok st2" "storage_ok g2" "fd_open st2 3"
    using ok1 w1(4) vfs_ok_set_pos storage_ok_overwrite [OF ok1(2), of 0 w] assms(3) by (auto simp: st2_def g2_def set_pos_sel)
  define st3 where "st3 = set_slot 0 False 0 X86_64_VFS_NO_NODE 0 st2"
  have o3: "x86_64_vfs_close st2 3 = (0, st3)" using close_eq [of st2 3] ok2(3) by (simp add: st3_def)
  have ok3: "vfs_ok st3" using ok2(1) by (simp add: st3_def vfs_ok_set_slot)
  have "first_free st3 = Some 0" using ok2(1) by (simp add: first_free_def st3_def set_slot_def vfs_ok_def upt_rec)
  note o4 = open_eq(1) [OF session_may_open(2) this, of g2]
  define st4 where "st4 = set_slot 0 True 0 20 0 st3"
  have g4: "truncate 0 g2 = g2" by (simp add: truncate_def)
  have ok4: "vfs_ok st4" "fd_open st4 3" "fd_node st4 3 = 20" "fd_pos st4 3 = 0"
    using ok3 by (auto simp: st4_def vfs_ok_set_slot fd_open_def) (auto simp: set_slot_def vfs_ok_def)
  have c: "contents img g2 20 = w"
    using session_contents [OF assms(1,3), of img] by (auto simp: g2_def g1_def truncate_def contents_def session_node(3))
  have "x86_64_vfs_read img st4 g2 3 n = (of_nat (length w), w, if unat n = 0 \<or> length w = 0 then st4 else set_pos 3 (of_nat (length w)) st4)"
    using read_eq [OF ok4(1) ok2(2) assms(2) ok4(2), of n] ok4(3,4) c assms(4) by (simp add: min_def)
  moreover have "fd_open (if unat n = 0 \<or> length w = 0 then st4 else set_pos 3 (of_nat (length w)) st4) 3"
    using ok4(2) by (simp add: set_pos_sel(2))
  ultimately show ?thesis using o1 o2 o3 o4 g4 ok2(2) by (simp add: st4_def session_node(1))
qed

text \<open>
  What is written to the RAM file can be read back: opening it with write and truncate,
  writing at most 256 bytes, closing, opening it again and reading gives these bytes, whatever the
  file held before.
\<close>

theorem write_then_read:
  assumes "storage_ok g" and "images_fit img" and "length w \<le> 256" and "length w \<le> unat n"
  shows "\<exists>st1 g1 st2 g2 st3 st4 g4 st5.
    x86_64_vfs_open x86_64_vfs_init g (Some ''/tmp/session.txt'') 7 = (3, st1, g1) \<and>
    x86_64_vfs_write st1 g1 3 w (of_nat (length w)) = (of_nat (length w), st2, g2) \<and>
    x86_64_vfs_close st2 3 = (0, st3) \<and>
    x86_64_vfs_open st3 g2 (Some ''/tmp/session.txt'') 0 = (3, st4, g4) \<and>
    x86_64_vfs_read img st4 g4 3 n = (of_nat (length w), w, st5)"
  using session_roundtrip [OF assms, of "[]"] by fastforce

theorem write_then_read_witness:
  "\<exists>st1 g1. x86_64_vfs_open x86_64_vfs_init empty_storage (Some ''/tmp/session.txt'') 7 = (3, st1, g1) \<and>
     fst (x86_64_vfs_write st1 g1 3 ''ram'' 3) = 3"
  using write_then_read [OF empty_storage_ok, of "''ram''" 10] by auto

text \<open>
  C5: every sequence of opens, reads, writes and closes keeps the descriptor table and the RAM file
  well formed: an open slot names a node, and the RAM file stays within its 256 bytes.
\<close>

theorem vfs_any_trace:
  assumes "storage_ok g" and "images_fit img" and "\<forall>fd w. Write fd w \<in> set calls \<longrightarrow> length w < 2 ^ 64"
  shows "vfs_ok (fst (fold (vfs_exec img) calls (x86_64_vfs_init, g))) \<and>
    storage_ok (snd (fold (vfs_exec img) calls (x86_64_vfs_init, g)))"
proof -
  have "vfs_ok (fst (fold (vfs_exec img) calls (st, g))) \<and> storage_ok (snd (fold (vfs_exec img) calls (st, g)))"
    if "vfs_ok st" "storage_ok g" for st g
    using that assms(3)
  proof (induction calls arbitrary: st g)
    case (Cons c calls)
    obtain st' g' where e: "vfs_exec img c (st, g) = (st', g')" by fastforce
    have "vfs_ok st' \<and> storage_ok g'" using vfs_exec_ok [OF Cons.prems(1,2) assms(2), of c] Cons.prems(3) e by simp
    with Cons.IH Cons.prems(3) e show ?case by simp
  qed simp
  then show ?thesis using vfs_init_ok assms(1) by blast
qed

theorem vfs_any_trace_witness:
  "vfs_ok (fst (fold (vfs_exec (\<lambda>_. [])) [Open (Some ''/tmp/session.txt'') 1, Write 3 ''hi'', Close 3] (x86_64_vfs_init, empty_storage)))"
  using vfs_any_trace [OF empty_storage_ok, of "[Open (Some ''/tmp/session.txt'') 1, Write 3 ''hi'', Close 3]"] by simp

text \<open>
  The self check of the RAM file succeeds on every well-formed storage, and puts the contents and
  the size of the file back as they were.
\<close>

theorem session_storage_ready_correct:
  assumes "storage_ok g" and "images_fit img"
  shows "x86_64_vfs_session_storage_ready img g = (True, g)"
proof -
  from session_roundtrip [OF assms, of "''ram''" 3 "[NUL]"] obtain st1 g1 st2 g2 st3 st4 st5 where
    c: "x86_64_vfs_open x86_64_vfs_init g (Some ''/tmp/session.txt'') 7 = (3, st1, g1)"
      "x86_64_vfs_write st1 g1 3 (''ram'' @ [NUL]) 3 = (3, st2, g2)" "x86_64_vfs_close st2 3 = (0, st3)"
      "x86_64_vfs_open st3 g2 (Some ''/tmp/session.txt'') 0 = (3, st4, g2)"
      "x86_64_vfs_read img st4 g2 3 3 = (3, ''ram'', st5)" "storage_ok g2" "fd_open st5 3" by auto
  define saved where "saved = map (\<lambda>i. session_storage g ! i) [0..<256]"
  have l: "length (session_storage g) = 256" "length (session_storage g2) = 256"
    using assms(1) c(6) by (simp_all add: storage_ok_def)
  then have sv: "saved = session_storage g" using map_nth [of "session_storage g"] by (simp add: saved_def)
  have "fold (\<lambda>i st. st[i := saved ! i]) [0..<256] (session_storage g2) = session_storage g"
    using fold_write [of 0 256 "session_storage g2" saved] l by (simp add: sv)
  then have "g2\<lparr>session_storage := fold (\<lambda>i st. st[i := saved ! i]) [0..<256] (session_storage g2),
      session_storage_size := session_storage_size g\<rparr> = g" by simp
  moreover obtain st6 where "x86_64_vfs_close st5 3 = (0, st6)" using close_eq [of st5 3] c(7) by simp
  ultimately show ?thesis
    using c(1-5) by (simp add: x86_64_vfs_session_storage_ready_def Let_def saved_def [symmetric])
qed

theorem session_storage_ready_correct_witness:
  "x86_64_vfs_session_storage_ready (\<lambda>_. []) empty_storage = (True, empty_storage)"
  using session_storage_ready_correct [OF empty_storage_ok] .

text \<open>
  C34: the readiness check of the file tree can not succeed: it expects the listing of \<^verbatim>\<open>/bin\<close> to
  start with \<^verbatim>\<open>hello\<close>, and the listing starts with \<^verbatim>\<open>datatest\<close>.
\<close>

theorem vfs_ready_never: "\<not> x86_64_vfs_ready img state g"
proof -
  have f: "x86_64_vfs_find_node (Some ''/'') = 0" "x86_64_vfs_find_node (Some ''///usr/../bin/./'') = 1" by code_simp+
  define st1 where "st1 = set_slot 0 True 0 0 0 x86_64_vfs_init"
  have m: "may_open (Some ''/'') 0" "may_open (Some ''///usr/../bin/./'') 0" by (simp_all add: may_open_def f)
  have o1: "x86_64_vfs_open x86_64_vfs_init g (Some ''/'') 0 = (3, st1, g)"
    using open_eq(1) [OF m(1) first_free_init] by (simp add: st1_def truncate_def f)
  obtain n b st2 where r: "x86_64_vfs_read img st1 g 3 4 = (n, b, st2)" by (metis prod_cases3)
  have st2: "fd_used st2 = [True, False, False, False]" "length (fd_node_index st2) = 4" "length (fd_offset st2) = 4"
    using read_table [of img st1 g 3 4] r by (simp_all add: st1_def set_slot_def x86_64_vfs_init_def eval_nat_numeral)
  define st3 where "st3 = set_slot 0 False 0 X86_64_VFS_NO_NODE 0 st2"
  have c: "x86_64_vfs_close st2 3 = (0, st3)" using close_eq [of st2 3] st2(1) by (simp add: fd_open_def st3_def)
  have "first_free st3 = Some 0" by (simp add: first_free_def st3_def set_slot_def st2(1) upt_rec)
  from open_eq(1) [OF m(2) this] have o2: "x86_64_vfs_open st3 g (Some ''///usr/../bin/./'') 0 = (3, set_slot 0 True 0 1 0 st3, g)"
    by (simp add: truncate_def f)
  have le: "\<not> (23 :: u32) \<le> 1" by (simp add: word_le_nat_alt)
  have nd: "x86_64_vfs_nodes ! Suc 0 = text_node ''/bin'' x86_64_vfs_dir_bin 2" by (simp add: x86_64_vfs_nodes_def)
  have "x86_64_vfs_read img (set_slot 0 True 0 1 0 st3) g 3 6 = (6, ''datate'', set_pos 3 6 (set_slot 0 True 0 1 0 st3))"
    using st2 by (simp add: x86_64_vfs_read_def Let_def x86_64_vfs_fd_slot_def set_slot_def st3_def nd le text_node_def set_pos_def
        x86_64_vfs_node_size_def x86_64_vfs_node_data_def x86_64_vfs_is_session_storage_node_def x86_64_vfs_dir_bin_def)
  then show ?thesis using o1 r c o2 by (simp add: x86_64_vfs_ready_def Let_def)
qed

text \<open>
  C36: an open with the truncate flag empties the RAM file although it fails because the table is
  full, and although it does not ask for write access.
\<close>

theorem open_truncates_without_descriptor:
  assumes "\<forall>i < 4. fd_used st ! i" and "flags \<in> {4, 5, 6, 7}"
  shows "x86_64_vfs_open st g (Some ''/tmp/session.txt'') flags = (X86_64_VFS_RET_EINVAL, st, g\<lparr>session_storage_size := 0\<rparr>)"
proof -
  have "first_free st = None" using assms(1) by (simp add: first_free_def find_None_iff)
  moreover have "may_open (Some ''/tmp/session.txt'') flags" using assms(2) session_node(2) by (auto simp: may_open_def session_node(1))
  moreover have "truncate flags g = g\<lparr>session_storage_size := 0\<rparr>" using assms(2) by (auto simp: truncate_def)
  ultimately show ?thesis using open_eq(2) by simp
qed

theorem open_truncates_without_descriptor_witness:
  "session_storage_size (snd (snd (x86_64_vfs_open (x86_64_vfs_init\<lparr>fd_used := replicate 4 True\<rparr>)
     (empty_storage\<lparr>session_storage_size := 9\<rparr>) (Some ''/tmp/session.txt'') 4))) = 0"
proof -
  have "\<forall>i < 4. fd_used (x86_64_vfs_init\<lparr>fd_used := replicate 4 True\<rparr>) ! i" by simp
  from open_truncates_without_descriptor [OF this, of 4] show ?thesis by simp
qed

end
