(* ===== verification/Spec2Isabelle.thy ===== *)
theory Spec2Isabelle
  imports Kernel_Status Kernel_String Vga Gdt Vfs User_Run Pmm Vmm Kernel_Heap Scheduler_Properties X64_Boot X64_Pmm X64_Vfs
begin

text \<open>
  A verification library for the Liam_OS kernel, a small operating system for i386 and x86_64 written in C.

  \<^bold>\<open>Program.\<close> The i386 kernel boots over multiboot, takes its physical pages from the page allocator
  (\<^verbatim>\<open>memory/pmm.c\<close>), maps them with two-level page tables (\<^verbatim>\<open>memory/vmm.c\<close>, \<^verbatim>\<open>arch/i386/paging.c\<close>), runs a kernel
  heap over the mapped range (\<^verbatim>\<open>memory/heap.c\<close>) and a table of kernel tasks whose stacks come from that heap
  (\<^verbatim>\<open>core/scheduler.c\<close>). It mounts a fixed tree of files (\<^verbatim>\<open>fs/vfs.c\<close>, \<^verbatim>\<open>fs/initramfs.c\<close>) and loads user programs from it
  into two pages that user mode may access (\<^verbatim>\<open>arch/i386/ring3.c\<close>, \<^verbatim>\<open>loader\<close>, \<^verbatim>\<open>core/user_image.c\<close>). The x86_64 kernel parses the multiboot2 information (\<^verbatim>\<open>arch/x86_64/boot_info.c\<close>), builds a
  page stack from it (\<^verbatim>\<open>arch/x86_64/pmm.c\<close>) and serves a fixed tree of files (\<^verbatim>\<open>arch/x86_64/vfs.c\<close>). All paths are
  below \<^verbatim>\<open>src/core/kernel\<close>.

  \<^bold>\<open>Theories.\<close>
  \<^item> \<open>Kernel_Prelude\<close>: word types, bounds and wrap-around lemmas, pages and intervals.
  \<^item> \<open>Kernel_Status\<close>, \<open>Kernel_String\<close>: \<^verbatim>\<open>core/status.c\<close> and \<^verbatim>\<open>core/string.c\<close>, one definition per function. Lemmas:
    bounded copies and number parsing.
  \<^item> \<open>Vga\<close>: \<^verbatim>\<open>drivers/vga.c\<close> over a text buffer of cells; it refines a console of 25 rows.
  \<^item> \<open>Gdt\<close>: \<^verbatim>\<open>arch/i386/gdt.c\<close> and \<^verbatim>\<open>arch/i386/tss.c\<close>, with the decoding of descriptors.
  \<^item> \<open>Vfs\<close>: \<^verbatim>\<open>fs/vfs.c\<close> and the nodes of \<^verbatim>\<open>fs/initramfs.c\<close>; the lookup refines following the components of a path.
  \<^item> \<open>Ring3\<close>: \<^verbatim>\<open>arch/i386/ring3.c\<close> over the page tables of \<open>Vmm\<close>, with bytes of physical memory and access through the
    tables; the invariant \<open>ring3_ok\<close> says what user mode can reach.
  \<^item> \<open>Loaders\<close>: \<^verbatim>\<open>loader/flat_binary.c\<close>, \<^verbatim>\<open>loader/elf32.c\<close> and \<^verbatim>\<open>core/user_image.c\<close>.
  \<^item> \<open>Page_Allocator\<close>: the contract of a page allocator as a locale, with the lemmas its clients need;
    interpreted in \<open>Pmm\<close> and in \<open>X64_Pmm\<close>.
  \<^item> \<open>Pmm\<close>: \<^verbatim>\<open>memory/pmm.c\<close>. State \<open>pmm_state\<close>; the invariant \<open>pmm_inv\<close> and the set \<open>pmm_allocated\<close> of pages that are out.
  \<^item> \<open>Vmm\<close>: \<^verbatim>\<open>memory/vmm.c\<close> and \<^verbatim>\<open>arch/i386/paging.c\<close>. State \<open>vmm_state\<close> with the page tables in a memory of words; the
    abstract view is \<open>translation\<close>, the page-table entry an address resolves to.
  \<^item> \<open>Heap_Allocator\<close>: the contract of a heap as a locale over the set of blocks that are out;
    interpreted in \<open>Kernel_Heap\<close>, used by the scheduler.
  \<^item> \<open>Kernel_Heap\<close>: \<^verbatim>\<open>memory/heap.c\<close>. The block headers are a store from addresses to headers; \<open>heap_ok\<close> says that the
    blocks tile the mapped range, \<open>allocations\<close> is the abstract heap.
  \<^item> \<open>Scheduler\<close>: \<^verbatim>\<open>core/scheduler.c\<close> with the timer interrupt of \<^verbatim>\<open>drivers/timer.c\<close>, the interrupt flag of
    \<^verbatim>\<open>arch/i386/irq.asm\<close> and the context switch of \<^verbatim>\<open>arch/i386/context_switch.asm\<close>. \<open>Scheduler_Proofs\<close> has the frames, the ready
    queue, the ownership of stacks and the invariant \<open>sched_inv\<close> with the step relation \<open>sched_step\<close>;
    \<open>Scheduler_Properties\<close> the properties.
  \<^item> \<open>X64_Boot\<close>, \<open>X64_Pmm\<close>: the multiboot2 parser over the bytes of the boot information, and the page stack.
  \<^item> \<open>X64_Vfs\<close>: \<^verbatim>\<open>arch/x86_64/vfs.c\<close>, with a reference definition of canonical paths.

  \<^bold>\<open>Conventions.\<close> A C structure is a record, a machine integer a word of its width, a C string the list of its
  bytes. A function that can fail to return (a loop that follows memory, a failed assertion) has an option
  as its result, and \<open>None\<close> means that it does not return; such loops are \<open>partial_function (option)\<close>, so that
  no fuel is needed, and that they return is part of the properties. Loops with a fixed bound recurse over it.

  \<^bold>\<open>Properties.\<close> The numbered properties are stated in the component theories, at the end of each. They show
  that no sequence of allocations and frees hands a page or a heap block out twice or gets stuck, that mapping
  changes exactly one page, that every reachable scheduler state has distinct stacks and right counters, that
  the round robin starves no ready task, that paths are normalised within their buffer and agree with a
  reference, and what the code does in its error cases.

  \<^bold>\<open>Not modelled.\<close> The serial console and the framebuffer; ports and interrupt tables; the assembly entry code
  and the user programs. The process managers, the system calls and the x86_64 paging code are not covered yet.
\<close>

end
